(* ===== verification/NP_Prelude.thy ===== *)
theory NP_Prelude
  imports Main "HOL-Library.Word" "HOL-Library.AList" "HOL-Library.Multiset"
begin

text \<open>
  Shared vocabulary of the development: the type names of the model, the collections of
  simplification rules, hash maps and the laws their clients rely on, bytes and byte order,
  and decimal numbers as the daemon prints and parses them (rule keys, addresses, JSON).
\<close>

unbundle bit_operations_syntax

named_theorems hmap_simps \<open>laws of the hash-map operations\<close>
named_theorems dec_simps \<open>printing and parsing of decimal numbers\<close>

section \<open>Types\<close>

type_synonym u8 = "8 word"
type_synonym u16 = "16 word"
type_synonym u32 = "32 word"
type_synonym u64 = "64 word"
type_synonym i32 = int
type_synonym bytes = "u8 list"
type_synonym instant = int

section \<open>Hash maps\<close>

text \<open>
  \<^verbatim>\<open>HashMap\<close>, \<^verbatim>\<open>std::unordered_map\<close> and \<^verbatim>\<open>std::map\<close> are association lists with distinct
  keys, so that sizes and iteration are computable. The order of the list stands for the
  iteration order, about which the C++ and Rust libraries promise nothing.
\<close>

type_synonym ('k, 'v) hmap = "('k \<times> 'v) list"

abbreviation hm_get :: "('k, 'v) hmap \<Rightarrow> 'k \<Rightarrow> 'v option" where
  "hm_get \<equiv> map_of"

abbreviation hm_put :: "'k \<Rightarrow> 'v \<Rightarrow> ('k, 'v) hmap \<Rightarrow> ('k, 'v) hmap" where
  "hm_put \<equiv> AList.update"

abbreviation hm_del :: "'k \<Rightarrow> ('k, 'v) hmap \<Rightarrow> ('k, 'v) hmap" where
  "hm_del \<equiv> AList.delete"

definition hm_wf :: "('k, 'v) hmap \<Rightarrow> bool" where
  "hm_wf m \<longleftrightarrow> distinct (map fst m)"

definition hm_has :: "('k, 'v) hmap \<Rightarrow> 'k \<Rightarrow> bool" where
  "hm_has m k \<longleftrightarrow> hm_get m k \<noteq> None"

text \<open>The interface every table of the daemon is used through.\<close>

locale keyed_table =
  fixes get :: "'m \<Rightarrow> 'k \<Rightarrow> 'v option"
    and put :: "'k \<Rightarrow> 'v \<Rightarrow> 'm \<Rightarrow> 'm"
    and del :: "'k \<Rightarrow> 'm \<Rightarrow> 'm"
    and wf :: "'m \<Rightarrow> bool"
  assumes get_put: "get (put k v m) k' = (if k' = k then Some v else get m k')"
    and get_del: "get (del k m) k' = (if k' = k then None else get m k')"
    and wf_put: "wf m \<Longrightarrow> wf (put k v m)"
    and wf_del: "wf m \<Longrightarrow> wf (del k m)"
begin

lemma del_pair:
  "get (del a (del b m)) k = (if k = a \<or> k = b then None else get m k)"
  by (simp add: get_del)

lemma put_frame: "k' \<noteq> k \<Longrightarrow> get (put k v m) k' = get m k'"
  by (simp add: get_put)

lemma get_fold_del: "get (fold del ks m) k = (if k \<in> set ks then None else get m k)"
  by (induction ks arbitrary: m) (auto simp: get_del)

lemma wf_fold_del: "wf m \<Longrightarrow> wf (fold del ks m)"
  by (induction ks arbitrary: m) (auto intro: wf_del)

lemma wf_fold_put: "wf m \<Longrightarrow> wf (fold (\<lambda>(k, v). put k v) kvs m)"
  by (induction kvs arbitrary: m) (auto intro: wf_put)

end

interpretation hm: keyed_table "map_of :: ('k, 'v) hmap \<Rightarrow> 'k \<Rightarrow> 'v option"
  AList.update AList.delete hm_wf
  by unfold_locales
    (auto simp: update_conv delete_conv hm_wf_def distinct_update distinct_delete)

lemmas hm_rules [hmap_simps] =
  hm.get_put hm.get_del hm.get_fold_del hm.wf_put hm.wf_del hm.wf_fold_del

lemma hm_wf_Nil [simp]: "hm_wf []"
  by (simp add: hm_wf_def)

lemma hm_get_in: "hm_get m k = Some v \<Longrightarrow> (k, v) \<in> set m"
  by (rule map_of_SomeD)

lemma hm_in_get: "hm_wf m \<Longrightarrow> (k, v) \<in> set m \<Longrightarrow> hm_get m k = Some v"
  by (simp add: hm_wf_def)

lemma hm_get_iff: "hm_wf m \<Longrightarrow> hm_get m k = Some v \<longleftrightarrow> (k, v) \<in> set m"
  by (auto dest: hm_get_in intro: hm_in_get)

lemma hm_wf_filter [intro]: "hm_wf m \<Longrightarrow> hm_wf (filter P m)"
  by (auto simp: hm_wf_def intro: distinct_map_filter)

lemma hm_get_filter:
  assumes "hm_wf m"
  shows "hm_get (filter P m) k =
    (case hm_get m k of None \<Rightarrow> None | Some v \<Rightarrow> if P (k, v) then Some v else None)"
  using assms
proof (induction m)
  case (Cons p m)
  then have "fst p \<notin> fst ` set m" and "hm_wf m"
    by (auto simp: hm_wf_def)
  then have "hm_get m (fst p) = None" and "hm_get (filter P m) (fst p) = None"
    by (auto simp: map_of_eq_None_iff)
  with Cons.IH [OF \<open>hm_wf m\<close>] show ?case
    by (cases p) auto
qed simp

lemma hm_wf_map_val [intro]: "hm_wf m \<Longrightarrow> hm_wf (map (\<lambda>(k, v). (k, f k v)) m)"
  by (simp add: hm_wf_def case_prod_unfold comp_def)

lemma hm_get_map_val: "hm_get (map (\<lambda>(k, v). (k, f k v)) m) k = map_option (f k) (hm_get m k)"
  by (induction m) auto

lemma hm_size_put:
  "length (hm_put k v m) = (if hm_has m k then length m else Suc (length m))"
  by (induction m) (auto simp: hm_has_def)

text \<open>
  The iteration order of a hash map is a parameter of the definitions whose result depends on
  it. What the libraries document is that an iteration visits every entry exactly once.
\<close>

definition visits_all :: "('a list \<Rightarrow> 'a list) \<Rightarrow> bool" where
  "visits_all it \<longleftrightarrow> (\<forall>xs. mset (it xs) = mset xs)"

lemma visits_all_set: "visits_all it \<Longrightarrow> set (it xs) = set xs"
  by (metis set_mset_mset visits_all_def)

lemma visits_all_length: "visits_all it \<Longrightarrow> length (it xs) = length xs"
  by (metis size_mset visits_all_def)

lemma visits_all_rev [simp]: "visits_all rev" and visits_all_id [simp]: "visits_all (\<lambda>xs. xs)"
  by (simp_all add: visits_all_def)

lemma visits_all_Nil [simp]: "visits_all it \<Longrightarrow> it [] = []"
  by (metis mset.simps(1) mset_zero_iff visits_all_def)

lemma find_Some_iff_ex: "find P xs = None \<longleftrightarrow> (\<forall>x\<in>set xs. \<not> P x)"
  by (auto simp: find_None_iff)

lemma find_SomeD: "find P xs = Some x \<Longrightarrow> x \<in> set xs \<and> P x"
  by (auto simp: find_Some_iff)

section \<open>Bytes and byte order\<close>

definition be16 :: "u8 \<Rightarrow> u8 \<Rightarrow> u16" where
  "be16 b0 b1 = word_of_nat (unat b0 * 256 + unat b1)"

definition be32 :: "u8 \<Rightarrow> u8 \<Rightarrow> u8 \<Rightarrow> u8 \<Rightarrow> u32" where
  "be32 b0 b1 b2 b3 =
     word_of_nat (unat b0 * 16777216 + unat b1 * 65536 + unat b2 * 256 + unat b3)"

text \<open>\<^verbatim>\<open>from_ne_bytes\<close> on the little-endian hosts the daemon is built for.\<close>

definition ne32 :: "u8 \<Rightarrow> u8 \<Rightarrow> u8 \<Rightarrow> u8 \<Rightarrow> u32" where
  "ne32 b0 b1 b2 b3 = be32 b3 b2 b1 b0"

definition ne_byte :: "nat \<Rightarrow> u32 \<Rightarrow> u8" where
  "ne_byte i w = word_of_nat (unat w div 256 ^ i mod 256)"

lemma unat_u8_bound [simp]: "unat (b :: u8) < 256"
  using unsigned_less [of b] by simp

lemma unat_u16_bound [simp]: "unat (b :: u16) < 65536"
  using unsigned_less [of b] by simp

lemma unat_u32_bound [simp]: "unat (b :: u32) < 4294967296"
  using unsigned_less [of b] by simp

lemma unat_u64_bound [simp]: "unat (b :: u64) < 18446744073709551616"
  using unsigned_less [of b] by simp

lemma unat_of_nat_u8: "n < 256 \<Longrightarrow> unat (word_of_nat n :: u8) = n"
  by (simp add: unat_of_nat)

lemma unat_of_nat_u16: "n < 65536 \<Longrightarrow> unat (word_of_nat n :: u16) = n"
  by (simp add: unat_of_nat)

lemma unat_of_nat_u32: "n < 4294967296 \<Longrightarrow> unat (word_of_nat n :: u32) = n"
  by (simp add: unat_of_nat)

lemma unat_be16: "unat (be16 a b) = unat a * 256 + unat b"
  using unat_u8_bound [of a] unat_u8_bound [of b] unfolding be16_def
  by (intro unat_of_nat_u16) linarith

lemma unat_be32:
  "unat (be32 a b c d) = unat a * 16777216 + unat b * 65536 + unat c * 256 + unat d"
  using unat_u8_bound [of a] unat_u8_bound [of b] unat_u8_bound [of c] unat_u8_bound [of d]
  unfolding be32_def by (intro unat_of_nat_u32) linarith

lemma nat_base256:
  "(n::nat) < 4294967296 \<Longrightarrow>
    n div 16777216 mod 256 * 16777216 + n div 65536 mod 256 * 65536 + n div 256 mod 256 * 256
      + n mod 256 = n"
proof -
  assume n: "n < 4294967296"
  have 1: "n = n div 256 * 256 + n mod 256" by simp
  have 2: "n div 256 = n div 65536 * 256 + n div 256 mod 256"
    using div_mult_mod_eq [of "n div 256" 256] by (simp flip: div_mult2_eq)
  have 3: "n div 65536 = n div 16777216 * 256 + n div 65536 mod 256"
    using div_mult_mod_eq [of "n div 65536" 256] by (simp flip: div_mult2_eq)
  have "n div 16777216 < 256" using n by (simp add: less_mult_imp_div_less)
  then have 4: "n div 16777216 mod 256 = n div 16777216" by simp
  from 1 2 3 show ?thesis unfolding 4 by linarith
qed

lemma ne32_bytes:
  "ne32 (ne_byte 0 w) (ne_byte 1 w) (ne_byte 2 w) (ne_byte 3 w) = w"
  by (rule word_unat_eq_iff [THEN iffD2])
    (simp add: ne32_def unat_be32 ne_byte_def unat_of_nat_u8 nat_base256)

text \<open>Code equations on integers: natural numbers would be evaluated in unary.\<close>

lemma word_of_nat_int: "word_of_nat n = word_of_int (int n)"
  by (rule of_int_of_nat_eq [symmetric])

lemmas unat_int_simps = of_nat_add of_nat_mult of_nat_numeral of_nat_power zdiv_int zmod_int
  of_nat_unat

lemma be16_code [code]: "be16 a b = word_of_int (uint a * 256 + uint b)"
  unfolding be16_def word_of_nat_int by (simp only: unat_int_simps)

lemma be32_code [code]:
  "be32 a b c d = word_of_int (uint a * 16777216 + uint b * 65536 + uint c * 256 + uint d)"
  unfolding be32_def word_of_nat_int by (simp only: unat_int_simps)

lemma ne_byte_code [code]: "ne_byte k w = word_of_int (uint w div 256 ^ k mod 256)"
  unfolding ne_byte_def word_of_nat_int by (simp only: unat_int_simps)

end
