(* ===== verification/NP_Text.thy ===== *)
theory NP_Text
  imports NP_Prelude
begin

text \<open>
  Text as the daemon reads and writes it: decimal numbers (Rust's \<^verbatim>\<open>to_string\<close>, C++'s
  \<^verbatim>\<open>std::to_string\<close> and \<^verbatim>\<open>std::stoi\<close>, Rust's \<^verbatim>\<open>parse::<i32>\<close>), dotted IPv4 addresses
  (\<^verbatim>\<open>inet_ntoa\<close>, Rust's \<^verbatim>\<open>Ipv4Addr\<close> in both directions) and splitting at a separator.
  The round trips and the absence of separators in printed numbers are what makes the string
  keys of the policy engine unambiguous.
\<close>

section \<open>Decimal numbers\<close>

definition digit :: "nat \<Rightarrow> char" where
  "digit d = char_of (48 + d)"

definition is_digit :: "char \<Rightarrow> bool" where
  "is_digit c \<longleftrightarrow> 48 \<le> (of_char c :: nat) \<and> (of_char c :: nat) \<le> 57"

definition digit_val :: "char \<Rightarrow> nat" where
  "digit_val c = of_char c - 48"

fun dec_nat :: "nat \<Rightarrow> string" where
  "dec_nat n = (if n < 10 then [digit n] else dec_nat (n div 10) @ [digit (n mod 10)])"

declare dec_nat.simps [simp del]

definition dec_int :: "int \<Rightarrow> string" where
  "dec_int i = (if i < 0 then CHR ''-'' # dec_nat (nat (- i)) else dec_nat (nat i))"

definition digits_val :: "string \<Rightarrow> nat" where
  "digits_val s = foldl (\<lambda>a c. a * 10 + digit_val c) 0 s"

definition parse_nat :: "string \<Rightarrow> nat option" where
  "parse_nat s = (if s \<noteq> [] \<and> list_all is_digit s then Some (digits_val s) else None)"

text \<open>\<^verbatim>\<open>str::parse::<i32>\<close>: an optional sign, digits, and no overflow.\<close>

definition i32_min :: int where "i32_min = - 2147483648"
definition i32_max :: int where "i32_max = 2147483647"

definition in_i32 :: "int \<Rightarrow> bool" where
  "in_i32 i \<longleftrightarrow> i32_min \<le> i \<and> i \<le> i32_max"

definition parse_i32 :: "string \<Rightarrow> int option" where
  "parse_i32 s =
     (let (neg, ds) = (case s of
            [] \<Rightarrow> (False, [])
          | c # cs \<Rightarrow> if c = CHR ''-'' then (True, cs) else if c = CHR ''+'' then (False, cs)
                     else (False, s))
      in case parse_nat ds of
           None \<Rightarrow> None
         | Some n \<Rightarrow> let i = (if neg then - int n else int n)
                     in if in_i32 i then Some i else None)"

lemma of_char_digit: "d < 10 \<Longrightarrow> of_char (digit d) = 48 + d"
  by (simp add: digit_def of_char_of)

lemma digit_chars [simp]:
  "digit 0 = CHR ''0''" "digit (Suc 0) = CHR ''1''" "digit 1 = CHR ''1''" "digit 2 = CHR ''2''"
  "digit 3 = CHR ''3''" "digit 4 = CHR ''4''" "digit 5 = CHR ''5''" "digit 6 = CHR ''6''"
  "digit 7 = CHR ''7''" "digit 8 = CHR ''8''" "digit 9 = CHR ''9''"
  by code_simp+

lemma is_digit_digit [simp]: "d < 10 \<Longrightarrow> is_digit (digit d)"
  by (simp add: is_digit_def of_char_digit)

lemma digit_val_digit [simp]: "d < 10 \<Longrightarrow> digit_val (digit d) = d"
  by (simp add: digit_val_def of_char_digit)

lemma dec_nat_not_Nil [simp]: "dec_nat n \<noteq> []"
  by (subst dec_nat.simps) simp

lemma dec_nat_digits: "list_all is_digit (dec_nat n)"
proof (induction n rule: dec_nat.induct)
  case (1 n)
  then show ?case by (subst dec_nat.simps) auto
qed

lemma digits_val_snoc: "digits_val (s @ [c]) = digits_val s * 10 + digit_val c"
  by (simp add: digits_val_def)

lemma digits_val_dec_nat [dec_simps]: "digits_val (dec_nat n) = n"
proof (induction n rule: dec_nat.induct)
  case (1 n)
  show ?case
  proof (cases "n < 10")
    case True
    then show ?thesis by (subst dec_nat.simps) (simp add: digits_val_def)
  next
    case False
    with 1 have "digits_val (dec_nat (n div 10)) = n div 10" by simp
    with False show ?thesis by (subst dec_nat.simps) (simp add: digits_val_snoc)
  qed
qed

lemma parse_nat_dec_nat [dec_simps]: "parse_nat (dec_nat n) = Some n"
  by (simp add: parse_nat_def dec_nat_digits digits_val_dec_nat)

lemma dec_nat_inj [dec_simps]: "dec_nat m = dec_nat n \<longleftrightarrow> m = n"
  by (metis digits_val_dec_nat)

lemma not_digit_notin_dec_nat: "\<not> is_digit c \<Longrightarrow> c \<notin> set (dec_nat n)"
  using dec_nat_digits [of n] by (auto simp: list_all_iff)

lemma seps_not_digits [simp]:
  "\<not> is_digit (CHR ''-'')" "\<not> is_digit (CHR ''/'')" "\<not> is_digit (CHR ''.'')"
  "\<not> is_digit (CHR '','')" "\<not> is_digit (CHR ''+'')" "\<not> is_digit (CHR '':'')"
  by (simp_all add: is_digit_def)

lemma seps_notin_dec_nat [simp]:
  "CHR ''-'' \<notin> set (dec_nat n)" "CHR ''/'' \<notin> set (dec_nat n)" "CHR ''.'' \<notin> set (dec_nat n)"
  "CHR '','' \<notin> set (dec_nat n)" "CHR ''+'' \<notin> set (dec_nat n)"
  by (simp_all add: not_digit_notin_dec_nat)

lemma hd_dec_nat_digit: "is_digit (hd (dec_nat n))"
  using dec_nat_digits [of n] dec_nat_not_Nil [of n] by (cases "dec_nat n") auto

lemma hd_dec_nat_zero: "hd (dec_nat n) = CHR ''0'' \<Longrightarrow> n = 0"
proof (induction n rule: dec_nat.induct)
  case (1 n)
  have zero: "d < 10 \<Longrightarrow> digit d = CHR ''0'' \<Longrightarrow> d = 0" for d
    using digit_val_digit [of d] by (simp add: digit_val_def)
  show ?case
  proof (cases "n < 10")
    case True
    with 1(2) zero show ?thesis by (subst (asm) dec_nat.simps) simp
  next
    case False
    with 1(2) have "hd (dec_nat (n div 10)) = CHR ''0''"
      by (subst (asm) dec_nat.simps) simp
    with False 1(1) show ?thesis by simp
  qed
qed

lemma length_dec_nat_octet: "n < 1000 \<Longrightarrow> length (dec_nat n) \<le> 3"
  by (subst dec_nat.simps, subst dec_nat.simps, subst dec_nat.simps) auto

lemma parse_i32_dec_nat [dec_simps]:
  assumes "int n \<le> i32_max"
  shows "parse_i32 (dec_nat n) = Some (int n)"
proof -
  obtain c cs where c: "dec_nat n = c # cs" by (cases "dec_nat n") auto
  have "is_digit c" using hd_dec_nat_digit [of n] c by simp
  then have "c \<noteq> CHR ''-''" and "c \<noteq> CHR ''+''" by auto
  moreover have "parse_nat (c # cs) = Some n" using parse_nat_dec_nat [of n] c by simp
  ultimately show ?thesis
    using assms by (simp add: parse_i32_def c in_i32_def i32_min_def)
qed

section \<open>Splitting at a separator\<close>

fun split_on :: "char \<Rightarrow> string \<Rightarrow> string list" where
  "split_on sep [] = [[]]"
| "split_on sep (c # cs) =
     (if c = sep then [] # split_on sep cs
      else case split_on sep cs of [] \<Rightarrow> [[c]] | w # ws \<Rightarrow> (c # w) # ws)"

lemma split_on_not_Nil [simp]: "split_on sep s \<noteq> []"
  by (induction s) (auto split: list.splits)

lemma split_on_no_sep: "sep \<notin> set s \<Longrightarrow> split_on sep s = [s]"
  by (induction s) auto

lemma split_on_append_sep: "sep \<notin> set s \<Longrightarrow> split_on sep (s @ sep # t) = s # split_on sep t"
  by (induction s) auto

text \<open>Two texts that agree around a separator absent from their heads agree piecewise.\<close>

lemma append_sep_eq:
  assumes "sep \<notin> set a" and "sep \<notin> set b"
  shows "a @ sep # s = b @ sep # t \<longleftrightarrow> a = b \<and> s = t"
  using assms
proof (induction a arbitrary: b)
  case Nil
  then show ?case by (cases b) auto
next
  case (Cons x a)
  then show ?case by (cases b) auto
qed

lemma append_sep_eq_right:
  assumes "sep \<notin> set s" and "sep \<notin> set t"
  shows "a @ sep # s = b @ sep # t \<longleftrightarrow> a = b \<and> s = t"
proof -
  have "a @ sep # s = b @ sep # t \<longleftrightarrow> rev (a @ sep # s) = rev (b @ sep # t)"
    by (simp only: rev_is_rev_conv)
  also have "\<dots> \<longleftrightarrow> rev s @ sep # rev a = rev t @ sep # rev b"
    by simp
  also have "\<dots> \<longleftrightarrow> a = b \<and> s = t"
    using assms by (subst append_sep_eq) auto
  finally show ?thesis .
qed

section \<open>Dotted IPv4 addresses\<close>

definition dotted :: "u8 \<Rightarrow> u8 \<Rightarrow> u8 \<Rightarrow> u8 \<Rightarrow> string" where
  "dotted a b c d =
     dec_nat (unat a) @ ''.'' @ dec_nat (unat b) @ ''.'' @ dec_nat (unat c) @ ''.''
       @ dec_nat (unat d)"

text \<open>
  \<^verbatim>\<open>inet_ntoa\<close> prints the bytes of the network-order word in memory order (net/utility.cc);
  Rust's \<^verbatim>\<open>Ipv4Addr::from(u32)\<close> prints the most significant byte first.
\<close>

definition ipv4ToString :: "u32 \<Rightarrow> string" where
  "ipv4ToString ip = dotted (ne_byte 0 ip) (ne_byte 1 ip) (ne_byte 2 ip) (ne_byte 3 ip)"

definition ipv4_addr_to_string :: "u32 \<Rightarrow> string" where
  "ipv4_addr_to_string w = dotted (ne_byte 3 w) (ne_byte 2 w) (ne_byte 1 w) (ne_byte 0 w)"

definition parse_octet :: "string \<Rightarrow> u8 option" where
  "parse_octet s =
     (if length s \<le> 3 \<and> (hd s = CHR ''0'' \<longrightarrow> length s = 1)
      then (case parse_nat s of
              None \<Rightarrow> None
            | Some n \<Rightarrow> if n \<le> 255 then Some (word_of_nat n) else None)
      else None)"

text \<open>Rust's \<^verbatim>\<open>str::parse::<Ipv4Addr>\<close> followed by \<^verbatim>\<open>u32::from\<close>.\<close>

definition parse_ipv4 :: "string \<Rightarrow> u32 option" where
  "parse_ipv4 s =
     (case split_on (CHR ''.'') s of
        [a, b, c, d] \<Rightarrow>
          (case (parse_octet a, parse_octet b, parse_octet c, parse_octet d) of
             (Some a', Some b', Some c', Some d') \<Rightarrow> Some (be32 a' b' c' d')
           | _ \<Rightarrow> None)
      | _ \<Rightarrow> None)"

text \<open>The value, most significant byte first, of an address held in network byte order.\<close>

definition ntohl :: "u32 \<Rightarrow> u32" where
  "ntohl ip = be32 (ne_byte 0 ip) (ne_byte 1 ip) (ne_byte 2 ip) (ne_byte 3 ip)"

lemma parse_octet_dec: "parse_octet (dec_nat (unat (b :: u8))) = Some b"
proof -
  have n: "unat b < 256" by simp
  have len: "length (dec_nat (unat b)) \<le> 3" by (rule length_dec_nat_octet) (use n in linarith)
  have zero: "hd (dec_nat (unat b)) = CHR ''0'' \<Longrightarrow> length (dec_nat (unat b)) = 1"
    using hd_dec_nat_zero [of "unat b"] by (simp add: dec_nat.simps)
  have "unat b \<le> 255" using n by linarith
  with len zero show ?thesis
    by (simp add: parse_octet_def parse_nat_dec_nat)
qed

lemma split_on_dotted:
  "split_on (CHR ''.'') (dotted a b c d) =
     [dec_nat (unat a), dec_nat (unat b), dec_nat (unat c), dec_nat (unat d)]"
  by (simp add: dotted_def split_on_append_sep split_on_no_sep)

lemma parse_ipv4_dotted [dec_simps]: "parse_ipv4 (dotted a b c d) = Some (be32 a b c d)"
  by (simp add: parse_ipv4_def split_on_dotted parse_octet_dec)

lemma parse_ipv4_ToString [dec_simps]: "parse_ipv4 (ipv4ToString ip) = Some (ntohl ip)"
  by (simp add: ipv4ToString_def ntohl_def parse_ipv4_dotted)

lemma parse_ipv4_addr_to_string [dec_simps]: "parse_ipv4 (ipv4_addr_to_string w) = Some w"
  using ne32_bytes [of w]
  by (simp add: ipv4_addr_to_string_def parse_ipv4_dotted ne32_def)

lemma ipv4_addr_to_string_inj [dec_simps]:
  "ipv4_addr_to_string v = ipv4_addr_to_string w \<longleftrightarrow> v = w"
  by (metis parse_ipv4_addr_to_string option.inject)

lemma base256_digits:
  assumes "a < 256" and "b < 256" and "c < 256" and "d < (256::nat)"
  shows "(a * 16777216 + b * 65536 + c * 256 + d) mod 256 = d"
    and "(a * 16777216 + b * 65536 + c * 256 + d) div 256 mod 256 = c"
    and "(a * 16777216 + b * 65536 + c * 256 + d) div 65536 mod 256 = b"
    and "(a * 16777216 + b * 65536 + c * 256 + d) div 16777216 mod 256 = a"
proof -
  let ?n = "a * 16777216 + b * 65536 + c * 256 + d"
  have low: "r < 256 \<Longrightarrow> (r + 256 * q) mod 256 = r" "r < 256 \<Longrightarrow> (r + 256 * q) div 256 = q"
    for r q :: nat by simp_all
  have n: "?n = d + 256 * (c + 256 * (b + 256 * a))" by simp
  show "?n mod 256 = d" unfolding n by (rule low(1)) fact
  have 1: "?n div 256 = c + 256 * (b + 256 * a)" unfolding n by (rule low(2)) fact
  show "?n div 256 mod 256 = c" unfolding 1 by (rule low(1)) fact
  have "?n div 65536 = ?n div 256 div 256" by (simp flip: div_mult2_eq)
  also have "\<dots> = b + 256 * a" unfolding 1 by (rule low(2)) fact
  finally have 2: "?n div 65536 = b + 256 * a" .
  show "?n div 65536 mod 256 = b" unfolding 2 by (rule low(1)) fact
  have "?n div 16777216 = ?n div 65536 div 256" by (simp flip: div_mult2_eq)
  also have "\<dots> = a" unfolding 2 by (rule low(2)) fact
  finally show "?n div 16777216 mod 256 = a" using \<open>a < 256\<close> by simp
qed

lemma ne_byte_be32:
  "ne_byte 3 (be32 a b c d) = a" "ne_byte 2 (be32 a b c d) = b"
  "ne_byte 1 (be32 a b c d) = c" "ne_byte 0 (be32 a b c d) = d"
  using base256_digits [of "unat a" "unat b" "unat c" "unat d"]
  by (simp_all add: ne_byte_def unat_be32)

lemma ipv4ToString_ntohl: "ipv4ToString ip = ipv4_addr_to_string (ntohl ip)"
  by (simp only: ipv4ToString_def ipv4_addr_to_string_def ntohl_def ne_byte_be32)

lemma ntohl_inj: "ntohl a = ntohl b \<Longrightarrow> a = b"
proof -
  assume "ntohl a = ntohl b"
  then have s: "ipv4ToString a = ipv4ToString b" by (simp add: ipv4ToString_ntohl)
  have "map parse_octet (split_on (CHR ''.'') (ipv4ToString x)) =
      [Some (ne_byte 0 x), Some (ne_byte 1 x), Some (ne_byte 2 x), Some (ne_byte 3 x)]" for x
    by (simp add: ipv4ToString_def split_on_dotted parse_octet_dec)
  from this [of a] this [of b] s ne32_bytes [of a] ne32_bytes [of b] show ?thesis by simp
qed

lemma seps_notin_dotted [simp]:
  "CHR ''-'' \<notin> set (dotted a b c d)" "CHR ''/'' \<notin> set (dotted a b c d)"
  "CHR '','' \<notin> set (dotted a b c d)"
  by (simp_all add: dotted_def)

lemma seps_notin_ipv4 [simp]:
  "CHR ''-'' \<notin> set (ipv4ToString ip)" "CHR ''/'' \<notin> set (ipv4ToString ip)"
  "CHR ''-'' \<notin> set (ipv4_addr_to_string w)" "CHR ''/'' \<notin> set (ipv4_addr_to_string w)"
  by (simp_all add: ipv4ToString_def ipv4_addr_to_string_def)

end
