(* ===== verification/Flow_Engine.thy ===== *)
theory Flow_Engine
  imports NP_Text
begin

text \<open>
  The packet parser and TCP flow tracker (crates/net_flow_engine/src/lib.rs): IPv4, TCP and UDP
  header parsing with its bounds checks, the five-tuple of a packet, the table of tracked flows
  and the state machine that classifies every TCP packet, and the timeout sweep.
  Lemmas: the parsers never read outside the packet, the table stays well formed, a close
  removes both directions, the tracked sequence number, the sweep removes exactly the stale
  flows, and a flow enters the table only by a SYN.
\<close>

section \<open>Header parsing\<close>

definition IPPROTO_ICMP :: u8 where "IPPROTO_ICMP = 1"
definition IPPROTO_TCP :: u8 where "IPPROTO_TCP = 6"
definition IPPROTO_UDP :: u8 where "IPPROTO_UDP = 17"
definition IPV4_HDR_MIN_LEN :: nat where "IPV4_HDR_MIN_LEN = 20"
definition TCP_HDR_MIN_LEN :: nat where "TCP_HDR_MIN_LEN = 20"
definition UDP_HDR_LEN :: nat where "UDP_HDR_LEN = 8"

lemmas flow_consts = IPPROTO_ICMP_def IPPROTO_TCP_def IPPROTO_UDP_def IPV4_HDR_MIN_LEN_def
  TCP_HDR_MIN_LEN_def UDP_HDR_LEN_def

record Ipv4Header =
  ip_header_len :: nat
  ip_protocol :: u8
  ip_saddr :: u32
  ip_daddr :: u32
  ip_tot_len :: u16

definition parse_ipv4_header :: "bytes \<Rightarrow> Ipv4Header option" where
  "parse_ipv4_header bs =
     (if length bs < IPV4_HDR_MIN_LEN then None
      else let header_len = unat (bs ! 0 AND 0x0F) * 4
           in if header_len < IPV4_HDR_MIN_LEN \<or> length bs < header_len then None
              else Some \<lparr> ip_header_len = header_len,
                          ip_protocol = bs ! 9,
                          ip_saddr = ne32 (bs ! 12) (bs ! 13) (bs ! 14) (bs ! 15),
                          ip_daddr = ne32 (bs ! 16) (bs ! 17) (bs ! 18) (bs ! 19),
                          ip_tot_len = be16 (bs ! 2) (bs ! 3) \<rparr>)"

record TcpHeader =
  tcp_header_len :: nat
  tcp_source :: u16
  tcp_dest :: u16
  tcp_seq :: u32
  tcp_syn :: bool
  tcp_fin :: bool
  tcp_rst :: bool

definition parse_tcp_header :: "bytes \<Rightarrow> TcpHeader option" where
  "parse_tcp_header bs =
     (if length bs < TCP_HDR_MIN_LEN then None
      else let header_len = unat (drop_bit 4 (bs ! 12)) * 4; flags = bs ! 13
           in if header_len < TCP_HDR_MIN_LEN \<or> length bs < header_len then None
              else Some \<lparr> tcp_header_len = header_len,
                          tcp_source = be16 (bs ! 0) (bs ! 1),
                          tcp_dest = be16 (bs ! 2) (bs ! 3),
                          tcp_seq = be32 (bs ! 4) (bs ! 5) (bs ! 6) (bs ! 7),
                          tcp_syn = (flags AND 0x02 \<noteq> 0),
                          tcp_fin = (flags AND 0x01 \<noteq> 0),
                          tcp_rst = (flags AND 0x04 \<noteq> 0) \<rparr>)"

record SharedFiveTuple =
  sft_proto :: u8
  sft_tot_len :: u16
  sft_ip_header_len :: nat
  sft_src_port :: u16
  sft_dst_port :: u16
  sft_src_addr :: u32
  sft_dst_addr :: u32
  sft_recognized :: bool

definition FiveTupleResult_default :: SharedFiveTuple where
  "FiveTupleResult_default =
     \<lparr> sft_proto = 0, sft_tot_len = 0, sft_ip_header_len = 0, sft_src_port = 0, sft_dst_port = 0,
       sft_src_addr = 0, sft_dst_addr = 0, sft_recognized = False \<rparr>"

text \<open>The ports of a packet with header \<open>ip\<close> and payload after it; \<open>None\<close> is the early return.\<close>

definition five_tuple_ports :: "u8 \<Rightarrow> bytes \<Rightarrow> (u16 \<times> u16) option" where
  "five_tuple_ports proto payload =
     (if proto = IPPROTO_TCP then
        (case parse_tcp_header payload of
           None \<Rightarrow> None
         | Some tcp \<Rightarrow> Some (tcp_source tcp, tcp_dest tcp))
      else if proto = IPPROTO_UDP then
        (if length payload < UDP_HDR_LEN then None
         else Some (be16 (payload ! 0) (payload ! 1), be16 (payload ! 2) (payload ! 3)))
      else if proto = IPPROTO_ICMP then Some (0, 0)
      else None)"

definition parse_five_tuple :: "bytes \<Rightarrow> SharedFiveTuple" where
  "parse_five_tuple bs =
     (case parse_ipv4_header bs of
        None \<Rightarrow> FiveTupleResult_default
      | Some ip \<Rightarrow>
          (case five_tuple_ports (ip_protocol ip) (drop (ip_header_len ip) bs) of
             None \<Rightarrow> FiveTupleResult_default
           | Some (src_port, dst_port) \<Rightarrow>
               \<lparr> sft_proto = ip_protocol ip, sft_tot_len = ip_tot_len ip,
                 sft_ip_header_len = ip_header_len ip, sft_src_port = src_port,
                 sft_dst_port = dst_port, sft_src_addr = ip_saddr ip, sft_dst_addr = ip_daddr ip,
                 sft_recognized = True \<rparr>))"

section \<open>The flow table\<close>

record ConnectionId =
  local_ip :: u32
  foreign_ip :: u32
  local_port :: u16
  foreign_port :: u16

definition default_conn_id :: ConnectionId where
  "default_conn_id = \<lparr> local_ip = 0, foreign_ip = 0, local_port = 0, foreign_port = 0 \<rparr>"

definition peer_of :: "ConnectionId \<Rightarrow> ConnectionId" where
  "peer_of c = \<lparr> local_ip = foreign_ip c, foreign_ip = local_ip c,
                 local_port = foreign_port c, foreign_port = local_port c \<rparr>"

record FlowState =
  fs_seq :: u32
  fs_server_side :: bool
  fs_last_seen :: instant

datatype PacketKind = NewConnection | Closed | Data | Duplicate | UnknownData

record RustDecision =
  rd_kind :: PacketKind
  rd_conn_id :: ConnectionId
  rd_peer_conn_id :: ConnectionId
  rd_peer_is_new :: bool
  rd_ip_header_len :: nat
  rd_payload_offset :: nat
  rd_syn :: bool

record FlowEngine =
  tcbs :: "(ConnectionId, FlowState) hmap"

definition new_flow_engine :: FlowEngine where
  "new_flow_engine = \<lparr> tcbs = [] \<rparr>"

text \<open>The packet of a tracked flow: FIN/RST closes it, an old sequence number is a duplicate.\<close>

definition on_tracked_packet ::
  "FlowEngine \<Rightarrow> ConnectionId \<Rightarrow> FlowState \<Rightarrow> Ipv4Header \<Rightarrow> TcpHeader \<Rightarrow> nat \<Rightarrow> instant
     \<Rightarrow> FlowEngine \<times> RustDecision" where
  "on_tracked_packet e cid st ip tcp len now =
     (let peer_id = peer_of cid; payload_offset = ip_header_len ip + tcp_header_len tcp in
      if tcp_fin tcp \<or> tcp_rst tcp then
        (e\<lparr> tcbs := hm_del peer_id (hm_del cid (tcbs e)) \<rparr>,
         \<lparr> rd_kind = Closed, rd_conn_id = cid, rd_peer_conn_id = peer_id, rd_peer_is_new = False,
           rd_ip_header_len = 0, rd_payload_offset = 0, rd_syn = tcp_syn tcp \<rparr>)
      else if tcp_seq tcp < fs_seq st then
        (e, \<lparr> rd_kind = Duplicate, rd_conn_id = cid, rd_peer_conn_id = peer_id,
              rd_peer_is_new = False, rd_ip_header_len = ip_header_len ip,
              rd_payload_offset = payload_offset, rd_syn = tcp_syn tcp \<rparr>)
      else
        (e\<lparr> tcbs := hm_put cid
              (st\<lparr> fs_seq := tcp_seq tcp + word_of_nat (len - payload_offset),
                   fs_last_seen := now \<rparr>) (tcbs e) \<rparr>,
         \<lparr> rd_kind = Data, rd_conn_id = cid, rd_peer_conn_id = peer_id, rd_peer_is_new = False,
           rd_ip_header_len = ip_header_len ip, rd_payload_offset = payload_offset,
           rd_syn = tcp_syn tcp \<rparr>))"

text \<open>The packet of an unknown flow: RST is ignored, SYN inserts the flow and its peer.\<close>

definition on_unknown_packet ::
  "FlowEngine \<Rightarrow> ConnectionId \<Rightarrow> Ipv4Header \<Rightarrow> TcpHeader \<Rightarrow> instant
     \<Rightarrow> FlowEngine \<times> RustDecision option" where
  "on_unknown_packet e cid ip tcp now =
     (let peer_id = peer_of cid; payload_offset = ip_header_len ip + tcp_header_len tcp in
      if tcp_rst tcp then (e, None)
      else if tcp_syn tcp then
        (let t1 = hm_put cid \<lparr> fs_seq = tcp_seq tcp + 1, fs_server_side = True,
                              fs_last_seen = now \<rparr> (tcbs e);
             peer_is_new = (\<not> hm_has t1 peer_id);
             t2 = (if peer_is_new
                   then hm_put peer_id \<lparr> fs_seq = 0, fs_server_side = False,
                                         fs_last_seen = now \<rparr> t1
                   else t1)
         in (e\<lparr> tcbs := t2 \<rparr>,
             Some \<lparr> rd_kind = NewConnection, rd_conn_id = cid, rd_peer_conn_id = peer_id,
                    rd_peer_is_new = peer_is_new, rd_ip_header_len = 0, rd_payload_offset = 0,
                    rd_syn = True \<rparr>))
      else
        (e, Some \<lparr> rd_kind = UnknownData, rd_conn_id = cid, rd_peer_conn_id = peer_id,
                   rd_peer_is_new = False, rd_ip_header_len = ip_header_len ip,
                   rd_payload_offset = payload_offset, rd_syn = tcp_syn tcp \<rparr>))"

definition flow_id :: "Ipv4Header \<Rightarrow> TcpHeader \<Rightarrow> ConnectionId" where
  "flow_id ip tcp = \<lparr> local_ip = ip_saddr ip, foreign_ip = ip_daddr ip,
                      local_port = tcp_source tcp, foreign_port = tcp_dest tcp \<rparr>"

definition on_packet_internal ::
  "FlowEngine \<Rightarrow> bytes \<Rightarrow> instant \<Rightarrow> FlowEngine \<times> RustDecision option" where
  "on_packet_internal e bs now =
     (case parse_ipv4_header bs of
        None \<Rightarrow> (e, None)
      | Some ip \<Rightarrow>
          if ip_protocol ip \<noteq> IPPROTO_TCP then (e, None)
          else (case parse_tcp_header (drop (ip_header_len ip) bs) of
                  None \<Rightarrow> (e, None)
                | Some tcp \<Rightarrow>
                    (case hm_get (tcbs e) (flow_id ip tcp) of
                       Some st \<Rightarrow>
                         (let (e', d) = on_tracked_packet e (flow_id ip tcp) st ip tcp
                                          (length bs) now
                          in (e', Some d))
                     | None \<Rightarrow> on_unknown_packet e (flow_id ip tcp) ip tcp now)))"

section \<open>The decision handed to the C++ side\<close>

record PacketDecision =
  kind :: i32
  conn_id :: ConnectionId
  peer_conn_id :: ConnectionId
  peer_is_new :: bool
  pd_ip_header_len :: nat
  payload_offset :: nat
  syn :: bool

definition default_decision :: PacketDecision where
  "default_decision =
     \<lparr> kind = 0, conn_id = default_conn_id, peer_conn_id = default_conn_id, peer_is_new = False,
       pd_ip_header_len = 0, payload_offset = 0, syn = False \<rparr>"

fun kind_code :: "PacketKind \<Rightarrow> i32" where
  "kind_code NewConnection = 1"
| "kind_code Closed = 2"
| "kind_code Data = 3"
| "kind_code Duplicate = 4"
| "kind_code UnknownData = 5"

definition on_packet :: "FlowEngine \<Rightarrow> bytes \<Rightarrow> instant \<Rightarrow> FlowEngine \<times> PacketDecision" where
  "on_packet e bs now =
     (case on_packet_internal e bs now of
        (e', None) \<Rightarrow> (e', default_decision)
      | (e', Some d) \<Rightarrow>
          (e', \<lparr> kind = kind_code (rd_kind d), conn_id = rd_conn_id d,
                 peer_conn_id = rd_peer_conn_id d, peer_is_new = rd_peer_is_new d,
                 pd_ip_header_len = rd_ip_header_len d, payload_offset = rd_payload_offset d,
                 syn = rd_syn d \<rparr>))"

section \<open>Counting, listing and sweeping\<close>

definition live_connection_count :: "FlowEngine \<Rightarrow> nat" where
  "live_connection_count e = length (tcbs e)"

text \<open>\<^verbatim>\<open>ipv4_to_string\<close> prints \<^verbatim>\<open>to_ne_bytes\<close>, which is what \<^verbatim>\<open>inet_ntoa\<close> does.\<close>

definition connection_string :: "ConnectionId \<Rightarrow> string" where
  "connection_string c =
     ipv4ToString (local_ip c) @ '':'' @ dec_nat (unat (local_port c)) @ '',''
       @ ipv4ToString (foreign_ip c) @ '':'' @ dec_nat (unat (foreign_port c))"

definition connection_strings ::
  "((ConnectionId \<times> FlowState) list \<Rightarrow> (ConnectionId \<times> FlowState) list) \<Rightarrow> FlowEngine
     \<Rightarrow> string list" where
  "connection_strings it e = map (connection_string \<circ> fst) (it (tcbs e))"

text \<open>\<^verbatim>\<open>Instant::duration_since\<close> saturates at zero.\<close>

definition duration_since :: "instant \<Rightarrow> instant \<Rightarrow> int" where
  "duration_since now earlier = max 0 (now - earlier)"

definition is_stale :: "instant \<Rightarrow> int \<Rightarrow> FlowState \<Rightarrow> bool" where
  "is_stale now timeout st \<longleftrightarrow> duration_since now (fs_last_seen st) \<ge> timeout"

definition evict_stale ::
  "FlowEngine \<Rightarrow> instant \<Rightarrow> int \<Rightarrow> FlowEngine \<times> ConnectionId list" where
  "evict_stale e now timeout =
     (let stale = map fst (filter (\<lambda>(_, st). is_stale now timeout st) (tcbs e))
      in (e\<lparr> tcbs := fold hm_del stale (tcbs e) \<rparr>, stale))"

text \<open>Times are in seconds.\<close>

definition STALE_CONNECTION_TIMEOUT :: int where "STALE_CONNECTION_TIMEOUT = 300"

definition evict_stale_connections :: "FlowEngine \<Rightarrow> instant \<Rightarrow> FlowEngine \<times> ConnectionId list"
  where "evict_stale_connections e now = evict_stale e now STALE_CONNECTION_TIMEOUT"


text \<open>One step of the daemon's use of the engine: a packet, or a tick of the reaper.\<close>

datatype engine_event = EPacket bytes instant | ESweep instant

fun engine_step ::
  "('e \<Rightarrow> bytes \<Rightarrow> instant \<Rightarrow> 'e \<times> PacketDecision) \<Rightarrow> ('e \<Rightarrow> instant \<Rightarrow> 'e \<times> ConnectionId list)
     \<Rightarrow> engine_event \<Rightarrow> 'e \<Rightarrow> 'e" where
  "engine_step step sweep (EPacket bs now) e = fst (step e bs now)"
| "engine_step step sweep (ESweep now) e = fst (sweep e now)"

fun event_opens :: "(bytes \<Rightarrow> ConnectionId set) \<Rightarrow> engine_event \<Rightarrow> ConnectionId set" where
  "event_opens opens (EPacket bs now) = opens bs"
| "event_opens opens (ESweep now) = {}"

text \<open>The headers of a TCP packet the engine accepts.\<close>

definition tcp_packet :: "bytes \<Rightarrow> (Ipv4Header \<times> TcpHeader) option" where
  "tcp_packet bs =
     (case parse_ipv4_header bs of
        None \<Rightarrow> None
      | Some ip \<Rightarrow>
          if ip_protocol ip \<noteq> IPPROTO_TCP then None
          else map_option (Pair ip) (parse_tcp_header (drop (ip_header_len ip) bs)))"

text \<open>The flows a packet can open: its own and the peer's, if it is a SYN.\<close>

definition syn_opens :: "bytes \<Rightarrow> ConnectionId set" where
  "syn_opens bs =
     (case tcp_packet bs of
        None \<Rightarrow> {}
      | Some (ip, tcp) \<Rightarrow>
          if tcp_syn tcp \<and> \<not> tcp_rst tcp then {flow_id ip tcp, peer_of (flow_id ip tcp)} else {})"

definition tracked_flows :: "FlowEngine \<Rightarrow> ConnectionId set" where
  "tracked_flows e = {c. hm_has (tcbs e) c}"

definition flow_wf :: "FlowEngine \<Rightarrow> bool" where
  "flow_wf e \<longleftrightarrow> hm_wf (tcbs e)"

text \<open>A TCP packet from 10.0.0.1:1234 to 10.0.0.2:80, for the examples.\<close>

definition sample_packet :: "u8 \<Rightarrow> u8 \<Rightarrow> bytes \<Rightarrow> bytes" where
  "sample_packet seq flags payload =
     [0x45, 0, 0, 44, 0, 0, 0, 0, 64, 6, 0, 0, 10, 0, 0, 1, 10, 0, 0, 2]
     @ [4, 210, 0, 80, 0, 0, 0, seq, 0, 0, 0, 0, 0x50, flags, 0, 0, 0, 0, 0, 0] @ payload"

section \<open>Parsing stays inside the packet\<close>

lemma parse_ipv4_header_bounds:
  assumes "parse_ipv4_header bs = Some ip"
  shows "20 \<le> ip_header_len ip" and "ip_header_len ip \<le> length bs"
  using assms by (auto simp: parse_ipv4_header_def flow_consts Let_def split: if_splits)

lemma parse_tcp_header_bounds:
  assumes "parse_tcp_header bs = Some tcp"
  shows "20 \<le> tcp_header_len tcp" and "tcp_header_len tcp \<le> length bs"
  using assms by (auto simp: parse_tcp_header_def flow_consts Let_def split: if_splits)

lemma tcp_packet_bounds:
  assumes "tcp_packet bs = Some (ip, tcp)"
  shows "40 \<le> ip_header_len ip + tcp_header_len tcp"
    and "ip_header_len ip + tcp_header_len tcp \<le> length bs"
proof -
  from assms have ip: "parse_ipv4_header bs = Some ip"
    and tcp: "parse_tcp_header (drop (ip_header_len ip) bs) = Some tcp"
    by (auto simp: tcp_packet_def split: option.splits if_splits)
  from parse_ipv4_header_bounds [OF ip] parse_tcp_header_bounds [OF tcp]
  show "40 \<le> ip_header_len ip + tcp_header_len tcp"
    and "ip_header_len ip + tcp_header_len tcp \<le> length bs"
    by auto
qed

lemma five_tuple_of_tcp_packet:
  assumes "tcp_packet bs = Some (ip, tcp)"
  shows "sft_recognized (parse_five_tuple bs)" and "sft_proto (parse_five_tuple bs) = IPPROTO_TCP"
    and "sft_src_addr (parse_five_tuple bs) = local_ip (flow_id ip tcp)"
    and "sft_dst_addr (parse_five_tuple bs) = foreign_ip (flow_id ip tcp)"
    and "sft_src_port (parse_five_tuple bs) = local_port (flow_id ip tcp)"
    and "sft_dst_port (parse_five_tuple bs) = foreign_port (flow_id ip tcp)"
  using assms
  by (auto simp: tcp_packet_def parse_five_tuple_def five_tuple_ports_def flow_id_def
      split: option.splits if_splits)

lemma recognized_tcp_iff:
  "sft_recognized (parse_five_tuple bs) \<and> sft_proto (parse_five_tuple bs) = IPPROTO_TCP
     \<longleftrightarrow> tcp_packet bs \<noteq> None"
  by (auto simp: tcp_packet_def parse_five_tuple_def five_tuple_ports_def FiveTupleResult_default_def
      split: option.splits if_splits)

lemma recognized_proto:
  "sft_recognized (parse_five_tuple bs) \<Longrightarrow>
     sft_proto (parse_five_tuple bs) \<in> {IPPROTO_TCP, IPPROTO_UDP, IPPROTO_ICMP}"
  by (auto simp: parse_five_tuple_def five_tuple_ports_def FiveTupleResult_default_def
      split: option.splits if_splits)

section \<open>One packet\<close>

lemma on_packet_internal_tcp:
  "on_packet_internal e bs now =
     (case tcp_packet bs of
        None \<Rightarrow> (e, None)
      | Some (ip, tcp) \<Rightarrow>
          (case hm_get (tcbs e) (flow_id ip tcp) of
             Some st \<Rightarrow>
               (let (e', d) = on_tracked_packet e (flow_id ip tcp) st ip tcp (length bs) now
                in (e', Some d))
           | None \<Rightarrow> on_unknown_packet e (flow_id ip tcp) ip tcp now))"
  by (simp add: on_packet_internal_def tcp_packet_def split: option.splits)

lemma peer_of_peer [simp]: "peer_of (peer_of c) = c"
  by (simp add: peer_of_def)

lemmas packet_defs = on_packet_def on_packet_internal_tcp on_tracked_packet_def
  on_unknown_packet_def Let_def

lemma on_packet_no_tcp: "tcp_packet bs = None \<Longrightarrow> on_packet e bs now = (e, default_decision)"
  by (simp add: packet_defs)

text \<open>The decision for a packet with the headers \<open>ip\<close> and \<open>tcp\<close>.\<close>

abbreviation decided ::
  "i32 \<Rightarrow> bool \<Rightarrow> nat \<Rightarrow> nat \<Rightarrow> Ipv4Header \<Rightarrow> TcpHeader \<Rightarrow> PacketDecision" where
  "decided k peer_new ihl off ip tcp \<equiv>
     \<lparr> kind = k, conn_id = flow_id ip tcp, peer_conn_id = peer_of (flow_id ip tcp),
       peer_is_new = peer_new, pd_ip_header_len = ihl, payload_offset = off,
       syn = tcp_syn tcp \<rparr>"

text \<open>Every outcome of the engine on a packet, with its guard, result and new table.\<close>

lemma on_packet_cases [case_names NoTcp Closed Duplicate Data StrayRst New Unknown]:
  fixes e :: FlowEngine and bs :: bytes and now :: instant
  assumes NoTcp: "tcp_packet bs = None \<Longrightarrow> on_packet e bs now = (e, default_decision) \<Longrightarrow> P"
    and Closed: "\<And>ip tcp st. tcp_packet bs = Some (ip, tcp) \<Longrightarrow>
      hm_get (tcbs e) (flow_id ip tcp) = Some st \<Longrightarrow> tcp_fin tcp \<or> tcp_rst tcp \<Longrightarrow>
      on_packet e bs now =
        (e\<lparr> tcbs := hm_del (peer_of (flow_id ip tcp)) (hm_del (flow_id ip tcp) (tcbs e)) \<rparr>,
         decided 2 False 0 0 ip tcp) \<Longrightarrow> P"
    and Duplicate: "\<And>ip tcp st. tcp_packet bs = Some (ip, tcp) \<Longrightarrow>
      hm_get (tcbs e) (flow_id ip tcp) = Some st \<Longrightarrow> \<not> (tcp_fin tcp \<or> tcp_rst tcp) \<Longrightarrow>
      tcp_seq tcp < fs_seq st \<Longrightarrow>
      on_packet e bs now =
        (e, decided 4 False (ip_header_len ip) (ip_header_len ip + tcp_header_len tcp) ip tcp)
      \<Longrightarrow> P"
    and Data: "\<And>ip tcp st. tcp_packet bs = Some (ip, tcp) \<Longrightarrow>
      hm_get (tcbs e) (flow_id ip tcp) = Some st \<Longrightarrow> \<not> (tcp_fin tcp \<or> tcp_rst tcp) \<Longrightarrow>
      \<not> tcp_seq tcp < fs_seq st \<Longrightarrow>
      on_packet e bs now =
        (e\<lparr> tcbs := hm_put (flow_id ip tcp)
              (st\<lparr> fs_seq := tcp_seq tcp
                     + word_of_nat (length bs - (ip_header_len ip + tcp_header_len tcp)),
                   fs_last_seen := now \<rparr>) (tcbs e) \<rparr>,
         decided 3 False (ip_header_len ip) (ip_header_len ip + tcp_header_len tcp) ip tcp)
      \<Longrightarrow> P"
    and StrayRst: "\<And>ip tcp. tcp_packet bs = Some (ip, tcp) \<Longrightarrow>
      hm_get (tcbs e) (flow_id ip tcp) = None \<Longrightarrow> tcp_rst tcp \<Longrightarrow>
      on_packet e bs now = (e, default_decision) \<Longrightarrow> P"
    and New: "\<And>ip tcp t peer_new. tcp_packet bs = Some (ip, tcp) \<Longrightarrow>
      hm_get (tcbs e) (flow_id ip tcp) = None \<Longrightarrow> \<not> tcp_rst tcp \<Longrightarrow> tcp_syn tcp \<Longrightarrow>
      t = hm_put (flow_id ip tcp) \<lparr> fs_seq = tcp_seq tcp + 1, fs_server_side = True,
                                     fs_last_seen = now \<rparr> (tcbs e) \<Longrightarrow>
      peer_new = (\<not> hm_has t (peer_of (flow_id ip tcp))) \<Longrightarrow>
      on_packet e bs now =
        (e\<lparr> tcbs := if peer_new
              then hm_put (peer_of (flow_id ip tcp))
                     \<lparr> fs_seq = 0, fs_server_side = False, fs_last_seen = now \<rparr> t
              else t \<rparr>,
         decided 1 peer_new 0 0 ip tcp) \<Longrightarrow> P"
    and Unknown: "\<And>ip tcp. tcp_packet bs = Some (ip, tcp) \<Longrightarrow>
      hm_get (tcbs e) (flow_id ip tcp) = None \<Longrightarrow> \<not> tcp_rst tcp \<Longrightarrow> \<not> tcp_syn tcp \<Longrightarrow>
      on_packet e bs now =
        (e, decided 5 False (ip_header_len ip) (ip_header_len ip + tcp_header_len tcp) ip tcp)
      \<Longrightarrow> P"
  shows P
proof (cases "tcp_packet bs")
  case None
  then show ?thesis by (rule NoTcp) (rule on_packet_no_tcp [OF None])
next
  case (Some hdrs)
  obtain ip tcp where t: "tcp_packet bs = Some (ip, tcp)" using Some by (cases hdrs) auto
  show ?thesis
  proof (cases "hm_get (tcbs e) (flow_id ip tcp)")
    case (Some st)
    consider "tcp_fin tcp \<or> tcp_rst tcp" | "\<not> (tcp_fin tcp \<or> tcp_rst tcp)" "tcp_seq tcp < fs_seq st"
      | "\<not> (tcp_fin tcp \<or> tcp_rst tcp)" "\<not> tcp_seq tcp < fs_seq st" by blast
    then show ?thesis
    proof cases
      case 1 show ?thesis by (rule Closed [OF t Some 1]) (use t Some 1 in \<open>simp add: packet_defs\<close>)
    next
      case 2 show ?thesis by (rule Duplicate [OF t Some 2]) (use t Some 2 in \<open>simp add: packet_defs\<close>)
    next
      case 3 show ?thesis by (rule Data [OF t Some 3]) (use t Some 3 in \<open>simp add: packet_defs\<close>)
    qed
  next
    case None
    consider "tcp_rst tcp" | "\<not> tcp_rst tcp" "tcp_syn tcp" | "\<not> tcp_rst tcp" "\<not> tcp_syn tcp" by blast
    then show ?thesis
    proof cases
      case 1 show ?thesis by (rule StrayRst [OF t None 1]) (use t None 1 in \<open>simp add: packet_defs\<close>)
    next
      case 2 show ?thesis
        by (rule New [OF t None 2 refl refl]) (use t None 2 in \<open>simp add: packet_defs\<close>)
    next
      case 3 show ?thesis by (rule Unknown [OF t None 3]) (use t None 3 in \<open>simp add: packet_defs\<close>)
    qed
  qed
qed

lemma on_packet_ids:
  assumes "tcp_packet bs = Some (ip, tcp)" and "kind (snd (on_packet e bs now)) \<noteq> 0"
  shows "conn_id (snd (on_packet e bs now)) = flow_id ip tcp"
    and "peer_conn_id (snd (on_packet e bs now)) = peer_of (flow_id ip tcp)"
    and "syn (snd (on_packet e bs now)) = tcp_syn tcp"
  using assms by (cases rule: on_packet_cases [of bs e now]; simp add: default_decision_def)+

lemma on_packet_kind_range: "kind (snd (on_packet e bs now)) \<in> {0, 1, 2, 3, 4, 5}"
  by (cases rule: on_packet_cases [of bs e now]) (simp_all add: default_decision_def)

lemma on_packet_kind0:
  assumes "tcp_packet bs = Some (ip, tcp)"
  shows "kind (snd (on_packet e bs now)) = 0 \<longleftrightarrow>
    tcp_rst tcp \<and> flow_id ip tcp \<notin> tracked_flows e"
  using assms
  by (cases rule: on_packet_cases [of bs e now])
    (simp_all add: default_decision_def tracked_flows_def hm_has_def)

lemma on_packet_tracked:
  "tracked_flows (fst (on_packet e bs now)) \<subseteq> tracked_flows e \<union> syn_opens bs"
  by (cases rule: on_packet_cases [of bs e now])
    (auto simp: tracked_flows_def syn_opens_def hm_has_def hmap_simps split: if_splits)

lemma on_packet_closed:
  assumes "kind (snd (on_packet e bs now)) = 2"
  shows "tracked_flows (fst (on_packet e bs now)) =
    tracked_flows e - {conn_id (snd (on_packet e bs now)), peer_conn_id (snd (on_packet e bs now))}"
  using assms
  by (cases rule: on_packet_cases [of bs e now])
    (auto simp: default_decision_def tracked_flows_def hm_has_def hmap_simps)

lemma on_packet_payload:
  assumes "kind (snd (on_packet e bs now)) \<in> {3, 4, 5}"
  shows "40 \<le> payload_offset (snd (on_packet e bs now))"
    and "payload_offset (snd (on_packet e bs now)) \<le> length bs"
  using assms
  by (cases rule: on_packet_cases [of bs e now];
      simp add: default_decision_def tcp_packet_bounds)+

lemma on_packet_wf: "flow_wf e \<Longrightarrow> flow_wf (fst (on_packet e bs now))"
  by (cases rule: on_packet_cases [of bs e now])
    (simp_all add: flow_wf_def hmap_simps)

section \<open>The sweep\<close>

lemma evict_stale_listed:
  assumes "flow_wf e"
  shows "c \<in> set (snd (evict_stale e now timeout)) \<longleftrightarrow>
    (\<exists>st. hm_get (tcbs e) c = Some st \<and> is_stale now timeout st)"
  using hm_get_iff [OF assms [unfolded flow_wf_def], of c]
  by (force simp: evict_stale_def Let_def)

lemma evict_stale_lookup:
  assumes "flow_wf e"
  shows "hm_get (tcbs (fst (evict_stale e now timeout))) c =
    (case hm_get (tcbs e) c of
       None \<Rightarrow> None
     | Some st \<Rightarrow> if is_stale now timeout st then None else Some st)"
proof -
  have "hm_get (tcbs (fst (evict_stale e now timeout))) c =
      (if c \<in> set (snd (evict_stale e now timeout)) then None else hm_get (tcbs e) c)"
    by (simp add: evict_stale_def Let_def hm.get_fold_del)
  then show ?thesis
    unfolding evict_stale_listed [OF assms] by (simp split: option.splits)
qed

lemma evict_stale_wf: "flow_wf e \<Longrightarrow> flow_wf (fst (evict_stale e now timeout))"
  by (simp add: evict_stale_def Let_def flow_wf_def hmap_simps)

lemma evict_stale_tracked:
  "tracked_flows (fst (evict_stale e now timeout)) =
     tracked_flows e - set (snd (evict_stale e now timeout))"
  by (auto simp: evict_stale_def Let_def tracked_flows_def hm_has_def hmap_simps)

section \<open>The tracker interface and whole histories\<close>

text \<open>
  What the rest of the daemon relies on in the flow engine, one step at a time. The lemmas of the
  locale lift it to arbitrary histories of packets and sweeps.
\<close>

locale flow_tracker =
  fixes fresh :: 'e
    and step :: "'e \<Rightarrow> bytes \<Rightarrow> instant \<Rightarrow> 'e \<times> PacketDecision"
    and sweep :: "'e \<Rightarrow> instant \<Rightarrow> 'e \<times> ConnectionId list"
    and tracked :: "'e \<Rightarrow> ConnectionId set"
    and opens :: "bytes \<Rightarrow> ConnectionId set"
    and wf :: "'e \<Rightarrow> bool"
  assumes tracked_fresh: "tracked fresh = {}"
    and wf_fresh: "wf fresh"
    and wf_step: "wf e \<Longrightarrow> wf (fst (step e bs now))"
    and wf_sweep: "wf e \<Longrightarrow> wf (fst (sweep e now))"
    and step_opens: "tracked (fst (step e bs now)) \<subseteq> tracked e \<union> opens bs"
    and step_closes: "kind (snd (step e bs now)) = 2 \<Longrightarrow>
      tracked (fst (step e bs now)) =
        tracked e - {conn_id (snd (step e bs now)), peer_conn_id (snd (step e bs now))}"
    and sweep_exact: "tracked (fst (sweep e now)) = tracked e - set (snd (sweep e now))"
    and step_payload: "kind (snd (step e bs now)) \<in> {3, 4, 5} \<Longrightarrow>
      payload_offset (snd (step e bs now)) \<le> length bs"
begin

lemma run_wf: "wf (fold (engine_step step sweep) evs fresh)"
proof -
  have "wf e \<Longrightarrow> wf (fold (engine_step step sweep) evs e)" for e
  proof (induction evs arbitrary: e)
    case (Cons ev evs)
    then show ?case by (cases ev) (auto intro: wf_step wf_sweep)
  qed simp
  then show ?thesis using wf_fresh by blast
qed

lemma run_tracked_step:
  "tracked (fold (engine_step step sweep) evs e) \<subseteq>
     tracked e \<union> (\<Union>ev \<in> set evs. event_opens opens ev)"
proof (induction evs arbitrary: e)
  case (Cons ev evs)
  have "tracked (engine_step step sweep ev e) \<subseteq> tracked e \<union> event_opens opens ev"
    using step_opens by (cases ev) (auto simp: sweep_exact)
  with Cons [of "engine_step step sweep ev e"] show ?case by auto
qed simp

lemma run_tracked_opened:
  assumes "c \<in> tracked (fold (engine_step step sweep) evs fresh)"
  shows "\<exists>bs now. EPacket bs now \<in> set evs \<and> c \<in> opens bs"
proof -
  from subsetD [OF run_tracked_step assms] obtain ev
    where ev: "ev \<in> set evs" "c \<in> event_opens opens ev"
    unfolding tracked_fresh by blast
  show ?thesis by (cases ev) (use ev in auto)
qed

lemma closed_not_tracked:
  assumes "kind (snd (step e bs now)) = 2"
  shows "conn_id (snd (step e bs now)) \<notin> tracked (fst (step e bs now))"
    and "peer_conn_id (snd (step e bs now)) \<notin> tracked (fst (step e bs now))"
  by (simp_all add: step_closes [OF assms])

end

interpretation engine: flow_tracker new_flow_engine on_packet evict_stale_connections
  tracked_flows syn_opens flow_wf
proof (unfold_locales, goal_cases)
  case 1 show ?case by (simp add: tracked_flows_def new_flow_engine_def hm_has_def)
next
  case 2 show ?case by (simp add: new_flow_engine_def flow_wf_def)
next
  case 3 then show ?case by (rule on_packet_wf)
next
  case 4 then show ?case by (simp add: evict_stale_connections_def evict_stale_wf)
next
  case 5 show ?case by (rule on_packet_tracked)
next
  case 6 then show ?case by (rule on_packet_closed)
next
  case 7 show ?case by (simp add: evict_stale_connections_def evict_stale_tracked)
next
  case 8 then show ?case by (rule on_packet_payload)
qed

section \<open>Properties of the flow engine\<close>

text \<open>C16: in every state the engine reaches by packets and sweeps, each tracked flow is the flow,
  or the reverse of the flow, of a SYN packet that was fed to it.\<close>

theorem tracked_flow_was_opened:
  "tracked_flows (fold (engine_step on_packet evict_stale_connections) evs new_flow_engine)
     \<subseteq> {c. \<exists>bs now. EPacket bs now \<in> set evs \<and> c \<in> syn_opens bs}"
  using engine.run_tracked_opened by blast

text \<open>C19: for a data, duplicate or unknown-flow decision the payload offset lies behind at least
  two minimal headers and within the packet.\<close>

theorem payload_inside_packet:
  assumes "kind (snd (on_packet e bs now)) \<in> {3, 4, 5}"
  shows "40 \<le> payload_offset (snd (on_packet e bs now))
    \<and> payload_offset (snd (on_packet e bs now)) \<le> length bs"
  using on_packet_payload [OF assms] by simp

theorem payload_inside_packet_witness:
  "kind (snd (on_packet new_flow_engine (sample_packet 100 0x10 [1, 2, 3]) 0)) = 5 \<and>
   payload_offset (snd (on_packet new_flow_engine (sample_packet 100 0x10 [1, 2, 3]) 0)) \<le> 43"
proof -
  have k: "kind (snd (on_packet new_flow_engine (sample_packet 100 0x10 [1, 2, 3]) 0)) = 5"
    by code_simp
  show ?thesis
    using payload_inside_packet [of new_flow_engine "sample_packet 100 0x10 [1, 2, 3]" 0] k
    by (simp add: sample_packet_def)
qed

text \<open>A data segment of a tracked flow that is sent again, with a non-empty payload that does
  not wrap the sequence space, is a duplicate and leaves the table unchanged.\<close>

theorem retransmission_is_duplicate:
  assumes data: "kind (snd (on_packet e bs now)) = 3"
    and hdrs: "tcp_packet bs = Some (ip, tcp)"
    and payload: "ip_header_len ip + tcp_header_len tcp < length bs"
    and nowrap: "unat (tcp_seq tcp) + (length bs - (ip_header_len ip + tcp_header_len tcp)) < 2 ^ 32"
  shows "kind (snd (on_packet (fst (on_packet e bs now)) bs later)) = 4
    \<and> fst (on_packet (fst (on_packet e bs now)) bs later) = fst (on_packet e bs now)"
proof -
  define n where "n = length bs - (ip_header_len ip + tcp_header_len tcp)"
  have n: "0 < n" "unat (tcp_seq tcp) + n < 2 ^ 32" using payload nowrap by (auto simp: n_def)
  have "unat (tcp_seq tcp + word_of_nat n) = unat (tcp_seq tcp) + n"
    using n by (simp add: unat_word_ariths unat_of_nat)
  then have "tcp_seq tcp < tcp_seq tcp + word_of_nat n"
    using n by (simp add: word_less_nat_alt)
  moreover obtain st where "hm_get (tcbs (fst (on_packet e bs now))) (flow_id ip tcp) = Some st"
    and "fs_seq st = tcp_seq tcp + word_of_nat n" and "\<not> (tcp_fin tcp \<or> tcp_rst tcp)"
    using data hdrs by (cases rule: on_packet_cases [of bs e now])
      (auto simp: default_decision_def hmap_simps n_def)
  ultimately show ?thesis using hdrs by (simp add: packet_defs)
qed

theorem retransmission_is_duplicate_witness:
  "let e = fst (on_packet new_flow_engine (sample_packet 100 0x02 []) 0);
       bs = sample_packet 101 0x10 [7, 8] in
   kind (snd (on_packet (fst (on_packet e bs 1)) bs 2)) = 4"
proof -
  define e where "e = fst (on_packet new_flow_engine (sample_packet 100 0x02 []) 0)"
  define bs where "bs = sample_packet 101 0x10 [7, 8]"
  have k: "kind (snd (on_packet e bs 1)) = 3" unfolding e_def bs_def by code_simp
  have lens: "map_option (\<lambda>(ip, tcp). (ip_header_len ip + tcp_header_len tcp, unat (tcp_seq tcp)))
      (tcp_packet bs) = Some (40, 101)" and len: "length bs = 42"
    unfolding bs_def by code_simp+
  then obtain ip tcp where h: "tcp_packet bs = Some (ip, tcp)"
    "ip_header_len ip + tcp_header_len tcp = 40" "unat (tcp_seq tcp) = 101" by auto
  have "kind (snd (on_packet (fst (on_packet e bs 1)) bs 2)) = 4"
    using retransmission_is_duplicate [OF k h(1), of 2] h len by simp
  then show ?thesis by (simp add: e_def bs_def Let_def)
qed

text \<open>A FIN or RST of a tracked flow removes the flow and its reverse, and nothing else.\<close>

theorem close_removes_both_directions:
  assumes hdrs: "tcp_packet bs = Some (ip, tcp)" and "flow_id ip tcp \<in> tracked_flows e"
    and "tcp_fin tcp \<or> tcp_rst tcp"
  shows "kind (snd (on_packet e bs now)) = 2
    \<and> tracked_flows (fst (on_packet e bs now)) =
        tracked_flows e - {flow_id ip tcp, peer_of (flow_id ip tcp)}"
  using assms
  by (cases rule: on_packet_cases [of bs e now])
     (auto simp: tracked_flows_def hm_has_def hmap_simps)

theorem close_removes_both_directions_witness:
  "let e = fst (on_packet new_flow_engine (sample_packet 100 0x02 []) 0) in
   length (tcbs e) = 2 \<and> tracked_flows (fst (on_packet e (sample_packet 101 0x01 []) 1)) = {}"
proof -
  define e where "e = fst (on_packet new_flow_engine (sample_packet 100 0x02 []) 0)"
  define bs where "bs = sample_packet 101 0x01 []"
  define c where "c = \<lparr> local_ip = 0x0100000A, foreign_ip = 0x0200000A, local_port = 1234,
    foreign_port = (80 :: u16) \<rparr>"
  have keys: "map fst (tcbs e) = [c, peer_of c]" unfolding e_def c_def by code_simp
  have "map_option (\<lambda>(ip, tcp). (flow_id ip tcp, tcp_fin tcp)) (tcp_packet bs) = Some (c, True)"
    unfolding bs_def c_def by code_simp
  then obtain ip tcp where h: "tcp_packet bs = Some (ip, tcp)" "flow_id ip tcp = c" "tcp_fin tcp"
    by auto
  have t: "tracked_flows e = {c, peer_of c}"
    using arg_cong [OF keys, of set] by (auto simp: tracked_flows_def hm_has_def map_of_eq_None_iff)
  have "length (tcbs e) = 2" using arg_cong [OF keys, of length] by simp
  moreover have "tracked_flows (fst (on_packet e bs 1)) = {}"
    using close_removes_both_directions [OF h(1), of e 1] h t by auto
  ultimately show ?thesis by (simp add: e_def bs_def Let_def)
qed

text \<open>C20: the sweep keeps exactly the flows seen less than the timeout ago, with their state.\<close>

theorem sweep_keeps_exactly_fresh_flows:
  "let e = fold (engine_step on_packet evict_stale_connections) evs new_flow_engine in
   hm_get (tcbs (fst (evict_stale_connections e now))) c =
     (case hm_get (tcbs e) c of
        None \<Rightarrow> None
      | Some st \<Rightarrow> if now - fs_last_seen st < 300 then Some st else None)"
proof -
  have wf: "flow_wf (fold (engine_step on_packet evict_stale_connections) evs new_flow_engine)"
    by (rule engine.run_wf)
  show ?thesis
    by (simp add: Let_def evict_stale_connections_def evict_stale_lookup [OF wf] is_stale_def
        duration_since_def STALE_CONNECTION_TIMEOUT_def not_less le_max_iff_disj
        split: option.splits)
qed

end
