(* ===== verification/Policy_Engine.thy ===== *)
theory Policy_Engine
  imports Flow_Engine
begin

text \<open>
  The network policy engine (crates/net_policy_engine/src/lib.rs): rules grouped under string
  keys, one chain and one deletion index per direction, and the lookup that turns a five-tuple
  into the list of keys to try, in order of priority. The lemmas relate the string keys to
  addresses and prefixes, show the index invariant of every operation, and show that the lookup
  finds an applicable rule of the smallest priority number exactly when there is one.
\<close>

section \<open>Addresses and prefixes\<close>

text \<open>\<^verbatim>\<open>(!0u32).wrapping_shl((32 - m) as u32)\<close>: the shift count is taken modulo 32.\<close>

definition net_mask :: "i32 \<Rightarrow> u32" where
  "net_mask m = push_bit (nat ((32 - m) mod 32)) (- 1)"

definition split_at_slash :: "string \<Rightarrow> string \<times> string option" where
  "split_at_slash s =
     (case dropWhile (\<lambda>c. c \<noteq> CHR ''/'') s of
        [] \<Rightarrow> (s, None)
      | _ # rest \<Rightarrow> (takeWhile (\<lambda>c. c \<noteq> CHR ''/'') s, Some rest))"

definition parse_cidr :: "string \<Rightarrow> string \<times> i32" where
  "parse_cidr cidr =
     (let (ip_str, m) =
            (case split_at_slash cidr of
               (ip, Some rest) \<Rightarrow> (ip, case parse_i32 rest of Some m \<Rightarrow> m | None \<Rightarrow> 32)
             | (ip, None) \<Rightarrow> (ip, 32));
          ip_u32 = (case parse_ipv4 ip_str of Some w \<Rightarrow> w | None \<Rightarrow> 0)
      in (ipv4_addr_to_string (ip_u32 AND net_mask m), m))"

definition ipv4_cidr_to_ip :: "string \<Rightarrow> i32 \<Rightarrow> string" where
  "ipv4_cidr_to_ip ip m =
     (let ip_u32 = (case parse_ipv4 ip of Some w \<Rightarrow> w | None \<Rightarrow> 0)
      in ipv4_addr_to_string (ip_u32 AND net_mask m))"

section \<open>Rules\<close>

datatype FlowDir = kIngress | kEgress

record RulePort =
  end_port :: u16
  port :: u16
  port_proto :: u8

record RuleDetail =
  proto :: u8
  priority :: i32
  addr_type :: i32
  direction :: FlowDir
  action :: u32
  action_dsc :: string
  policy_key :: string
  src_ip :: string
  dst_ip :: string
  ports :: "RulePort list"

definition create_rule_key :: "RuleDetail \<Rightarrow> string \<times> i32" where
  "create_rule_key r =
     (case direction r of
        kIngress \<Rightarrow>
          (let (ip, m) = parse_cidr (src_ip r)
           in (dec_int (priority r) @ ''-'' @ dec_nat (unat (proto r)) @ ''-'' @ ip @ ''/''
                 @ dec_int m @ ''-'' @ dst_ip r, m))
      | kEgress \<Rightarrow>
          (let (ip, m) = parse_cidr (dst_ip r)
           in (dec_int (priority r) @ ''-'' @ dec_nat (unat (proto r)) @ ''-'' @ src_ip r @ ''-''
                 @ ip @ ''/'' @ dec_int m, m)))"

fun port_loop :: "RulePort list \<Rightarrow> u16 \<Rightarrow> bool \<Rightarrow> bool" where
  "port_loop [] dst_port is_match = is_match"
| "port_loop (p # ps) dst_port is_match =
     (if end_port p = 0 then True
      else if dst_port > end_port p then port_loop ps dst_port is_match
      else if dst_port < port p then port_loop ps dst_port is_match
      else True)"

definition rule_matches :: "RuleDetail \<Rightarrow> u8 \<Rightarrow> u16 \<Rightarrow> u16 \<Rightarrow> bool" where
  "rule_matches r pkt_proto dst_port src_port =
     (let protocol = (if pkt_proto = IPPROTO_ICMP then proto r else pkt_proto) in
      if \<not> (proto r = 0 \<or> protocol = proto r) then False
      else let is_match = port_loop (ports r) dst_port (ports r = [] \<or> pkt_proto = IPPROTO_ICMP)
           in if \<not> is_match then False
              else if src_port = 53 \<or> dst_port = 53 then True
              else True)"

section \<open>Groups, chains and trees\<close>

record RuleGroup =
  rules :: "(string, RuleDetail) hmap"

definition add_rule_detail :: "RuleGroup \<Rightarrow> RuleDetail \<Rightarrow> RulePort \<Rightarrow> RuleGroup" where
  "add_rule_detail g rule p =
     (let rule = rule\<lparr> ports := [] \<rparr> in
      case hm_get (rules g) (policy_key rule) of
        None \<Rightarrow> g\<lparr> rules := hm_put (policy_key rule) (rule\<lparr> ports := ports rule @ [p] \<rparr>) (rules g) \<rparr>
      | Some existing \<Rightarrow>
          g\<lparr> rules := hm_put (policy_key rule) (existing\<lparr> ports := ports existing @ [p] \<rparr>)
                       (rules g) \<rparr>)"

definition delete_rule :: "RuleGroup \<Rightarrow> string \<Rightarrow> RuleGroup" where
  "delete_rule g policy_name = g\<lparr> rules := hm_del policy_name (rules g) \<rparr>"

type_synonym rule_order = "(string \<times> RuleDetail) list \<Rightarrow> (string \<times> RuleDetail) list"

definition match_rule :: "rule_order \<Rightarrow> RuleGroup \<Rightarrow> u8 \<Rightarrow> u16 \<Rightarrow> u16 \<Rightarrow> RuleDetail option" where
  "match_rule it g pkt_proto dst_port src_port =
     find (\<lambda>r. rule_matches r pkt_proto dst_port src_port) (map snd (it (rules g)))"

record RuleChain =
  chain :: "(string, RuleGroup) hmap"

definition match_rule_group ::
  "rule_order \<Rightarrow> RuleChain \<Rightarrow> string \<Rightarrow> u8 \<Rightarrow> u16 \<Rightarrow> u16 \<Rightarrow> RuleDetail option" where
  "match_rule_group it c key pkt_proto dst_port src_port =
     (case hm_get (chain c) key of
        None \<Rightarrow> None
      | Some g \<Rightarrow> match_rule it g pkt_proto dst_port src_port)"

definition add_rule_to_chain :: "RuleChain \<Rightarrow> string \<Rightarrow> RuleDetail \<Rightarrow> RulePort \<Rightarrow> RuleChain" where
  "add_rule_to_chain c key policy p =
     (let g = (case hm_get (chain c) key of None \<Rightarrow> \<lparr> rules = [] \<rparr> | Some g \<Rightarrow> g)
      in c\<lparr> chain := hm_put key (add_rule_detail g policy p) (chain c) \<rparr>)"

definition delete_rule_from_chain :: "RuleChain \<Rightarrow> string \<Rightarrow> string \<Rightarrow> RuleChain" where
  "delete_rule_from_chain c policy_name rule_key =
     (case hm_get (chain c) rule_key of
        None \<Rightarrow> c
      | Some g \<Rightarrow>
          (let g' = delete_rule g policy_name
           in if length (rules g') = 0 then c\<lparr> chain := hm_del rule_key (chain c) \<rparr>
              else c\<lparr> chain := hm_put rule_key g' (chain c) \<rparr>))"

record PolicyTree =
  tree_chain :: RuleChain
  tree :: "(string, (string, FlowDir) hmap) hmap"

definition new_policy_tree :: PolicyTree where
  "new_policy_tree = \<lparr> tree_chain = \<lparr> chain = [] \<rparr>, tree = [] \<rparr>"

definition tree_size :: "PolicyTree \<Rightarrow> nat" where
  "tree_size t = length (chain (tree_chain t))"

definition tree_clear :: "PolicyTree \<Rightarrow> PolicyTree" where
  "tree_clear t = t\<lparr> tree := [], tree_chain := (tree_chain t)\<lparr> chain := [] \<rparr> \<rparr>"

definition add_policy_to_chain :: "PolicyTree \<Rightarrow> RuleDetail \<Rightarrow> RulePort \<Rightarrow> PolicyTree" where
  "add_policy_to_chain t policy p =
     (let key = fst (create_rule_key policy);
          keys = (case hm_get (tree t) (policy_key policy) of None \<Rightarrow> [] | Some ks \<Rightarrow> ks)
      in t\<lparr> tree_chain := add_rule_to_chain (tree_chain t) key policy p,
            tree := hm_put (policy_key policy) (hm_put key (direction policy) keys) (tree t) \<rparr>)"

definition delete_policy_from_tree :: "PolicyTree \<Rightarrow> string \<Rightarrow> PolicyTree" where
  "delete_policy_from_tree t name =
     (case hm_get (tree t) name of
        None \<Rightarrow> t
      | Some keys \<Rightarrow>
          (let t' = t\<lparr> tree := hm_del name (tree t),
                       tree_chain := fold (\<lambda>key c. delete_rule_from_chain c name key)
                                       (map fst keys) (tree_chain t) \<rparr>
           in if tree t' = [] then tree_clear t' else t'))"

section \<open>The engine\<close>

text \<open>A \<^verbatim>\<open>BTreeSet<i32>\<close> is the sorted list of its elements.\<close>

record RustPolicyEngine =
  input_tree :: PolicyTree
  output_tree :: PolicyTree
  mask_cidr :: "i32 list"
  priorities :: "i32 list"

definition new_policy_engine :: RustPolicyEngine where
  "new_policy_engine =
     \<lparr> input_tree = new_policy_tree, output_tree = new_policy_tree, mask_cidr = [32],
       priorities = [] \<rparr>"

definition engine_tree :: "RustPolicyEngine \<Rightarrow> FlowDir \<Rightarrow> PolicyTree" where
  "engine_tree e dir = (case dir of kIngress \<Rightarrow> input_tree e | kEgress \<Rightarrow> output_tree e)"

definition update_tree ::
  "RustPolicyEngine \<Rightarrow> FlowDir \<Rightarrow> (PolicyTree \<Rightarrow> PolicyTree) \<Rightarrow> RustPolicyEngine" where
  "update_tree e dir f =
     (case dir of kIngress \<Rightarrow> e\<lparr> input_tree := f (input_tree e) \<rparr>
                | kEgress \<Rightarrow> e\<lparr> output_tree := f (output_tree e) \<rparr>)"

definition add_mask_and_priority :: "RustPolicyEngine \<Rightarrow> i32 \<Rightarrow> i32 \<Rightarrow> RustPolicyEngine" where
  "add_mask_and_priority e prio m =
     (let e1 = e\<lparr> priorities := insort_insert prio (priorities e) \<rparr>
      in if m > 0 \<and> m \<le> 32 then e1\<lparr> mask_cidr := insort_insert m (mask_cidr e1) \<rparr>
         else e1)"

text \<open>The keys tried for one known priority.\<close>

definition keys_for_priority ::
  "i32 list \<Rightarrow> u8 \<Rightarrow> string \<Rightarrow> string \<Rightarrow> FlowDir \<Rightarrow> i32 \<Rightarrow> string list" where
  "keys_for_priority masks pkt_proto src_addr dst_addr dir prio =
     (let ingress = (dir = kIngress);
          cidr_addr = (if ingress then src_addr else dst_addr);
          exact_addr = (if ingress then dst_addr else src_addr);
          proto_pfx = dec_int prio @ ''-'' @ dec_nat (unat pkt_proto) @ ''-'';
          proto0_pfx = dec_int prio @ ''-0-'';
          wildcard_suffix = (if ingress then ''0.0.0.0/32-'' @ exact_addr
                             else exact_addr @ ''-0.0.0.0/32'');
          cidr_suffix = (\<lambda>m.
            let cidr = ipv4_cidr_to_ip cidr_addr m @ ''/'' @ dec_int m
            in if ingress then cidr @ ''-'' @ exact_addr else exact_addr @ ''-'' @ cidr)
      in [proto_pfx @ wildcard_suffix, proto0_pfx @ wildcard_suffix]
         @ concat (map (\<lambda>m. [proto_pfx @ cidr_suffix m, proto0_pfx @ cidr_suffix m]) masks))"

definition create_rule_key_by_tuple ::
  "RustPolicyEngine \<Rightarrow> u8 \<Rightarrow> string \<Rightarrow> string \<Rightarrow> FlowDir \<Rightarrow> string list" where
  "create_rule_key_by_tuple e pkt_proto src_addr dst_addr dir =
     concat (map (keys_for_priority (mask_cidr e) pkt_proto src_addr dst_addr dir) (priorities e))"

definition add_policy :: "RustPolicyEngine \<Rightarrow> RuleDetail \<Rightarrow> RulePort \<Rightarrow> RustPolicyEngine" where
  "add_policy e policy p =
     add_mask_and_priority (update_tree e (direction policy) (\<lambda>t. add_policy_to_chain t policy p))
       (priority policy) (snd (create_rule_key policy))"

definition delete_policy :: "RustPolicyEngine \<Rightarrow> FlowDir \<Rightarrow> string \<Rightarrow> RustPolicyEngine" where
  "delete_policy e dir name = update_tree e dir (\<lambda>t. delete_policy_from_tree t name)"

definition clear_cfg :: "RustPolicyEngine \<Rightarrow> RustPolicyEngine" where
  "clear_cfg e =
     e\<lparr> mask_cidr := insort_insert 32 [], priorities := [],
        input_tree := tree_clear (input_tree e), output_tree := tree_clear (output_tree e) \<rparr>"

fun first_match :: "(string \<Rightarrow> RuleDetail option) \<Rightarrow> string list \<Rightarrow> RuleDetail option" where
  "first_match lookup [] = None"
| "first_match lookup (key # keys) =
     (case lookup key of Some r \<Rightarrow> Some r | None \<Rightarrow> first_match lookup keys)"

definition match_five_tuple ::
  "rule_order \<Rightarrow> RustPolicyEngine \<Rightarrow> u8 \<Rightarrow> u16 \<Rightarrow> u16 \<Rightarrow> string \<Rightarrow> string \<Rightarrow> FlowDir
     \<Rightarrow> RuleDetail option" where
  "match_five_tuple it e pkt_proto dst_port src_port src_addr dst_addr dir =
     (let t = engine_tree e dir in
      if tree_size t = 0 then None
      else first_match (\<lambda>key. match_rule_group it (tree_chain t) key pkt_proto dst_port src_port)
             (create_rule_key_by_tuple e pkt_proto src_addr dst_addr dir))"

type_synonym group_order = "(string \<times> RuleGroup) list \<Rightarrow> (string \<times> RuleGroup) list"

definition all_rules ::
  "group_order \<Rightarrow> rule_order \<Rightarrow> RustPolicyEngine \<Rightarrow> FlowDir \<Rightarrow> RuleDetail list" where
  "all_rules itg it e dir =
     concat (map (\<lambda>(_, g). map snd (it (rules g))) (itg (chain (tree_chain (engine_tree e dir)))))"

definition dir_from_i32 :: "i32 \<Rightarrow> FlowDir" where
  "dir_from_i32 dir = (if dir = 0 then kIngress else kEgress)"

section \<open>What the engine promises\<close>

text \<open>
  A prefix covers an address when their leading bits agree. The engine reads a prefix through
  \<^const>\<open>parse_cidr\<close>; its wildcard is the address 0.0.0.0 with no prefix length (or /32).
\<close>

definition cidr_value :: "string \<Rightarrow> u32 \<times> i32" where
  "cidr_value cidr =
     (case split_at_slash cidr of
        (ip, rest) \<Rightarrow>
          (case parse_ipv4 ip of Some w \<Rightarrow> w | None \<Rightarrow> 0,
           case rest of None \<Rightarrow> 32 | Some r \<Rightarrow> (case parse_i32 r of Some m \<Rightarrow> m | None \<Rightarrow> 32)))"

definition cidr_covers :: "string \<Rightarrow> u32 \<Rightarrow> bool" where
  "cidr_covers cidr a \<longleftrightarrow>
     (case cidr_value cidr of
        (w, m) \<Rightarrow> (w = 0 \<and> m = 32) \<or>
                  (0 < m \<and> m \<le> 32 \<and> drop_bit (nat (32 - m)) a = drop_bit (nat (32 - m)) w))"

definition port_covers :: "RulePort list \<Rightarrow> u16 \<Rightarrow> bool" where
  "port_covers ps dst_port \<longleftrightarrow>
     ps = [] \<or> list_ex (\<lambda>p. end_port p = 0 \<or> port p \<le> dst_port \<and> dst_port \<le> end_port p) ps"

text \<open>A rule applies to a packet of its direction, by protocol, addresses and port.\<close>

definition rule_applies :: "RuleDetail \<Rightarrow> u8 \<Rightarrow> u16 \<Rightarrow> u32 \<Rightarrow> u32 \<Rightarrow> bool" where
  "rule_applies r pkt_proto dst_port src dst \<longleftrightarrow>
     (proto r = 0 \<or> proto r = pkt_proto)
     \<and> (pkt_proto = IPPROTO_ICMP \<or> port_covers (ports r) dst_port)
     \<and> (case direction r of
          kIngress \<Rightarrow> dst_ip r = ipv4_addr_to_string dst \<and> cidr_covers (src_ip r) src
        | kEgress \<Rightarrow> src_ip r = ipv4_addr_to_string src \<and> cidr_covers (dst_ip r) dst)"

text \<open>
  The packets a stored rule is written for, read off the rule alone: \<^const>\<open>rule_matches\<close> accepts
  protocol and port (it takes every rule's protocol for ICMP), the pod's own address is the packet's,
  and the other address lies in the prefix, where /0 contains every address.
\<close>

definition peer_cidr :: "RuleDetail \<Rightarrow> string" where
  "peer_cidr r = (case direction r of kIngress \<Rightarrow> src_ip r | kEgress \<Rightarrow> dst_ip r)"

definition address_in_prefix :: "string \<Rightarrow> u32 \<Rightarrow> bool" where
  "address_in_prefix cidr a \<longleftrightarrow>
     (case cidr_value cidr of
        (w, m) \<Rightarrow> (w = 0 \<and> m = 32) \<or>
                  (0 \<le> m \<and> m \<le> 32 \<and> drop_bit (nat (32 - m)) a = drop_bit (nat (32 - m)) w))"

definition written_for :: "RuleDetail \<Rightarrow> u8 \<Rightarrow> u16 \<Rightarrow> u16 \<Rightarrow> u32 \<Rightarrow> u32 \<Rightarrow> bool" where
  "written_for r pkt_proto dst_port src_port src dst \<longleftrightarrow>
     rule_matches r pkt_proto dst_port src_port
     \<and> (case direction r of
          kIngress \<Rightarrow> dst_ip r = ipv4_addr_to_string dst \<and> address_in_prefix (src_ip r) src
        | kEgress \<Rightarrow> src_ip r = ipv4_addr_to_string src \<and> address_in_prefix (dst_ip r) dst)"

definition unreachable_for :: "RuleDetail \<Rightarrow> u8 \<Rightarrow> bool" where
  "unreachable_for r pkt_proto \<longleftrightarrow>
     snd (cidr_value (peer_cidr r)) = 0
     \<or> (pkt_proto = IPPROTO_ICMP \<and> proto r \<noteq> 0 \<and> proto r \<noteq> IPPROTO_ICMP)"

text \<open>The two shapes of a rule key.\<close>

definition ingress_key :: "i32 \<Rightarrow> nat \<Rightarrow> u32 \<Rightarrow> i32 \<Rightarrow> string \<Rightarrow> string" where
  "ingress_key prio p w m exact =
     dec_int prio @ ''-'' @ dec_nat p @ ''-'' @ ipv4_addr_to_string w @ ''/'' @ dec_int m @ ''-''
       @ exact"

definition egress_key :: "i32 \<Rightarrow> nat \<Rightarrow> string \<Rightarrow> u32 \<Rightarrow> i32 \<Rightarrow> string" where
  "egress_key prio p exact w m =
     dec_int prio @ ''-'' @ dec_nat p @ ''-'' @ exact @ ''-'' @ ipv4_addr_to_string w @ ''/''
       @ dec_int m"

text \<open>The rule a policy has under a key, in a chain, a tree and the engine.\<close>

definition chain_lookup :: "RuleChain \<Rightarrow> string \<Rightarrow> string \<Rightarrow> RuleDetail option" where
  "chain_lookup c key name =
     (case hm_get (chain c) key of None \<Rightarrow> None | Some g \<Rightarrow> hm_get (rules g) name)"

definition tree_lookup :: "PolicyTree \<Rightarrow> string \<Rightarrow> string \<Rightarrow> RuleDetail option" where
  "tree_lookup t key name = chain_lookup (tree_chain t) key name"

definition rule_lookup :: "RustPolicyEngine \<Rightarrow> FlowDir \<Rightarrow> string \<Rightarrow> string \<Rightarrow> RuleDetail option" where
  "rule_lookup e dir key name = tree_lookup (engine_tree e dir) key name"

text \<open>A further port of a policy under a key joins the ports of the rule already there.\<close>

definition merged_rule :: "RuleDetail option \<Rightarrow> RuleDetail \<Rightarrow> RulePort \<Rightarrow> RuleDetail" where
  "merged_rule old r p =
     (case old of None \<Rightarrow> r\<lparr> ports := [p] \<rparr> | Some x \<Rightarrow> x\<lparr> ports := ports x @ [p] \<rparr>)"

text \<open>The chain holds non-empty groups of rules filed under their own key and policy name.\<close>

definition chain_wf :: "FlowDir \<Rightarrow> RuleChain \<Rightarrow> bool" where
  "chain_wf dir c \<longleftrightarrow>
     hm_wf (chain c) \<and>
     (\<forall>key g. hm_get (chain c) key = Some g \<longrightarrow>
        hm_wf (rules g) \<and> rules g \<noteq> [] \<and>
        (\<forall>name r. hm_get (rules g) name = Some r \<longrightarrow>
           policy_key r = name \<and> fst (create_rule_key r) = key \<and> direction r = dir))"

text \<open>The deletion index names exactly the keys a policy has rules under.\<close>

definition index_has :: "PolicyTree \<Rightarrow> string \<Rightarrow> string \<Rightarrow> bool" where
  "index_has t name key \<longleftrightarrow>
     (case hm_get (tree t) name of None \<Rightarrow> False | Some ks \<Rightarrow> hm_has ks key)"

definition tree_wf :: "FlowDir \<Rightarrow> PolicyTree \<Rightarrow> bool" where
  "tree_wf dir t \<longleftrightarrow>
     chain_wf dir (tree_chain t) \<and> hm_wf (tree t) \<and>
     (\<forall>name key. index_has t name key \<longleftrightarrow> tree_lookup t key name \<noteq> None)"

definition known_rule :: "RustPolicyEngine \<Rightarrow> RuleDetail \<Rightarrow> bool" where
  "known_rule e r \<longleftrightarrow>
     priority r \<in> set (priorities e) \<and>
     (let m = snd (create_rule_key r) in 0 < m \<and> m \<le> 32 \<longrightarrow> m \<in> set (mask_cidr e))"

definition engine_wf :: "RustPolicyEngine \<Rightarrow> bool" where
  "engine_wf e \<longleftrightarrow>
     tree_wf kIngress (input_tree e) \<and> tree_wf kEgress (output_tree e) \<and>
     sorted (priorities e) \<and> sorted (mask_cidr e) \<and> set (mask_cidr e) \<subseteq> {1..32} \<and>
     (\<forall>dir key name r. rule_lookup e dir key name = Some r \<longrightarrow> known_rule e r)"

text \<open>The operations of the daemon on the engine, and what each does to the stored rules.\<close>

datatype policy_op = PAdd RuleDetail RulePort | PDelete FlowDir string | PClear

type_synonym rule_base = "FlowDir \<Rightarrow> string \<Rightarrow> string \<Rightarrow> RuleDetail option"

fun base_step :: "policy_op \<Rightarrow> rule_base \<Rightarrow> rule_base" where
  "base_step (PAdd r p) b =
     (\<lambda>dir key name. if dir = direction r \<and> key = fst (create_rule_key r) \<and> name = policy_key r
        then Some (merged_rule (b dir key name) r p) else b dir key name)"
| "base_step (PDelete d n) b =
     (\<lambda>dir key name. if dir = d \<and> name = n then None else b dir key name)"
| "base_step PClear b = (\<lambda>dir key name. None)"

fun engine_op :: "policy_op \<Rightarrow> RustPolicyEngine \<Rightarrow> RustPolicyEngine" where
  "engine_op (PAdd r p) e = add_policy e r p"
| "engine_op (PDelete d n) e = delete_policy e d n"
| "engine_op PClear e = clear_cfg e"

definition policy_run :: "policy_op list \<Rightarrow> RustPolicyEngine" where
  "policy_run ops = fold engine_op ops new_policy_engine"

text \<open>An ingress rule for the examples.\<close>

definition sample_rule :: "string \<Rightarrow> i32 \<Rightarrow> string \<Rightarrow> u32 \<Rightarrow> RuleDetail" where
  "sample_rule name prio src act =
     \<lparr> proto = 6, priority = prio, addr_type = 0, direction = kIngress, action = act,
       action_dsc = [], policy_key = name, src_ip = src, dst_ip = ''10.0.0.2'', ports = [] \<rparr>"

section \<open>Prefixes\<close>

lemma parse_cidr_value:
  "parse_cidr cidr =
     (ipv4_addr_to_string (fst (cidr_value cidr) AND net_mask (snd (cidr_value cidr))),
      snd (cidr_value cidr))"
  by (simp add: parse_cidr_def cidr_value_def Let_def split: prod.splits option.splits)

lemma ipv4_cidr_to_ip_addr:
  "ipv4_cidr_to_ip (ipv4_addr_to_string a) m = ipv4_addr_to_string (a AND net_mask m)"
  by (simp add: ipv4_cidr_to_ip_def dec_simps)

lemma bit_net_mask:
  assumes "0 < m" and "m \<le> 32"
  shows "bit (net_mask m) i \<longleftrightarrow> nat (32 - m) \<le> i \<and> i < 32"
proof -
  have "(32 - m) mod 32 = 32 - m" using assms by (intro mod_pos_pos_trivial) auto
  then show ?thesis by (auto simp: net_mask_def bit_not_iff bit_mask_iff)
qed

lemma net_mask_prefix:
  fixes a b :: u32
  assumes "0 < m" and "m \<le> 32"
  shows "a AND net_mask m = b AND net_mask m \<longleftrightarrow>
    drop_bit (nat (32 - m)) a = drop_bit (nat (32 - m)) b" (is "?mask \<longleftrightarrow> ?drop")
proof
  assume m: ?mask
  show ?drop
  proof (rule bit_word_eqI)
    fix i assume "i < LENGTH(32)"
    show "bit (drop_bit (nat (32 - m)) a) i = bit (drop_bit (nat (32 - m)) b) i"
    proof (cases "nat (32 - m) + i < 32")
      case True
      have "bit (a AND net_mask m) (nat (32 - m) + i) = bit (b AND net_mask m) (nat (32 - m) + i)"
        using m by simp
      then show ?thesis using assms True by (simp add: bit_drop_bit_eq bit_and_iff bit_net_mask)
    next
      case False
      then show ?thesis by (auto simp: bit_drop_bit_eq dest: bit_imp_le_length)
    qed
  qed
next
  assume d: ?drop
  show ?mask
  proof (rule bit_word_eqI)
    fix i assume "i < LENGTH(32)"
    have "nat (32 - m) \<le> i \<Longrightarrow> bit a i = bit b i"
      using arg_cong [OF d, of "\<lambda>w. bit w (i - nat (32 - m))"] by (simp add: bit_drop_bit_eq)
    then show "bit (a AND net_mask m) i = bit (b AND net_mask m) i"
      using assms by (auto simp: bit_and_iff bit_net_mask)
  qed
qed

lemma net_mask_32 [simp]: "net_mask 32 = - 1"
  by (simp add: net_mask_def)

lemma wildcard_text: "''0.0.0.0'' = ipv4_addr_to_string 0"
  by (simp add: ipv4_addr_to_string_def dotted_def ne_byte_def dec_nat.simps)

section \<open>Keys are injective\<close>

lemma dec_int_inj [dec_simps]: "dec_int a = dec_int b \<longleftrightarrow> a = b"
proof -
  have "CHR ''-'' # dec_nat m \<noteq> dec_nat n" for m n
    using seps_notin_dec_nat(1) [of n] by (metis list.set_intros(1))
  then show ?thesis by (auto simp: dec_int_def dec_nat_inj; metis)
qed

lemma dec_int_sep:
  "dec_int a @ CHR ''-'' # s = dec_int b @ CHR ''-'' # t \<longleftrightarrow> a = b \<and> s = t"
proof -
  have mixed: "CHR ''-'' # dec_nat m @ CHR ''-'' # s \<noteq> dec_nat n @ CHR ''-'' # t" for m n s t
    using hd_dec_nat_digit [of n] by (metis append_is_Nil_conv dec_nat_not_Nil hd_append2 list.sel(1) seps_not_digits(1))
  have same: "dec_nat m @ CHR ''-'' # s = dec_nat n @ CHR ''-'' # t \<longleftrightarrow> m = n \<and> s = t" for m n
    by (simp add: append_sep_eq dec_nat_inj)
  show ?thesis using mixed mixed [symmetric] by (auto simp: dec_int_def same)
qed

lemma dec_nat_sep:
  "dec_nat a @ CHR ''-'' # s = dec_nat b @ CHR ''-'' # t \<longleftrightarrow> a = b \<and> s = t"
  by (simp add: append_sep_eq dec_nat_inj)

lemma dec_int_notin [simp]: "CHR ''/'' \<notin> set (dec_int a)" "0 \<le> a \<Longrightarrow> CHR ''-'' \<notin> set (dec_int a)"
  by (auto simp: dec_int_def)

text \<open>The tail of an ingress key: prefix, then exact address.\<close>

lemma ingress_tail_eq:
  "ipv4_addr_to_string v @ CHR ''/'' # dec_int m @ CHR ''-'' # s =
   ipv4_addr_to_string w @ CHR ''/'' # dec_int n @ CHR ''-'' # t \<longleftrightarrow> v = w \<and> m = n \<and> s = t"
  by (auto simp: append_sep_eq dec_int_sep dec_simps)

text \<open>The tail of an egress key: exact address, then prefix; only the probe has a known shape.\<close>

lemma egress_tail_eq:
  assumes "0 \<le> n"
  shows "s @ CHR ''-'' # ipv4_addr_to_string v @ CHR ''/'' # dec_int m =
    ipv4_addr_to_string x @ CHR ''-'' # ipv4_addr_to_string w @ CHR ''/'' # dec_int n \<longleftrightarrow>
    s = ipv4_addr_to_string x \<and> v = w \<and> m = n" (is "?l = ?r \<longleftrightarrow> _")
proof (cases "0 \<le> m")
  case True
  then show ?thesis using assms
    by (subst append_sep_eq_right) (auto simp: append_sep_eq dec_simps)
next
  case False
  have "count_list ?r (CHR ''-'') = 1"
    using assms by (simp add: count_list_append count_notin)
  moreover have "count_list ?l (CHR ''-'') \<ge> 2"
    using False by (simp add: dec_int_def count_list_append)
  ultimately have "?l \<noteq> ?r" by (metis numeral_le_one_iff semiring_norm(69))
  then show ?thesis using False assms by auto
qed

section \<open>Which keys hit\<close>

lemma rule_matches_ports:
  "rule_matches r p dst_port src_port \<longleftrightarrow>
     (proto r = 0 \<or> p = IPPROTO_ICMP \<or> proto r = p)
     \<and> (p = IPPROTO_ICMP \<or> port_covers (ports r) dst_port)"
proof -
  have "port_loop ps dst_port b \<longleftrightarrow>
      b \<or> list_ex (\<lambda>q. end_port q = 0 \<or> port q \<le> dst_port \<and> dst_port \<le> end_port q) ps" for ps b
    by (induction ps) (auto simp: not_less)
  then show ?thesis by (auto simp: rule_matches_def port_covers_def Let_def)
qed


lemma ingress_key_inj:
  "ingress_key a b v m s = ingress_key a' b' w n t \<longleftrightarrow> a = a' \<and> b = b' \<and> v = w \<and> m = n \<and> s = t"
  by (simp add: ingress_key_def dec_int_sep dec_nat_sep ingress_tail_eq)

lemma egress_key_inj:
  "0 \<le> n \<Longrightarrow> egress_key a b s v m = egress_key a' b' (ipv4_addr_to_string x) w n \<longleftrightarrow>
     a = a' \<and> b = b' \<and> s = ipv4_addr_to_string x \<and> v = w \<and> m = n"
  using egress_tail_eq [of n s v m x w] by (simp add: egress_key_def dec_int_sep dec_nat_sep)

lemma create_rule_key_shape:
  "direction r = kIngress \<Longrightarrow> fst (create_rule_key r) =
     (case cidr_value (src_ip r) of (w, m) \<Rightarrow>
        ingress_key (priority r) (unat (proto r)) (w AND net_mask m) m (dst_ip r))"
  "direction r = kEgress \<Longrightarrow> fst (create_rule_key r) =
     (case cidr_value (dst_ip r) of (w, m) \<Rightarrow>
        egress_key (priority r) (unat (proto r)) (src_ip r) (w AND net_mask m) m)"
  by (simp_all add: create_rule_key_def parse_cidr_value ingress_key_def egress_key_def
      split: prod.splits)

lemma create_rule_key_mask:
  "snd (create_rule_key r) =
     snd (cidr_value (case direction r of kIngress \<Rightarrow> src_ip r | kEgress \<Rightarrow> dst_ip r))"
  by (simp add: create_rule_key_def parse_cidr_value split: FlowDir.splits)

lemma probe_texts:
  "dec_nat 0 = ''0''" "dec_int 32 = ''32''"
  by (simp_all add: dec_int_def dec_nat.simps [of 0] dec_nat.simps [of 32] dec_nat.simps [of 3])

lemma probe_keys:
  "set (keys_for_priority masks p (ipv4_addr_to_string src) (ipv4_addr_to_string dst) kIngress prio)
   = (\<Union>b\<in>{unat p, 0}. \<Union>(v, m)\<in>insert (0, 32) ((\<lambda>m. (src AND net_mask m, m)) ` set masks).
        {ingress_key prio b v m (ipv4_addr_to_string dst)})"
  "set (keys_for_priority masks p (ipv4_addr_to_string src) (ipv4_addr_to_string dst) kEgress prio)
   = (\<Union>b\<in>{unat p, 0}. \<Union>(v, m)\<in>insert (0, 32) ((\<lambda>m. (dst AND net_mask m, m)) ` set masks).
        {egress_key prio b (ipv4_addr_to_string src) v m})"
  by (auto simp add: keys_for_priority_def Let_def ingress_key_def egress_key_def
      ipv4_cidr_to_ip_addr probe_texts wildcard_text [symmetric])

lemma ingress_key_hit:
  assumes "direction r = kIngress"
  shows "fst (create_rule_key r) \<in> set (keys_for_priority masks p (ipv4_addr_to_string src)
      (ipv4_addr_to_string dst) kIngress prio) \<longleftrightarrow>
    priority r = prio \<and> (proto r = p \<or> proto r = 0) \<and> dst_ip r = ipv4_addr_to_string dst \<and>
    (case cidr_value (src_ip r) of (w, m) \<Rightarrow>
       (w AND net_mask m = 0 \<and> m = 32) \<or> (m \<in> set masks \<and> w AND net_mask m = src AND net_mask m))"
  unfolding create_rule_key_shape(1) [OF assms] probe_keys
  by (cases "cidr_value (src_ip r)") (auto simp: ingress_key_inj word_unat_eq_iff [of "proto r"])

lemma egress_key_hit:
  assumes "direction r = kEgress" and "set masks \<subseteq> {1..32}"
  shows "fst (create_rule_key r) \<in> set (keys_for_priority masks p (ipv4_addr_to_string src)
      (ipv4_addr_to_string dst) kEgress prio) \<longleftrightarrow>
    priority r = prio \<and> (proto r = p \<or> proto r = 0) \<and> src_ip r = ipv4_addr_to_string src \<and>
    (case cidr_value (dst_ip r) of (w, m) \<Rightarrow>
       (w AND net_mask m = 0 \<and> m = 32) \<or> (m \<in> set masks \<and> w AND net_mask m = dst AND net_mask m))"
proof -
  have nn: "m \<in> set masks \<Longrightarrow> 0 \<le> m" for m using assms(2) by force
  show ?thesis
    unfolding create_rule_key_shape(2) [OF assms(1)] probe_keys
    by (cases "cidr_value (dst_ip r)") (auto simp: egress_key_inj nn word_unat_eq_iff [of "proto r"])
qed

text \<open>For a rule the engine knows, its key is probed exactly when its addresses apply.\<close>

lemma key_hit_applies:
  assumes known: "known_rule e r" and masks: "set (mask_cidr e) \<subseteq> {1..32}"
  shows "fst (create_rule_key r) \<in> set (create_rule_key_by_tuple e p (ipv4_addr_to_string src)
      (ipv4_addr_to_string dst) (direction r)) \<and> rule_matches r p dst_port src_port \<longleftrightarrow>
    rule_applies r p dst_port src dst"
proof -
  have cover: "(w AND net_mask m = 0 \<and> m = 32) \<or>
      (m \<in> set (mask_cidr e) \<and> w AND net_mask m = a AND net_mask m) \<longleftrightarrow>
      (w = 0 \<and> m = 32) \<or>
      (0 < m \<and> m \<le> 32 \<and> drop_bit (nat (32 - m)) a = drop_bit (nat (32 - m)) w)"
    if "0 < m \<and> m \<le> 32 \<longrightarrow> m \<in> set (mask_cidr e)" for w a m
    using that masks net_mask_prefix [of m a w] by force
  have m: "let m = snd (create_rule_key r) in 0 < m \<and> m \<le> 32 \<longrightarrow> m \<in> set (mask_cidr e)"
    using known by (simp add: known_rule_def)
  show ?thesis
  proof (cases "direction r")
    case kIngress
    then show ?thesis using known m
      by (cases "cidr_value (src_ip r)")
         (auto simp: create_rule_key_by_tuple_def ingress_key_hit rule_matches_ports
           rule_applies_def cidr_covers_def known_rule_def create_rule_key_mask cover Let_def)
  next
    case kEgress
    then show ?thesis using known m masks
      by (cases "cidr_value (dst_ip r)")
         (auto simp: create_rule_key_by_tuple_def egress_key_hit rule_matches_ports
           rule_applies_def cidr_covers_def known_rule_def create_rule_key_mask cover Let_def)
  qed
qed

section \<open>Chains\<close>

lemma create_rule_key_ports [simp]: "create_rule_key (r\<lparr> ports := ps \<rparr>) = create_rule_key r"
  by (cases "direction r") (simp_all add: create_rule_key_def)

lemma merged_rule_fields [simp]:
  "policy_key (merged_rule None r p) = policy_key r"
  "create_rule_key (merged_rule None r p) = create_rule_key r"
  "direction (merged_rule None r p) = direction r"
  "policy_key (merged_rule (Some x) r p) = policy_key x"
  "create_rule_key (merged_rule (Some x) r p) = create_rule_key x"
  "direction (merged_rule (Some x) r p) = direction x"
  "priority (merged_rule None r p) = priority r"
  "priority (merged_rule (Some x) r p) = priority x"
  by (simp_all add: merged_rule_def)

lemma add_rule_detail_get:
  "hm_get (rules (add_rule_detail g r p)) name =
     (if name = policy_key r then Some (merged_rule (hm_get (rules g) name) r p)
      else hm_get (rules g) name)"
  by (simp add: add_rule_detail_def merged_rule_def hmap_simps split: option.splits)

lemma add_rule_detail_wf: "hm_wf (rules g) \<Longrightarrow> hm_wf (rules (add_rule_detail g r p))"
  by (simp add: add_rule_detail_def hmap_simps Let_def split: option.splits)

lemma chain_lookup_add:
  "chain_lookup (add_rule_to_chain c key r p) k name =
     (if k = key \<and> name = policy_key r then Some (merged_rule (chain_lookup c k name) r p)
      else chain_lookup c k name)"
  by (auto simp: chain_lookup_def add_rule_to_chain_def add_rule_detail_get hmap_simps
      split: option.splits)

lemma chain_lookup_delete:
  "chain_lookup (delete_rule_from_chain c name key) k n =
     (if k = key \<and> n = name then None else chain_lookup c k n)"
proof (cases "hm_get (chain c) key")
  case None
  then show ?thesis by (auto simp: chain_lookup_def delete_rule_from_chain_def)
next
  case (Some g)
  have "hm_del name (rules g) = [] \<Longrightarrow> n \<noteq> name \<Longrightarrow> hm_get (rules g) n = None"
    using hm.get_del [of name "rules g" n] by simp
  then show ?thesis using Some
    by (auto simp: chain_lookup_def delete_rule_from_chain_def delete_rule_def hmap_simps Let_def
        split: option.splits)
qed

lemma chain_lookup_delete_all:
  "chain_lookup (fold (\<lambda>key c. delete_rule_from_chain c name key) ks c) k n =
     (if k \<in> set ks \<and> n = name then None else chain_lookup c k n)"
  by (induction ks arbitrary: c) (auto simp: chain_lookup_delete)

text \<open>The invariant in terms of lookups.\<close>

lemma chain_wf_iff:
  "chain_wf dir c \<longleftrightarrow>
     hm_wf (chain c) \<and>
     (\<forall>key g. hm_get (chain c) key = Some g \<longrightarrow> hm_wf (rules g) \<and> rules g \<noteq> []) \<and>
     (\<forall>key name r. chain_lookup c key name = Some r \<longrightarrow>
        policy_key r = name \<and> fst (create_rule_key r) = key \<and> direction r = dir)"
  by (force simp: chain_wf_def chain_lookup_def split: option.splits)

lemma chain_wf_add:
  assumes "chain_wf dir c" and "fst (create_rule_key r) = key" and "direction r = dir"
  shows "chain_wf dir (add_rule_to_chain c key r p)"
proof -
  have lookups: "chain_lookup (add_rule_to_chain c key r p) k n = Some x \<Longrightarrow>
      policy_key x = n \<and> fst (create_rule_key x) = k \<and> direction x = dir" for k n x
    using assms by (cases "chain_lookup c k n") (auto simp: chain_lookup_add chain_wf_iff split: if_splits)
  have ne: "rules (add_rule_detail g r p) \<noteq> []" for g
    using add_rule_detail_get [of g r p "policy_key r"] by auto
  have "hm_get (chain (add_rule_to_chain c key r p)) k = Some g \<Longrightarrow> hm_wf (rules g) \<and> rules g \<noteq> []" for k g
    using assms(1) ne
    by (auto simp: add_rule_to_chain_def hmap_simps chain_wf_iff add_rule_detail_wf
        split: if_splits option.splits)
  then show ?thesis using assms(1) lookups
    by (simp add: chain_wf_iff [of dir "add_rule_to_chain c key r p"])
       (simp add: add_rule_to_chain_def hmap_simps chain_wf_iff)
qed

lemma chain_wf_delete:
  assumes "chain_wf dir c"
  shows "chain_wf dir (delete_rule_from_chain c name key)"
proof -
  have "hm_wf (chain (delete_rule_from_chain c name key)) \<and>
     (\<forall>k g. hm_get (chain (delete_rule_from_chain c name key)) k = Some g \<longrightarrow>
        hm_wf (rules g) \<and> rules g \<noteq> [])"
    using assms
    by (auto simp: delete_rule_from_chain_def delete_rule_def hmap_simps chain_wf_iff Let_def
        split: if_splits option.splits)
  then show ?thesis using assms
    by (auto simp: chain_wf_iff [of dir "delete_rule_from_chain c name key"] chain_lookup_delete)
       (auto simp: chain_wf_iff)
qed

lemma chain_wf_delete_all:
  "chain_wf dir c \<Longrightarrow> chain_wf dir (fold (\<lambda>key c. delete_rule_from_chain c name key) ks c)"
  by (induction ks arbitrary: c) (auto intro: chain_wf_delete)

section \<open>Trees\<close>

lemma tree_wf_new [simp]: "tree_wf dir new_policy_tree"
  by (simp add: tree_wf_def chain_wf_def new_policy_tree_def index_has_def tree_lookup_def
      chain_lookup_def)

lemma tree_wf_clear [simp]: "tree_wf dir (tree_clear t)"
  by (simp add: tree_wf_def chain_wf_def tree_clear_def index_has_def tree_lookup_def
      chain_lookup_def)

lemma tree_lookup_clear [simp]: "tree_lookup (tree_clear t) key name = None"
  by (simp add: tree_clear_def tree_lookup_def chain_lookup_def)

lemma tree_lookup_add:
  "tree_lookup (add_policy_to_chain t r p) key name =
     (if key = fst (create_rule_key r) \<and> name = policy_key r
      then Some (merged_rule (tree_lookup t key name) r p) else tree_lookup t key name)"
  by (simp add: tree_lookup_def add_policy_to_chain_def Let_def chain_lookup_add)

lemma index_has_add:
  "index_has (add_policy_to_chain t r p) name key \<longleftrightarrow>
     (name = policy_key r \<and> key = fst (create_rule_key r)) \<or> index_has t name key"
  by (auto simp: index_has_def add_policy_to_chain_def Let_def hmap_simps hm_has_def
      split: option.splits)

lemma tree_wf_add:
  assumes "tree_wf dir t" and "direction r = dir"
  shows "tree_wf dir (add_policy_to_chain t r p)"
proof -
  have "chain_wf dir (tree_chain (add_policy_to_chain t r p))"
    and "hm_wf (tree (add_policy_to_chain t r p))"
    using assms by (simp_all add: add_policy_to_chain_def Let_def tree_wf_def chain_wf_add hmap_simps)
  moreover have "index_has (add_policy_to_chain t r p) name key \<longleftrightarrow>
      tree_lookup (add_policy_to_chain t r p) key name \<noteq> None" for name key
    using assms(1) by (auto simp: tree_lookup_add index_has_add tree_wf_def)
  ultimately show ?thesis by (simp add: tree_wf_def)
qed

text \<open>The tree before the final \<^verbatim>\<open>clear\<close> of the deletion.\<close>

lemma delete_policy_from_tree_cases:
  assumes "tree_wf dir t"
  obtains (absent) "hm_get (tree t) name = None" "delete_policy_from_tree t name = t"
  | (present) ks t' where "hm_get (tree t) name = Some ks"
      "t' = t\<lparr> tree := hm_del name (tree t),
              tree_chain := fold (\<lambda>key c. delete_rule_from_chain c name key) (map fst ks) (tree_chain t) \<rparr>"
      "delete_policy_from_tree t name = (if tree t' = [] then tree_clear t' else t')"
  by (cases "hm_get (tree t) name") (simp_all add: delete_policy_from_tree_def Let_def)

lemma tree_delete_step:
  assumes wf: "tree_wf dir t" and ks: "hm_get (tree t) name = Some ks"
    and t': "t' = t\<lparr> tree := hm_del name (tree t),
      tree_chain := fold (\<lambda>key c. delete_rule_from_chain c name key) (map fst ks) (tree_chain t) \<rparr>"
  shows "tree_lookup t' key n = (if n = name then None else tree_lookup t key n)"
    and "index_has t' n key \<longleftrightarrow> n \<noteq> name \<and> index_has t n key"
    and "tree_wf dir t'"
proof -
  show l: "tree_lookup t' key n = (if n = name then None else tree_lookup t key n)" for key n
  proof -
    have "index_has t name key \<longleftrightarrow> key \<in> set (map fst ks)"
      using ks by (auto simp: index_has_def hm_has_def map_of_eq_None_iff)
    then have "key \<notin> set (map fst ks) \<Longrightarrow> tree_lookup t key name = None"
      using wf by (auto simp: tree_wf_def)
    then show ?thesis by (auto simp: t' tree_lookup_def chain_lookup_delete_all)
  qed
  show i: "index_has t' n key \<longleftrightarrow> n \<noteq> name \<and> index_has t n key" for n key
    by (simp add: t' index_has_def hmap_simps)
  have "chain_wf dir (tree_chain t')" "hm_wf (tree t')"
    using wf by (simp_all add: t' tree_wf_def hmap_simps chain_wf_delete_all)
  then show "tree_wf dir t'" using wf by (auto simp: tree_wf_def l i)
qed

lemma tree_lookup_delete:
  assumes "tree_wf dir t"
  shows "tree_lookup (delete_policy_from_tree t name) key n =
    (if n = name then None else tree_lookup t key n)"
  using assms
proof (cases rule: delete_policy_from_tree_cases [where name = name])
  case absent
  then have "\<not> index_has t name key" by (simp add: index_has_def)
  then show ?thesis using assms absent by (auto simp: tree_wf_def)
next
  case (present ks t')
  note step = tree_delete_step [OF assms present(1,2)]
  have "tree t' = [] \<Longrightarrow> tree_lookup t' key n = None"
    using step(3) by (auto simp: tree_wf_def index_has_def)
  then show ?thesis using present(3) step(1) [of key n] by auto
qed

lemma tree_wf_delete:
  assumes "tree_wf dir t"
  shows "tree_wf dir (delete_policy_from_tree t name)"
  using assms
proof (cases rule: delete_policy_from_tree_cases [where name = name])
  case absent
  then show ?thesis using assms by simp
next
  case (present ks t')
  then show ?thesis using tree_delete_step(3) [OF assms present(1,2)] by simp
qed

section \<open>The engine\<close>

lemma engine_tree_update:
  "engine_tree (update_tree e d f) dir = (if d = dir then f (engine_tree e dir) else engine_tree e dir)"
  by (cases d; cases dir) (simp_all add: engine_tree_def update_tree_def)

lemma engine_tree_mask [simp]: "engine_tree (add_mask_and_priority e prio m) dir = engine_tree e dir"
  by (cases dir) (simp_all add: engine_tree_def add_mask_and_priority_def Let_def)

lemma engine_wf_trees:
  "engine_wf e \<longleftrightarrow> (\<forall>dir. tree_wf dir (engine_tree e dir)) \<and>
     sorted (priorities e) \<and> sorted (mask_cidr e) \<and> set (mask_cidr e) \<subseteq> {1..32} \<and>
     (\<forall>dir key name r. rule_lookup e dir key name = Some r \<longrightarrow> known_rule e r)"
proof -
  have "(\<forall>dir. tree_wf dir (engine_tree e dir)) \<longleftrightarrow>
      tree_wf kIngress (input_tree e) \<and> tree_wf kEgress (output_tree e)"
    by (metis FlowDir.exhaust FlowDir.simps(3,4) engine_tree_def)
  then show ?thesis by (simp add: engine_wf_def)
qed

lemma rule_lookup_add:
  "rule_lookup (add_policy e r p) dir key name =
     (if dir = direction r \<and> key = fst (create_rule_key r) \<and> name = policy_key r
      then Some (merged_rule (rule_lookup e dir key name) r p) else rule_lookup e dir key name)"
  by (auto simp: rule_lookup_def add_policy_def engine_tree_update tree_lookup_add)

lemma rule_lookup_delete:
  "engine_wf e \<Longrightarrow> rule_lookup (delete_policy e d n) dir key name =
     (if dir = d \<and> name = n then None else rule_lookup e dir key name)"
  by (auto simp: rule_lookup_def delete_policy_def engine_tree_update engine_wf_trees
      tree_lookup_delete [of dir])

lemma rule_lookup_clear [simp]: "rule_lookup (clear_cfg e) dir key name = None"
  by (cases dir) (simp_all add: rule_lookup_def clear_cfg_def engine_tree_def)

lemma rule_lookup_new [simp]: "rule_lookup new_policy_engine dir key name = None"
  by (cases dir) (simp_all add: rule_lookup_def new_policy_engine_def engine_tree_def
      new_policy_tree_def tree_lookup_def chain_lookup_def)

lemma rule_lookup_key:
  "engine_wf e \<Longrightarrow> rule_lookup e dir key name = Some r \<Longrightarrow>
     policy_key r = name \<and> fst (create_rule_key r) = key \<and> direction r = dir"
  by (auto simp: engine_wf_trees rule_lookup_def tree_wf_def tree_lookup_def chain_wf_iff)

lemma known_rule_mono:
  "known_rule e r \<Longrightarrow> set (priorities e) \<subseteq> set (priorities e') \<Longrightarrow>
     set (mask_cidr e) \<subseteq> set (mask_cidr e') \<Longrightarrow> known_rule e' r"
  by (auto simp: known_rule_def Let_def)

lemma update_tree_orders [simp]:
  "priorities (update_tree e d f) = priorities e" "mask_cidr (update_tree e d f) = mask_cidr e"
  by (simp_all add: update_tree_def split: FlowDir.splits)

lemma add_policy_orders:
  "set (priorities (add_policy e r p)) = insert (priority r) (set (priorities e))"
  "set (mask_cidr (add_policy e r p)) =
     (if 0 < snd (create_rule_key r) \<and> snd (create_rule_key r) \<le> 32
      then insert (snd (create_rule_key r)) (set (mask_cidr e)) else set (mask_cidr e))"
  "sorted (priorities e) \<Longrightarrow> sorted (priorities (add_policy e r p))"
  "sorted (mask_cidr e) \<Longrightarrow> sorted (mask_cidr (add_policy e r p))"
  by (simp_all add: add_policy_def add_mask_and_priority_def Let_def set_insort_insert
      sorted_insort_insert)

lemma known_rule_merged:
  "known_rule e (merged_rule None r p) = known_rule e r"
  "known_rule e (merged_rule (Some x) r p) = known_rule e x"
  by (simp_all add: known_rule_def)

lemma engine_wf_new [simp]: "engine_wf new_policy_engine"
proof -
  have "engine_tree new_policy_engine dir = new_policy_tree" for dir
    by (cases dir) (simp_all add: engine_tree_def new_policy_engine_def)
  then show ?thesis by (simp add: engine_wf_trees) (simp add: new_policy_engine_def)
qed

lemma engine_wf_add:
  assumes wf: "engine_wf e"
  shows "engine_wf (add_policy e r p)"
proof -
  have trees: "tree_wf dir (engine_tree (add_policy e r p) dir)" for dir
    using wf by (auto simp: add_policy_def engine_tree_update engine_wf_trees intro: tree_wf_add)
  have mono: "known_rule e x \<Longrightarrow> known_rule (add_policy e r p) x" for x
    by (erule known_rule_mono) (auto simp: add_policy_orders)
  have own: "known_rule (add_policy e r p) r"
    by (auto simp: known_rule_def add_policy_orders Let_def)
  have "known_rule (add_policy e r p) x"
    if "rule_lookup (add_policy e r p) dir key name = Some x" for dir key name x
    using that wf own mono
    by (cases "rule_lookup e dir key name")
       (auto simp: rule_lookup_add engine_wf_trees known_rule_merged split: if_splits)
  then show ?thesis using wf trees
    by (auto simp: engine_wf_trees add_policy_orders)
qed

lemma delete_policy_orders [simp]:
  "priorities (delete_policy e d n) = priorities e" "mask_cidr (delete_policy e d n) = mask_cidr e"
  by (simp_all add: delete_policy_def)

lemma engine_wf_delete:
  assumes wf: "engine_wf e"
  shows "engine_wf (delete_policy e d n)"
proof -
  have "tree_wf dir (engine_tree (delete_policy e d n) dir)" for dir
    using wf by (simp add: delete_policy_def engine_tree_update engine_wf_trees tree_wf_delete)
  moreover have "known_rule (delete_policy e d n) = known_rule e"
    by (simp add: known_rule_def fun_eq_iff)
  ultimately show ?thesis using wf
    by (auto simp: engine_wf_trees [of "delete_policy e d n"] rule_lookup_delete engine_wf_trees [of e]
        split: if_splits)
qed

lemma engine_wf_clear: "engine_wf (clear_cfg e)"
proof -
  have "engine_tree (clear_cfg e) dir = tree_clear (engine_tree e dir)" for dir
    by (cases dir) (simp_all add: engine_tree_def clear_cfg_def)
  then show ?thesis by (simp add: engine_wf_trees) (simp add: clear_cfg_def insort_insert_key_def)
qed

section \<open>Matching\<close>

lemma first_match_None: "first_match f ks = None \<longleftrightarrow> (\<forall>k\<in>set ks. f k = None)"
  by (induction ks) (auto split: option.splits)

lemma first_match_append:
  "first_match f (ks @ ls) = (case first_match f ks of Some r \<Rightarrow> Some r | None \<Rightarrow> first_match f ls)"
  by (induction ks) (auto split: option.splits)

lemma first_match_SomeD: "first_match f ks = Some r \<Longrightarrow> \<exists>k\<in>set ks. f k = Some r"
  by (induction ks) (auto split: option.splits)

lemma first_match_sorted:
  assumes "first_match f (concat (map g ps)) = Some r" and "sorted (ps :: int list)"
  shows "\<exists>p\<in>set ps. (\<exists>k\<in>set (g p). f k = Some r) \<and>
    (\<forall>p'\<in>set ps. p' < p \<longrightarrow> (\<forall>k\<in>set (g p'). f k = None))"
  using assms
proof (induction ps)
  case (Cons q ps)
  show ?case
  proof (cases "first_match f (g q)")
    case None
    with Cons obtain p where "p \<in> set ps" "\<exists>k\<in>set (g p). f k = Some r"
      "\<forall>p'\<in>set ps. p' < p \<longrightarrow> (\<forall>k\<in>set (g p'). f k = None)"
      by (auto simp: first_match_append)
    with None show ?thesis by (auto simp: first_match_None)
  next
    case (Some x)
    with Cons.prems have "\<exists>k\<in>set (g q). f k = Some r"
      by (auto simp: first_match_append dest: first_match_SomeD)
    with Cons.prems(2) show ?thesis by fastforce
  qed
qed simp

lemma match_rule_group_SomeD:
  assumes "visits_all it" and "chain_wf dir c" and "match_rule_group it c key p dp sp = Some r"
  shows "\<exists>name. chain_lookup c key name = Some r \<and> rule_matches r p dp sp"
proof -
  obtain g where g: "hm_get (chain c) key = Some g" and m: "match_rule it g p dp sp = Some r"
    using assms(3) by (auto simp: match_rule_group_def split: option.splits)
  from find_SomeD [OF m [unfolded match_rule_def]]
  obtain name where "(name, r) \<in> set (rules g)" and "rule_matches r p dp sp"
    using assms(1) by (auto simp: visits_all_set)
  moreover have "hm_wf (rules g)" using assms(2) g by (simp add: chain_wf_iff)
  ultimately show ?thesis using g by (auto simp: chain_lookup_def hm_get_iff)
qed

lemma match_rule_group_NoneD:
  assumes "visits_all it" and "match_rule_group it c key p dp sp = None"
    and "chain_lookup c key name = Some r"
  shows "\<not> rule_matches r p dp sp"
proof -
  obtain g where g: "hm_get (chain c) key = Some g" and r: "hm_get (rules g) name = Some r"
    using assms(3) by (auto simp: chain_lookup_def split: option.splits)
  then have "match_rule it g p dp sp = None" using assms(2) by (simp add: match_rule_group_def)
  then show ?thesis using hm_get_in [OF r] assms(1)
    by (force simp: match_rule_def find_Some_iff_ex visits_all_set)
qed

text \<open>An empty chain has no rule to find, so the early exit of the lookup changes nothing.\<close>

lemma match_five_tuple_keys:
  "match_five_tuple it e p dp sp src dst dir =
     first_match (\<lambda>key. match_rule_group it (tree_chain (engine_tree e dir)) key p dp sp)
       (create_rule_key_by_tuple e p src dst dir)"
proof (cases "tree_size (engine_tree e dir) = 0")
  case True
  then have "match_rule_group it (tree_chain (engine_tree e dir)) key p dp sp = None" for key
    by (simp add: tree_size_def match_rule_group_def)
  then have "first_match (\<lambda>key. match_rule_group it (tree_chain (engine_tree e dir)) key p dp sp)
      (create_rule_key_by_tuple e p src dst dir) = None"
    by (simp add: first_match_None)
  with True show ?thesis by (simp add: match_five_tuple_def)
next
  case False
  then show ?thesis by (simp add: match_five_tuple_def)
qed

text \<open>A stored rule that applies has its key among the probes, and the probe of its key succeeds.\<close>

lemma applicable_probe:
  assumes it: "visits_all it" and wf: "engine_wf e"
    and r: "rule_lookup e dir key name = Some r" and a: "rule_applies r p dp src dst"
  shows "key \<in> set (keys_for_priority (mask_cidr e) p (ipv4_addr_to_string src)
      (ipv4_addr_to_string dst) dir (priority r))" (is ?key)
    and "match_rule_group it (tree_chain (engine_tree e dir)) key p dp sp \<noteq> None" (is ?hit)
proof -
  have k: "known_rule e r" "set (mask_cidr e) \<subseteq> {1..32}" using wf r by (auto simp: engine_wf_trees)
  have d: "fst (create_rule_key r) = key" "direction r = dir" using rule_lookup_key [OF wf r] by auto
  have probe: "key \<in> set (create_rule_key_by_tuple e p (ipv4_addr_to_string src)
      (ipv4_addr_to_string dst) dir)" and m: "rule_matches r p dp sp"
    using key_hit_applies [OF k, of p src dst dp sp] a d by auto
  have "chain_lookup (tree_chain (engine_tree e dir)) key name = Some r"
    using r by (simp add: rule_lookup_def tree_lookup_def)
  then show ?hit using match_rule_group_NoneD [OF it] m by blast
  from probe obtain prio where prio: "key \<in> set (keys_for_priority (mask_cidr e) p
      (ipv4_addr_to_string src) (ipv4_addr_to_string dst) dir prio)"
    by (auto simp: create_rule_key_by_tuple_def)
  then have "prio = priority r"
    using d k(2) ingress_key_hit [of r] egress_key_hit [of r "mask_cidr e"] by (cases dir) auto
  with prio show ?key by simp
qed

lemma match_five_tuple_found:
  assumes it: "visits_all it" and wf: "engine_wf e"
    and m: "match_five_tuple it e p dp sp (ipv4_addr_to_string src) (ipv4_addr_to_string dst) dir = Some r"
  shows "\<exists>key name. rule_lookup e dir key name = Some r"
    and "rule_applies r p dp src dst"
    and "rule_lookup e dir key' name' = Some r' \<Longrightarrow> rule_applies r' p dp src dst \<Longrightarrow>
      priority r \<le> priority r'"
proof -
  let ?keys = "keys_for_priority (mask_cidr e) p (ipv4_addr_to_string src) (ipv4_addr_to_string dst) dir"
  let ?f = "\<lambda>key. match_rule_group it (tree_chain (engine_tree e dir)) key p dp sp"
  have sorted: "sorted (priorities e)" and masks: "set (mask_cidr e) \<subseteq> {1..32}"
    and cwf: "chain_wf dir (tree_chain (engine_tree e dir))"
    using wf by (auto simp: engine_wf_trees tree_wf_def)
  from m have "first_match ?f (concat (map ?keys (priorities e))) = Some r"
    by (simp add: match_five_tuple_keys create_rule_key_by_tuple_def)
  from first_match_sorted [OF this sorted] obtain prio k where
    prio: "prio \<in> set (priorities e)" and k: "k \<in> set (?keys prio)" "?f k = Some r"
    and before: "\<And>q l. q \<in> set (priorities e) \<Longrightarrow> q < prio \<Longrightarrow> l \<in> set (?keys q) \<Longrightarrow> ?f l = None"
    by blast
  from match_rule_group_SomeD [OF it cwf k(2)] obtain name where
    r: "rule_lookup e dir k name = Some r" and rm: "rule_matches r p dp sp"
    by (auto simp: rule_lookup_def tree_lookup_def)
  then show "\<exists>key name. rule_lookup e dir key name = Some r" by blast
  have d: "fst (create_rule_key r) = k" "direction r = dir" using rule_lookup_key [OF wf r] by auto
  have known: "known_rule e r" using wf r by (auto simp: engine_wf_trees)
  show "rule_applies r p dp src dst"
    using key_hit_applies [OF known masks, of p src dst dp sp] d k(1) prio rm
    by (auto simp: create_rule_key_by_tuple_def)
  have pr: "priority r = prio"
    using d masks k(1) ingress_key_hit [of r] egress_key_hit [of r "mask_cidr e"] by (cases dir) auto
  assume r': "rule_lookup e dir key' name' = Some r'" and a': "rule_applies r' p dp src dst"
  have "priority r' \<in> set (priorities e)" using wf r' by (auto simp: engine_wf_trees known_rule_def)
  then show "priority r \<le> priority r'"
    using before applicable_probe(1) [OF it wf r' a'] applicable_probe(2) [OF it wf r' a', of sp] pr by (metis linorder_not_le)
qed

lemma match_five_tuple_missing:
  assumes it: "visits_all it" and wf: "engine_wf e"
    and m: "match_five_tuple it e p dp sp (ipv4_addr_to_string src) (ipv4_addr_to_string dst) dir = None"
    and r: "rule_lookup e dir key name = Some r"
  shows "\<not> rule_applies r p dp src dst"
proof
  assume a: "rule_applies r p dp src dst"
  have "priority r \<in> set (priorities e)" using wf r by (auto simp: engine_wf_trees known_rule_def)
  then show False using applicable_probe(1) [OF it wf r a] applicable_probe(2) [OF it wf r a, of sp] m
    by (auto simp: match_five_tuple_keys create_rule_key_by_tuple_def first_match_None)
qed

section \<open>The store interface\<close>

text \<open>
  What the daemon relies on when it changes the rule set: lookups after an addition, a deletion
  and a reset. The lemmas of the locale lift it to any sequence of operations.
\<close>

locale policy_store =
  fixes init :: 's
    and lookup :: "'s \<Rightarrow> rule_base"
    and step :: "policy_op \<Rightarrow> 's \<Rightarrow> 's"
    and wf :: "'s \<Rightarrow> bool"
  assumes lookup_init: "lookup init dir key name = None"
    and wf_init: "wf init"
    and wf_step: "wf s \<Longrightarrow> wf (step op s)"
    and lookup_step: "wf s \<Longrightarrow> lookup (step op s) = base_step op (lookup s)"
begin

lemma run_wf: "wf s \<Longrightarrow> wf (fold step ops s)"
  by (induction ops arbitrary: s) (auto intro: wf_step)

lemma run_lookup: "wf s \<Longrightarrow> lookup (fold step ops s) = fold base_step ops (lookup s)"
  by (induction ops arbitrary: s) (auto simp: wf_step lookup_step)

lemma reachable_wf: "wf (fold step ops init)"
  by (rule run_wf) (rule wf_init)

lemma reachable_lookup: "lookup (fold step ops init) = fold base_step ops (\<lambda>_ _ _. None)"
proof -
  have "lookup init = (\<lambda>_ _ _. None)" by (simp add: fun_eq_iff lookup_init)
  then show ?thesis using run_lookup [OF wf_init] by simp
qed

end

interpretation pstore: policy_store new_policy_engine rule_lookup engine_op engine_wf
proof (unfold_locales, goal_cases)
  case (3 s op)
  then show ?case by (cases op) (auto intro: engine_wf_add engine_wf_delete engine_wf_clear)
next
  case (4 s op)
  then show ?case by (cases op) (auto simp: fun_eq_iff rule_lookup_add rule_lookup_delete)
qed simp_all

lemma policy_run_wf: "engine_wf (policy_run ops)"
  unfolding policy_run_def by (rule pstore.reachable_wf)

lemma cidr_covers_zero:
  "snd (cidr_value cidr) = 0 \<Longrightarrow> \<not> cidr_covers cidr a"
  by (auto simp: cidr_covers_def)

lemma address_in_prefix_covers:
  "address_in_prefix cidr a \<and> snd (cidr_value cidr) \<noteq> 0 \<longleftrightarrow> cidr_covers cidr a"
  by (auto simp: address_in_prefix_def cidr_covers_def split: prod.splits)

lemma rule_applies_written_for:
  "rule_applies r p dp src dst \<longleftrightarrow> written_for r p dp sp src dst \<and> \<not> unreachable_for r p"
  by (auto simp: rule_applies_def written_for_def unreachable_for_def peer_cidr_def rule_matches_ports
      simp flip: address_in_prefix_covers split: FlowDir.splits)

section \<open>Properties of the policy engine\<close>

text \<open>C5: the rule base of the engine is, after any sequence of additions, deletions and resets,
  the one computed on an abstract map from direction, rule key and policy name to rules.\<close>

theorem policy_run_refines_map:
  "rule_lookup (policy_run ops) = fold base_step ops (\<lambda>dir key name. None)"
  unfolding policy_run_def by (rule pstore.reachable_lookup)

text \<open>C6: whatever the hash map iteration order, the rule a lookup returns is stored, applies to
  the packet by protocol, port, exact address and prefix, and no applicable stored rule has a
  smaller priority number.\<close>

theorem match_is_applicable_and_first:
  assumes "visits_all it"
    and "match_five_tuple it (policy_run ops) p dp sp (ipv4_addr_to_string src)
      (ipv4_addr_to_string dst) dir = Some r"
  shows "(\<exists>key name. rule_lookup (policy_run ops) dir key name = Some r)
    \<and> rule_applies r p dp src dst
    \<and> (\<forall>key name r'. rule_lookup (policy_run ops) dir key name = Some r'
         \<and> rule_applies r' p dp src dst \<longrightarrow> priority r \<le> priority r')"
  using match_five_tuple_found [OF assms(1) policy_run_wf assms(2)] by blast

theorem match_is_applicable_and_first_witness:
  "let ops = [PAdd (sample_rule ''deny'' 20 ''0.0.0.0'' 0) \<lparr> end_port = 0, port = 0, port_proto = 6 \<rparr>,
              PAdd (sample_rule ''web'' 10 ''10.0.0.0/24'' 1)
                \<lparr> end_port = 90, port = 80, port_proto = 6 \<rparr>];
       r = (sample_rule ''web'' 10 ''10.0.0.0/24'' 1)
             \<lparr> ports := [\<lparr> end_port = 90, port = 80, port_proto = 6 \<rparr>] \<rparr> in
   match_five_tuple rev (policy_run ops) 6 80 1234 ''10.0.0.7'' ''10.0.0.2'' kIngress = Some r
   \<and> rule_applies r 6 80 0x0A000007 0x0A000002"
proof -
  define ops where "ops =
    [PAdd (sample_rule ''deny'' 20 ''0.0.0.0'' 0) \<lparr> end_port = 0, port = 0, port_proto = 6 \<rparr>,
     PAdd (sample_rule ''web'' 10 ''10.0.0.0/24'' 1) \<lparr> end_port = 90, port = 80, port_proto = 6 \<rparr>]"
  define r where "r = (sample_rule ''web'' 10 ''10.0.0.0/24'' 1)
    \<lparr> ports := [\<lparr> end_port = 90, port = 80, port_proto = 6 \<rparr>] \<rparr>"
  have a: "ipv4_addr_to_string 0x0A000007 = ''10.0.0.7''"
    "ipv4_addr_to_string 0x0A000002 = ''10.0.0.2''" by code_simp+
  have m: "match_five_tuple rev (policy_run ops) 6 80 1234 ''10.0.0.7'' ''10.0.0.2'' kIngress = Some r"
    unfolding ops_def r_def by code_simp
  have "rule_applies r 6 80 0x0A000007 0x0A000002"
    using match_is_applicable_and_first [OF visits_all_rev m [folded a]] by blast
  with m show ?thesis by (simp add: ops_def r_def Let_def)
qed

text \<open>C18: the lookup returns nothing exactly when every stored rule of the direction that is written
  for the packet has a prefix of length 0, or names a protocol other than ICMP while the packet is
  ICMP. So a packet only escapes a rule written for it in these two ways: the probes never form the
  key of a /0 rule, nor, for an ICMP packet, the key of a rule of another protocol, although
  \<^const>\<open>rule_matches\<close> would accept it.\<close>

theorem lookup_misses_only_unreachable_rules:
  assumes "visits_all it"
  shows "match_five_tuple it (policy_run ops) p dp sp (ipv4_addr_to_string src)
      (ipv4_addr_to_string dst) dir = None \<longleftrightarrow>
    (\<forall>key name r. rule_lookup (policy_run ops) dir key name = Some r \<and>
       written_for r p dp sp src dst \<longrightarrow> unreachable_for r p)"
proof
  assume "match_five_tuple it (policy_run ops) p dp sp (ipv4_addr_to_string src)
      (ipv4_addr_to_string dst) dir = None"
  then show "\<forall>key name r. rule_lookup (policy_run ops) dir key name = Some r \<and>
       written_for r p dp sp src dst \<longrightarrow> unreachable_for r p"
    using match_five_tuple_missing [OF assms policy_run_wf] rule_applies_written_for by blast
next
  assume "\<forall>key name r. rule_lookup (policy_run ops) dir key name = Some r \<and>
       written_for r p dp sp src dst \<longrightarrow> unreachable_for r p"
  then show "match_five_tuple it (policy_run ops) p dp sp (ipv4_addr_to_string src)
      (ipv4_addr_to_string dst) dir = None"
    using match_five_tuple_found(1,2) [OF assms policy_run_wf] rule_applies_written_for
    by (metis not_Some_eq)
qed

text \<open>At a rule for TCP and an ICMP packet between its addresses: the rule is written for the packet
  and the lookup does not find it.\<close>

theorem lookup_misses_only_unreachable_rules_witness:
  "let ops = [PAdd (sample_rule ''web'' 10 ''10.0.0.0/24'' 1)
                \<lparr> end_port = 90, port = 80, port_proto = 6 \<rparr>];
       r = (sample_rule ''web'' 10 ''10.0.0.0/24'' 1)
             \<lparr> ports := [\<lparr> end_port = 90, port = 80, port_proto = 6 \<rparr>] \<rparr> in
   rule_lookup (policy_run ops) kIngress ''10-6-10.0.0.0/24-10.0.0.2'' ''web'' = Some r
   \<and> written_for r 1 0 0 0x0A000007 0x0A000002 \<and> unreachable_for r 1"
proof -
  define ops where "ops =
    [PAdd (sample_rule ''web'' 10 ''10.0.0.0/24'' 1) \<lparr> end_port = 90, port = 80, port_proto = 6 \<rparr>]"
  define r where "r = (sample_rule ''web'' 10 ''10.0.0.0/24'' 1)
    \<lparr> ports := [\<lparr> end_port = 90, port = 80, port_proto = 6 \<rparr>] \<rparr>"
  have a: "ipv4_addr_to_string 0x0A000007 = ''10.0.0.7''"
    "ipv4_addr_to_string 0x0A000002 = ''10.0.0.2''" by code_simp+
  have m: "match_five_tuple rev (policy_run ops) 1 0 0 ''10.0.0.7'' ''10.0.0.2'' kIngress = None"
    unfolding ops_def by code_simp
  have l: "rule_lookup (policy_run ops) kIngress ''10-6-10.0.0.0/24-10.0.0.2'' ''web'' = Some r"
    unfolding ops_def r_def by code_simp
  have w: "written_for r 1 0 0 0x0A000007 0x0A000002"
    unfolding r_def by code_simp
  have "unreachable_for r 1"
    using iffD1 [OF lookup_misses_only_unreachable_rules [OF visits_all_rev] m [folded a]] l w by blast
  with l w show ?thesis by (simp add: ops_def r_def Let_def)
qed
text \<open>Deleting a policy removes all its rules of that direction and no rule of any other
  policy or direction.\<close>

theorem delete_removes_exactly_the_policy:
  "rule_lookup (delete_policy (policy_run ops) d n) dir key name =
     (if dir = d \<and> name = n then None else rule_lookup (policy_run ops) dir key name)"
  by (rule rule_lookup_delete) (rule policy_run_wf)

text \<open>A rule whose prefix length is zero is never returned: neither the wildcard probe nor a
  masked probe reaches its key.\<close>

theorem zero_prefix_rule_never_matches:
  assumes "visits_all it"
    and "snd (cidr_value (case dir of kIngress \<Rightarrow> src_ip r | kEgress \<Rightarrow> dst_ip r)) = 0"
  shows "match_five_tuple it (policy_run ops) p dp sp (ipv4_addr_to_string src)
      (ipv4_addr_to_string dst) dir \<noteq> Some r"
proof
  assume m: "match_five_tuple it (policy_run ops) p dp sp (ipv4_addr_to_string src)
      (ipv4_addr_to_string dst) dir = Some r"
  have "rule_applies r p dp src dst" and l: "\<exists>key name. rule_lookup (policy_run ops) dir key name = Some r"
    using match_five_tuple_found [OF assms(1) policy_run_wf m] by auto
  then show False using assms(2) cidr_covers_zero rule_lookup_key [OF policy_run_wf]
    by (fastforce simp: rule_applies_def split: FlowDir.splits)
qed

theorem zero_prefix_rule_never_matches_witness:
  "let r = (sample_rule ''any'' 10 ''0.0.0.0/0'' 1)
             \<lparr> ports := [\<lparr> end_port = 0, port = 0, port_proto = 6 \<rparr>] \<rparr> in
   match_five_tuple rev
     (policy_run [PAdd (sample_rule ''any'' 10 ''0.0.0.0/0'' 1)
                    \<lparr> end_port = 0, port = 0, port_proto = 6 \<rparr>]) 6 80 1234
     (ipv4_addr_to_string 0x0A000107) (ipv4_addr_to_string 0x0A000002) kIngress \<noteq> Some r"
proof -
  have z: "snd (cidr_value ''0.0.0.0/0'') = 0" by code_simp
  show ?thesis unfolding Let_def
    by (rule zero_prefix_rule_never_matches) (simp_all add: sample_rule_def z)
qed

text \<open>A further rule of the same policy under the same key adds its port to the rule already
  stored and keeps the action of the first: its own action is not recorded.\<close>

theorem second_rule_of_policy_keeps_first_action:
  assumes "rule_lookup e (direction r) (fst (create_rule_key r)) (policy_key r) = Some first"
  shows "rule_lookup (add_policy e r p) (direction r) (fst (create_rule_key r)) (policy_key r) =
    Some (first\<lparr> ports := ports first @ [p] \<rparr>)"
  by (simp add: rule_lookup_add assms merged_rule_def)

theorem second_rule_of_policy_keeps_first_action_witness:
  "map_option action (rule_lookup
     (add_policy
        (add_policy new_policy_engine (sample_rule ''web'' 10 ''0.0.0.0'' 0)
           \<lparr> end_port = 80, port = 80, port_proto = 6 \<rparr>)
        (sample_rule ''web'' 10 ''0.0.0.0'' 1) \<lparr> end_port = 443, port = 443, port_proto = 6 \<rparr>)
     kIngress (fst (create_rule_key (sample_rule ''web'' 10 ''0.0.0.0'' 1))) ''web'') = Some 0"
proof -
  let ?p = "\<lparr> end_port = 80, port = 80, port_proto = (6 :: u8) \<rparr>"
  let ?r0 = "sample_rule ''web'' 10 ''0.0.0.0'' 0"
  let ?r1 = "sample_rule ''web'' 10 ''0.0.0.0'' 1"
  have "rule_lookup (add_policy new_policy_engine ?r0 ?p) (direction ?r1)
      (fst (create_rule_key ?r1)) (policy_key ?r1) = Some (?r0\<lparr> ports := [?p] \<rparr>)"
    by code_simp
  from second_rule_of_policy_keeps_first_action [OF this] show ?thesis
    by (simp add: sample_rule_def)
qed

end
