(* ===== verification/Http1_Codec.thy ===== *)
theory Http1_Codec
  imports NP_Text
begin

text \<open>
  The HTTP/1 request parser (crates/http1_codec): request target, header fields, body framing and
  the loop of \<^verbatim>\<open>Http1Parser::dispatch\<close>. The httparse crate is the parameter \<open>hp\<close>; what the
  code relies on in it is \<open>httparse_ok\<close>. The lemmas show that the loop returns, and that neither
  the body framing nor the parser state depends on how the stream is cut into segments.
\<close>

section \<open>Strings of the Rust standard library\<close>

definition text_of :: "bytes \<Rightarrow> string" where
  "text_of bs = map (\<lambda>b. char_of (unat b)) bs"

definition to_ascii_lower :: "char \<Rightarrow> char" where
  "to_ascii_lower c =
     (let n = (of_char c :: nat) in if 65 \<le> n \<and> n \<le> 90 then char_of (n + 32) else c)"

definition eq_ignore_ascii_case :: "string \<Rightarrow> string \<Rightarrow> bool" where
  "eq_ignore_ascii_case s t \<longleftrightarrow> map to_ascii_lower s = map to_ascii_lower t"

definition byte_at :: "bytes \<Rightarrow> nat \<Rightarrow> u8" where
  "byte_at bs i = (if i < length bs then bs ! i else 0)"

definition utf8_cont :: "u8 \<Rightarrow> bool" where
  "utf8_cont b \<longleftrightarrow> b AND 0xC0 = 0x80"

text \<open>One character at the front of \<open>b # bs\<close>: is it well formed, and how many bytes of \<open>bs\<close>
  belong to it, or to the maximal prefix that is replaced when it is not.\<close>

definition utf8_step :: "u8 \<Rightarrow> bytes \<Rightarrow> bool \<times> nat" where
  "utf8_step b bs =
     (let n1 = byte_at bs 0; n2 = byte_at bs 1; n3 = byte_at bs 2 in
      if b < 0x80 then (True, 0)
      else if 0xC2 \<le> b \<and> b \<le> 0xDF then (if utf8_cont n1 then (True, 1) else (False, 0))
      else if 0xE0 \<le> b \<and> b \<le> 0xEF then
        (if (b = 0xE0 \<and> 0xA0 \<le> n1 \<and> n1 \<le> 0xBF) \<or> (0xE1 \<le> b \<and> b \<le> 0xEC \<and> 0x80 \<le> n1 \<and> n1 \<le> 0xBF)
            \<or> (b = 0xED \<and> 0x80 \<le> n1 \<and> n1 \<le> 0x9F) \<or> (0xEE \<le> b \<and> 0x80 \<le> n1 \<and> n1 \<le> 0xBF)
         then (if utf8_cont n2 then (True, 2) else (False, 1)) else (False, 0))
      else if 0xF0 \<le> b \<and> b \<le> 0xF4 then
        (if (b = 0xF0 \<and> 0x90 \<le> n1 \<and> n1 \<le> 0xBF) \<or> (0xF1 \<le> b \<and> b \<le> 0xF3 \<and> 0x80 \<le> n1 \<and> n1 \<le> 0xBF)
            \<or> (b = 0xF4 \<and> 0x80 \<le> n1 \<and> n1 \<le> 0x8F)
         then (if utf8_cont n2 then (if utf8_cont n3 then (True, 3) else (False, 2)) else (False, 1))
         else (False, 0))
      else (False, 0))"

fun from_utf8_lossy :: "bytes \<Rightarrow> bytes" where
  "from_utf8_lossy [] = []"
| "from_utf8_lossy (b # bs) =
     (case utf8_step b bs of
        (True, n) \<Rightarrow> b # take n bs @ from_utf8_lossy (drop n bs)
      | (False, n) \<Rightarrow> [0xEF, 0xBF, 0xBD] @ from_utf8_lossy (drop n bs))"

fun from_utf8_ok :: "bytes \<Rightarrow> bool" where
  "from_utf8_ok [] = True"
| "from_utf8_ok (b # bs) = (case utf8_step b bs of (ok, n) \<Rightarrow> ok \<and> from_utf8_ok (drop n bs))"

text \<open>\<^verbatim>\<open>str::trim\<close> removes characters with the Unicode property White_Space.\<close>

definition ws_chars :: "bytes list" where
  "ws_chars =
     [[9], [10], [11], [12], [13], [32], [0xC2, 0x85], [0xC2, 0xA0], [0xE1, 0x9A, 0x80],
      [0xE2, 0x80, 0x80], [0xE2, 0x80, 0x81], [0xE2, 0x80, 0x82], [0xE2, 0x80, 0x83],
      [0xE2, 0x80, 0x84], [0xE2, 0x80, 0x85], [0xE2, 0x80, 0x86], [0xE2, 0x80, 0x87],
      [0xE2, 0x80, 0x88], [0xE2, 0x80, 0x89], [0xE2, 0x80, 0x8A], [0xE2, 0x80, 0xA8],
      [0xE2, 0x80, 0xA9], [0xE2, 0x80, 0xAF], [0xE2, 0x81, 0x9F], [0xE3, 0x80, 0x80]]"

fun strip_ws :: "bytes list \<Rightarrow> nat \<Rightarrow> bytes \<Rightarrow> bytes" where
  "strip_ws ws 0 bs = bs"
| "strip_ws ws (Suc n) bs =
     (case find (\<lambda>w. take (length w) bs = w) ws of
        Some w \<Rightarrow> strip_ws ws n (drop (length w) bs)
      | None \<Rightarrow> bs)"

definition trim :: "bytes \<Rightarrow> bytes" where
  "trim bs =
     (let front = strip_ws ws_chars (length bs) bs
      in rev (strip_ws (map rev ws_chars) (length front) (rev front)))"

text \<open>\<^verbatim>\<open>usize::from_str_radix\<close>: an optional plus sign, at least one digit, no overflow.\<close>

definition radix_digit :: "nat \<Rightarrow> u8 \<Rightarrow> nat option" where
  "radix_digit r b =
     (let n = unat b;
          d = (if 48 \<le> n \<and> n \<le> 57 then Some (n - 48)
               else if 97 \<le> n \<and> n \<le> 122 then Some (n - 87)
               else if 65 \<le> n \<and> n \<le> 90 then Some (n - 55) else None)
      in case d of Some v \<Rightarrow> if v < r then Some v else None | None \<Rightarrow> None)"

fun radix_digits :: "nat \<Rightarrow> int \<Rightarrow> bytes \<Rightarrow> int option" where
  "radix_digits r acc [] = Some acc"
| "radix_digits r acc (b # bs) =
     (case radix_digit r b of
        None \<Rightarrow> None
      | Some d \<Rightarrow> (let v = acc * int r + int d
                  in if v \<ge> 18446744073709551616 then None else radix_digits r v bs))"

definition parse_usize :: "nat \<Rightarrow> bytes \<Rightarrow> nat option" where
  "parse_usize r bs =
     (let ds = (case bs of [] \<Rightarrow> [] | b # rest \<Rightarrow> if b = 43 then rest else bs)
      in if ds = [] then None else map_option nat (radix_digits r 0 ds))"

section \<open>Request target\<close>

record RequestTarget =
  rt_host :: string
  rt_path :: string

definition strip_prefix :: "string \<Rightarrow> string \<Rightarrow> string option" where
  "strip_prefix p s = (if take (length p) s = p then Some (drop (length p) s) else None)"

definition parse_request_target :: "string \<Rightarrow> RequestTarget" where
  "parse_request_target target =
     (case (case strip_prefix ''http://'' target of
              Some rest \<Rightarrow> Some rest | None \<Rightarrow> strip_prefix ''https://'' target) of
        Some rest \<Rightarrow>
          (let authority = takeWhile (\<lambda>c. c \<noteq> CHR ''/'') rest;
               path_and_query = dropWhile (\<lambda>c. c \<noteq> CHR ''/'') rest
           in \<lparr> rt_host = takeWhile (\<lambda>c. c \<noteq> CHR '':'') authority,
                rt_path = takeWhile (\<lambda>c. c \<noteq> CHR ''?'') path_and_query \<rparr>)
      | None \<Rightarrow> \<lparr> rt_host = [], rt_path = takeWhile (\<lambda>c. c \<noteq> CHR ''?'') target \<rparr>)"

section \<open>Header block\<close>

record httparse_request =
  rq_method :: "string option"
  rq_path :: "string option"
  rq_headers :: "(string \<times> bytes) list"

datatype httparse_status = Complete nat httparse_request | Partial | ParseErr

type_synonym httparse = "bytes \<Rightarrow> httparse_status"

record HeaderParseResult =
  hp_method :: string
  hp_path :: string
  hp_host :: string
  hp_fields :: "(string \<times> string) list"
  hp_content_length :: "nat option"
  hp_chunked :: bool
  hp_consumed :: nat

fun scan_headers ::
  "(string \<times> bytes) list \<Rightarrow> nat option \<Rightarrow> bool \<Rightarrow> (string \<times> string) list
     \<Rightarrow> (nat option \<times> bool \<times> (string \<times> string) list) option" where
  "scan_headers [] content_length chunked fs = Some (content_length, chunked, fs)"
| "scan_headers ((name, raw) # hs) content_length chunked fs =
     (let value = from_utf8_lossy raw; fs' = fs @ [(name, text_of value)] in
      if eq_ignore_ascii_case name ''content-length'' then
        (case parse_usize 10 (trim value) of
           None \<Rightarrow> None
         | Some parsed \<Rightarrow>
             if content_length \<noteq> None \<and> content_length \<noteq> Some parsed then None
             else scan_headers hs (Some parsed) chunked fs')
      else if eq_ignore_ascii_case name ''transfer-encoding''
              \<and> eq_ignore_ascii_case (text_of (trim value)) ''chunked'' then
        scan_headers hs content_length True fs'
      else scan_headers hs content_length chunked fs')"

definition host_without_port :: "string \<Rightarrow> string" where
  "host_without_port value =
     (if CHR '':'' \<in> set value then rev (drop 1 (dropWhile (\<lambda>c. c \<noteq> CHR '':'') (rev value)))
      else value)"

definition resolve_host :: "string \<Rightarrow> (string \<times> string) list \<Rightarrow> string" where
  "resolve_host target_host fs =
     (if target_host \<noteq> [] then target_host
      else case find (\<lambda>(name, value). eq_ignore_ascii_case name ''host'') fs of
             Some (name, value) \<Rightarrow> host_without_port value
           | None \<Rightarrow> [])"

text \<open>The outer option is the error, the inner one an incomplete header block.\<close>

definition try_parse_headers :: "httparse \<Rightarrow> bytes \<Rightarrow> HeaderParseResult option option" where
  "try_parse_headers hp buf =
     (case hp buf of
        Partial \<Rightarrow> Some None
      | ParseErr \<Rightarrow> None
      | Complete consumed req \<Rightarrow>
          (let target = parse_request_target (case rq_path req of Some p \<Rightarrow> p | None \<Rightarrow> []) in
           case scan_headers (rq_headers req) None False [] of
             None \<Rightarrow> None
           | Some (content_length, chunked, fs) \<Rightarrow>
               if chunked \<and> content_length \<noteq> None then None
               else Some (Some
                 \<lparr> hp_method = (case rq_method req of Some m \<Rightarrow> m | None \<Rightarrow> []),
                   hp_path = rt_path target, hp_host = resolve_host (rt_host target) fs,
                   hp_fields = fs, hp_content_length = content_length, hp_chunked = chunked,
                   hp_consumed = consumed \<rparr>)))"

section \<open>Body framing\<close>

datatype BodyFraming = BNone | ContentLength nat | ChunkedSize | ChunkedData nat | ChunkedTrailer

definition BodyFraming_start :: "nat option \<Rightarrow> bool \<Rightarrow> BodyFraming" where
  "BodyFraming_start content_length chunked =
     (if chunked then ChunkedSize
      else case content_length of
             None \<Rightarrow> BNone
           | Some n \<Rightarrow> if n = 0 then BNone else ContentLength n)"

fun find_crlf :: "bytes \<Rightarrow> nat option" where
  "find_crlf (a # b # bs) =
     (if a = 13 \<and> b = 10 then Some 0 else map_option Suc (find_crlf (b # bs)))"
| "find_crlf _ = None"

definition chunk_size :: "bytes \<Rightarrow> nat option" where
  "chunk_size line =
     (let hex_part = takeWhile (\<lambda>b. b \<noteq> 59) line
      in if from_utf8_ok hex_part then parse_usize 16 (trim hex_part) else None)"

lemma find_crlf_bound: "find_crlf bs = Some l \<Longrightarrow> l + 2 \<le> length bs"
  by (induction bs arbitrary: l rule: find_crlf.induct) (auto split: if_splits)

text \<open>\<open>rest\<close> is \<^verbatim>\<open>buf[pos..]\<close>; \<open>None\<close> is the error, the state is the one left in \<^verbatim>\<open>self\<close>.\<close>

function (sequential) advance_chunked ::
  "BodyFraming \<Rightarrow> bytes \<Rightarrow> nat \<Rightarrow> (nat \<times> bool \<times> BodyFraming) option" where
  "advance_chunked ChunkedSize rest pos =
     (case find_crlf rest of
        None \<Rightarrow> Some (pos, False, ChunkedSize)
      | Some line_len \<Rightarrow>
          (case chunk_size (take line_len rest) of
             None \<Rightarrow> None
           | Some sz \<Rightarrow>
               advance_chunked (if sz = 0 then ChunkedTrailer else ChunkedData sz)
                 (drop (line_len + 2) rest) (pos + line_len + 2)))"
| "advance_chunked (ChunkedData remaining) rest pos =
     (let tk = min remaining (length rest); tail = drop tk rest in
      if remaining - tk > 0 then Some (pos + tk, False, ChunkedData (remaining - tk))
      else if length tail < 2 then Some (pos + tk, False, ChunkedData 0)
      else if take 2 tail \<noteq> [13, 10] then None
      else advance_chunked ChunkedSize (drop 2 tail) (pos + tk + 2))"
| "advance_chunked ChunkedTrailer rest pos =
     (case find_crlf rest of
        None \<Rightarrow> Some (pos, False, ChunkedTrailer)
      | Some line_len \<Rightarrow>
          if line_len = 0 then Some (pos + 2, True, ChunkedTrailer)
          else advance_chunked ChunkedTrailer (drop (line_len + 2) rest) (pos + line_len + 2))"
| "advance_chunked f rest pos = None"
  by pat_completeness auto

termination advance_chunked
  by (relation "measure (\<lambda>(f, rest, pos). length rest)") (auto dest: find_crlf_bound)

fun advance :: "BodyFraming \<Rightarrow> bytes \<Rightarrow> (nat \<times> bool \<times> BodyFraming) option" where
  "advance BNone buf = Some (0, True, BNone)"
| "advance (ContentLength remaining) buf =
     (let tk = min remaining (length buf)
      in Some (tk, remaining - tk = 0, ContentLength (remaining - tk)))"
| "advance f buf = advance_chunked f buf 0"

section \<open>The parser\<close>

datatype Phase = Headers | Body BodyFraming

record Http1Parser =
  hbuf :: bytes
  phase :: Phase

definition new_http1_parser :: Http1Parser where
  "new_http1_parser = \<lparr> hbuf = [], phase = Headers \<rparr>"

record ParsedHeader =
  ph_method :: string
  ph_path :: string
  ph_host :: string
  ph_fields :: "(string \<times> string) list"
  parse_state :: i32

definition PARSE_STATE_CONTINUE :: i32 where "PARSE_STATE_CONTINUE = 0"
definition PARSE_STATE_DONE :: i32 where "PARSE_STATE_DONE = 1"
definition PARSE_STATE_ERROR :: i32 where "PARSE_STATE_ERROR = 2"

lemmas parse_states = PARSE_STATE_CONTINUE_def PARSE_STATE_DONE_def PARSE_STATE_ERROR_def

definition blank_header :: "i32 \<Rightarrow> ParsedHeader" where
  "blank_header st =
     \<lparr> ph_method = [], ph_path = [], ph_host = [], ph_fields = [], parse_state = st \<rparr>"

definition done_header :: "HeaderParseResult \<Rightarrow> ParsedHeader" where
  "done_header parsed =
     \<lparr> ph_method = hp_method parsed, ph_path = hp_path parsed, ph_host = hp_host parsed,
       ph_fields = hp_fields parsed, parse_state = PARSE_STATE_DONE \<rparr>"

definition finish :: "ParsedHeader option \<Rightarrow> ParsedHeader" where
  "finish result = (case result of Some r \<Rightarrow> r | None \<Rightarrow> blank_header PARSE_STATE_CONTINUE)"

text \<open>The loop of \<^verbatim>\<open>dispatch\<close>; \<open>None\<close> is a loop that never returns.\<close>

partial_function (option) dispatch_loop ::
  "httparse \<Rightarrow> Phase \<Rightarrow> bytes \<Rightarrow> ParsedHeader option \<Rightarrow> (Http1Parser \<times> ParsedHeader) option" where
  "dispatch_loop hp ph buf result =
     (case ph of
        Headers \<Rightarrow>
          (case try_parse_headers hp buf of
             None \<Rightarrow>
               (case result of
                  Some r \<Rightarrow> Some (\<lparr> hbuf = buf, phase = Headers \<rparr>, r)
                | None \<Rightarrow> Some (\<lparr> hbuf = [], phase = Headers \<rparr>, blank_header PARSE_STATE_ERROR))
           | Some None \<Rightarrow> Some (\<lparr> hbuf = buf, phase = Headers \<rparr>, finish result)
           | Some (Some parsed) \<Rightarrow>
               dispatch_loop hp
                 (Body (BodyFraming_start (hp_content_length parsed) (hp_chunked parsed)))
                 (drop (hp_consumed parsed) buf) (Some (done_header parsed)))
      | Body framing \<Rightarrow>
          (case advance framing buf of
             None \<Rightarrow> Some (\<lparr> hbuf = [], phase = Headers \<rparr>, blank_header PARSE_STATE_ERROR)
           | Some (consumed, complete, framing') \<Rightarrow>
               if \<not> complete
               then Some (\<lparr> hbuf = drop consumed buf, phase = Body framing' \<rparr>, finish result)
               else dispatch_loop hp Headers (drop consumed buf) result))"

declare dispatch_loop.simps [code]

definition dispatch :: "httparse \<Rightarrow> Http1Parser \<Rightarrow> bytes \<Rightarrow> (Http1Parser \<times> ParsedHeader) option" where
  "dispatch hp p data = dispatch_loop hp (phase p) (hbuf p @ data) None"

text \<open>
  What the parser relies on in httparse: a complete parse consumes a non-empty part of the input,
  and what it finds does not depend on the bytes behind that part.
\<close>

definition httparse_ok :: "httparse \<Rightarrow> bool" where
  "httparse_ok hp \<longleftrightarrow>
     (\<forall>buf n req tl. hp buf = Complete n req \<longrightarrow>
        0 < n \<and> n \<le> length buf \<and> hp (buf @ tl) = Complete n req)"

text \<open>A state that waits for more input: a body, or a header block that is incomplete.\<close>

definition awaiting :: "httparse \<Rightarrow> Http1Parser \<Rightarrow> bool" where
  "awaiting hp p \<longleftrightarrow> (phase p = Headers \<longrightarrow> try_parse_headers hp (hbuf p) = Some None)"

text \<open>Input that is refused stays refused when more bytes follow.\<close>

definition httparse_err_stable :: "httparse \<Rightarrow> bool" where
  "httparse_err_stable hp \<longleftrightarrow> (\<forall>buf tl. hp buf = ParseErr \<longrightarrow> hp (buf @ tl) = ParseErr)"

text \<open>A request parser for the examples: its only request is the two bytes \<^verbatim>\<open>G\<close> and newline, with
  a body of three bytes.\<close>

definition sample_httparse :: httparse where
  "sample_httparse buf =
     (if take 2 buf = [71, 10]
      then Complete 2 \<lparr> rq_method = Some ''GET'', rq_path = Some ''/index?x=1'',
                        rq_headers = [(''Host'', [97, 58, 56]), (''Content-Length'', [51])] \<rparr>
      else if buf = [] \<or> buf = [71] then Partial else ParseErr)"

section \<open>Body framing does not depend on segmentation\<close>

lemma find_crlf_append: "find_crlf bs = Some l \<Longrightarrow> find_crlf (bs @ xs) = Some l"
  by (induction bs arbitrary: l rule: find_crlf.induct) (auto split: if_splits)

definition shift_result ::
  "nat \<Rightarrow> (nat \<times> bool \<times> BodyFraming) option \<Rightarrow> (nat \<times> bool \<times> BodyFraming) option" where
  "shift_result n r = map_option (\<lambda>(c, d, f). (n + c, d, f)) r"

lemma shift_result_simps [simp]:
  "shift_result n None = None" "shift_result n (Some (c, d, f)) = Some (n + c, d, f)"
  "shift_result m (shift_result n r) = shift_result (m + n) r" "shift_result 0 r = r"
  by (auto simp: shift_result_def option.map_comp comp_def case_prod_unfold add.assoc option.map_ident)

lemma chunk_size_stop: "find_crlf rest = None \<Longrightarrow>
    advance_chunked ChunkedSize rest pos = Some (pos, False, ChunkedSize)"
  and chunk_size_err: "find_crlf rest = Some l \<Longrightarrow> chunk_size (take l rest) = None \<Longrightarrow>
    advance_chunked ChunkedSize rest pos = None"
  and chunk_size_step: "find_crlf rest = Some l \<Longrightarrow> chunk_size (take l rest) = Some sz \<Longrightarrow>
    advance_chunked ChunkedSize rest pos =
      advance_chunked (if sz = 0 then ChunkedTrailer else ChunkedData sz) (drop (l + 2) rest)
        (pos + (l + 2))"
  by (simp_all add: advance_chunked.simps(1) add.assoc)

lemma chunk_trailer_stop: "find_crlf rest = None \<Longrightarrow>
    advance_chunked ChunkedTrailer rest pos = Some (pos, False, ChunkedTrailer)"
  and chunk_trailer_end: "find_crlf rest = Some 0 \<Longrightarrow>
    advance_chunked ChunkedTrailer rest pos = Some (pos + 2, True, ChunkedTrailer)"
  and chunk_trailer_step: "find_crlf rest = Some l \<Longrightarrow> l \<noteq> 0 \<Longrightarrow>
    advance_chunked ChunkedTrailer rest pos =
      advance_chunked ChunkedTrailer (drop (l + 2) rest) (pos + (l + 2))"
  by (subst advance_chunked.simps(3), simp add: add.assoc)+

lemma chunk_data_short: "length rest < r \<Longrightarrow>
    advance_chunked (ChunkedData r) rest pos =
      Some (pos + length rest, False, ChunkedData (r - length rest))"
  and chunk_data_stop: "r \<le> length rest \<Longrightarrow> length rest < r + 2 \<Longrightarrow>
    advance_chunked (ChunkedData r) rest pos = Some (pos + r, False, ChunkedData 0)"
  and chunk_data_err: "r + 2 \<le> length rest \<Longrightarrow> take 2 (drop r rest) \<noteq> [13, 10] \<Longrightarrow>
    advance_chunked (ChunkedData r) rest pos = None"
  and chunk_data_step: "r + 2 \<le> length rest \<Longrightarrow> take 2 (drop r rest) = [13, 10] \<Longrightarrow>
    advance_chunked (ChunkedData r) rest pos =
      advance_chunked ChunkedSize (drop (r + 2) rest) (pos + (r + 2))"
  by (subst advance_chunked.simps(2), simp add: Let_def add.commute add.left_commute)+

lemmas chunk_unfold = chunk_size_stop chunk_size_err chunk_trailer_stop chunk_trailer_end
  chunk_data_short chunk_data_stop chunk_data_err

declare advance_chunked.simps [simp del]

text \<open>The outcomes of one round of the loop.\<close>

lemma chunk_round [case_names Flat SizeStop SizeErr Size DataShort DataStop DataErr Data
    TrailerStop TrailerEnd Trailer]:
  assumes "f = BNone \<or> (\<exists>n. f = ContentLength n) \<Longrightarrow> P"
    and "f = ChunkedSize \<Longrightarrow> find_crlf rest = None \<Longrightarrow> P"
    and "\<And>l. f = ChunkedSize \<Longrightarrow> find_crlf rest = Some l \<Longrightarrow> chunk_size (take l rest) = None \<Longrightarrow> P"
    and "\<And>l sz. f = ChunkedSize \<Longrightarrow> find_crlf rest = Some l \<Longrightarrow> chunk_size (take l rest) = Some sz \<Longrightarrow> P"
    and "\<And>r. f = ChunkedData r \<Longrightarrow> length rest < r \<Longrightarrow> P"
    and "\<And>r. f = ChunkedData r \<Longrightarrow> r \<le> length rest \<Longrightarrow> length rest < r + 2 \<Longrightarrow> P"
    and "\<And>r. f = ChunkedData r \<Longrightarrow> r + 2 \<le> length rest \<Longrightarrow> take 2 (drop r rest) \<noteq> [13, 10] \<Longrightarrow> P"
    and "\<And>r. f = ChunkedData r \<Longrightarrow> r + 2 \<le> length rest \<Longrightarrow> take 2 (drop r rest) = [13, 10] \<Longrightarrow> P"
    and "f = ChunkedTrailer \<Longrightarrow> find_crlf rest = None \<Longrightarrow> P"
    and "f = ChunkedTrailer \<Longrightarrow> find_crlf rest = Some 0 \<Longrightarrow> P"
    and "\<And>l. f = ChunkedTrailer \<Longrightarrow> find_crlf rest = Some l \<Longrightarrow> l \<noteq> 0 \<Longrightarrow> P"
  shows P
  by (metis assms BodyFraming.exhaust option.exhaust linorder_not_le)

lemma advance_chunked_flat:
  "f = BNone \<or> (\<exists>n. f = ContentLength n) \<Longrightarrow> advance_chunked f rest pos = None"
  by (auto simp: advance_chunked.simps)

lemma advance_chunked_shift:
  "advance_chunked f rest pos = shift_result pos (advance_chunked f rest 0)"
proof (induction "length rest" arbitrary: f rest pos rule: less_induct)
  case less
  have *: "advance_chunked g (drop (n + 2) rest) (pos + (n + 2)) =
      shift_result pos (advance_chunked g (drop (n + 2) rest) (0 + (n + 2)))"
    if "n + 2 \<le> length rest" for g n
    using less [of "drop (n + 2) rest" g "pos + (n + 2)"] less [of "drop (n + 2) rest" g "0 + (n + 2)"]
      that by simp
  show ?case
    by (cases rule: chunk_round [where f = f and rest = rest])
       (simp_all add: chunk_unfold advance_chunked_flat chunk_size_step chunk_data_step
         chunk_trailer_step * find_crlf_bound del: drop_drop add_2_eq_Suc' add_0)
qed

text \<open>
  Feeding a prefix and then the rest is feeding the whole: an error or a completed body is not
  changed by later bytes, and an incomplete body continues where it stopped.
\<close>

definition continues ::
  "(nat \<times> bool \<times> BodyFraming) option \<Rightarrow> (BodyFraming \<Rightarrow> bytes \<Rightarrow> (nat \<times> bool \<times> BodyFraming) option)
     \<Rightarrow> bytes \<Rightarrow> bytes \<Rightarrow> (nat \<times> bool \<times> BodyFraming) option \<Rightarrow> bool" where
  "continues part go a b whole \<longleftrightarrow>
     (case part of
        None \<Rightarrow> whole = None
      | Some (c, d, f) \<Rightarrow>
          c \<le> length a \<and>
          whole = (if d then Some (c, d, f) else shift_result c (go f (drop c a @ b))))"

lemma continues_step:
  assumes "continues part go (drop n a) b whole" and "n \<le> length a"
  shows "continues (shift_result n part) go a b (shift_result n whole)"
proof (cases part)
  case None
  then show ?thesis using assms by (simp add: continues_def)
next
  case (Some x)
  then show ?thesis using assms
    by (cases x) (auto simp: continues_def add.commute)
qed

lemma chunk_data_split:
  assumes "k \<le> r" and "k \<le> length x"
  shows "advance_chunked (ChunkedData r) x 0 =
    shift_result k (advance_chunked (ChunkedData (r - k)) (drop k x) 0)"
proof (cases rule: chunk_round [where f = "ChunkedData r" and rest = x])
  case (Data r')
  then have "r - k + 2 \<le> length (drop k x)" and "take 2 (drop (r - k) (drop k x)) = [13, 10]"
    using assms by simp_all
  from chunk_data_step [OF this, of 0] have "advance_chunked (ChunkedData (r - k)) (drop k x) 0 =
      advance_chunked ChunkedSize (drop (r + 2) x) (r - k + 2)"
    using assms by (simp add: add.commute add.left_commute)
  moreover have "advance_chunked (ChunkedData r) x 0 = advance_chunked ChunkedSize (drop (r + 2) x) (r + 2)"
    using Data chunk_data_step [of r x 0] by simp
  ultimately show ?thesis using assms
    by (simp add: advance_chunked_shift [of ChunkedSize _ "r + 2"]
        advance_chunked_shift [of ChunkedSize _ "r + 2 - k"] del: add_2_eq_Suc')
qed (use assms in \<open>auto simp: chunk_data_short chunk_data_stop chunk_data_err\<close>)

lemma advance_chunked_append:
  "continues (advance_chunked f a 0) (\<lambda>f rest. advance_chunked f rest 0) a b (advance_chunked f (a @ b) 0)"
proof (induction "length a" arbitrary: f a rule: less_induct)
  case less
  let ?go = "\<lambda>f rest. advance_chunked f rest 0"
  have step: "continues (advance_chunked g (drop (n + 2) a) (n + 2)) ?go a b
      (advance_chunked g (drop (n + 2) a @ b) (n + 2))" if "n + 2 \<le> length a" for g n
    using continues_step [OF less [of "drop (n + 2) a" g], of] that
    by (simp add: advance_chunked_shift [of g _ "n + 2"] del: drop_drop add_2_eq_Suc')
  show ?case
  proof (cases rule: chunk_round [where f = f and rest = a])
    case (Size l sz)
    have l: "l + 2 \<le> length a" by (rule find_crlf_bound [OF Size(2)])
    then show ?thesis using Size step [OF l] find_crlf_append [OF Size(2)]
      by (simp add: chunk_size_step del: add_2_eq_Suc')
  next
    case (SizeErr l)
    have l: "l + 2 \<le> length a" by (rule find_crlf_bound [OF SizeErr(2)])
    then show ?thesis using SizeErr find_crlf_append [OF SizeErr(2)]
      by (simp add: chunk_size_err continues_def)
  next
    case (DataShort r)
    then show ?thesis using chunk_data_split [of "length a" r "a @ b"]
      by (simp add: chunk_data_short continues_def)
  next
    case (DataStop r)
    then show ?thesis using chunk_data_split [of r r "a @ b"]
      by (simp add: chunk_data_stop continues_def)
  next
    case (DataErr r)
    then show ?thesis by (simp add: chunk_data_err continues_def)
  next
    case (Data r)
    then show ?thesis using step [OF Data(2)] by (simp add: chunk_data_step del: add_2_eq_Suc')
  next
    case TrailerEnd
    then show ?thesis using find_crlf_append [OF TrailerEnd(2)] find_crlf_bound [OF TrailerEnd(2)]
      by (simp add: chunk_trailer_end continues_def)
  next
    case (Trailer l)
    have l: "l + 2 \<le> length a" by (rule find_crlf_bound [OF Trailer(2)])
    then show ?thesis using Trailer step [OF l] find_crlf_append [OF Trailer(2)]
      by (simp add: chunk_trailer_step del: add_2_eq_Suc')
  qed (simp_all add: advance_chunked_flat chunk_unfold continues_def)
qed

lemma advance_is_chunked:
  "f = ChunkedSize \<or> (\<exists>r. f = ChunkedData r) \<or> f = ChunkedTrailer \<Longrightarrow>
     advance f buf = advance_chunked f buf 0"
  by auto

lemma advance_chunked_state:
  "advance_chunked f a pos = Some (c, d, f') \<Longrightarrow>
     f' = ChunkedSize \<or> (\<exists>r. f' = ChunkedData r) \<or> f' = ChunkedTrailer"
proof (induction "length a" arbitrary: f a pos rule: less_induct)
  case less
  show ?case
  proof (cases rule: chunk_round [where f = f and rest = a])
    case (Size l sz)
    then show ?thesis using less.hyps [of "drop (l + 2) a"] less.prems find_crlf_bound [OF Size(2)]
      by (auto simp: chunk_size_step simp del: add_2_eq_Suc')
  next
    case (Data r)
    then show ?thesis using less.hyps [of "drop (r + 2) a"] less.prems
      by (auto simp: chunk_data_step simp del: add_2_eq_Suc')
  next
    case (Trailer l)
    then show ?thesis using less.hyps [of "drop (l + 2) a"] less.prems find_crlf_bound [OF Trailer(2)]
      by (auto simp: chunk_trailer_step simp del: add_2_eq_Suc')
  qed (use less.prems in \<open>auto simp: advance_chunked_flat chunk_unfold\<close>)
qed

lemma advance_append: "continues (advance f a) advance a b (advance f (a @ b))"
proof (cases "f = BNone \<or> (\<exists>n. f = ContentLength n)")
  case True
  then show ?thesis by (auto simp: continues_def Let_def min_def)
next
  case False
  then have f: "advance f buf = advance_chunked f buf 0" for buf
    by (cases f) auto
  have go: "advance f' x = advance_chunked f' x 0" if "advance_chunked f a 0 = Some (c, d, f')" for c d f' x
    using advance_chunked_state [OF that] advance_is_chunked by blast
  show ?thesis unfolding f using advance_chunked_append [of f a b] go
    by (auto simp: continues_def split: option.splits)
qed

lemma advance_consumed: "advance f a = Some (c, d, f') \<Longrightarrow> c \<le> length a"
  using advance_append [of f a "[]"] by (simp add: continues_def)

section \<open>The dispatch loop\<close>

lemma try_parse_headers_consumed:
  "httparse_ok hp \<Longrightarrow> try_parse_headers hp buf = Some (Some parsed) \<Longrightarrow>
     0 < hp_consumed parsed \<and> hp_consumed parsed \<le> length buf"
  by (auto simp: try_parse_headers_def httparse_ok_def Let_def
      split: httparse_status.splits option.splits prod.splits if_splits)

lemma try_parse_headers_append:
  assumes "httparse_ok hp" and "try_parse_headers hp buf = Some (Some parsed)"
  shows "try_parse_headers hp (buf @ xs) = Some (Some parsed)"
proof -
  obtain n req where "hp buf = Complete n req"
    using assms(2) by (cases "hp buf") (auto simp: try_parse_headers_def)
  moreover then have "hp (buf @ xs) = Complete n req" using assms(1) by (simp add: httparse_ok_def)
  ultimately show ?thesis using assms(2) by (simp add: try_parse_headers_def)
qed

text \<open>The measure the loop decreases.\<close>

definition loop_size :: "Phase \<Rightarrow> bytes \<Rightarrow> nat" where
  "loop_size ph buf = 2 * length buf + (if ph = Headers then 0 else 1)"

text \<open>The loop, one round at a time.\<close>

lemma loop_rounds:
  "try_parse_headers hp buf = None \<Longrightarrow> dispatch_loop hp Headers buf res =
     Some (case res of Some r \<Rightarrow> (\<lparr> hbuf = buf, phase = Headers \<rparr>, r)
                     | None \<Rightarrow> (\<lparr> hbuf = [], phase = Headers \<rparr>, blank_header PARSE_STATE_ERROR))"
  "try_parse_headers hp buf = Some None \<Longrightarrow> dispatch_loop hp Headers buf res =
     Some (\<lparr> hbuf = buf, phase = Headers \<rparr>, finish res)"
  "try_parse_headers hp buf = Some (Some parsed) \<Longrightarrow> dispatch_loop hp Headers buf res =
     dispatch_loop hp (Body (BodyFraming_start (hp_content_length parsed) (hp_chunked parsed)))
       (drop (hp_consumed parsed) buf) (Some (done_header parsed))"
  "advance f buf = None \<Longrightarrow> dispatch_loop hp (Body f) buf res =
     Some (\<lparr> hbuf = [], phase = Headers \<rparr>, blank_header PARSE_STATE_ERROR)"
  "advance f buf = Some (c, False, f') \<Longrightarrow> dispatch_loop hp (Body f) buf res =
     Some (\<lparr> hbuf = drop c buf, phase = Body f' \<rparr>, finish res)"
  "advance f buf = Some (c, True, f') \<Longrightarrow> dispatch_loop hp (Body f) buf res =
     dispatch_loop hp Headers (drop c buf) res"
  by (subst dispatch_loop.simps, simp split: option.splits)+

lemma header_states [simp]:
  "parse_state (finish None) = PARSE_STATE_CONTINUE" "finish (Some x) = x"
  "parse_state (blank_header st) = st" "parse_state (done_header parsed) = PARSE_STATE_DONE"
  "PARSE_STATE_DONE \<noteq> PARSE_STATE_CONTINUE" "PARSE_STATE_ERROR \<noteq> PARSE_STATE_CONTINUE"
  "PARSE_STATE_CONTINUE \<noteq> PARSE_STATE_DONE" "PARSE_STATE_ERROR \<noteq> PARSE_STATE_DONE"
  by (simp_all add: finish_def blank_header_def done_header_def parse_states)

text \<open>Induction along the loop, with the outcome of the round.\<close>

lemma loop_induct [consumes 1, case_names HeadersErr HeadersWait HeadersNext BodyErr BodyWait BodyNext]:
  assumes ok: "httparse_ok hp"
    and "\<And>buf res. try_parse_headers hp buf = None \<Longrightarrow> P Headers buf res"
    and "\<And>buf res. try_parse_headers hp buf = Some None \<Longrightarrow> P Headers buf res"
    and "\<And>buf res parsed. try_parse_headers hp buf = Some (Some parsed) \<Longrightarrow>
        P (Body (BodyFraming_start (hp_content_length parsed) (hp_chunked parsed)))
          (drop (hp_consumed parsed) buf) (Some (done_header parsed)) \<Longrightarrow> P Headers buf res"
    and "\<And>f buf res. advance f buf = None \<Longrightarrow> P (Body f) buf res"
    and "\<And>f buf res c f'. advance f buf = Some (c, False, f') \<Longrightarrow> P (Body f) buf res"
    and "\<And>f buf res c f'. advance f buf = Some (c, True, f') \<Longrightarrow> P Headers (drop c buf) res \<Longrightarrow>
        P (Body f) buf res"
  shows "P ph buf res"
proof (induction "loop_size ph buf" arbitrary: ph buf res rule: less_induct)
  case less
  show ?case
  proof (cases ph)
    case Headers
    consider "try_parse_headers hp buf = None" | "try_parse_headers hp buf = Some None"
      | parsed where "try_parse_headers hp buf = Some (Some parsed)" by (metis option.exhaust)
    then show ?thesis
    proof cases
      case (3 parsed)
      then show ?thesis using assms(4) less try_parse_headers_consumed [OF ok 3] Headers
        by (fastforce simp: loop_size_def)
    qed (use assms Headers in auto)
  next
    case (Body f)
    consider "advance f buf = None" | c f' where "advance f buf = Some (c, False, f')"
      | c f' where "advance f buf = Some (c, True, f')"
      by (metis (full_types) option.exhaust prod_cases3)
    then show ?thesis
    proof cases
      case (3 c f')
      then show ?thesis using assms(7) [OF 3] less Body by (simp add: loop_size_def)
    qed (use assms Body in auto)
  qed
qed

lemma dispatch_loop_returns:
  assumes "httparse_ok hp"
  shows "\<exists>p r. dispatch_loop hp ph buf res = Some (p, r)"
  using assms by (induction ph buf res rule: loop_induct) (simp_all add: loop_rounds split: option.splits)

lemma dispatch_loop_done:
  assumes "httparse_ok hp" and "dispatch_loop hp ph buf (Some x) = Some (p, r)"
    and "parse_state x = PARSE_STATE_DONE"
  shows "parse_state r \<noteq> PARSE_STATE_CONTINUE"
proof -
  have "res = Some x \<Longrightarrow> dispatch_loop hp ph buf res = Some (p, r) \<Longrightarrow>
      parse_state x = PARSE_STATE_DONE \<Longrightarrow> parse_state r \<noteq> PARSE_STATE_CONTINUE" for res
    using assms(1) by (induction ph buf res arbitrary: x rule: loop_induct) (auto simp: loop_rounds)
  then show ?thesis using assms by blast
qed

text \<open>
  A result found earlier in the call only replaces the final answer, unless the rest of the input
  is refused.
\<close>

lemma dispatch_loop_result:
  assumes "httparse_ok hp" and "dispatch_loop hp ph buf None = Some (p, r)"
    and "parse_state r \<noteq> PARSE_STATE_ERROR"
  shows "dispatch_loop hp ph buf (Some r1) =
    Some (p, if parse_state r = PARSE_STATE_CONTINUE then r1 else r)"
proof -
  have "res = None \<Longrightarrow> dispatch_loop hp ph buf res = Some (p, r) \<Longrightarrow>
      dispatch_loop hp ph buf (Some r1) = Some (p, if parse_state r = PARSE_STATE_CONTINUE then r1 else r)" for res
    using assms(1,3)
    by (induction ph buf res rule: loop_induct)
       (auto simp: loop_rounds dest: dispatch_loop_done [OF assms(1) _ header_states(4)])
  then show ?thesis using assms by blast
qed

lemma dispatch_loop_continue:
  assumes "httparse_ok hp" and "dispatch_loop hp ph buf res = Some (p, r)" and "res = None"
    and "parse_state r = PARSE_STATE_CONTINUE"
  shows "r = finish None"
  using assms
  by (induction ph buf res rule: loop_induct)
     (auto simp: loop_rounds dest: dispatch_loop_done [OF assms(1) _ header_states(4)])

lemma dispatch_loop_append:
  assumes "httparse_ok hp" and "dispatch_loop hp ph a res = Some (p, r)"
    and "parse_state r \<noteq> PARSE_STATE_ERROR" and "awaiting hp p"
  shows "\<exists>res'. finish res' = r \<and>
    dispatch_loop hp ph (a @ b) res = dispatch_loop hp (phase p) (hbuf p @ b) res'"
  using assms
proof (induction ph a res rule: loop_induct)
  case (HeadersErr buf res)
  then show ?case by (auto simp: loop_rounds awaiting_def split: option.splits)
next
  case (HeadersWait buf res)
  then show ?case by (auto simp: loop_rounds)
next
  case (HeadersNext buf res parsed)
  then show ?case
    using try_parse_headers_append [OF assms(1) HeadersNext(1), of b]
      try_parse_headers_consumed [OF assms(1) HeadersNext(1)]
    by (simp add: loop_rounds(3))
next
  case (BodyErr f buf res)
  then show ?case by (auto simp: loop_rounds)
next
  case (BodyWait f buf res c f')
  have c: "c \<le> length buf" by (rule advance_consumed [OF BodyWait(1)])
  have "advance f (buf @ b) = shift_result c (advance f' (drop c buf @ b))"
    using advance_append [of f buf b] BodyWait by (simp add: continues_def)
  then have "dispatch_loop hp (Body f) (buf @ b) res = dispatch_loop hp (Body f') (drop c buf @ b) res"
  proof (cases "advance f' (drop c buf @ b)")
    case None
    with \<open>advance f (buf @ b) = _\<close> show ?thesis by (simp add: loop_rounds)
  next
    case (Some x)
    obtain n d g where x: "x = (n, d, g)" by (cases x)
    with Some \<open>advance f (buf @ b) = _\<close> have "advance f (buf @ b) = Some (c + n, d, g)" by simp
    then show ?thesis using Some x c by (cases d) (simp_all add: loop_rounds add.commute)
  qed
  then show ?case using BodyWait by (auto simp: loop_rounds)
next
  case (BodyNext f buf res c f')
  have c: "c \<le> length buf" by (rule advance_consumed [OF BodyNext(1)])
  have "advance f (buf @ b) = Some (c, True, f')"
    using advance_append [of f buf b] BodyNext by (simp add: continues_def)
  then show ?case using BodyNext c by (simp add: loop_rounds)
qed

lemma sample_httparse_ok: "httparse_ok sample_httparse"
  unfolding httparse_ok_def
proof (intro allI impI)
  fix buf n req tl
  assume c: "sample_httparse buf = Complete n req"
  then have "take 2 buf = [71, 10]" by (auto simp: sample_httparse_def split: if_splits)
  then obtain rest where "buf = 71 # 10 # rest"
    by (cases buf; cases "drop 1 buf") (auto simp: take_Cons')
  then show "0 < n \<and> n \<le> length buf \<and> sample_httparse (buf @ tl) = Complete n req"
    using c by (auto simp: sample_httparse_def)
qed

lemma sample_httparse_err_stable: "httparse_err_stable sample_httparse"
  unfolding httparse_err_stable_def
proof (intro allI impI)
  fix buf ext
  assume e: "sample_httparse buf = ParseErr"
  then have "buf \<noteq> []" "buf \<noteq> [71]" "take 2 buf \<noteq> [71, 10]"
    by (auto simp: sample_httparse_def split: if_splits)
  then consider x where "buf = [x]" "x \<noteq> 71" | x y ys where "buf = x # y # ys" "\<not> (x = 71 \<and> y = 10)"
    by (cases buf; cases "tl buf") auto
  then show "sample_httparse (buf @ ext) = ParseErr"
    by cases (cases ext; auto simp: sample_httparse_def)+
qed

section \<open>Properties of the HTTP/1 parser\<close>

text \<open>C25: the dispatch loop returns for every state and input, as httparse consumes at least one
  byte for each request it completes.\<close>

theorem dispatch_returns:
  assumes "httparse_ok hp"
  shows "\<exists>p' r. dispatch hp p data = Some (p', r)"
  unfolding dispatch_def by (rule dispatch_loop_returns [OF assms])

theorem dispatch_returns_witness:
  "\<exists>p' r. dispatch sample_httparse new_http1_parser [71, 10, 1, 2, 3, 71] = Some (p', r)"
  by (rule dispatch_returns [OF sample_httparse_ok])

text \<open>Body framing does not depend on where the stream is cut: if a first piece leaves the
  body incomplete, framing the whole input consumes what the first piece consumed plus what
  framing consumes when it is resumed on the left-over bytes and the second piece.\<close>

theorem body_framing_resumes:
  assumes "advance f a = Some (c, False, f')"
  shows "c \<le> length a \<and>
    advance f (a @ b) = map_option (\<lambda>(c', d, g). (c + c', d, g)) (advance f' (drop c a @ b))"
  using advance_append [of f a b] assms by (simp add: continues_def shift_result_def)

theorem body_framing_resumes_witness:
  "advance ChunkedSize ([53, 13, 10, 1, 2] @ [3, 4, 5, 13, 10, 48, 13, 10, 13, 10]) = Some (15, True, ChunkedTrailer)"
proof -
  have a: "advance ChunkedSize [53, 13, 10, 1, 2] = Some (5, False, ChunkedData 3)" by code_simp
  have b: "advance (ChunkedData 3) (drop 5 [53, 13, 10, 1, 2] @ [3, 4, 5, 13, 10, 48, 13, 10, 13, 10])
      = Some (10, True, ChunkedTrailer)" by code_simp
  show ?thesis
    using body_framing_resumes [OF a, of "[3, 4, 5, 13, 10, 48, 13, 10, 13, 10]"] b by simp
qed

text \<open>C17: on accepted input the parser does not depend on segmentation. If it accepts two pieces one after
  the other, and after the first it waits for more input (it is in a body, or its buffered bytes are an
  incomplete header block), then they leave it in the state that their concatenation does, and the last
  completed header of the two is the answer for the whole. Without the condition on the first piece the
  state can depend on the cut, as \<open>garbage_after_request_discards_next_read\<close> shows.\<close>

theorem parser_state_independent_of_segments:
  assumes "httparse_ok hp"
    and "dispatch hp p a = Some (p1, r1)" and "parse_state r1 \<noteq> PARSE_STATE_ERROR" and "awaiting hp p1"
    and "dispatch hp p1 b = Some (p2, r2)" and "parse_state r2 \<noteq> PARSE_STATE_ERROR"
  shows "dispatch hp p (a @ b) =
    Some (p2, if parse_state r2 = PARSE_STATE_CONTINUE then r1 else r2)"
proof -
  obtain res where r1: "finish res = r1" and whole: "dispatch_loop hp (phase p) ((hbuf p @ a) @ b) None =
      dispatch_loop hp (phase p1) (hbuf p1 @ b) res"
    using dispatch_loop_append [OF assms(1) assms(2) [unfolded dispatch_def] assms(3,4), of b] by blast
  have second: "dispatch_loop hp (phase p1) (hbuf p1 @ b) None = Some (p2, r2)"
    using assms(5) by (simp add: dispatch_def)
  show ?thesis
  proof (cases res)
    case None
    have "parse_state r2 = PARSE_STATE_CONTINUE \<Longrightarrow> r2 = finish None"
      using dispatch_loop_continue [OF assms(1) second refl] .
    then show ?thesis using whole second None r1 by (auto simp: dispatch_def)
  next
    case (Some x)
    then show ?thesis using dispatch_loop_result [OF assms(1) second assms(6), of x] whole r1
      by (simp add: dispatch_def)
  qed
qed

theorem parser_state_independent_of_segments_witness:
  "dispatch sample_httparse new_http1_parser ([71, 10, 1] @ [2, 3, 71]) =
     Some (\<lparr> hbuf = [71], phase = Headers \<rparr>,
           \<lparr> ph_method = ''GET'', ph_path = ''/index'', ph_host = ''a'',
             ph_fields = [(''Host'', ''a:8''), (''Content-Length'', ''3'')], parse_state = 1 \<rparr>)"
proof -
  define r where "r = \<lparr> ph_method = ''GET'', ph_path = ''/index'', ph_host = ''a'',
    ph_fields = [(''Host'', ''a:8''), (''Content-Length'', ''3'')], parse_state = (1 :: int) \<rparr>"
  define p1 where "p1 = \<lparr> hbuf = [], phase = Body (ContentLength 2) \<rparr>"
  have a: "dispatch sample_httparse new_http1_parser [71, 10, 1] = Some (p1, r)"
    unfolding p1_def r_def by code_simp
  have b: "dispatch sample_httparse p1 [2, 3, 71] =
      Some (\<lparr> hbuf = [71], phase = Headers \<rparr>, blank_header PARSE_STATE_CONTINUE)"
    unfolding p1_def by code_simp
  have w: "awaiting sample_httparse p1" by (simp add: awaiting_def p1_def)
  show ?thesis
    using parser_state_independent_of_segments [OF sample_httparse_ok a _ w b]
    by (simp add: r_def parse_states)
qed

text \<open>When a completed request is followed in the same read by bytes that are not a request,
  these bytes stay in the buffer and the next read is refused and discarded whatever it holds.\<close>

theorem garbage_after_request_discards_next_read:
  assumes "httparse_err_stable hp"
    and "dispatch hp p a = Some (p1, r1)" and "parse_state r1 = PARSE_STATE_DONE"
    and "phase p1 = Headers" and "hp (hbuf p1) = ParseErr"
  shows "dispatch hp p1 b = Some (new_http1_parser, blank_header PARSE_STATE_ERROR)"
proof -
  have "try_parse_headers hp (hbuf p1 @ b) = None"
    using assms(1,5) by (simp add: try_parse_headers_def httparse_err_stable_def)
  then show ?thesis using assms(4) by (simp add: dispatch_def loop_rounds(1) new_http1_parser_def)
qed

theorem garbage_after_request_discards_next_read_witness:
  "\<exists>p1 r1. dispatch sample_httparse new_http1_parser [71, 10, 1, 2, 3, 0] = Some (p1, r1)
     \<and> parse_state r1 = PARSE_STATE_DONE
     \<and> dispatch sample_httparse p1 [71, 10, 1, 2, 3] = Some (new_http1_parser, blank_header PARSE_STATE_ERROR)"
proof -
  define p1 where "p1 = \<lparr> hbuf = [0 :: u8], phase = Headers \<rparr>"
  define r where "r = \<lparr> ph_method = ''GET'', ph_path = ''/index'', ph_host = ''a'',
    ph_fields = [(''Host'', ''a:8''), (''Content-Length'', ''3'')], parse_state = (1 :: int) \<rparr>"
  have a: "dispatch sample_httparse new_http1_parser [71, 10, 1, 2, 3, 0] = Some (p1, r)"
    unfolding p1_def r_def by code_simp
  have e: "sample_httparse (hbuf p1) = ParseErr" unfolding p1_def by code_simp
  have "dispatch sample_httparse p1 [71, 10, 1, 2, 3] = Some (new_http1_parser, blank_header PARSE_STATE_ERROR)"
    using garbage_after_request_discards_next_read
      [OF sample_httparse_err_stable a _ _ e]
    by (simp add: r_def p1_def parse_states)
  with a show ?thesis by (auto simp: r_def parse_states)
qed

end
