(* ===== verification/Http_Conn.thy ===== *)
theory Http_Conn
  imports Http1_Codec
begin

text \<open>
  The HTTP side of a tracked connection (directory http/): header map, filter chain, the C++
  adapters of the HTTP/1 and HTTP/2 codecs, the protocol inspector and \<^verbatim>\<open>Connection\<close>. The
  libraries behind it (llhttp, nghttp2, httparse) and the filters are the fields of
  \<open>http_env\<close>. \<^verbatim>\<open>Connection::onData\<close> keeps pointers into the receive buffer, so the model reads
  bytes through an explicit memory. Memory here is total: what is behind a kept pointer whose packet
  has been freed is arbitrary, and the lemmas hold for any contents; that following such a pointer is
  undefined is part of the event loop (\<open>reads_freed\<close> in Daemon_Loop). A result \<open>None\<close> is a call that does not return: an endless
  loop or a null dereference.
\<close>

section \<open>Memory\<close>

type_synonym heap = "nat \<Rightarrow> u8"
type_synonym view = "nat \<times> nat"

definition view_bytes :: "heap \<Rightarrow> view \<Rightarrow> bytes" where
  "view_bytes mem v = map mem [fst v ..< fst v + snd v]"

section \<open>Headers\<close>

datatype ParseState = PSDone | PSContinue | PSError

datatype FilterStatus = FContinue | FStopIteration | FDropPkt

record Header =
  hd_method :: string
  hd_path :: string
  hd_host :: string
  hd_parseState :: ParseState

type_synonym RequestHeaderMap = "(string, string) hmap"

definition headers_add :: "RequestHeaderMap \<Rightarrow> string \<Rightarrow> string \<Rightarrow> RequestHeaderMap" where
  "headers_add kv key value = (if hm_has kv key then kv else hm_put key value kv)"

definition getHttpHeader :: "RequestHeaderMap \<Rightarrow> string \<Rightarrow> string" where
  "getHttpHeader kv key = (case hm_get kv key of Some v \<Rightarrow> v | None \<Rightarrow> [])"

definition toLow :: "string \<Rightarrow> string" where
  "toLow s = map to_ascii_lower s"

section \<open>The filter chain\<close>

record TCPSegment =
  seg_from :: u32
  seg_to :: u32
  seg_view :: view

record ConnectionInfo =
  info_from :: string
  info_to :: string
  info_source_port :: u16
  info_dest_port :: u16

text \<open>The virtual functions of \<^verbatim>\<open>HttpFilterBase\<close>, on a filter's own state.\<close>

record 'f filter_ops =
  onRequestHeaders :: "'f \<Rightarrow> RequestHeaderMap \<Rightarrow> 'f \<times> RequestHeaderMap \<times> FilterStatus"
  onResponseHeaders :: "'f \<Rightarrow> RequestHeaderMap \<Rightarrow> 'f \<times> RequestHeaderMap \<times> FilterStatus"
  onRequestBody :: "'f \<Rightarrow> bytes \<Rightarrow> 'f \<times> bytes \<times> FilterStatus"
  onResponseBody :: "'f \<Rightarrow> bytes \<Rightarrow> 'f \<times> bytes \<times> FilterStatus"
  onNewConnection_op :: "'f \<Rightarrow> ConnectionInfo \<Rightarrow> 'f \<times> ConnectionInfo \<times> FilterStatus"
  onData_op :: "'f \<Rightarrow> bytes \<Rightarrow> 'f \<times> bytes \<times> FilterStatus"
  onClose_op :: "'f \<Rightarrow> 'f"
  setTCPSegment_op :: "'f \<Rightarrow> view \<Rightarrow> 'f"

record 'f HttpFilterManager =
  fm_filters :: "'f list"
  fm_tcp_segment :: TCPSegment
  fm_connection :: ConnectionInfo

text \<open>The loop the four decoding functions share: call the filters in order, stop at the first
  \<^verbatim>\<open>StopIteration\<close>.\<close>

fun run_filters ::
  "('f \<Rightarrow> 'x \<Rightarrow> 'f \<times> 'x \<times> FilterStatus) \<Rightarrow> 'x \<Rightarrow> 'f list \<Rightarrow> 'f list \<times> 'x \<times> FilterStatus" where
  "run_filters f x [] = ([], x, FContinue)"
| "run_filters f x (flt # flts) =
     (case f flt x of
        (flt', x', status) \<Rightarrow>
          if status = FStopIteration then (flt' # flts, x', FStopIteration)
          else (case run_filters f x' flts of (flts', x'', status') \<Rightarrow> (flt' # flts', x'', status')))"

definition decodeHeaders ::
  "'f filter_ops \<Rightarrow> 'f HttpFilterManager \<Rightarrow> RequestHeaderMap \<Rightarrow> bool
     \<Rightarrow> 'f HttpFilterManager \<times> RequestHeaderMap \<times> FilterStatus" where
  "decodeHeaders ops fm headers serverSide =
     (case run_filters (if serverSide then onRequestHeaders ops else onResponseHeaders ops)
             headers (fm_filters fm) of
        (flts, headers', status) \<Rightarrow> (fm\<lparr> fm_filters := flts \<rparr>, headers', status))"

definition decodeBody ::
  "'f filter_ops \<Rightarrow> 'f HttpFilterManager \<Rightarrow> bytes \<Rightarrow> bool \<Rightarrow> 'f HttpFilterManager \<times> FilterStatus" where
  "decodeBody ops fm body serverSide =
     (case run_filters (if serverSide then onRequestBody ops else onResponseBody ops)
             body (fm_filters fm) of
        (flts, _, status) \<Rightarrow> (fm\<lparr> fm_filters := flts \<rparr>, status))"

definition addFilter :: "'f HttpFilterManager \<Rightarrow> 'f \<Rightarrow> 'f HttpFilterManager" where
  "addFilter fm flt = fm\<lparr> fm_filters := fm_filters fm @ [flt] \<rparr>"

text \<open>\<^verbatim>\<open>HttpFilterManager(factory, key, from, to)\<close>: one filter per registered callback, in order.\<close>

definition new_filter_manager ::
  "(nat \<Rightarrow> u32 \<Rightarrow> u32 \<Rightarrow> 'f) list \<Rightarrow> nat \<Rightarrow> u32 \<Rightarrow> u32 \<Rightarrow> 'f HttpFilterManager \<Rightarrow> 'f HttpFilterManager"
  where
  "new_filter_manager filterCbs key frm dst blank =
     (let fm = fold (\<lambda>cb fm. addFilter fm (cb key frm dst)) filterCbs blank
      in fm\<lparr> fm_tcp_segment := (fm_tcp_segment fm)\<lparr> seg_from := frm, seg_to := dst \<rparr> \<rparr>)"

definition onNewConnection ::
  "'f filter_ops \<Rightarrow> 'f HttpFilterManager \<Rightarrow> ConnectionInfo \<Rightarrow> 'f HttpFilterManager \<times> FilterStatus" where
  "onNewConnection ops fm conn =
     (case run_filters (\<lambda>flt c. case onNewConnection_op ops flt c of (flt', _, st) \<Rightarrow> (flt', c, st))
             conn (fm_filters fm) of
        (flts, _, status) \<Rightarrow> (fm\<lparr> fm_connection := conn, fm_filters := flts \<rparr>, status))"

definition manager_onData ::
  "'f filter_ops \<Rightarrow> 'f HttpFilterManager \<Rightarrow> bytes \<Rightarrow> 'f HttpFilterManager \<times> bytes \<times> FilterStatus" where
  "manager_onData ops fm data =
     (case run_filters (onData_op ops) data (fm_filters fm) of
        (flts, data', status) \<Rightarrow> (fm\<lparr> fm_filters := flts \<rparr>, data', status))"

definition onClose :: "'f filter_ops \<Rightarrow> 'f HttpFilterManager \<Rightarrow> 'f HttpFilterManager \<times> FilterStatus" where
  "onClose ops fm = (fm\<lparr> fm_filters := map (onClose_op ops) (fm_filters fm) \<rparr>, FContinue)"

definition setTCPSegment :: "'f filter_ops \<Rightarrow> 'f HttpFilterManager \<Rightarrow> view \<Rightarrow> 'f HttpFilterManager" where
  "setTCPSegment ops fm p =
     fm\<lparr> fm_tcp_segment := (fm_tcp_segment fm)\<lparr> seg_view := p \<rparr>,
         fm_filters := map (\<lambda>flt. setTCPSegment_op ops flt p) (fm_filters fm) \<rparr>"

section \<open>The libraries\<close>

text \<open>The callbacks nghttp2 makes while it reads a buffer: whether the frame is a HEADERS frame,
  whether its category is a request, and the stream.\<close>

datatype h2_event =
    BeginHeaders bool bool int
  | OnHeader bool bool int string bytes
  | StreamClose int

record ('l, 's, 'f) http_env =
  llhttp_init :: 'l
  llhttp_execute :: "'l \<Rightarrow> bytes \<Rightarrow> 'l \<times> bool"
  http1_parse :: httparse
  nghttp2_session_server_new :: 's
  nghttp2_session_mem_recv :: "'s \<Rightarrow> bytes \<Rightarrow> 's \<times> h2_event list \<times> int"
  filter_impl :: "'f filter_ops"

section \<open>The HTTP/1 codec\<close>

text \<open>\<^verbatim>\<open>status_\<close> is not initialised by the constructor: \<open>None\<close> until the first header block.\<close>

record Http1Connection =
  h1_parser :: Http1Parser
  h1_header :: Header
  raw_host_header :: string
  headerMap :: RequestHeaderMap
  h1_serverSide :: bool
  h1_status :: "FilterStatus option"

definition blank_codec_header :: Header where
  "blank_codec_header = \<lparr> hd_method = [], hd_path = [], hd_host = [], hd_parseState = PSContinue \<rparr>"

definition new_http1_connection :: "bool \<Rightarrow> Http1Connection" where
  "new_http1_connection serverSide =
     \<lparr> h1_parser = new_http1_parser, h1_header = blank_codec_header, raw_host_header = [],
       headerMap = [], h1_serverSide = serverSide, h1_status = None \<rparr>"

definition add_field :: "string \<times> string \<Rightarrow> string \<times> RequestHeaderMap \<Rightarrow> string \<times> RequestHeaderMap" where
  "add_field f acc =
     (case (f, acc) of
        ((name, value), (raw_host, hdrs)) \<Rightarrow>
          (if name = ''Host'' \<or> name = ''host'' then value else raw_host,
           headers_add hdrs (toLow name) (toLow value)))"

definition applyParsedHeader ::
  "'f filter_ops \<Rightarrow> 'f HttpFilterManager \<Rightarrow> Http1Connection \<Rightarrow> ParsedHeader
     \<Rightarrow> 'f HttpFilterManager \<times> Http1Connection" where
  "applyParsedHeader ops fm c parsed =
     (let header = \<lparr> hd_method = ph_method parsed, hd_path = ph_path parsed, hd_host = ph_host parsed,
                     hd_parseState = PSDone \<rparr>;
          (raw_host, hdrs) = fold add_field (ph_fields parsed) ([], []);
          hdrs' = headers_add (headers_add (headers_add hdrs '':host'' (hd_host header))
                    '':method'' (hd_method header)) '':path'' (hd_path header);
          (fm', hdrs'', status) = decodeHeaders ops fm hdrs' (h1_serverSide c)
      in (fm', c\<lparr> h1_header := header, raw_host_header := raw_host, headerMap := hdrs'',
                  h1_status := Some status \<rparr>))"

text \<open>Both \<^verbatim>\<open>dispatch\<close> overloads; they differ in what they return of the new state.\<close>

definition http1_dispatch ::
  "('l, 's, 'f) http_env \<Rightarrow> 'f HttpFilterManager \<Rightarrow> Http1Connection \<Rightarrow> bytes
     \<Rightarrow> ('f HttpFilterManager \<times> Http1Connection) option" where
  "http1_dispatch env fm c data =
     (case dispatch (http1_parse env) (h1_parser c) data of
        None \<Rightarrow> None
      | Some (parser', parsed) \<Rightarrow>
          (let c' = c\<lparr> h1_parser := parser' \<rparr> in
           if parse_state parsed = PARSE_STATE_ERROR then
             Some (fm, c'\<lparr> h1_header := (h1_header c')\<lparr> hd_parseState := PSError \<rparr> \<rparr>)
           else if parse_state parsed = PARSE_STATE_CONTINUE then
             Some (fm, c'\<lparr> h1_header := (h1_header c')\<lparr> hd_parseState := PSContinue \<rparr> \<rparr>)
           else Some (applyParsedHeader (filter_impl env) fm c' parsed)))"

section \<open>The HTTP/2 codec\<close>

record 's Http2Connection =
  h2_session :: 's
  h2_header :: Header
  h2_stream_data :: "(int, Header) hmap"

definition new_http2_connection :: "('l, 's, 'f) http_env \<Rightarrow> 's Http2Connection" where
  "new_http2_connection env =
     \<lparr> h2_session = nghttp2_session_server_new env, h2_header = blank_codec_header,
       h2_stream_data = [] \<rparr>"

definition isHeaderComplete :: "Header \<Rightarrow> bool" where
  "isHeaderComplete h \<longleftrightarrow> \<not> (hd_path h = [] \<or> hd_host h = [] \<or> hd_method h = [])"

definition set_pseudo_header :: "string \<Rightarrow> string \<Rightarrow> Header \<Rightarrow> Header" where
  "set_pseudo_header name value h =
     (if name = '':method'' then h\<lparr> hd_method := value \<rparr>
      else if name = '':path'' then h\<lparr> hd_path := value \<rparr>
      else if name = '':authority'' then h\<lparr> hd_host := value \<rparr>
      else h)"

text \<open>The header allocated for a stream has an indeterminate parse state that is never read.
  The on_header callback dereferences the stream's header if it has something to store.\<close>

definition on_header ::
  "int \<Rightarrow> string \<Rightarrow> string \<Rightarrow> 's Http2Connection \<Rightarrow> 's Http2Connection option" where
  "on_header stream name value c =
     (let codec_header = set_pseudo_header name value (h2_header c);
          complete = isHeaderComplete codec_header in
      case hm_get (h2_stream_data c) stream of
        None \<Rightarrow>
          if name \<in> {'':method'', '':path'', '':authority''} \<or> complete then None
          else Some c
      | Some h \<Rightarrow>
          (let h' = set_pseudo_header name value h;
               h'' = (if complete then h'\<lparr> hd_parseState := PSDone \<rparr> else h')
           in Some (c\<lparr> h2_header := (if complete then codec_header\<lparr> hd_parseState := PSDone \<rparr>
                                     else codec_header),
                       h2_stream_data := hm_put stream h'' (h2_stream_data c) \<rparr>)))"

fun h2_callback :: "h2_event \<Rightarrow> 's Http2Connection \<Rightarrow> 's Http2Connection option" where
  "h2_callback (BeginHeaders is_headers is_request stream) c =
     (if \<not> is_headers \<or> \<not> is_request then Some c
      else Some (c\<lparr> h2_stream_data := hm_put stream blank_codec_header (h2_stream_data c) \<rparr>))"
| "h2_callback (OnHeader is_headers is_request stream name value) c =
     (if \<not> is_headers then Some c
      else if \<not> is_request then Some c
      else on_header stream name (text_of value) c)"
| "h2_callback (StreamClose stream) c =
     Some (c\<lparr> h2_stream_data := hm_del stream (h2_stream_data c) \<rparr>)"

fun h2_callbacks :: "h2_event list \<Rightarrow> 's Http2Connection \<Rightarrow> 's Http2Connection option" where
  "h2_callbacks [] c = Some c"
| "h2_callbacks (ev # evs) c =
     (case h2_callback ev c of None \<Rightarrow> None | Some c' \<Rightarrow> h2_callbacks evs c')"

definition http2_dispatch ::
  "('l, 's, 'f) http_env \<Rightarrow> 's Http2Connection \<Rightarrow> bytes \<Rightarrow> 's Http2Connection option" where
  "http2_dispatch env c data =
     (if isHeaderComplete (h2_header c) then Some c
      else case nghttp2_session_mem_recv env (h2_session c) data of
             (session', evs, ret) \<Rightarrow>
               (case h2_callbacks evs (c\<lparr> h2_session := session' \<rparr>) of
                  None \<Rightarrow> None
                | Some c' \<Rightarrow>
                    if ret < 0
                    then Some (c'\<lparr> h2_header := (h2_header c')\<lparr> hd_parseState := PSError \<rparr> \<rparr>)
                    else Some c'))"

section \<open>The inspector\<close>

datatype Protocol = Http10 | Http11 | Http2 | Http3

record 'l HttpInspector =
  insp_parser :: 'l
  insp_protocol :: "Protocol option"

definition new_inspector :: "('l, 's, 'f) http_env \<Rightarrow> 'l HttpInspector" where
  "new_inspector env = \<lparr> insp_parser = llhttp_init env, insp_protocol = None \<rparr>"

definition HTTP2_CONNECTION_PREFACE :: bytes where
  "HTTP2_CONNECTION_PREFACE =
     [80, 82, 73, 32, 42, 32, 72, 84, 84, 80, 47, 50, 46, 48, 13, 10, 13, 10, 83, 77, 13, 10, 13, 10]"

definition is_crlf :: "u8 \<Rightarrow> bool" where
  "is_crlf b \<longleftrightarrow> b = 13 \<or> b = 10"

definition parseHttpHeader ::
  "('l, 's, 'f) http_env \<Rightarrow> 'l HttpInspector \<Rightarrow> bytes \<Rightarrow> 'l HttpInspector \<times> ParseState" where
  "parseHttpHeader env insp data =
     (let len = min (length data) (length HTTP2_CONNECTION_PREFACE) in
      if take len HTTP2_CONNECTION_PREFACE = take len data then
        (if length data < length HTTP2_CONNECTION_PREFACE then (insp, PSContinue)
         else (insp\<lparr> insp_protocol := Some Http2 \<rparr>, PSDone))
      else if is_crlf (data ! 0) then (insp, PSError)
      else if list_ex is_crlf data then
        (let new_data = takeWhile (\<lambda>b. \<not> is_crlf b) data
                        @ take 1 (dropWhile (\<lambda>b. \<not> is_crlf b) data);
             (parser', ok) = llhttp_execute env (insp_parser insp) new_data;
             insp' = insp\<lparr> insp_parser := parser' \<rparr>
         in if \<not> ok then (insp', PSError)
            else (insp'\<lparr> insp_protocol := Some Http11 \<rparr>, PSDone))
      else
        (let (parser', ok) = llhttp_execute env (insp_parser insp) data;
             insp' = insp\<lparr> insp_parser := parser' \<rparr>
         in if \<not> ok then (insp', PSError) else (insp', PSContinue)))"

section \<open>Connections\<close>

datatype 's Codec = CHttp1 Http1Connection | CHttp2 "'s Http2Connection"

text \<open>\<^verbatim>\<open>packet_\<close> holds fragments that point into the caller's memory (\<^verbatim>\<open>from_static_data\<close>).\<close>

record ('l, 's, 'f) Connection =
  rule_key :: string
  codec :: "'s Codec option"
  inspector :: "'l HttpInspector"
  conn_header :: Header
  conn_packet :: "view list"
  filters_manager :: "'f HttpFilterManager"
  server_side :: bool

definition blank_manager :: "'f HttpFilterManager" where
  "blank_manager =
     \<lparr> fm_filters = [], fm_tcp_segment = \<lparr> seg_from = 0, seg_to = 0, seg_view = (0, 0) \<rparr>,
       fm_connection = \<lparr> info_from = [], info_to = [], info_source_port = 0, info_dest_port = 0 \<rparr> \<rparr>"

text \<open>\<^verbatim>\<open>header_()\<close> is value-initialised: its parse state is the enumerator 0.\<close>

definition new_connection :: "('l, 's, 'f) http_env \<Rightarrow> string \<Rightarrow> ('l, 's, 'f) Connection" where
  "new_connection env key =
     \<lparr> rule_key = key, codec = None, inspector = new_inspector env,
       conn_header = \<lparr> hd_method = [], hd_path = [], hd_host = [], hd_parseState = PSDone \<rparr>,
       conn_packet = [], filters_manager = blank_manager, server_side = False \<rparr>"

definition createCodec ::
  "('l, 's, 'f) http_env \<Rightarrow> Protocol \<Rightarrow> ('l, 's, 'f) Connection \<Rightarrow> ('l, 's, 'f) Connection" where
  "createCodec env protocol c =
     c\<lparr> codec := (case protocol of
          Http2 \<Rightarrow> Some (CHttp2 (new_http2_connection env))
        | Http10 \<Rightarrow> Some (CHttp1 (new_http1_connection (server_side c)))
        | Http11 \<Rightarrow> Some (CHttp1 (new_http1_connection (server_side c)))
        | Http3 \<Rightarrow> None) \<rparr>"

definition codec_dispatch ::
  "('l, 's, 'f) http_env \<Rightarrow> ('l, 's, 'f) Connection \<Rightarrow> bytes \<Rightarrow> ('l, 's, 'f) Connection option" where
  "codec_dispatch env c data =
     (case codec c of
        None \<Rightarrow> None
      | Some (CHttp1 h) \<Rightarrow>
          (case http1_dispatch env (filters_manager c) h data of
             None \<Rightarrow> None
           | Some (fm, h') \<Rightarrow> Some (c\<lparr> codec := Some (CHttp1 h'), filters_manager := fm \<rparr>))
      | Some (CHttp2 h) \<Rightarrow>
          (case http2_dispatch env h data of
             None \<Rightarrow> None
           | Some h' \<Rightarrow> Some (c\<lparr> codec := Some (CHttp2 h') \<rparr>)))"

fun codec_header :: "'s Codec \<Rightarrow> Header" where
  "codec_header (CHttp1 h) = h1_header h"
| "codec_header (CHttp2 h) = h2_header h"

definition packet_bytes :: "heap \<Rightarrow> view list \<Rightarrow> bytes" where
  "packet_bytes mem p = concat (map (view_bytes mem) p)"

text \<open>The part of \<^verbatim>\<open>onData\<close> behind the inspector: buffered bytes first, then the new ones.\<close>

definition feed_codec ::
  "('l, 's, 'f) http_env \<Rightarrow> heap \<Rightarrow> ('l, 's, 'f) Connection \<Rightarrow> bytes
     \<Rightarrow> (('l, 's, 'f) Connection \<times> Header) option" where
  "feed_codec env mem c data =
     (case (if sum_list (map snd (conn_packet c)) > 0
            then map_option (\<lambda>c'. c'\<lparr> conn_packet := [] \<rparr>)
                   (codec_dispatch env c (packet_bytes mem (conn_packet c)))
            else Some c) of
        None \<Rightarrow> None
      | Some c1 \<Rightarrow>
          (case codec_dispatch env c1 data of
             None \<Rightarrow> None
           | Some c2 \<Rightarrow>
               (case codec c2 of None \<Rightarrow> None | Some k \<Rightarrow> Some (c2, codec_header k))))"

definition onData ::
  "('l, 's, 'f) http_env \<Rightarrow> heap \<Rightarrow> ('l, 's, 'f) Connection \<Rightarrow> view
     \<Rightarrow> (('l, 's, 'f) Connection \<times> Header) option" where
  "onData env mem c v =
     (let data = view_bytes mem v in
      if codec c = None then
        (case parseHttpHeader env (inspector c) data of
           (insp, st) \<Rightarrow>
             (let c1 = c\<lparr> inspector := insp,
                          conn_header := (conn_header c)\<lparr> hd_parseState := st \<rparr> \<rparr> in
              case st of
                PSDone \<Rightarrow>
                  (case insp_protocol insp of
                     None \<Rightarrow> None
                   | Some protocol \<Rightarrow> feed_codec env mem (createCodec env protocol c1) data)
              | PSContinue \<Rightarrow> Some (c1\<lparr> conn_packet := conn_packet c1 @ [v] \<rparr>, conn_header c1)
              | PSError \<Rightarrow> Some (c1, conn_header c1)))
      else feed_codec env mem c data)"

definition registerFilter :: "('l, 's, 'f) Connection \<Rightarrow> 'f \<Rightarrow> ('l, 's, 'f) Connection" where
  "registerFilter c flt =
     (let c1 = c\<lparr> filters_manager := addFilter (filters_manager c) flt \<rparr>
      in if codec c1 \<noteq> None then c1\<lparr> filters_manager := addFilter (filters_manager c1) flt \<rparr> else c1)"

section \<open>What the daemon relies on\<close>

text \<open>
  nghttp2 reports the header fields of a request only between the start of its header block and
  the close of the stream. \<open>opn\<close> gives the streams that are open in a session.
\<close>

fun stream_events :: "int set \<Rightarrow> h2_event list \<Rightarrow> int set option" where
  "stream_events S [] = Some S"
| "stream_events S (BeginHeaders h r s # evs) = stream_events (if h \<and> r then insert s S else S) evs"
| "stream_events S (OnHeader h r s n v # evs) =
     (if h \<and> r \<and> s \<notin> S then None else stream_events S evs)"
| "stream_events S (StreamClose s # evs) = stream_events (S - {s}) evs"

definition nghttp2_ok :: "('l, 's, 'f) http_env \<Rightarrow> ('s \<Rightarrow> int set) \<Rightarrow> bool" where
  "nghttp2_ok env opn \<longleftrightarrow>
     opn (nghttp2_session_server_new env) = {} \<and>
     (\<forall>s data s' evs ret. nghttp2_session_mem_recv env s data = (s', evs, ret) \<longrightarrow>
        stream_events (opn s) evs = Some (opn s'))"

definition http_env_ok :: "('l, 's, 'f) http_env \<Rightarrow> ('s \<Rightarrow> int set) \<Rightarrow> bool" where
  "http_env_ok env opn \<longleftrightarrow> httparse_ok (http1_parse env) \<and> nghttp2_ok env opn"

definition keys_of :: "('k, 'v) hmap \<Rightarrow> 'k set" where
  "keys_of m = {k. hm_has m k}"

definition codec_ok :: "('s \<Rightarrow> int set) \<Rightarrow> 's Codec \<Rightarrow> bool" where
  "codec_ok opn k =
     (case k of
        CHttp1 h \<Rightarrow> True
      | CHttp2 h \<Rightarrow> opn (h2_session h) \<subseteq> keys_of (h2_stream_data h))"

definition connection_ok :: "('s \<Rightarrow> int set) \<Rightarrow> ('l, 's, 'f) Connection \<Rightarrow> bool" where
  "connection_ok opn c \<longleftrightarrow>
     insp_protocol (inspector c) \<in> {None, Some Http11, Some Http2} \<and>
     (case codec c of None \<Rightarrow> True | Some k \<Rightarrow> codec_ok opn k)"

text \<open>An environment for the examples: the request line \<^verbatim>\<open>GH\<close> and newline, no HTTP/2 frames.\<close>

definition line_httparse :: httparse where
  "line_httparse buf =
     (if take 3 buf = [71, 72, 10]
      then Complete 3 \<lparr> rq_method = Some ''GET'', rq_path = Some ''/admin'', rq_headers = [] \<rparr>
      else if buf = [] \<or> buf = [71] \<or> buf = [71, 72] then Partial else ParseErr)"

definition sample_filter_ops :: "unit filter_ops" where
  "sample_filter_ops =
     \<lparr> onRequestHeaders = \<lambda>f x. (f, x, FContinue), onResponseHeaders = \<lambda>f x. (f, x, FContinue),
       onRequestBody = \<lambda>f x. (f, x, FContinue), onResponseBody = \<lambda>f x. (f, x, FContinue),
       onNewConnection_op = \<lambda>f x. (f, x, FContinue), onData_op = \<lambda>f x. (f, x, FContinue),
       onClose_op = \<lambda>f. f, setTCPSegment_op = \<lambda>f v. f \<rparr>"

definition sample_env :: "(unit, unit, unit) http_env" where
  "sample_env =
     \<lparr> llhttp_init = (), llhttp_execute = \<lambda>l bs. ((), True), http1_parse = line_httparse,
       nghttp2_session_server_new = (), nghttp2_session_mem_recv = \<lambda>s bs. ((), [], int (length bs)),
       filter_impl = sample_filter_ops \<rparr>"

text \<open>The memory with a packet written at address 0.\<close>

definition rx_buffer :: "bytes \<Rightarrow> heap" where
  "rx_buffer bs = (\<lambda>a. if a < length bs then bs ! a else 0)"

section \<open>The codecs return\<close>

lemma http1_dispatch_returns:
  "httparse_ok (http1_parse env) \<Longrightarrow> \<exists>fm' h'. http1_dispatch env fm h data = Some (fm', h')"
  using dispatch_loop_returns [of "http1_parse env" "phase (h1_parser h)" "hbuf (h1_parser h) @ data" None]
  by (auto simp: http1_dispatch_def dispatch_def Let_def)

lemma set_pseudo_header_state [simp]:
  "hd_parseState (set_pseudo_header name value h) = hd_parseState h"
  by (simp add: set_pseudo_header_def)

lemma set_pseudo_header_other:
  "name \<notin> {'':method'', '':path'', '':authority''} \<Longrightarrow> set_pseudo_header name value h = h"
  by (simp add: set_pseudo_header_def)

lemma isHeaderComplete_state [simp]: "isHeaderComplete (h\<lparr> hd_parseState := st \<rparr>) = isHeaderComplete h"
  by (simp add: isHeaderComplete_def)

lemma keys_of_put [simp]: "keys_of (hm_put k v m) = insert k (keys_of m)"
  by (auto simp: keys_of_def hm_has_def hmap_simps)

lemma keys_of_del [simp]: "keys_of (hm_del k m) = keys_of m - {k}"
  by (auto simp: keys_of_def hm_has_def hmap_simps)

lemma on_header_returns:
  assumes "s \<in> keys_of (h2_stream_data c)"
  shows "\<exists>c'. on_header s name value c = Some c' \<and> keys_of (h2_stream_data c') = keys_of (h2_stream_data c)
    \<and> h2_session c' = h2_session c"
  using assms by (auto simp: on_header_def keys_of_def hm_has_def hmap_simps Let_def)

lemma h2_callbacks_return:
  assumes "stream_events S evs = Some S'" and "S \<subseteq> keys_of (h2_stream_data c)"
  shows "\<exists>c'. h2_callbacks evs c = Some c' \<and> S' \<subseteq> keys_of (h2_stream_data c') \<and> h2_session c' = h2_session c"
  using assms
proof (induction S evs arbitrary: c rule: stream_events.induct)
  case (3 S h r s n v evs)
  show ?case
  proof (cases "h \<and> r")
    case True
    then have s: "s \<in> S" and rest: "stream_events S evs = Some S'" using 3(2) by (auto split: if_splits)
    obtain c1 where c1: "on_header s n (text_of v) c = Some c1"
      "keys_of (h2_stream_data c1) = keys_of (h2_stream_data c)" "h2_session c1 = h2_session c"
      using on_header_returns [of s c n "text_of v"] s 3(3) by blast
    then show ?thesis using 3(1) [of c1] True s rest 3(3) by simp
  next
    case False
    then show ?thesis using 3 by auto
  qed
next
  case (2 S h r s evs)
  show ?case
  proof (cases "h \<and> r")
    case True
    then show ?thesis
      using 2(1) [of "c\<lparr> h2_stream_data := hm_put s blank_codec_header (h2_stream_data c) \<rparr>"] 2(2,3)
      by auto
  next
    case False
    then show ?thesis using 2 by auto
  qed
next
  case (4 S s evs)
  show ?case
    using 4(1) [of "c\<lparr> h2_stream_data := hm_del s (h2_stream_data c) \<rparr>"] 4(2,3) by auto
qed simp

lemma http2_dispatch_returns:
  assumes "nghttp2_ok env opn" and "opn (h2_session h) \<subseteq> keys_of (h2_stream_data h)"
  shows "\<exists>h'. http2_dispatch env h data = Some h' \<and> opn (h2_session h') \<subseteq> keys_of (h2_stream_data h')"
proof (cases "isHeaderComplete (h2_header h)")
  case True
  then show ?thesis using assms by (simp add: http2_dispatch_def)
next
  case False
  obtain s' evs ret where r: "nghttp2_session_mem_recv env (h2_session h) data = (s', evs, ret)"
    by (metis prod_cases3)
  have ev: "stream_events (opn (h2_session h)) evs = Some (opn s')"
    using assms(1) r unfolding nghttp2_ok_def by blast
  have keys: "opn (h2_session h) \<subseteq> keys_of (h2_stream_data (h\<lparr> h2_session := s' \<rparr>))"
    using assms(2) by simp
  from h2_callbacks_return [OF ev keys] show ?thesis
    using False r by (auto simp: http2_dispatch_def)
qed

lemma codec_dispatch_returns:
  assumes "http_env_ok env opn" and "codec c = Some k" and "codec_ok opn k"
  shows "\<exists>c' k'. codec_dispatch env c data = Some c' \<and> codec c' = Some k' \<and> codec_ok opn k'
    \<and> rule_key c' = rule_key c \<and> inspector c' = inspector c"
proof (cases k)
  case (CHttp1 h)
  obtain fm' h' where "http1_dispatch env (filters_manager c) h data = Some (fm', h')"
    using http1_dispatch_returns assms(1) by (metis http_env_ok_def)
  then show ?thesis using CHttp1 assms(2) by (simp add: codec_dispatch_def codec_ok_def)
next
  case (CHttp2 h)
  obtain h' where "http2_dispatch env h data = Some h'" "opn (h2_session h') \<subseteq> keys_of (h2_stream_data h')"
    using http2_dispatch_returns [of env opn h data] assms CHttp2 by (auto simp: http_env_ok_def codec_ok_def)
  then show ?thesis using CHttp2 assms(2) by (simp add: codec_dispatch_def codec_ok_def)
qed

lemma feed_codec_returns:
  assumes env: "http_env_ok env opn" and k: "codec c = Some k" "codec_ok opn k"
  shows "\<exists>c' k'. feed_codec env mem c data = Some (c', codec_header k') \<and> codec c' = Some k'
    \<and> codec_ok opn k' \<and> rule_key c' = rule_key c \<and> inspector c' = inspector c"
proof -
  obtain c1 k1 where c1: "codec c1 = Some k1" "codec_ok opn k1" "rule_key c1 = rule_key c"
    "inspector c1 = inspector c"
    and r1: "(if sum_list (map snd (conn_packet c)) > 0
        then map_option (\<lambda>c'. c'\<lparr> conn_packet := [] \<rparr>)
               (codec_dispatch env c (packet_bytes mem (conn_packet c)))
        else Some c) = Some c1"
  proof (cases "sum_list (map snd (conn_packet c)) > 0")
    case True
    then show ?thesis
      using codec_dispatch_returns [OF env k, of "packet_bytes mem (conn_packet c)"] that by fastforce
  next
    case False
    then show ?thesis using that [of c k] k by (simp del: sum_list_eq_0_iff)
  qed
  from codec_dispatch_returns [OF env c1(1,2), of data] c1 r1 show ?thesis
    by (auto simp: feed_codec_def)
qed

section \<open>Connections return and keep their rule key\<close>

lemma parseHttpHeader_cases:
  "parseHttpHeader env insp data = (insp', st) \<Longrightarrow>
     (st = PSDone \<longrightarrow> insp_protocol insp' = Some Http11 \<or> insp_protocol insp' = Some Http2)
     \<and> (st \<noteq> PSDone \<longrightarrow> insp_protocol insp' = insp_protocol insp)"
  by (auto simp: parseHttpHeader_def Let_def split: if_splits prod.splits)

lemma onData_returns:
  assumes env: "http_env_ok env opn" and c: "connection_ok opn c"
  shows "\<exists>c' h. onData env mem c v = Some (c', h) \<and> connection_ok opn c' \<and> rule_key c' = rule_key c"
proof (cases "codec c")
  case (Some k)
  then have k: "codec_ok opn k" using c by (simp add: connection_ok_def)
  from feed_codec_returns [OF env Some k, of mem "view_bytes mem v"] show ?thesis
    using Some c by (auto simp: onData_def Let_def connection_ok_def)
next
  case None
  obtain insp st where p: "parseHttpHeader env (inspector c) (view_bytes mem v) = (insp, st)" by force
  note pc = parseHttpHeader_cases [OF p]
  define c1 where "c1 = c\<lparr> inspector := insp, conn_header := (conn_header c)\<lparr> hd_parseState := st \<rparr> \<rparr>"
  show ?thesis
  proof (cases st)
    case PSDone
    then obtain protocol where pr: "insp_protocol insp = Some protocol" "protocol \<in> {Http11, Http2}"
      using pc by auto
    define c2 where "c2 = createCodec env protocol c1"
    have open0: "opn (nghttp2_session_server_new env) = {}"
      using env by (auto simp: http_env_ok_def nghttp2_ok_def)
    then obtain k where k: "codec c2 = Some k" "codec_ok opn k"
      using pr(2) by (auto simp: c2_def createCodec_def codec_ok_def new_http2_connection_def)
    have i: "inspector c2 = insp" "rule_key c2 = rule_key c"
      by (simp_all add: c2_def createCodec_def c1_def)
    from feed_codec_returns [OF env k, of mem "view_bytes mem v"] show ?thesis
      using None p PSDone pr i by (auto simp: onData_def Let_def c1_def c2_def connection_ok_def)
  next
    case PSContinue
    then show ?thesis using None p pc c by (simp add: onData_def Let_def connection_ok_def)
  next
    case PSError
    then show ?thesis using None p pc c by (simp add: onData_def Let_def connection_ok_def)
  qed
qed

lemma new_connection_ok: "connection_ok opn (new_connection env key)"
  by (simp add: connection_ok_def new_connection_def new_inspector_def)

lemma line_httparse_ok: "httparse_ok line_httparse"
  unfolding httparse_ok_def
proof (intro allI impI)
  fix buf n req tl
  assume c: "line_httparse buf = Complete n req"
  then have t: "take 3 buf = [71, 72, 10]" by (auto simp: line_httparse_def split: if_splits)
  then have l: "3 \<le> length buf" by (metis length_Cons length_take list.size(3) min.cobounded1 numeral_3_eq_3)
  then show "0 < n \<and> n \<le> length buf \<and> line_httparse (buf @ tl) = Complete n req"
    using c t by (auto simp: line_httparse_def)
qed

lemma sample_env_ok: "http_env_ok sample_env (\<lambda>s. {})"
  by (simp add: http_env_ok_def nghttp2_ok_def sample_env_def line_httparse_ok)

section \<open>Properties of HTTP connections\<close>

text \<open>\<^verbatim>\<open>onData\<close> returns on every connection the daemon creates and any packet, and keeps
  the rule key; the codec and parser never get stuck and no stream header is dereferenced before
  it is allocated.\<close>

theorem connection_onData_returns:
  assumes "http_env_ok env opn" and "connection_ok opn c"
  shows "\<exists>c' h. onData env mem c v = Some (c', h) \<and> connection_ok opn c' \<and> rule_key c' = rule_key c"
  by (rule onData_returns [OF assms])

theorem connection_onData_returns_witness:
  "\<exists>c' h. onData sample_env (rx_buffer [71, 72, 10]) (new_connection sample_env ''k'') (0, 3) = Some (c', h)
     \<and> rule_key c' = ''k''"
  using connection_onData_returns [OF sample_env_ok new_connection_ok [of _ sample_env "''k''"],
      of "rx_buffer [71, 72, 10]" "(0, 3)"]
  by (auto simp: new_connection_def)

text \<open>A connection is taken for HTTP/2 exactly when one single segment starts with the whole
  connection preface; a preface cut in two is never recognised.\<close>

theorem http2_needs_whole_preface:
  assumes "insp_protocol insp \<noteq> Some Http2"
  shows "insp_protocol (fst (parseHttpHeader env insp data)) = Some Http2 \<longleftrightarrow>
    take (length HTTP2_CONNECTION_PREFACE) data = HTTP2_CONNECTION_PREFACE"
proof -
  let ?p = HTTP2_CONNECTION_PREFACE
  have "length data < length ?p \<Longrightarrow> take (length ?p) data \<noteq> ?p" by auto
  then show ?thesis using assms
    by (auto simp: parseHttpHeader_def Let_def min_def split: prod.splits)
qed

theorem http2_needs_whole_preface_witness:
  "insp_protocol (fst (parseHttpHeader sample_env (new_inspector sample_env) (HTTP2_CONNECTION_PREFACE @ [0])))
     = Some Http2"
  using http2_needs_whole_preface [of "new_inspector sample_env" sample_env "HTTP2_CONNECTION_PREFACE @ [0]"]
  by (simp add: new_inspector_def)

text \<open>Once the header of a first HTTP/2 request is complete, every later segment of the
  connection is answered with this header and not parsed: the requests of later streams are
  judged by the first one.\<close>

theorem http2_later_requests_not_parsed:
  assumes "codec c = Some (CHttp2 h)" and "isHeaderComplete (h2_header h)" and "conn_packet c = []"
  shows "onData env mem c v = Some (c, h2_header h)"
  using assms by (simp add: onData_def Let_def feed_codec_def codec_dispatch_def http2_dispatch_def)

theorem http2_later_requests_not_parsed_witness:
  "let h = \<lparr> hd_method = ''GET'', hd_path = ''/'', hd_host = ''a'', hd_parseState = PSDone \<rparr>;
       c = (new_connection sample_env ''k'')\<lparr> codec :=
              Some (CHttp2 ((new_http2_connection sample_env)\<lparr> h2_header := h \<rparr>)) \<rparr> in
   onData sample_env (rx_buffer [1, 2, 3]) c (0, 3) = Some (c, h)"
proof -
  define h where "h = \<lparr> hd_method = ''GET'', hd_path = ''/'', hd_host = ''a'', hd_parseState = PSDone \<rparr>"
  define h2 where "h2 = (new_http2_connection sample_env)\<lparr> h2_header := h \<rparr>"
  define c where "c = (new_connection sample_env ''k'')\<lparr> codec := Some (CHttp2 h2) \<rparr>"
  have "h2_header h2 = h" by (simp add: h2_def)
  moreover have "codec c = Some (CHttp2 h2)" "conn_packet c = []"
    by (simp_all add: c_def new_connection_def)
  moreover have "isHeaderComplete h" by (simp add: isHeaderComplete_def h_def)
  ultimately have "onData sample_env (rx_buffer [1, 2, 3]) c (0, 3) = Some (c, h)"
    using http2_later_requests_not_parsed [of c h2 sample_env "rx_buffer [1, 2, 3]" "(0, 3)"] by simp
  then show ?thesis by (simp add: h_def h2_def c_def Let_def)
qed

text \<open>A request line that arrives in two packets is lost when the receive buffer is reused: the
  first packet is kept as a pointer, and the codec is fed the bytes of the second packet in its
  place. With the bytes still in place the request is parsed.\<close>

theorem buffered_segment_is_read_late:
  "(case onData sample_env (rx_buffer [71]) (new_connection sample_env ''k'') (0, 1) of
      Some (c, h) \<Rightarrow>
        map_option (hd_parseState \<circ> snd) (onData sample_env (rx_buffer [72, 10]) c (0, 2)) = Some PSError
        \<and> map_option (hd_parseState \<circ> snd) (onData sample_env (rx_buffer [71, 72, 10]) c (1, 2)) = Some PSDone
    | None \<Rightarrow> False)"
  by code_simp

text \<open>A filter added to a connection that already has a codec is entered twice in the chain the
  connection and the codec share.\<close>

theorem late_filter_is_registered_twice:
  assumes "codec c \<noteq> None"
  shows "fm_filters (filters_manager (registerFilter c flt)) = fm_filters (filters_manager c) @ [flt, flt]"
  using assms by (simp add: registerFilter_def addFilter_def)

theorem late_filter_is_registered_twice_witness:
  "fm_filters (filters_manager (registerFilter
     ((new_connection sample_env ''k'')\<lparr> codec := Some (CHttp1 (new_http1_connection False)) \<rparr>) ()))
   = [(), ()]"
  by (subst late_filter_is_registered_twice) (simp_all add: new_connection_def blank_manager_def)

end
