(* ===== verification/Conn_Manager.thy ===== *)
theory Conn_Manager
  imports Flow_Engine Http_Conn
begin

text \<open>
  The connection manager (net/connection_manager.h): the flow engine together with the HTTP
  connections of the flows under microsegmentation, keyed by connection identifier, and their
  reaper. Clock readings are arguments, packets are views of memory. The lemmas show that every
  operation keeps the table well formed, what each does to the tracked flows, and that no entry
  outlives the timeout.
\<close>

section \<open>State\<close>

record ('l, 's, 'f) MicrosegEntry =
  me_conn :: "('l, 's, 'f) Connection"
  me_last_seen :: instant

record ('l, 's, 'f) ConnectionManager =
  cm_engine :: FlowEngine
  microseg_conns :: "(ConnectionId, ('l, 's, 'f) MicrosegEntry) hmap"

definition new_connection_manager :: "('l, 's, 'f) ConnectionManager" where
  "new_connection_manager = \<lparr> cm_engine = new_flow_engine, microseg_conns = [] \<rparr>"

record ReceiveResult =
  rr_tuple :: SharedFiveTuple
  rr_decision :: PacketDecision
  rr_is_tcp :: bool

definition receive ::
  "('l, 's, 'f) ConnectionManager \<Rightarrow> bytes \<Rightarrow> bool \<Rightarrow> instant
     \<Rightarrow> ('l, 's, 'f) ConnectionManager \<times> ReceiveResult" where
  "receive cm pkg track_tcp now =
     (let tuple = parse_five_tuple pkg;
          is_tcp = (sft_recognized tuple \<and> sft_proto tuple = IPPROTO_TCP) in
      if is_tcp \<and> track_tcp then
        (let (e', decision) = on_packet (cm_engine cm) pkg now
         in (cm\<lparr> cm_engine := e' \<rparr>,
             \<lparr> rr_tuple = tuple, rr_decision = decision, rr_is_tcp = is_tcp \<rparr>))
      else (cm, \<lparr> rr_tuple = tuple, rr_decision = default_decision, rr_is_tcp = is_tcp \<rparr>))"

section \<open>Operations on tracked flows\<close>

definition MicrosegTracked :: "('l, 's, 'f) ConnectionManager \<Rightarrow> PacketDecision \<Rightarrow> bool" where
  "MicrosegTracked cm decision = hm_has (microseg_conns cm) (conn_id decision)"

definition MicrosegRuleKey ::
  "('l, 's, 'f) ConnectionManager \<Rightarrow> PacketDecision \<Rightarrow> string option" where
  "MicrosegRuleKey cm decision =
     (case hm_get (microseg_conns cm) (conn_id decision) of
        None \<Rightarrow> None
      | Some entry \<Rightarrow> Some (rule_key (me_conn entry)))"

definition TouchMicroseg ::
  "('l, 's, 'f) ConnectionManager \<Rightarrow> ConnectionId \<Rightarrow> instant \<Rightarrow> ('l, 's, 'f) ConnectionManager" where
  "TouchMicroseg cm c now =
     (case hm_get (microseg_conns cm) c of
        None \<Rightarrow> cm
      | Some entry \<Rightarrow>
          cm\<lparr> microseg_conns := hm_put c (entry\<lparr> me_last_seen := now \<rparr>) (microseg_conns cm) \<rparr>)"

definition MicrosegTouch ::
  "('l, 's, 'f) ConnectionManager \<Rightarrow> PacketDecision \<Rightarrow> instant \<Rightarrow> ('l, 's, 'f) ConnectionManager" where
  "MicrosegTouch cm decision now =
     (if kind decision = 0 \<or> kind decision = 4 then cm
      else TouchMicroseg cm (conn_id decision) now)"

definition MicrosegTrack ::
  "('l, 's, 'f) http_env \<Rightarrow> ('l, 's, 'f) ConnectionManager \<Rightarrow> PacketDecision \<Rightarrow> string \<Rightarrow> instant
     \<Rightarrow> ('l, 's, 'f) ConnectionManager" where
  "MicrosegTrack env cm decision key now =
     (if \<not> hm_has (microseg_conns cm) (conn_id decision)
      then cm\<lparr> microseg_conns := hm_put (conn_id decision)
                 \<lparr> me_conn = new_connection env key, me_last_seen = now \<rparr> (microseg_conns cm) \<rparr>
      else cm)"

text \<open>The extraction that cases 3 and 5 of the dispatch share, on an existing entry.\<close>

definition extract_header ::
  "('l, 's, 'f) http_env \<Rightarrow> heap \<Rightarrow> ('l, 's, 'f) ConnectionManager \<Rightarrow> PacketDecision \<Rightarrow> view
     \<Rightarrow> ('l, 's, 'f) MicrosegEntry \<Rightarrow> instant
     \<Rightarrow> (('l, 's, 'f) ConnectionManager \<times> Header option) option" where
  "extract_header env mem cm decision pkg entry now =
     (let data = (fst pkg + payload_offset decision, snd pkg - payload_offset decision) in
      case onData env mem (me_conn entry) data of
        None \<Rightarrow> None
      | Some (conn', header) \<Rightarrow>
          Some (cm\<lparr> microseg_conns := hm_put (conn_id decision)
                      \<lparr> me_conn = conn', me_last_seen = now \<rparr> (microseg_conns cm) \<rparr>,
                if hd_parseState header \<noteq> PSDone then None else Some header))"

definition DispatchMicroseg ::
  "('l, 's, 'f) http_env \<Rightarrow> heap \<Rightarrow> ('l, 's, 'f) ConnectionManager \<Rightarrow> PacketDecision \<Rightarrow> view \<Rightarrow> string
     \<Rightarrow> instant \<Rightarrow> (('l, 's, 'f) ConnectionManager \<times> Header option) option" where
  "DispatchMicroseg env mem cm decision pkg key now =
     (if kind decision = 1 then Some (MicrosegTrack env cm decision key now, None)
      else if kind decision = 5 then
        (let cm' = MicrosegTrack env cm decision key now in
         case hm_get (microseg_conns cm') (conn_id decision) of
           None \<Rightarrow> None
         | Some entry \<Rightarrow> extract_header env mem cm' decision pkg entry now)
      else if kind decision = 2 then
        Some (cm\<lparr> microseg_conns := hm_del (peer_conn_id decision)
                    (hm_del (conn_id decision) (microseg_conns cm)) \<rparr>, None)
      else if kind decision = 3 then
        (case hm_get (microseg_conns cm) (conn_id decision) of
           None \<Rightarrow> Some (cm, None)
         | Some entry \<Rightarrow> extract_header env mem cm decision pkg entry now)
      else Some (cm, None))"

definition MicrosegClose ::
  "('l, 's, 'f) http_env \<Rightarrow> heap \<Rightarrow> ('l, 's, 'f) ConnectionManager \<Rightarrow> PacketDecision \<Rightarrow> view \<Rightarrow> instant
     \<Rightarrow> (('l, 's, 'f) ConnectionManager \<times> bool) option" where
  "MicrosegClose env mem cm decision pkg now =
     (if kind decision \<noteq> 2 then Some (cm, False)
      else case DispatchMicroseg env mem cm decision pkg [] now of
             None \<Rightarrow> None
           | Some (cm', _) \<Rightarrow> Some (cm', True))"

section \<open>The reaper and the statistics\<close>

text \<open>\<open>now_engine\<close> is the clock reading of the flow engine, \<open>now\<close> the one of the manager.\<close>

definition EvictStale ::
  "('l, 's, 'f) ConnectionManager \<Rightarrow> instant \<Rightarrow> instant \<Rightarrow> int \<Rightarrow> ('l, 's, 'f) ConnectionManager" where
  "EvictStale cm now_engine now timeout =
     (let (e', stale) = evict_stale_connections (cm_engine cm) now_engine;
          conns = fold hm_del stale (microseg_conns cm)
      in cm\<lparr> cm_engine := e',
             microseg_conns := filter (\<lambda>(_, entry). \<not> (now - me_last_seen entry \<ge> timeout)) conns \<rparr>)"

definition EvictStale_default :: "('l, 's, 'f) ConnectionManager \<Rightarrow> instant \<Rightarrow> instant \<Rightarrow> ('l, 's, 'f) ConnectionManager"
  where "EvictStale_default cm now now_engine = EvictStale cm now_engine now STALE_CONNECTION_TIMEOUT"

definition stat :: "('l, 's, 'f) ConnectionManager \<Rightarrow> nat" where
  "stat cm = live_connection_count (cm_engine cm)"

definition connections ::
  "((ConnectionId \<times> FlowState) list \<Rightarrow> (ConnectionId \<times> FlowState) list)
     \<Rightarrow> ('l, 's, 'f) ConnectionManager \<Rightarrow> string list" where
  "connections it cm = connection_strings it (cm_engine cm)"

definition microsegConnectionCount :: "('l, 's, 'f) ConnectionManager \<Rightarrow> nat" where
  "microsegConnectionCount cm = length (microseg_conns cm)"

section \<open>Well-formed managers\<close>

definition manager_ok :: "('s \<Rightarrow> int set) \<Rightarrow> ('l, 's, 'f) ConnectionManager \<Rightarrow> bool" where
  "manager_ok opn cm \<longleftrightarrow>
     flow_wf (cm_engine cm) \<and> hm_wf (microseg_conns cm) \<and>
     (\<forall>c entry. hm_get (microseg_conns cm) c = Some entry \<longrightarrow> connection_ok opn (me_conn entry))"

definition microseg_flows :: "('l, 's, 'f) ConnectionManager \<Rightarrow> ConnectionId set" where
  "microseg_flows cm = keys_of (microseg_conns cm)"

text \<open>The rule key bound to a flow.\<close>

definition bound_key :: "('l, 's, 'f) ConnectionManager \<Rightarrow> ConnectionId \<Rightarrow> string option" where
  "bound_key cm c = map_option (\<lambda>entry. rule_key (me_conn entry)) (hm_get (microseg_conns cm) c)"

text \<open>What the operations do to the bindings of flows to rule keys.\<close>

datatype reg_op =
    RReceive bytes bool instant
  | RTrack PacketDecision string instant
  | RTouch PacketDecision instant
  | RClose PacketDecision heap view instant
  | RDispatch PacketDecision heap view string instant

fun reg_abs :: "reg_op \<Rightarrow> (ConnectionId \<Rightarrow> string option) \<Rightarrow> ConnectionId \<Rightarrow> string option" where
  "reg_abs (RReceive pkg track_tcp now) b = b"
| "reg_abs (RTrack d key now) b =
     (if b (conn_id d) = None then b(conn_id d \<mapsto> key) else b)"
| "reg_abs (RTouch d now) b = b"
| "reg_abs (RClose d mem pkg now) b =
     (if kind d = 2 then b(conn_id d := None, peer_conn_id d := None) else b)"
| "reg_abs (RDispatch d mem pkg key now) b =
     (if kind d = 2 then b(conn_id d := None, peer_conn_id d := None)
      else if kind d \<in> {1, 5} \<and> b (conn_id d) = None then b(conn_id d \<mapsto> key)
      else b)"

text \<open>The same operations on the manager; \<^const>\<open>None\<close> is undefined behaviour of a call.\<close>

fun manager_step ::
  "('l, 's, 'f) http_env \<Rightarrow> reg_op \<Rightarrow> ('l, 's, 'f) ConnectionManager
     \<Rightarrow> ('l, 's, 'f) ConnectionManager option" where
  "manager_step env (RReceive pkg track_tcp now) cm = Some (fst (receive cm pkg track_tcp now))"
| "manager_step env (RTrack d key now) cm = Some (MicrosegTrack env cm d key now)"
| "manager_step env (RTouch d now) cm = Some (MicrosegTouch cm d now)"
| "manager_step env (RClose d mem pkg now) cm = map_option fst (MicrosegClose env mem cm d pkg now)"
| "manager_step env (RDispatch d mem pkg key now) cm =
     map_option fst (DispatchMicroseg env mem cm d pkg key now)"

primrec run_steps :: "('o \<Rightarrow> 'm \<Rightarrow> 'm option) \<Rightarrow> 'o list \<Rightarrow> 'm \<Rightarrow> 'm option" where
  "run_steps step [] m = Some m"
| "run_steps step (op # ops) m =
     (case step op m of None \<Rightarrow> None | Some m' \<Rightarrow> run_steps step ops m')"

text \<open>The effect of closing, used in the proofs.\<close>

definition close_entries :: "('l, 's, 'f) ConnectionManager \<Rightarrow> PacketDecision \<Rightarrow> ('l, 's, 'f) ConnectionManager" where
  "close_entries cm d =
     (if kind d = 2
      then cm\<lparr> microseg_conns := hm_del (peer_conn_id d) (hm_del (conn_id d) (microseg_conns cm)) \<rparr>
      else cm)"

definition sample_decision :: "i32 \<Rightarrow> PacketDecision" where
  "sample_decision k =
     \<lparr> kind = k,
       conn_id = \<lparr> local_ip = 1, foreign_ip = 2, local_port = 3, foreign_port = 4 \<rparr>,
       peer_conn_id = \<lparr> local_ip = 2, foreign_ip = 1, local_port = 4, foreign_port = 3 \<rparr>,
       peer_is_new = False, pd_ip_header_len = 20, payload_offset = 40, syn = False \<rparr>"

lemma manager_ok_new: "manager_ok opn new_connection_manager"
  by (simp add: manager_ok_def new_connection_manager_def flow_wf_def new_flow_engine_def)

lemma receive_ok: "manager_ok opn cm \<Longrightarrow> manager_ok opn (fst (receive cm pkg track now))"
  by (auto simp: receive_def manager_ok_def Let_def on_packet_wf split: prod.splits)
     (metis fst_conv on_packet_wf)

lemma receive_conns [simp]: "microseg_conns (fst (receive cm pkg track now)) = microseg_conns cm"
  by (simp add: receive_def Let_def split: prod.splits)

lemma receive_result:
  "rr_tuple (snd (receive cm pkg track now)) = parse_five_tuple pkg"
  "rr_is_tcp (snd (receive cm pkg track now)) \<longleftrightarrow> tcp_packet pkg \<noteq> None"
  "rr_decision (snd (receive cm pkg True now)) =
     (if tcp_packet pkg \<noteq> None then snd (on_packet (cm_engine cm) pkg now) else default_decision)"
  "cm_engine (fst (receive cm pkg True now)) =
     (if tcp_packet pkg \<noteq> None then fst (on_packet (cm_engine cm) pkg now) else cm_engine cm)"
  using recognized_tcp_iff [of pkg] by (auto simp: receive_def Let_def split: prod.splits)

lemma touch_ok: "manager_ok opn cm \<Longrightarrow> manager_ok opn (MicrosegTouch cm d now)"
  by (auto simp: MicrosegTouch_def TouchMicroseg_def manager_ok_def hmap_simps
      split: option.splits if_splits)

lemma touch_keys [simp]: "bound_key (MicrosegTouch cm d now) = bound_key cm"
  by (auto simp: MicrosegTouch_def TouchMicroseg_def bound_key_def fun_eq_iff hmap_simps
      split: option.splits)

lemma track_ok: "manager_ok opn cm \<Longrightarrow> manager_ok opn (MicrosegTrack env cm d key now)"
  by (auto simp: MicrosegTrack_def manager_ok_def hmap_simps new_connection_ok split: if_splits)

lemma track_keys:
  "bound_key (MicrosegTrack env cm d key now) c =
     (if c = conn_id d \<and> bound_key cm c = None then Some key else bound_key cm c)"
  by (auto simp: MicrosegTrack_def bound_key_def hm_has_def hmap_simps new_connection_def)

lemma track_present:
  "\<exists>entry. hm_get (microseg_conns (MicrosegTrack env cm d key now)) (conn_id d) = Some entry"
  by (cases "hm_get (microseg_conns cm) (conn_id d)") (auto simp: MicrosegTrack_def hm_has_def hmap_simps)

lemma tracked_iff: "MicrosegTracked cm d \<longleftrightarrow> bound_key cm (conn_id d) \<noteq> None"
  by (auto simp: MicrosegTracked_def bound_key_def hm_has_def)

lemma rule_key_bound: "MicrosegRuleKey cm d = bound_key cm (conn_id d)"
  by (simp add: MicrosegRuleKey_def bound_key_def split: option.splits)

lemma flows_bound: "c \<in> microseg_flows cm \<longleftrightarrow> bound_key cm c \<noteq> None"
  by (auto simp: microseg_flows_def keys_of_def bound_key_def hm_has_def)

lemma close_is_close_entries:
  "MicrosegClose env mem cm d pkg now = Some (close_entries cm d, kind d = 2)"
  by (simp add: MicrosegClose_def DispatchMicroseg_def close_entries_def)

lemma close_ok: "manager_ok opn cm \<Longrightarrow> manager_ok opn (close_entries cm d)"
  by (auto simp: close_entries_def manager_ok_def hmap_simps split: if_splits)

lemma close_keys: "bound_key (close_entries cm d) c =
    (if kind d = 2 \<and> c \<in> {conn_id d, peer_conn_id d} then None else bound_key cm c)"
  by (auto simp: close_entries_def bound_key_def hmap_simps)

lemma extract_header_returns:
  assumes env: "http_env_ok env opn" and ok: "manager_ok opn cm"
    and entry: "hm_get (microseg_conns cm) (conn_id d) = Some entry"
  shows "\<exists>cm' hdr. extract_header env mem cm d pkg entry now = Some (cm', hdr)
    \<and> manager_ok opn cm' \<and> bound_key cm' = bound_key cm \<and> cm_engine cm' = cm_engine cm
    \<and> (\<forall>h. hdr = Some h \<longrightarrow> hd_parseState h = PSDone)"
proof -
  have c: "connection_ok opn (me_conn entry)" using ok entry by (simp add: manager_ok_def)
  from onData_returns [OF env c] obtain conn' h where
    r: "onData env mem (me_conn entry) (fst pkg + payload_offset d, snd pkg - payload_offset d) = Some (conn', h)"
    "connection_ok opn conn'" "rule_key conn' = rule_key (me_conn entry)" by metis
  then show ?thesis using ok entry
    by (auto simp: extract_header_def Let_def manager_ok_def bound_key_def fun_eq_iff hmap_simps
        split: if_splits)
qed

lemma dispatch_microseg_returns:
  assumes env: "http_env_ok env opn" and ok: "manager_ok opn cm"
  shows "\<exists>cm' hdr. DispatchMicroseg env mem cm d pkg key now = Some (cm', hdr)
    \<and> manager_ok opn cm' \<and> cm_engine cm' = cm_engine cm
    \<and> bound_key cm' =
        (if kind d \<in> {1, 5} then bound_key (MicrosegTrack env cm d key now)
         else bound_key (close_entries cm d))
    \<and> (\<forall>h. hdr = Some h \<longrightarrow> hd_parseState h = PSDone \<and> kind d \<in> {3, 5})"
proof -
  have other: "kind d \<noteq> 2 \<Longrightarrow> close_entries cm d = cm" by (simp add: close_entries_def)
  have eng: "cm_engine (MicrosegTrack env cm d key now) = cm_engine cm"
    by (simp add: MicrosegTrack_def)
  consider "kind d = 1" | "kind d = 5" | "kind d = 2" | "kind d = 3" | "kind d \<notin> {1, 2, 3, 5}" by auto
  then show ?thesis
  proof cases
    case 1
    then show ?thesis using track_ok [OF ok] eng by (simp add: DispatchMicroseg_def)
  next
    case 2
    have ok': "manager_ok opn (MicrosegTrack env cm d key now)" by (rule track_ok [OF ok])
    obtain entry where e: "hm_get (microseg_conns (MicrosegTrack env cm d key now)) (conn_id d) = Some entry"
      using track_present by blast
    from extract_header_returns [OF env ok' e, of mem pkg now] show ?thesis
      using 2 e eng by (auto simp: DispatchMicroseg_def Let_def)
  next
    case 3
    then show ?thesis using close_ok [OF ok, of d]
      by (simp add: DispatchMicroseg_def) (simp add: close_entries_def)
  next
    case 4
    show ?thesis
    proof (cases "hm_get (microseg_conns cm) (conn_id d)")
      case None
      then show ?thesis using 4 ok other by (simp add: DispatchMicroseg_def)
    next
      case (Some entry)
      from extract_header_returns [OF env ok Some, of mem pkg now] show ?thesis
        using 4 Some other by (auto simp: DispatchMicroseg_def)
    qed
  next
    case 5
    then show ?thesis using ok other by (simp add: DispatchMicroseg_def)
  qed
qed

lemma evict_lookup:
  assumes "manager_ok opn cm"
  shows "hm_get (microseg_conns (EvictStale cm te t timeout)) c =
    (if c \<in> set (snd (evict_stale_connections (cm_engine cm) te)) then None
     else case hm_get (microseg_conns cm) c of
            None \<Rightarrow> None
          | Some entry \<Rightarrow> if t - me_last_seen entry < timeout then Some entry else None)"
proof -
  have wf: "hm_wf (fold hm_del (snd (evict_stale_connections (cm_engine cm) te)) (microseg_conns cm))"
    using assms by (simp add: manager_ok_def hm.wf_fold_del)
  show ?thesis
    by (auto simp: EvictStale_def case_prod_unfold Let_def hm_get_filter [OF wf] hm.get_fold_del not_le
        split: option.splits)
qed

lemma evict_ok: "manager_ok opn cm \<Longrightarrow> manager_ok opn (EvictStale cm te t timeout)"
  unfolding manager_ok_def
proof (intro conjI allI impI)
  assume ok: "flow_wf (cm_engine cm) \<and> hm_wf (microseg_conns cm) \<and>
    (\<forall>c entry. hm_get (microseg_conns cm) c = Some entry \<longrightarrow> connection_ok opn (me_conn entry))"
  then have mok: "manager_ok opn cm" by (simp add: manager_ok_def)
  show "flow_wf (cm_engine (EvictStale cm te t timeout))"
    using ok by (simp add: EvictStale_def evict_stale_connections_def case_prod_unfold Let_def evict_stale_wf)
  show "hm_wf (microseg_conns (EvictStale cm te t timeout))"
    using ok by (simp add: EvictStale_def case_prod_unfold Let_def hm.wf_fold_del hm_wf_filter)
  fix c entry
  assume "hm_get (microseg_conns (EvictStale cm te t timeout)) c = Some entry"
  then show "connection_ok opn (me_conn entry)"
    using ok by (auto simp: evict_lookup [OF mok] split: if_splits option.splits)
qed

section \<open>The registry interface\<close>

text \<open>
  The callbacks see the manager as a registry that binds flows to rule keys. The lemmas of the
  locale lift the effect of single operations to histories.
\<close>

locale flow_registry =
  fixes ok :: "'m \<Rightarrow> bool"
    and keys :: "'m \<Rightarrow> ConnectionId \<Rightarrow> string option"
    and step :: "reg_op \<Rightarrow> 'm \<Rightarrow> 'm option"
  assumes step_ok: "ok m \<Longrightarrow> \<exists>m'. step op m = Some m' \<and> ok m' \<and> keys m' = reg_abs op (keys m)"
begin

lemma run_keys: "ok m \<Longrightarrow> \<exists>m'. run_steps step ops m = Some m' \<and> ok m' \<and> keys m' = fold reg_abs ops (keys m)"
proof (induction ops arbitrary: m)
  case (Cons op ops)
  obtain m1 where "step op m = Some m1" "ok m1" "keys m1 = reg_abs op (keys m)"
    using step_ok [OF Cons.prems] by blast
  then show ?case using Cons.IH [of m1] by simp
qed simp

lemma binding_is_kept:
  assumes "ok m" and "keys m c = Some key" and "run_steps step ops m = Some m'"
    and "\<forall>op\<in>set ops. \<forall>d mem pkg k now.
      op = RClose d mem pkg now \<or> op = RDispatch d mem pkg k now \<longrightarrow> c \<notin> {conn_id d, peer_conn_id d}"
  shows "keys m' c = Some key"
proof -
  have "fold reg_abs ops b c = Some key" if "b c = Some key" for b
    using that assms(4)
  proof (induction ops arbitrary: b)
    case (Cons op ops)
    have "reg_abs op b c = Some key" using Cons.prems by (cases op) auto
    then show ?case using Cons by simp
  qed simp
  then show ?thesis using run_keys [OF assms(1), of ops] assms(2,3) by simp
qed

end

interpretation registry: flow_registry "\<lambda>cm. http_env_ok env opn \<and> manager_ok opn cm" bound_key
  "manager_step env"
  for env :: "('l, 's, 'f) http_env" and opn
proof (unfold_locales, goal_cases)
  case (1 m op)
  then have env: "http_env_ok env opn" and ok: "manager_ok opn m" by simp_all
  show ?case
  proof (cases op)
    case (RReceive pkg track now)
    then show ?thesis using env receive_ok [OF ok] by (simp add: bound_key_def fun_eq_iff)
  next
    case (RTrack d key now)
    then show ?thesis using env track_ok [OF ok] by (simp add: fun_eq_iff track_keys)
  next
    case (RTouch d now)
    then show ?thesis using env touch_ok [OF ok] by simp
  next
    case (RClose d mem pkg now)
    then show ?thesis using env close_ok [OF ok]
      by (simp add: close_is_close_entries fun_eq_iff close_keys)
  next
    case (RDispatch d mem pkg key now)
    obtain cm' hdr where "DispatchMicroseg env mem m d pkg key now = Some (cm', hdr)" "manager_ok opn cm'"
      "bound_key cm' = (if kind d \<in> {1, 5} then bound_key (MicrosegTrack env m d key now)
           else bound_key (close_entries m d))"
      using dispatch_microseg_returns [OF env ok, of mem d pkg key now] by metis
    then show ?thesis using env RDispatch by (auto simp: fun_eq_iff track_keys close_keys)
  qed
qed

section \<open>Properties of the connection manager\<close>

text \<open>C23: a dispatch returns for every decision, keeps the manager well formed and leaves the flow
  engine alone; it binds a rule key only for a new or unknown flow and unbinds only on a close;
  a header is handed out only when it is completely parsed, for a data packet.\<close>

theorem dispatch_microseg_correct:
  assumes "http_env_ok env opn" and "manager_ok opn cm"
  shows "\<exists>cm' hdr. DispatchMicroseg env mem cm d pkg key now = Some (cm', hdr)
    \<and> manager_ok opn cm' \<and> cm_engine cm' = cm_engine cm
    \<and> (\<forall>c. bound_key cm' c =
         (if kind d \<in> {1, 5} \<and> c = conn_id d \<and> bound_key cm c = None then Some key
          else if kind d = 2 \<and> c \<in> {conn_id d, peer_conn_id d} then None
          else bound_key cm c))
    \<and> (\<forall>h. hdr = Some h \<longrightarrow> hd_parseState h = PSDone \<and> kind d \<in> {3, 5})"
proof -
  obtain cm' hdr where r: "DispatchMicroseg env mem cm d pkg key now = Some (cm', hdr)"
    "manager_ok opn cm'" "cm_engine cm' = cm_engine cm"
    "bound_key cm' = (if kind d \<in> {1, 5} then bound_key (MicrosegTrack env cm d key now)
         else bound_key (close_entries cm d))"
    "\<forall>h. hdr = Some h \<longrightarrow> hd_parseState h = PSDone \<and> kind d \<in> {3, 5}"
    using dispatch_microseg_returns [OF assms, of mem d pkg key now] by metis
  then show ?thesis by (auto simp: track_keys close_keys)
qed

theorem dispatch_microseg_correct_witness:
  "\<exists>cm' hdr. DispatchMicroseg sample_env (rx_buffer []) new_connection_manager (sample_decision 5)
      (0, 43) ''web'' 7 = Some (cm', hdr)
    \<and> bound_key cm' (conn_id (sample_decision 5)) = Some ''web''"
  using dispatch_microseg_correct [OF sample_env_ok manager_ok_new,
      of "rx_buffer []" "sample_decision 5" "(0, 43)" "''web''" 7]
  by (fastforce simp: sample_decision_def bound_key_def new_connection_manager_def)

text \<open>A connection that reuses the addresses and ports of a closed one is bound to its own rule
  key, whichever direction the close was seen on: nothing of the old connection is inherited.\<close>

theorem reused_tuple_gets_its_own_key:
  assumes "kind d = 2" and "conn_id d' \<in> {conn_id d, peer_conn_id d}"
  shows "\<exists>cm'. MicrosegClose env mem cm d pkg t = Some (cm', True)
    \<and> bound_key (MicrosegTrack env cm' d' key now) (conn_id d') = Some key"
  using assms by (simp add: close_is_close_entries track_keys close_keys)

theorem reused_tuple_gets_its_own_key_witness:
  "\<exists>cm'. MicrosegClose sample_env (rx_buffer [])
       (MicrosegTrack sample_env new_connection_manager (sample_decision 1) ''old'' 0)
       (sample_decision 2) (0, 40) 5 = Some (cm', True)
    \<and> bound_key (MicrosegTrack sample_env cm' (sample_decision 1) ''new'' 6) (conn_id (sample_decision 1)) = Some ''new''"
  by (rule reused_tuple_gets_its_own_key) (simp_all add: sample_decision_def)

text \<open>C15: in any sequence of receiving, tracking, touching, closing and dispatching, with an HTTP
  parser that keeps its contract, every operation returns, and the rule key bound to each flow
  afterwards is the one computed on an abstract map in which the first binding since the last close
  wins and a close unbinds the flow and its peer.\<close>

theorem registry_refines_map:
  assumes "http_env_ok env opn"
  shows "\<exists>cm. run_steps (manager_step env) ops new_connection_manager = Some cm
    \<and> bound_key cm = fold reg_abs ops (\<lambda>c. None)"
proof -
  have "bound_key (new_connection_manager :: ('a, 'b, 'c) ConnectionManager) = (\<lambda>c. None)"
    by (simp add: fun_eq_iff bound_key_def new_connection_manager_def)
  then show ?thesis
    using registry.run_keys [OF conjI [OF assms manager_ok_new], of ops] by metis
qed

theorem registry_refines_map_witness:
  "\<exists>cm. run_steps (manager_step sample_env)
      [RTrack (sample_decision 1) ''old'' 0,
       RDispatch (sample_decision 5) (rx_buffer []) (0, 43) ''web'' 1,
       RClose (sample_decision 2) (rx_buffer []) (0, 40) 2,
       RTrack (sample_decision 1) ''new'' 3] new_connection_manager = Some cm
    \<and> bound_key cm (conn_id (sample_decision 1)) = Some ''new''"
  using registry_refines_map [OF sample_env_ok, of
      "[RTrack (sample_decision 1) ''old'' 0,
        RDispatch (sample_decision 5) (rx_buffer []) (0, 43) ''web'' 1,
        RClose (sample_decision 2) (rx_buffer []) (0, 40) 2,
        RTrack (sample_decision 1) ''new'' 3]"]
  by (auto simp: sample_decision_def)

text \<open>C24: the sweep keeps exactly the entries whose flow the engine did not report as stale and
  that were seen within the timeout, and keeps them unchanged.\<close>

theorem evict_stale_exact:
  assumes "manager_ok opn cm"
  shows "hm_get (microseg_conns (EvictStale cm te t timeout)) c = Some entry \<longleftrightarrow>
    hm_get (microseg_conns cm) c = Some entry \<and> t - me_last_seen entry < timeout
    \<and> c \<notin> set (snd (evict_stale_connections (cm_engine cm) te))"
  unfolding evict_lookup [OF assms] by (auto split: option.splits)

theorem evict_stale_exact_witness:
  "let cm = MicrosegTrack sample_env new_connection_manager (sample_decision 5) ''k'' 0 in
   hm_get (microseg_conns (EvictStale cm 299 299 300)) (conn_id (sample_decision 5)) \<noteq> None
   \<and> hm_get (microseg_conns (EvictStale cm 300 300 300)) (conn_id (sample_decision 5)) = None"
proof -
  define cm where "cm = MicrosegTrack sample_env new_connection_manager (sample_decision 5) ''k'' 0"
  have ok: "manager_ok (\<lambda>s. {}) cm" unfolding cm_def by (rule track_ok [OF manager_ok_new])
  have entry: "hm_get (microseg_conns cm) (conn_id (sample_decision 5)) =
      Some \<lparr> me_conn = new_connection sample_env ''k'', me_last_seen = 0 \<rparr>"
    by (simp add: cm_def MicrosegTrack_def new_connection_manager_def hm_has_def)
  have none: "snd (evict_stale_connections (cm_engine cm) te) = []" for te
    by (simp add: cm_def MicrosegTrack_def new_connection_manager_def new_flow_engine_def
        evict_stale_connections_def evict_stale_def)
  note ev = evict_stale_exact [OF ok, of _ _ 300 "conn_id (sample_decision 5)"]
  have "hm_get (microseg_conns (EvictStale cm 299 299 300)) (conn_id (sample_decision 5)) \<noteq> None"
    using ev [of 299 299 "\<lparr> me_conn = new_connection sample_env ''k'', me_last_seen = 0 \<rparr>"] entry none
    by (simp del: not_None_eq)
  moreover have "hm_get (microseg_conns (EvictStale cm 300 300 300)) (conn_id (sample_decision 5)) = None"
  proof (rule ccontr)
    assume "hm_get (microseg_conns (EvictStale cm 300 300 300)) (conn_id (sample_decision 5)) \<noteq> None"
    then obtain x where "hm_get (microseg_conns (EvictStale cm 300 300 300)) (conn_id (sample_decision 5)) = Some x"
      by auto
    then show False using ev [of 300 300 x] entry by auto
  qed
  ultimately show ?thesis by (simp add: cm_def Let_def)
qed

end
