(* ===== verification/Micro_Seg.thy ===== *)
theory Micro_Seg
  imports Policy_Engine Conn_Manager
begin

text \<open>
  The microsegmentation engine of the daemon (net-policy.h, rule-detail.cpp, the matching part of
  net-policy.cpp): five-tuples, HTTP rules, node addresses, the pod resources, and the rule that
  decides a packet from the forward and the reverse lookup. The hash map iteration order of the
  policy engine is the argument \<open>it\<close>. A rule is one record for both sides of the language
  bridge.
\<close>

section \<open>Verdict codes\<close>

datatype NetPolicyRule = kDeny | kAllow | kMark | kAllowRsp | kAllowReq | kDefault | kMax

fun rule_code :: "NetPolicyRule \<Rightarrow> u32" where
  "rule_code kDeny = 0"
| "rule_code kAllow = 1"
| "rule_code kMark = 2"
| "rule_code kAllowRsp = 3"
| "rule_code kAllowReq = 4"
| "rule_code kDefault = 5"
| "rule_code kMax = 6"

text \<open>\<^verbatim>\<open>static_cast<NetPolicyRule>\<close>; values without an enumerator are compared with none.\<close>

definition rule_of_code :: "u32 \<Rightarrow> NetPolicyRule" where
  "rule_of_code c =
     (if c = 0 then kDeny else if c = 1 then kAllow else if c = 2 then kMark
      else if c = 3 then kAllowRsp else if c = 4 then kAllowReq else if c = 5 then kDefault else kMax)"

fun dir_code :: "FlowDir \<Rightarrow> i32" where
  "dir_code kIngress = 0"
| "dir_code kEgress = 1"

section \<open>Five-tuples\<close>

record FiveTuple =
  ft_proto :: u8
  ft_tot_len :: u16
  ft_src_port :: u16
  ft_dst_port :: u16
  ft_src_addr_u32 :: u32
  ft_dst_addr_u32 :: u32
  ft_src_addr :: string
  ft_dst_addr :: string

definition InitTuple :: FiveTuple where
  "InitTuple =
     \<lparr> ft_proto = 0, ft_tot_len = 0, ft_src_port = 0, ft_dst_port = 0, ft_src_addr_u32 = 0,
       ft_dst_addr_u32 = 0, ft_src_addr = [], ft_dst_addr = [] \<rparr>"

definition ReverseTuple :: "FiveTuple \<Rightarrow> FiveTuple" where
  "ReverseTuple t =
     \<lparr> ft_proto = ft_proto t, ft_tot_len = ft_tot_len t, ft_src_port = ft_dst_port t,
       ft_dst_port = ft_src_port t, ft_src_addr_u32 = ft_dst_addr_u32 t,
       ft_dst_addr_u32 = ft_src_addr_u32 t, ft_src_addr = ft_dst_addr t, ft_dst_addr = ft_src_addr t \<rparr>"

text \<open>The tuple both packet callbacks fill from the parsed headers.\<close>

definition fill_tuple :: "SharedFiveTuple \<Rightarrow> FiveTuple" where
  "fill_tuple t =
     \<lparr> ft_proto = sft_proto t, ft_tot_len = sft_tot_len t, ft_src_port = sft_src_port t,
       ft_dst_port = sft_dst_port t, ft_src_addr_u32 = sft_src_addr t,
       ft_dst_addr_u32 = sft_dst_addr t, ft_src_addr = ipv4ToString (sft_src_addr t),
       ft_dst_addr = ipv4ToString (sft_dst_addr t) \<rparr>"

definition IsValidUtf8 :: "string \<Rightarrow> bool" where
  "IsValidUtf8 s = from_utf8_ok (map (\<lambda>c. word_of_nat (of_char c)) s)"

section \<open>Engine state\<close>

record HTTP_RULE_INFO =
  hr_direction :: u8
  hr_action :: NetPolicyRule
  hr_host :: string
  hr_method :: string
  hr_path :: string

text \<open>A queue handle is the descriptor it owns, a conntrack session whether there is one, a callback
  pointer the address of the callback; \<open>None\<close> is a disengaged optional or a null pointer.\<close>

record NFQ_RES_INFO =
  nr_pid :: i32
  nr_poll_fd :: i32
  nr_input_queue :: "i32 option"
  nr_output_queue :: "i32 option"
  nr_input_cb :: "nat option"
  nr_output_cb :: "nat option"
  nr_conntrack :: bool
  nr_pod_id :: u64

text \<open>The functions an epoll callback may hold. The resource a callback points to is named by its pod.\<close>

datatype RcvCbFunc = CbNfqueueRcvData | CbProcAcceptPostLinkEvent | CbDispatchGrpcRustQueueEvent | CbReaperTimerEvent

record RcvEpollCb =
  cb_fd :: i32
  epoll_in_func :: "RcvCbFunc option"
  cb_nfq_res :: "u64 option"

text \<open>The interest list of the epoll instance, with the callback address each descriptor was
  registered with, and the callbacks that are allocated.\<close>

record epoll_state =
  interest :: "(i32, nat) hmap"
  callbacks :: "(nat, RcvEpollCb) hmap"

type_synonym http_policies = "(string, HTTP_RULE_INFO list) hmap"

record MicroSegEngine =
  ms_engine :: RustPolicyEngine
  res_data :: "(u64, NFQ_RES_INFO) hmap"
  nodes_ip :: "(u32, u8) hmap"
  input_http_policy :: http_policies
  output_http_policy :: http_policies

definition new_microseg :: MicroSegEngine where
  "new_microseg =
     \<lparr> ms_engine = new_policy_engine, res_data = [], nodes_ip = [], input_http_policy = [],
       output_http_policy = [] \<rparr>"

definition http_policy :: "MicroSegEngine \<Rightarrow> FlowDir \<Rightarrow> http_policies" where
  "http_policy ms dir = (case dir of kIngress \<Rightarrow> input_http_policy ms | kEgress \<Rightarrow> output_http_policy ms)"

section \<open>Pod resources\<close>

definition NewNfQueRes :: "MicroSegEngine \<Rightarrow> u64 \<Rightarrow> NFQ_RES_INFO \<Rightarrow> MicroSegEngine \<times> i32" where
  "NewNfQueRes ms pid res =
     (if hm_has (res_data ms) pid then (ms, - 2)
      else (ms\<lparr> res_data := hm_put pid res (res_data ms) \<rparr>, 0))"

definition GetNfqRes :: "MicroSegEngine \<Rightarrow> u64 \<Rightarrow> NFQ_RES_INFO option" where
  "GetNfqRes ms pid = hm_get (res_data ms) pid"

text \<open>Removing a descriptor from the interest list, and deleting a callback.\<close>

definition epoll_del :: "i32 option \<Rightarrow> epoll_state \<Rightarrow> epoll_state" where
  "epoll_del q ep = (case q of None \<Rightarrow> ep | Some fd \<Rightarrow> ep\<lparr> interest := hm_del fd (interest ep) \<rparr>)"

definition delete_cb :: "nat option \<Rightarrow> epoll_state \<Rightarrow> epoll_state" where
  "delete_cb p ep = (case p of None \<Rightarrow> ep | Some a \<Rightarrow> ep\<lparr> callbacks := hm_del a (callbacks ep) \<rparr>)"

definition FreeResource :: "epoll_state \<Rightarrow> NFQ_RES_INFO \<Rightarrow> epoll_state \<times> NFQ_RES_INFO" where
  "FreeResource ep res =
     (let ep1 = epoll_del (nr_input_queue res) ep;
          ep2 = epoll_del (nr_output_queue res) ep1;
          ep3 = delete_cb (nr_input_cb res) ep2;
          ep4 = delete_cb (nr_output_cb res) ep3
      in (ep4, res\<lparr> nr_input_queue := None, nr_output_queue := None, nr_conntrack := False \<rparr>))"

definition DeleteNfQueRes :: "MicroSegEngine \<Rightarrow> epoll_state \<Rightarrow> u64 \<Rightarrow> MicroSegEngine \<times> epoll_state \<times> i32" where
  "DeleteNfQueRes ms ep pid =
     (case hm_get (res_data ms) pid of
        None \<Rightarrow> (ms, ep, 0)
      | Some res \<Rightarrow> (ms\<lparr> res_data := hm_del pid (res_data ms) \<rparr>, fst (FreeResource ep res), 0))"

section \<open>Policies\<close>

definition PolicyRule_ClearCfg :: "MicroSegEngine \<Rightarrow> MicroSegEngine \<times> i32" where
  "PolicyRule_ClearCfg ms = (ms\<lparr> ms_engine := clear_cfg (ms_engine ms) \<rparr>, 0)"

definition MatchFiveTuple :: "rule_order \<Rightarrow> MicroSegEngine \<Rightarrow> FiveTuple \<Rightarrow> FlowDir \<Rightarrow> RuleDetail option" where
  "MatchFiveTuple it ms t dir =
     (if \<not> IsValidUtf8 (ft_src_addr t) \<or> \<not> IsValidUtf8 (ft_dst_addr t) then None
      else match_five_tuple it (ms_engine ms) (ft_proto t) (ft_dst_port t) (ft_src_port t)
             (ft_src_addr t) (ft_dst_addr t) (dir_from_i32 (dir_code dir)))"

definition AddPolicyToTree :: "MicroSegEngine \<Rightarrow> RuleDetail \<Rightarrow> RulePort \<Rightarrow> MicroSegEngine \<times> i32" where
  "AddPolicyToTree ms policy stPort =
     (if \<not> IsValidUtf8 (policy_key policy) \<or> \<not> IsValidUtf8 (src_ip policy)
         \<or> \<not> IsValidUtf8 (dst_ip policy) \<or> \<not> IsValidUtf8 (action_dsc policy)
      then (ms, - 1)
      else (ms\<lparr> ms_engine := add_policy (ms_engine ms) (policy\<lparr> ports := [] \<rparr>) stPort \<rparr>, 0))"

definition PolicyRule_DeletePolicy :: "MicroSegEngine \<Rightarrow> FlowDir \<Rightarrow> string \<Rightarrow> MicroSegEngine \<times> i32" where
  "PolicyRule_DeletePolicy ms dir name =
     (if \<not> IsValidUtf8 name then (ms, - 1)
      else (ms\<lparr> ms_engine := delete_policy (ms_engine ms) (dir_from_i32 (dir_code dir)) name \<rparr>, 0))"

definition MicroSeg_DeletePolicy :: "MicroSegEngine \<Rightarrow> string \<Rightarrow> MicroSegEngine" where
  "MicroSeg_DeletePolicy ms name =
     (let ms1 = ms\<lparr> input_http_policy := hm_del name (input_http_policy ms) \<rparr>;
          ms2 = ms1\<lparr> output_http_policy := hm_del name (output_http_policy ms1) \<rparr>;
          ms3 = fst (PolicyRule_DeletePolicy ms2 kIngress name)
      in fst (PolicyRule_DeletePolicy ms3 kEgress name))"

definition append_http_rule :: "http_policies \<Rightarrow> string \<Rightarrow> HTTP_RULE_INFO \<Rightarrow> http_policies" where
  "append_http_rule http key rule =
     hm_put key ((case hm_get http key of None \<Rightarrow> [] | Some rs \<Rightarrow> rs) @ [rule]) http"

definition AddHttpPolicy :: "MicroSegEngine \<Rightarrow> FlowDir \<Rightarrow> string \<Rightarrow> HTTP_RULE_INFO \<Rightarrow> MicroSegEngine \<times> i32" where
  "AddHttpPolicy ms dir key rule =
     ((case dir of
         kIngress \<Rightarrow> ms\<lparr> input_http_policy := append_http_rule (input_http_policy ms) key rule \<rparr>
       | kEgress \<Rightarrow> ms\<lparr> output_http_policy := append_http_rule (output_http_policy ms) key rule \<rparr>), 0)"

definition IsNodeIp :: "MicroSegEngine \<Rightarrow> u32 \<Rightarrow> bool" where
  "IsNodeIp ms ip = hm_has (nodes_ip ms) ip"

definition AddNodeIp :: "MicroSegEngine \<Rightarrow> u32 \<Rightarrow> MicroSegEngine" where
  "AddNodeIp ms ip = ms\<lparr> nodes_ip := hm_put ip 1 (nodes_ip ms) \<rparr>"

definition RemoveNodeIp :: "MicroSegEngine \<Rightarrow> u32 \<Rightarrow> MicroSegEngine" where
  "RemoveNodeIp ms ip = ms\<lparr> nodes_ip := hm_del ip (nodes_ip ms) \<rparr>"

section \<open>Matching\<close>

fun MatchHttpPolicyRule :: "HTTP_RULE_INFO list \<Rightarrow> Header \<Rightarrow> NetPolicyRule" where
  "MatchHttpPolicyRule [] state = kDefault"
| "MatchHttpPolicyRule (rule # rs) state =
     (if hr_host rule \<noteq> [] \<and> hr_host rule \<noteq> hd_host state then MatchHttpPolicyRule rs state
      else if hr_method rule \<noteq> [] \<and> hr_method rule \<noteq> hd_method state then MatchHttpPolicyRule rs state
      else if hr_path rule \<noteq> [] \<and> hr_path rule \<noteq> hd_path state then MatchHttpPolicyRule rs state
      else hr_action rule)"

definition MatchNetPolicyRule :: "rule_order \<Rightarrow> MicroSegEngine \<Rightarrow> FiveTuple \<Rightarrow> FlowDir \<Rightarrow> RuleDetail option" where
  "MatchNetPolicyRule it ms t dir =
     (if IsNodeIp ms (ft_src_addr_u32 t) then None else MatchFiveTuple it ms t dir)"

record MatchResult =
  mr_rule :: NetPolicyRule
  mr_tuple :: FiveTuple
  mr_dir :: FlowDir
  mr_key :: string

text \<open>The reference arguments of \<^verbatim>\<open>MatchMicroPolicyRule\<close> are fields of the result; \<open>key0\<close> is the
  rule key on entry.\<close>

definition MatchMicroPolicyRule ::
  "rule_order \<Rightarrow> MicroSegEngine \<Rightarrow> FiveTuple \<Rightarrow> FlowDir \<Rightarrow> string \<Rightarrow> MatchResult" where
  "MatchMicroPolicyRule it ms t dir key0 =
     (case MatchNetPolicyRule it ms t dir of
        None \<Rightarrow> \<lparr> mr_rule = kDefault, mr_tuple = t, mr_dir = dir, mr_key = key0 \<rparr>
      | Some detail \<Rightarrow>
          (let act = rule_of_code (action detail) in
           if act = kAllow
           then \<lparr> mr_rule = act, mr_tuple = t, mr_dir = dir, mr_key = policy_key detail \<rparr>
           else
             (let data = ReverseTuple t;
                  fdir = (if dir = kIngress then kEgress else kIngress) in
              case MatchNetPolicyRule it ms data fdir of
                None \<Rightarrow> \<lparr> mr_rule = act, mr_tuple = t, mr_dir = dir, mr_key = policy_key detail \<rparr>
              | Some revDetail \<Rightarrow>
                  if priority detail \<le> priority revDetail
                  then \<lparr> mr_rule = act, mr_tuple = t, mr_dir = dir, mr_key = policy_key detail \<rparr>
                  else \<lparr> mr_rule = rule_of_code (action revDetail), mr_tuple = data, mr_dir = fdir,
                         mr_key = policy_key revDetail \<rparr>)))"

section \<open>What a lookup means\<close>

text \<open>A stored rule of the direction that applies to the tuple's protocol, port and addresses.\<close>

definition covers :: "MicroSegEngine \<Rightarrow> FlowDir \<Rightarrow> FiveTuple \<Rightarrow> RuleDetail \<Rightarrow> bool" where
  "covers ms dir t r \<longleftrightarrow>
     (\<exists>key name. rule_lookup (ms_engine ms) dir key name = Some r)
     \<and> rule_applies r (ft_proto t) (ft_dst_port t) (ntohl (ft_src_addr_u32 t)) (ntohl (ft_dst_addr_u32 t))"

definition tuple_ok :: "FiveTuple \<Rightarrow> bool" where
  "tuple_ok t \<longleftrightarrow> ft_src_addr t = ipv4ToString (ft_src_addr_u32 t)
     \<and> ft_dst_addr t = ipv4ToString (ft_dst_addr_u32 t)"

fun other_dir :: "FlowDir \<Rightarrow> FlowDir" where
  "other_dir kIngress = kEgress"
| "other_dir kEgress = kIngress"

definition microseg_wf :: "MicroSegEngine \<Rightarrow> bool" where
  "microseg_wf ms \<longleftrightarrow>
     engine_wf (ms_engine ms) \<and> hm_wf (res_data ms) \<and> hm_wf (nodes_ip ms)
     \<and> hm_wf (input_http_policy ms) \<and> hm_wf (output_http_policy ms)"

text \<open>The HTTP rules are tried in order; an empty field of a rule matches everything.\<close>

definition http_rule_applies :: "HTTP_RULE_INFO \<Rightarrow> Header \<Rightarrow> bool" where
  "http_rule_applies rule h \<longleftrightarrow>
     (hr_host rule = [] \<or> hr_host rule = hd_host h) \<and> (hr_method rule = [] \<or> hr_method rule = hd_method h)
     \<and> (hr_path rule = [] \<or> hr_path rule = hd_path h)"

text \<open>A DNS packet and an engine with one rule for it, for the examples.\<close>

definition sample_tuple :: SharedFiveTuple where
  "sample_tuple =
     \<lparr> sft_proto = 17, sft_tot_len = 60, sft_ip_header_len = 20, sft_src_port = 5000,
       sft_dst_port = 53, sft_src_addr = 0x0700000A, sft_dst_addr = 0x0200000A, sft_recognized = True \<rparr>"

definition sample_microseg :: "u32 \<Rightarrow> MicroSegEngine" where
  "sample_microseg act =
     fst (AddPolicyToTree new_microseg ((sample_rule ''dns'' 10 ''10.0.0.0/24'' act)\<lparr> proto := 17 \<rparr>)
            \<lparr> end_port = 53, port = 53, port_proto = 17 \<rparr>)"

section \<open>Address texts\<close>

lemma utf8_ascii: "\<forall>b\<in>set bs. b < 0x80 \<Longrightarrow> from_utf8_ok bs"
  by (induction bs) (simp_all add: utf8_step_def Let_def)

lemma ascii_dec_nat: "c \<in> set (dec_nat n) \<Longrightarrow> (of_char c :: nat) < 128"
  using dec_nat_digits [of n] by (fastforce simp: list_all_iff is_digit_def)

lemma ascii_dotted: "ch \<in> set (dotted a b c d) \<Longrightarrow> (of_char ch :: nat) < 128"
  unfolding dotted_def by (auto dest: ascii_dec_nat)

lemma IsValidUtf8_ascii:
  assumes "\<And>c. c \<in> set s \<Longrightarrow> (of_char c :: nat) < 128"
  shows "IsValidUtf8 s"
  unfolding IsValidUtf8_def
proof (rule utf8_ascii, rule ballI)
  fix b assume "b \<in> set (map (\<lambda>c. word_of_nat (of_char c) :: u8) s)"
  then obtain c where c: "c \<in> set s" "b = word_of_nat (of_char c)" by auto
  have "unat b = of_char c" using assms [OF c(1)] c(2) unat_of_nat_u8 [of "of_char c"] by simp
  then show "b < 0x80" using assms [OF c(1)] by (simp add: word_less_nat_alt)
qed

lemma IsValidUtf8_ipv4 [simp]: "IsValidUtf8 (ipv4ToString ip)"
  by (rule IsValidUtf8_ascii) (auto simp: ipv4ToString_def dest: ascii_dotted)

lemma tuple_ok_fill [simp]: "tuple_ok (fill_tuple t)"
  by (simp add: tuple_ok_def fill_tuple_def)

lemma tuple_ok_reverse [simp]: "tuple_ok (ReverseTuple t) = tuple_ok t"
  by (auto simp: tuple_ok_def ReverseTuple_def)

lemma reverse_reverse [simp]: "ReverseTuple (ReverseTuple t) = t"
  by (simp add: ReverseTuple_def)

lemma dir_codes [simp]: "dir_from_i32 (dir_code dir) = dir"
  by (cases dir) (simp_all add: dir_from_i32_def)

lemma rule_of_code_code [simp]: "rule_of_code (rule_code r) = r"
  by (cases r) (simp_all add: rule_of_code_def)

lemma other_dir_if: "(if dir = kIngress then kEgress else kIngress) = other_dir dir"
  by (cases dir) simp_all

section \<open>Lookups on packets\<close>

lemma MatchFiveTuple_ok:
  "tuple_ok t \<Longrightarrow> MatchFiveTuple it ms t dir =
     match_five_tuple it (ms_engine ms) (ft_proto t) (ft_dst_port t) (ft_src_port t)
       (ipv4_addr_to_string (ntohl (ft_src_addr_u32 t))) (ipv4_addr_to_string (ntohl (ft_dst_addr_u32 t))) dir"
  by (simp add: MatchFiveTuple_def tuple_ok_def ipv4ToString_ntohl [symmetric])

lemma MatchFiveTuple_Some:
  assumes "visits_all it" and "engine_wf (ms_engine ms)" and "tuple_ok t"
    and "MatchFiveTuple it ms t dir = Some r"
  shows "covers ms dir t r" and "covers ms dir t r' \<Longrightarrow> priority r \<le> priority r'"
proof -
  note found = match_five_tuple_found [OF assms(1,2) assms(4) [unfolded MatchFiveTuple_ok [OF assms(3)]]]
  show "covers ms dir t r" unfolding covers_def using found(1,2) by blast
  show "covers ms dir t r' \<Longrightarrow> priority r \<le> priority r'" unfolding covers_def using found(3) by blast
qed

lemma MatchFiveTuple_None:
  assumes "visits_all it" and "engine_wf (ms_engine ms)" and "tuple_ok t"
    and "MatchFiveTuple it ms t dir = None"
  shows "\<not> covers ms dir t r"
  using match_five_tuple_missing [OF assms(1,2)] assms(4)
  unfolding MatchFiveTuple_ok [OF assms(3)] covers_def by blast

text \<open>The outcomes of the two-sided match.\<close>

lemma match_micro_cases [case_names Default Forward Reverse]:
  fixes it ms t dir key0
  assumes "MatchNetPolicyRule it ms t dir = None \<Longrightarrow>
      MatchMicroPolicyRule it ms t dir key0 =
        \<lparr> mr_rule = kDefault, mr_tuple = t, mr_dir = dir, mr_key = key0 \<rparr> \<Longrightarrow> P"
    and "\<And>detail. MatchNetPolicyRule it ms t dir = Some detail \<Longrightarrow>
      rule_of_code (action detail) = kAllow \<or>
        (case MatchNetPolicyRule it ms (ReverseTuple t) (other_dir dir) of
           None \<Rightarrow> True | Some revDetail \<Rightarrow> priority detail \<le> priority revDetail) \<Longrightarrow>
      MatchMicroPolicyRule it ms t dir key0 =
        \<lparr> mr_rule = rule_of_code (action detail), mr_tuple = t, mr_dir = dir,
          mr_key = policy_key detail \<rparr> \<Longrightarrow> P"
    and "\<And>detail revDetail. MatchNetPolicyRule it ms t dir = Some detail \<Longrightarrow>
      rule_of_code (action detail) \<noteq> kAllow \<Longrightarrow>
      MatchNetPolicyRule it ms (ReverseTuple t) (other_dir dir) = Some revDetail \<Longrightarrow>
      priority revDetail < priority detail \<Longrightarrow>
      MatchMicroPolicyRule it ms t dir key0 =
        \<lparr> mr_rule = rule_of_code (action revDetail), mr_tuple = ReverseTuple t,
          mr_dir = other_dir dir, mr_key = policy_key revDetail \<rparr> \<Longrightarrow> P"
  shows P
proof (cases "MatchNetPolicyRule it ms t dir")
  case None
  then show ?thesis by (intro assms(1)) (simp_all add: MatchMicroPolicyRule_def)
next
  case (Some detail)
  let ?rev = "MatchNetPolicyRule it ms (ReverseTuple t) (other_dir dir)"
  show ?thesis
  proof (cases "rule_of_code (action detail) = kAllow \<or>
      (case ?rev of None \<Rightarrow> True | Some revDetail \<Rightarrow> priority detail \<le> priority revDetail)")
    case True
    then show ?thesis
      by (intro assms(2) [OF Some True])
         (use Some True in \<open>auto simp: MatchMicroPolicyRule_def other_dir_if Let_def split: option.splits\<close>)
  next
    case False
    then obtain revDetail where r: "?rev = Some revDetail" "priority revDetail < priority detail"
      by (auto split: option.splits)
    then show ?thesis using False Some
      by (intro assms(3) [OF Some _ r])
         (auto simp: MatchMicroPolicyRule_def other_dir_if Let_def)
  qed
qed

lemma MatchNet_Some:
  "MatchNetPolicyRule it ms t dir = Some r \<longleftrightarrow>
     \<not> IsNodeIp ms (ft_src_addr_u32 t) \<and> MatchFiveTuple it ms t dir = Some r"
  by (simp add: MatchNetPolicyRule_def)

lemma match_micro_attributed:
  assumes "visits_all it" and "engine_wf (ms_engine ms)" and "tuple_ok t"
  shows "mr_rule (MatchMicroPolicyRule it ms t dir key0) = kDefault
      \<and> mr_tuple (MatchMicroPolicyRule it ms t dir key0) = t \<and> mr_dir (MatchMicroPolicyRule it ms t dir key0) = dir
      \<and> mr_key (MatchMicroPolicyRule it ms t dir key0) = key0
      \<and> (IsNodeIp ms (ft_src_addr_u32 t) \<or> (\<forall>r. \<not> covers ms dir t r))
    \<or> (\<exists>r. covers ms (mr_dir (MatchMicroPolicyRule it ms t dir key0)) (mr_tuple (MatchMicroPolicyRule it ms t dir key0)) r
        \<and> mr_rule (MatchMicroPolicyRule it ms t dir key0) = rule_of_code (action r)
        \<and> mr_key (MatchMicroPolicyRule it ms t dir key0) = policy_key r)"
proof (cases rule: match_micro_cases [of it ms t dir key0])
  case Default
  then show ?thesis using MatchFiveTuple_None [OF assms]
    by (simp add: MatchNetPolicyRule_def split: if_splits)
next
  case (Forward detail)
  then show ?thesis using MatchFiveTuple_Some(1) [OF assms] by (auto simp: MatchNet_Some)
next
  case (Reverse detail revDetail)
  have ok: "tuple_ok (ReverseTuple t)" using assms(3) by simp
  have "covers ms (other_dir dir) (ReverseTuple t) revDetail"
    using Reverse(3) MatchFiveTuple_Some(1) [OF assms(1,2) ok] by (simp add: MatchNet_Some)
  then show ?thesis by (intro disjI2 exI [of _ revDetail]) (simp add: Reverse(5))
qed

lemma match_micro_deny:
  assumes "visits_all it" and "engine_wf (ms_engine ms)" and "tuple_ok t"
    and node: "\<not> IsNodeIp ms (ft_src_addr_u32 t)"
    and r: "covers ms dir t r" "rule_of_code (action r) = kDeny"
    and fwd: "\<And>r'. covers ms dir t r' \<Longrightarrow> priority r' \<le> priority r \<Longrightarrow> rule_of_code (action r') = kDeny"
    and bwd: "\<And>r'. covers ms (other_dir dir) (ReverseTuple t) r' \<Longrightarrow> priority r \<le> priority r'"
  shows "mr_rule (MatchMicroPolicyRule it ms t dir key0) = kDeny"
proof (cases rule: match_micro_cases [of it ms t dir key0])
  case Default
  then show ?thesis using MatchFiveTuple_None [OF assms(1-3)] node r(1)
    by (auto simp: MatchNetPolicyRule_def)
next
  case (Forward detail)
  then have "covers ms dir t detail" "priority detail \<le> priority r"
    using MatchFiveTuple_Some [OF assms(1-3)] r(1) by (auto simp: MatchNet_Some)
  then show ?thesis using Forward fwd by simp
next
  case (Reverse detail revDetail)
  have "tuple_ok (ReverseTuple t)" using assms(3) by simp
  then have "covers ms (other_dir dir) (ReverseTuple t) revDetail"
    using Reverse MatchFiveTuple_Some(1) [OF assms(1,2)] by (auto simp: MatchNet_Some)
  moreover have "priority detail \<le> priority r"
    using Reverse MatchFiveTuple_Some(2) [OF assms(1-3)] r(1) by (auto simp: MatchNet_Some)
  ultimately show ?thesis using bwd Reverse(4) by fastforce
qed

section \<open>Policy changes\<close>

lemma engine_after_delete:
  "IsValidUtf8 name \<Longrightarrow> ms_engine (MicroSeg_DeletePolicy ms name) =
     delete_policy (delete_policy (ms_engine ms) kIngress name) kEgress name"
  by (simp add: MicroSeg_DeletePolicy_def PolicyRule_DeletePolicy_def Let_def dir_from_i32_def)

lemma microseg_delete_lookup:
  assumes "engine_wf (ms_engine ms)" and "IsValidUtf8 name"
  shows "rule_lookup (ms_engine (MicroSeg_DeletePolicy ms name)) dir key n =
    (if n = name then None else rule_lookup (ms_engine ms) dir key n)"
  using assms by (cases dir) (simp_all add: engine_after_delete rule_lookup_delete engine_wf_delete)

lemma microseg_delete_http:
  "hm_get (http_policy (MicroSeg_DeletePolicy ms name) dir) n =
     (if n = name then None else hm_get (http_policy ms dir) n)"
  by (cases dir)
     (simp_all add: MicroSeg_DeletePolicy_def PolicyRule_DeletePolicy_def Let_def http_policy_def hmap_simps)

lemma microseg_wf_delete: "microseg_wf ms \<Longrightarrow> microseg_wf (MicroSeg_DeletePolicy ms name)"
  by (simp add: microseg_wf_def MicroSeg_DeletePolicy_def PolicyRule_DeletePolicy_def Let_def
      hmap_simps engine_wf_delete)

lemma microseg_wf_add: "microseg_wf ms \<Longrightarrow> microseg_wf (fst (AddPolicyToTree ms r p))"
  by (simp add: microseg_wf_def AddPolicyToTree_def engine_wf_add)

lemma microseg_wf_http: "microseg_wf ms \<Longrightarrow> microseg_wf (fst (AddHttpPolicy ms dir key rule))"
  by (cases dir) (simp_all add: microseg_wf_def AddHttpPolicy_def append_http_rule_def hmap_simps)

lemma microseg_wf_clear: "microseg_wf ms \<Longrightarrow> microseg_wf (fst (PolicyRule_ClearCfg ms))"
  by (simp add: microseg_wf_def PolicyRule_ClearCfg_def engine_wf_clear)

lemma microseg_wf_new: "microseg_wf new_microseg"
  by (simp add: microseg_wf_def new_microseg_def)

lemma microseg_wf_res:
  "microseg_wf ms \<Longrightarrow> microseg_wf (fst (NewNfQueRes ms pid res))"
  "microseg_wf ms \<Longrightarrow> microseg_wf (fst (DeleteNfQueRes ms ep pid))"
  "microseg_wf ms \<Longrightarrow> microseg_wf (AddNodeIp ms ip)"
  "microseg_wf ms \<Longrightarrow> microseg_wf (RemoveNodeIp ms ip)"
  by (simp_all add: microseg_wf_def NewNfQueRes_def DeleteNfQueRes_def AddNodeIp_def RemoveNodeIp_def
      hmap_simps split: option.splits)

lemma MatchHttpPolicyRule_find:
  "MatchHttpPolicyRule rs h =
     (case find (\<lambda>rule. http_rule_applies rule h) rs of None \<Rightarrow> kDefault | Some rule \<Rightarrow> hr_action rule)"
  by (induction rs) (auto simp: http_rule_applies_def)

section \<open>Properties of the microsegmentation engine\<close>

text \<open>For a packet's tuple, either the match is the default and no stored rule of the direction
  covers the packet (or its source is a cluster node), or the verdict, the reported policy name,
  tuple and direction are those of a stored rule that covers the reported tuple.\<close>

theorem match_verdict_is_attributed:
  assumes "visits_all it" and "engine_wf (ms_engine ms)"
  shows "let m = MatchMicroPolicyRule it ms (fill_tuple t) dir key0 in
    (mr_rule m = kDefault \<and> mr_tuple m = fill_tuple t \<and> mr_dir m = dir \<and> mr_key m = key0
      \<and> (IsNodeIp ms (sft_src_addr t) \<or> (\<forall>r. \<not> covers ms dir (fill_tuple t) r)))
    \<or> (\<exists>r. covers ms (mr_dir m) (mr_tuple m) r \<and> mr_rule m = rule_of_code (action r)
         \<and> mr_key m = policy_key r)"
  using match_micro_attributed [OF assms tuple_ok_fill, of t dir key0]
  by (simp add: Let_def fill_tuple_def)

lemma sample_microseg_wf: "microseg_wf (sample_microseg act)"
  unfolding sample_microseg_def by (rule microseg_wf_add [OF microseg_wf_new])

theorem match_verdict_is_attributed_witness:
  "mr_rule (MatchMicroPolicyRule rev (sample_microseg 0) (fill_tuple sample_tuple) kIngress []) = kDeny
   \<and> (\<exists>r. covers (sample_microseg 0) kIngress (fill_tuple sample_tuple) r \<and> policy_key r = ''dns'')"
proof -
  let ?m = "MatchMicroPolicyRule rev (sample_microseg 0) (fill_tuple sample_tuple) kIngress []"
  have m: "mr_rule ?m = kDeny" "mr_dir ?m = kIngress" "mr_tuple ?m = fill_tuple sample_tuple"
    "mr_key ?m = ''dns''" by code_simp+
  have wf: "engine_wf (ms_engine (sample_microseg 0))"
    using sample_microseg_wf by (simp add: microseg_wf_def)
  show ?thesis
    using match_verdict_is_attributed [OF visits_all_rev wf, of sample_tuple kIngress "[]"] m
    by (auto simp: Let_def)
qed

text \<open>A deny rule that covers a packet is enforced: if its source is not a node, every covering
  rule of at most its priority number denies too, and no rule that covers the reverse direction
  has a smaller priority number, then the match denies.\<close>

theorem covering_deny_rule_denies:
  assumes "visits_all it" and "engine_wf (ms_engine ms)"
    and "\<not> IsNodeIp ms (sft_src_addr t)"
    and "covers ms dir (fill_tuple t) r" and "rule_of_code (action r) = kDeny"
    and "\<And>r'. covers ms dir (fill_tuple t) r' \<Longrightarrow> priority r' \<le> priority r \<Longrightarrow>
      rule_of_code (action r') = kDeny"
    and "\<And>r'. covers ms (other_dir dir) (ReverseTuple (fill_tuple t)) r' \<Longrightarrow> priority r \<le> priority r'"
  shows "mr_rule (MatchMicroPolicyRule it ms (fill_tuple t) dir key0) = kDeny"
  using match_micro_deny [OF assms(1,2) tuple_ok_fill _ assms(4,5,6,7)] assms(3)
  by (simp add: fill_tuple_def)


lemma sample_microseg_rules:
  "rule_lookup (ms_engine (sample_microseg act)) dir key name = Some r \<Longrightarrow>
     dir = kIngress \<and> action r = act \<and> priority r = 10"
proof -
  have "IsValidUtf8 ''dns''" "IsValidUtf8 ''10.0.0.0/24''" "IsValidUtf8 ''10.0.0.2''" "IsValidUtf8 []"
    by code_simp+
  then show "rule_lookup (ms_engine (sample_microseg act)) dir key name = Some r \<Longrightarrow> ?thesis"
    by (auto simp: sample_microseg_def AddPolicyToTree_def new_microseg_def rule_lookup_add
        sample_rule_def merged_rule_def split: if_splits)
qed

theorem covering_deny_rule_denies_witness:
  "mr_rule (MatchMicroPolicyRule rev (sample_microseg 0) (fill_tuple sample_tuple) kIngress []) = kDeny"
proof -
  let ?r = "((sample_rule ''dns'' 10 ''10.0.0.0/24'' 0)\<lparr> proto := 17 \<rparr>)
    \<lparr> ports := [\<lparr> end_port = 53, port = 53, port_proto = 17 \<rparr>] \<rparr>"
  have wf: "engine_wf (ms_engine (sample_microseg 0))"
    using sample_microseg_wf by (simp add: microseg_wf_def)
  have node: "\<not> IsNodeIp (sample_microseg 0) (sft_src_addr sample_tuple)" by code_simp
  have l: "rule_lookup (ms_engine (sample_microseg 0)) kIngress ''10-17-10.0.0.0/24-10.0.0.2'' ''dns'' = Some ?r"
    by code_simp
  have a: "rule_applies ?r (ft_proto (fill_tuple sample_tuple)) (ft_dst_port (fill_tuple sample_tuple))
      (ntohl (ft_src_addr_u32 (fill_tuple sample_tuple))) (ntohl (ft_dst_addr_u32 (fill_tuple sample_tuple)))"
    by code_simp
  have c: "covers (sample_microseg 0) kIngress (fill_tuple sample_tuple) ?r"
    using l a unfolding covers_def by blast
  show ?thesis
    by (rule covering_deny_rule_denies [OF visits_all_rev wf node c])
       (use sample_microseg_rules in \<open>auto simp: covers_def rule_of_code_def sample_rule_def\<close>)
qed

text \<open>C22: deleting a policy with a valid name removes its network rules of both directions and its
  HTTP rules of both directions, and no rule of another policy.\<close>

theorem delete_policy_removes_net_and_http_rules:
  assumes "microseg_wf ms" and "IsValidUtf8 name"
  shows "rule_lookup (ms_engine (MicroSeg_DeletePolicy ms name)) dir key n =
      (if n = name then None else rule_lookup (ms_engine ms) dir key n)
    \<and> hm_get (http_policy (MicroSeg_DeletePolicy ms name) dir) n =
      (if n = name then None else hm_get (http_policy ms dir) n)"
  using assms by (simp add: microseg_delete_lookup microseg_delete_http microseg_wf_def)

theorem delete_policy_removes_net_and_http_rules_witness:
  "rule_lookup (ms_engine (MicroSeg_DeletePolicy (sample_microseg 0) ''dns'')) kIngress
     ''10-17-10.0.0.0/24-10.0.0.2'' ''dns'' = None"
proof -
  have "IsValidUtf8 ''dns''" by code_simp
  then show ?thesis
    using delete_policy_removes_net_and_http_rules [OF sample_microseg_wf, of "''dns''" 0 kIngress
        "''10-17-10.0.0.0/24-10.0.0.2''" "''dns''"] by simp
qed

end
