(* ===== verification/Packet_Rewrite.thy ===== *)
theory Packet_Rewrite
  imports Flow_Engine
begin

text \<open>
  The packet rewriting of denied HTTP requests (net-policy.cpp: \<^verbatim>\<open>csum\<close>, \<^verbatim>\<open>TcpCsum\<close>,
  \<^verbatim>\<open>rst_tcp_link\<close>), on the bytes of a packet. A result \<open>None\<close> is an access outside the packet or
  the checksum buffer. Sums are natural numbers: a packet is far too short for the 64-bit sum of
  the code to wrap. The lemmas show that the rewritten packet carries a valid TCP checksum and
  differs from the original only in the first payload bytes and the checksum.
\<close>

section \<open>The Internet checksum\<close>

fun csum_loop :: "nat \<Rightarrow> bytes \<Rightarrow> nat" where
  "csum_loop acc (lo # hi # bs) = csum_loop (acc + (unat lo + 256 * unat hi)) bs"
| "csum_loop acc [b] = acc + unat b"
| "csum_loop acc [] = acc"

function csum_fold :: "nat \<Rightarrow> nat" where
  "csum_fold acc = (if acc div 65536 = 0 then acc else csum_fold (acc mod 65536 + acc div 65536))"
  by auto

termination csum_fold
proof (relation "measure (\<lambda>n. n)")
  fix acc :: nat
  assume "acc div 65536 \<noteq> 0"
  moreover have "acc = 65536 * (acc div 65536) + acc mod 65536" by simp
  ultimately show "(acc mod 65536 + acc div 65536, acc) \<in> measure (\<lambda>n. n)"
    unfolding in_measure by linarith
qed simp

declare csum_fold.simps [simp del]

definition csum :: "bytes \<Rightarrow> u16" where
  "csum packet = NOT (word_of_nat (csum_fold (csum_loop 0 packet)))"

section \<open>Header fields\<close>

definition ip_ihl :: "bytes \<Rightarrow> nat" where
  "ip_ihl pkg = unat (pkg ! 0 AND 0x0F)"

definition ip_version :: "bytes \<Rightarrow> nat" where
  "ip_version pkg = unat (drop_bit 4 (pkg ! 0))"

definition ip_total :: "bytes \<Rightarrow> nat" where
  "ip_total pkg = unat (be16 (pkg ! 2) (pkg ! 3))"

definition tcp_doff :: "bytes \<Rightarrow> nat" where
  "tcp_doff pkg = unat (drop_bit 4 (pkg ! (ip_ihl pkg * 4 + 12)))"

text \<open>\<^verbatim>\<open>htons(ntohs(tot_len) - (ihl << 2))\<close>, an unsigned 16-bit value.\<close>

definition segment_length :: "bytes \<Rightarrow> nat" where
  "segment_length pkg = nat ((int (ip_total pkg) - int (ip_ihl pkg * 4)) mod 65536)"

definition byte_of :: "nat \<Rightarrow> u8" where
  "byte_of n = word_of_nat n"

definition pseudo_header :: "bytes \<Rightarrow> bytes" where
  "pseudo_header pkg =
     take 4 (drop 12 pkg) @ take 4 (drop 16 pkg)
     @ [0, pkg ! 9, byte_of (segment_length pkg div 256), byte_of (segment_length pkg mod 256)]"

section \<open>The TCP checksum\<close>

definition TcpCsum :: "bytes \<Rightarrow> u16 option" where
  "TcpCsum pkg =
     (if pkg ! 9 \<noteq> IPPROTO_TCP then Some 0
      else if ip_total pkg \<ge> 2048 then Some 0
      else
        (let off = ip_ihl pkg * 4; len = segment_length pkg in
         if 12 + len > 2048 \<or> off + len > length pkg then None
         else (let ttcphdr = (take len (drop off pkg))[16 := 0, 17 := 0]
               in Some (csum (pseudo_header pkg @ ttcphdr)))))"

section \<open>Blanking a request\<close>

text \<open>The number of bytes the loop overwrites: the payload, but at most eight.\<close>

definition blanked :: "bytes \<Rightarrow> nat \<Rightarrow> nat" where
  "blanked pkg offset = min 8 (ip_total pkg - offset)"

definition rst_tcp_link :: "bytes \<Rightarrow> bytes option" where
  "rst_tcp_link pkg =
     (if ip_version pkg \<noteq> 4 then Some pkg
      else if pkg ! 9 \<noteq> IPPROTO_TCP then Some pkg
      else
        (let tcph = ip_ihl pkg * 4; offset = tcph + tcp_doff pkg * 4; n = blanked pkg offset in
         if tcph + 18 > length pkg \<or> (n > 0 \<and> offset + n > length pkg) then None
         else
           (let pkg1 = take offset pkg @ replicate n 0 @ drop (offset + n) pkg in
            case TcpCsum pkg1 of
              None \<Rightarrow> None
            | Some check \<Rightarrow>
                Some (pkg1[tcph + 16 := byte_of (unat check mod 256),
                           tcph + 17 := byte_of (unat check div 256)]))))"

text \<open>The checksum a receiver computes over pseudo header and segment; it is zero if valid.\<close>

definition tcp_check_value :: "bytes \<Rightarrow> u16" where
  "tcp_check_value pkg = csum (pseudo_header pkg @ take (segment_length pkg) (drop (ip_ihl pkg * 4) pkg))"

text \<open>A complete TCP packet: it holds its headers, and its length fields agree with its length.\<close>

definition frame_ok :: "bytes \<Rightarrow> bool" where
  "frame_ok pkg \<longleftrightarrow>
     20 \<le> length pkg \<and> ip_version pkg = 4 \<and> pkg ! 9 = IPPROTO_TCP \<and> 5 \<le> ip_ihl pkg
     \<and> ip_ihl pkg * 4 + 20 \<le> length pkg \<and> 5 \<le> tcp_doff pkg
     \<and> ip_ihl pkg * 4 + tcp_doff pkg * 4 \<le> length pkg
     \<and> ip_total pkg = length pkg"

definition payload_at :: "bytes \<Rightarrow> nat" where
  "payload_at pkg = ip_ihl pkg * 4 + tcp_doff pkg * 4"

section \<open>Arithmetic of the checksum\<close>

lemma csum_fold_done: "acc div 65536 = 0 \<Longrightarrow> csum_fold acc = acc"
  by (subst csum_fold.simps) (rule if_P)

lemma csum_fold_step:
  "acc div 65536 \<noteq> 0 \<Longrightarrow> csum_fold acc = csum_fold (acc mod 65536 + acc div 65536)"
  by (subst csum_fold.simps) (rule if_not_P)

lemma csum_fold_bound: "csum_fold n \<le> 65535"
proof (induction n rule: csum_fold.induct)
  case (1 n)
  then show ?case by (subst csum_fold.simps) (auto simp: div_eq_0_iff)
qed

lemma csum_fold_mod: "csum_fold n mod 65535 = n mod 65535"
proof (induction n rule: csum_fold.induct)
  case (1 n)
  have "n = 65536 * (n div 65536) + n mod 65536" by simp
  then have "n mod 65535 = (65536 * (n div 65536) + n mod 65536) mod 65535" by simp
  also have "65536 * (n div 65536) + n mod 65536 = 65535 * (n div 65536) + (n mod 65536 + n div 65536)" by simp
  also have "\<dots> mod 65535 = (n mod 65536 + n div 65536) mod 65535" by (simp only: mod_mult_self4)
  finally have step: "(n mod 65536 + n div 65536) mod 65535 = n mod 65535" by (rule sym)
  show ?case
  proof (cases "n div 65536 = 0")
    case True
    then show ?thesis by (simp only: csum_fold_done)
  next
    case False
    show ?thesis by (simp only: csum_fold_step [OF False] 1 [OF False] step)
  qed
qed

lemma csum_fold_zero: "csum_fold n = 0 \<longleftrightarrow> n = 0"
proof (induction n rule: csum_fold.induct)
  case (1 n)
  then show ?case by (subst csum_fold.simps) (auto simp: div_eq_0_iff)
qed

lemma csum_loop_sum: "csum_loop s bs = s + csum_loop 0 bs"
proof (induction bs arbitrary: s rule: induct_list012)
  case (3 lo hi bs)
  let ?w = "unat lo + 256 * unat hi"
  have "csum_loop s (lo # hi # bs) = s + ?w + csum_loop 0 bs" by (simp only: csum_loop.simps 3(1) [of "s + ?w"])
  moreover have "csum_loop 0 (lo # hi # bs) = ?w + csum_loop 0 bs"
    by (simp only: csum_loop.simps 3(1) [of ?w] add_0)
  ultimately show ?case by simp
qed simp_all

lemma csum_loop_append:
  "even (length xs) \<Longrightarrow> csum_loop 0 (xs @ ys) = csum_loop 0 xs + csum_loop 0 ys"
proof (induction xs rule: induct_list012)
  case (3 lo hi xs)
  then show ?case
    using csum_loop_sum [of "unat lo + 256 * unat hi" "xs @ ys"]
      csum_loop_sum [of "unat lo + 256 * unat hi" xs] by simp
qed simp_all

lemma unat_csum: "unat (csum bs) = 65535 - csum_fold (csum_loop 0 bs)"
proof -
  let ?f = "csum_fold (csum_loop 0 bs)"
  have ones: "unat (- 1 :: u16) = 65535" by (simp add: unsigned_minus_1_eq_mask mask_eq_exp_minus_1)
  have f: "unat (word_of_nat ?f :: u16) = ?f"
    using csum_fold_bound [of "csum_loop 0 bs"] by (simp add: unat_of_nat)
  have "csum bs = - 1 - word_of_nat ?f" by (simp add: csum_def not_eq_complement)
  moreover have "(word_of_nat ?f :: u16) \<le> - 1" by simp
  ultimately have "unat (csum bs) = unat (- 1 :: u16) - unat (word_of_nat ?f :: u16)"
    by (simp only: unat_sub)
  then show ?thesis by (simp only: ones f)
qed

lemma csum_zero_iff: "csum bs = 0 \<longleftrightarrow> csum_fold (csum_loop 0 bs) = 65535"
  using unat_csum [of bs] csum_fold_bound [of "csum_loop 0 bs"] by (auto simp: unat_eq_zero)

text \<open>Storing the checksum of a buffer with a zero check field into that field makes it verify.\<close>

lemma stored_checksum_verifies:
  assumes "even (length pre)"
    and "c = unat (csum (pre @ [0, 0] @ post))"
  shows "csum (pre @ [byte_of (c mod 256), byte_of (c div 256)] @ post) = 0"
proof -
  let ?s0 = "csum_loop 0 (pre @ [0, 0] @ post)"
  let ?s1 = "csum_loop 0 (pre @ [byte_of (c mod 256), byte_of (c div 256)] @ post)"
  have c: "c = 65535 - csum_fold ?s0" using assms(2) by (simp add: unat_csum)
  then have "c < 65536" by simp
  then have field: "unat (byte_of (c mod 256)) + 256 * unat (byte_of (c div 256)) = c"
    by (simp add: byte_of_def unat_of_nat)
  have two: "csum_loop 0 (x # y # post) = unat x + 256 * unat y + csum_loop 0 post" for x y
    using csum_loop_sum [of "unat x + 256 * unat y" post] by simp
  have s1: "?s1 = ?s0 + c"
    using field by (simp add: csum_loop_append assms(1) two del: csum_loop.simps(1))
  have "?s1 mod 65535 = (?s0 mod 65535 + c) mod 65535" by (simp only: s1 mod_add_left_eq)
  also have "\<dots> = (csum_fold ?s0 mod 65535 + c) mod 65535" by (simp only: csum_fold_mod)
  also have "\<dots> = (csum_fold ?s0 + c) mod 65535" by (simp only: mod_add_left_eq)
  also have "csum_fold ?s0 + c = 65535" using c csum_fold_bound [of ?s0] by simp
  finally have div: "csum_fold ?s1 mod 65535 = 0" by (simp add: csum_fold_mod)
  have "?s1 \<noteq> 0" using s1 c csum_fold_zero [of ?s0] by auto
  then have "csum_fold ?s1 \<noteq> 0" by (simp only: csum_fold_zero not_False_eq_True)
  then have "csum_fold ?s1 = 65535"
    using div csum_fold_bound [of ?s1] by (metis dvd_imp_le le_antisym mod_0_imp_dvd neq0_conv)
  then show ?thesis by (simp only: csum_zero_iff)
qed

section \<open>The rewritten packet\<close>

lemma update_two:
  "18 \<le> length xs \<Longrightarrow> xs[16 := a, 17 := b] = take 16 xs @ [a, b] @ drop 18 xs"
  by (rule nth_equalityI) (auto simp: nth_append nth_list_update nth_Cons split: nat.splits
      intro!: arg_cong [of _ _ "(!) xs"])

lemma header_fields_cong:
  assumes "take 20 p = take 20 q" and "20 \<le> length p" and "20 \<le> length q"
  shows "ip_ihl p = ip_ihl q" and "ip_version p = ip_version q" and "ip_total p = ip_total q"
    and "p ! 9 = q ! 9" and "segment_length p = segment_length q"
    and "pseudo_header p = pseudo_header q"
proof -
  have nth: "p ! i = q ! i" if "i < 20" for i using assms(1) that by (metis nth_take)
  then show *: "ip_ihl p = ip_ihl q" "ip_version p = ip_version q" "ip_total p = ip_total q" "p ! 9 = q ! 9"
    by (simp_all add: ip_ihl_def ip_version_def ip_total_def)
  then show **: "segment_length p = segment_length q" by (simp add: segment_length_def)
  have "take 4 (drop 12 p) = take 4 (drop 12 q)" "take 4 (drop 16 p) = take 4 (drop 16 q)"
    using assms(2,3) nth by (auto intro!: nth_equalityI)
  with * ** show "pseudo_header p = pseudo_header q" by (simp add: pseudo_header_def)
qed

lemma length_pseudo_header: "20 \<le> length p \<Longrightarrow> length (pseudo_header p) = 12"
  by (simp add: pseudo_header_def)

text \<open>Writing the computed checksum into the header of a complete packet validates it.\<close>

lemma checksum_written:
  assumes ok: "20 \<le> length p" "p ! 9 = IPPROTO_TCP" "5 \<le> ip_ihl p" "ip_ihl p * 4 + 20 \<le> length p"
    "ip_total p = length p" "length p < 2048"
  defines "off \<equiv> ip_ihl p * 4"
  obtains c where "TcpCsum p = Some c"
    and "tcp_check_value (p[off + 16 := byte_of (unat c mod 256), off + 17 := byte_of (unat c div 256)]) = 0"
proof -
  let ?seg = "drop off p"
  have len: "segment_length p = length p - off"
    using ok unfolding segment_length_def off_def by (simp add: of_nat_diff nat_diff_distrib)
  define c where "c = csum (pseudo_header p @ ?seg[16 := 0, 17 := 0])"
  have result: "TcpCsum p = Some c"
    using ok len by (simp add: c_def TcpCsum_def Let_def off_def)
  let ?q = "p[off + 16 := byte_of (unat c mod 256), off + 17 := byte_of (unat c div 256)]"
  have head: "take 20 ?q = take 20 p" using ok by (simp add: off_def take_update_cancel)
  have fields: "ip_ihl ?q = ip_ihl p" "segment_length ?q = segment_length p"
    "pseudo_header ?q = pseudo_header p"
    using header_fields_cong [OF head] ok by simp_all
  have seg: "drop off ?q = ?seg[16 := byte_of (unat c mod 256), 17 := byte_of (unat c div 256)]"
    by (simp add: drop_update_swap)
  have whole: "take (segment_length p) (drop off ?q) = drop off ?q" by (simp add: len)
  have long: "18 \<le> length ?seg" using ok by (simp add: off_def)
  have even: "even (length (pseudo_header p @ take 16 ?seg))"
    using long ok by (simp add: length_pseudo_header)
  have "tcp_check_value ?q = csum (pseudo_header p @ drop off ?q)"
    by (simp only: tcp_check_value_def fields off_def [symmetric] whole)
  also have "\<dots> = csum ((pseudo_header p @ take 16 ?seg)
      @ [byte_of (unat c mod 256), byte_of (unat c div 256)] @ drop 18 ?seg)"
    by (simp only: seg update_two [OF long] append_assoc)
  also have "\<dots> = 0"
    by (rule stored_checksum_verifies [OF even]) (simp add: c_def update_two [OF long])
  finally show ?thesis using result that by blast
qed

lemma blanking_keeps_headers:
  assumes "frame_ok pkg"
  defines "po \<equiv> payload_at pkg"
  defines "n \<equiv> min 8 (length pkg - po)"
  defines "p1 \<equiv> take po pkg @ replicate n 0 @ drop (po + n) pkg"
  shows "length p1 = length pkg" and "take po p1 = take po pkg"
    and "drop po p1 = replicate n 0 @ drop n (drop po pkg)"
    and "take 20 p1 = take 20 pkg"
proof -
  have off: "20 \<le> po" "po \<le> length pkg" using assms(1) by (simp_all add: po_def frame_ok_def payload_at_def)
  show "length p1 = length pkg" using off by (simp add: p1_def n_def)
  show *: "take po p1 = take po pkg" using off by (simp add: p1_def)
  show "drop po p1 = replicate n 0 @ drop n (drop po pkg)" using off by (simp add: p1_def add.commute)
  show "take 20 p1 = take 20 pkg" using * off(1) by (metis min.absorb1 take_take)
qed

lemma rst_tcp_link_steps:
  assumes "frame_ok pkg"
  defines "po \<equiv> payload_at pkg"
  defines "n \<equiv> min 8 (length pkg - po)"
  defines "p1 \<equiv> take po pkg @ replicate n 0 @ drop (po + n) pkg"
  assumes "TcpCsum p1 = Some c"
  shows "rst_tcp_link pkg = Some (p1[ip_ihl pkg * 4 + 16 := byte_of (unat c mod 256),
                                     ip_ihl pkg * 4 + 17 := byte_of (unat c div 256)])"
  using assms
  by (auto simp: rst_tcp_link_def Let_def frame_ok_def payload_at_def blanked_def)

lemma rst_tcp_link_blanks:
  assumes "frame_ok pkg" and "length pkg < 2048"
  shows "\<exists>pkg'. rst_tcp_link pkg = Some pkg' \<and> length pkg' = length pkg
     \<and> tcp_check_value pkg' = 0
     \<and> drop (payload_at pkg) pkg'
       = (let n = min 8 (length pkg - payload_at pkg)
          in replicate n 0 @ drop n (drop (payload_at pkg) pkg))
     \<and> (\<forall>i < payload_at pkg. i = ip_ihl pkg * 4 + 16 \<or> i = ip_ihl pkg * 4 + 17 \<or> pkg' ! i = pkg ! i)"
proof -
  let ?po = "payload_at pkg"
  let ?n = "min 8 (length pkg - ?po)"
  define p1 where "p1 = take ?po pkg @ replicate ?n 0 @ drop (?po + ?n) pkg"
  note keep = blanking_keeps_headers [OF assms(1), folded p1_def]
  have off: "ip_ihl pkg * 4 + 20 \<le> ?po" "?po \<le> length pkg" "20 \<le> length pkg"
    using assms(1) by (simp_all add: frame_ok_def payload_at_def)
  have same: "ip_ihl p1 = ip_ihl pkg" "ip_total p1 = ip_total pkg" "p1 ! 9 = pkg ! 9"
    using header_fields_cong [OF keep(4)] keep(1) off(3) by simp_all
  obtain c where c: "TcpCsum p1 = Some c"
    and valid: "tcp_check_value (p1[ip_ihl pkg * 4 + 16 := byte_of (unat c mod 256),
      ip_ihl pkg * 4 + 17 := byte_of (unat c div 256)]) = 0"
    using checksum_written [of p1] assms same keep(1) off by (auto simp: frame_ok_def)
  have result: "rst_tcp_link pkg = Some (p1[ip_ihl pkg * 4 + 16 := byte_of (unat c mod 256),
      ip_ihl pkg * 4 + 17 := byte_of (unat c div 256)])"
    using rst_tcp_link_steps [OF assms(1)] c by (simp add: p1_def)
  have kept: "pkg ! i = p1 ! i" if "i < ?po" for i using keep(2) that by (metis nth_take)
  have "i = j \<or> i = k \<or> p1[j := x, k := y] ! i = pkg ! i" if "i < ?po" for i j k x y
    using kept [OF that] by (metis nth_list_update_neq)
  then show ?thesis
    using result valid keep(1,3) off by (simp add: Let_def)
qed

text \<open>A denied request with the 12 payload bytes \<^verbatim>\<open>GET / HTTP/1\<close>, and a packet of 2048 bytes.\<close>

definition denied_packet :: bytes where
  "denied_packet =
     [0x45, 0, 0, 52, 0, 1, 0, 0, 64, 6, 0, 0, 10, 0, 0, 1, 10, 0, 0, 2]
     @ [0x12, 0x34, 0, 80, 0, 0, 0, 7, 0, 0, 0, 9, 0x50, 24, 1, 0, 0, 0, 0, 0]
     @ [71, 69, 84, 32, 47, 32, 72, 84, 84, 80, 47, 49]"

definition long_packet :: bytes where
  "long_packet =
     ([0x45, 0, 8, 0, 0, 1, 0, 0, 64, 6, 0, 0, 10, 0, 0, 1, 10, 0, 0, 2]
      @ [0x12, 0x34, 0, 80, 0, 0, 0, 7, 0, 0, 0, 9, 0x50, 24, 1, 0, 0, 0, 0, 0])
     @ replicate 2008 0x41"

section \<open>Properties\<close>

text \<open>C21: Blanking a denied request gives back a packet of the same length whose TCP checksum
  verifies: the first bytes of the payload, at most eight, are zero, the rest of the payload is
  untouched, and so is every header byte outside the checksum field. This holds for every
  complete TCP packet shorter than the 2048-byte checksum buffer.\<close>

theorem blanked_request_has_valid_checksum:
  assumes "frame_ok pkg" and "length pkg < 2048"
  shows "\<exists>pkg'. rst_tcp_link pkg = Some pkg' \<and> length pkg' = length pkg
     \<and> tcp_check_value pkg' = 0
     \<and> drop (payload_at pkg) pkg'
       = (let n = min 8 (length pkg - payload_at pkg)
          in replicate n 0 @ drop n (drop (payload_at pkg) pkg))
     \<and> (\<forall>i < payload_at pkg. i = ip_ihl pkg * 4 + 16 \<or> i = ip_ihl pkg * 4 + 17 \<or> pkg' ! i = pkg ! i)"
  by (rule rst_tcp_link_blanks [OF assms])

theorem blanked_request_has_valid_checksum_witness:
  "\<exists>pkg'. rst_tcp_link denied_packet = Some pkg' \<and> length pkg' = 52 \<and> tcp_check_value pkg' = 0
     \<and> drop 40 pkg' = replicate 8 0 @ [84, 80, 47, 49]"
proof -
  have "frame_ok denied_packet" and len: "length denied_packet = 52"
    and off: "payload_at denied_packet = 40" "drop 48 denied_packet = [84, 80, 47, 49]"
    by code_simp+
  then show ?thesis using blanked_request_has_valid_checksum [of denied_packet]
    by (auto simp: Let_def)
qed

text \<open>A packet of 2048 bytes or more does not get a checksum: \<^verbatim>\<open>TcpCsum\<close> reports an error with
  the value 0, which \<^verbatim>\<open>rst_tcp_link\<close> stores in the check field of the packet it re-injects.\<close>

theorem long_request_gets_zero_check_field:
  assumes "frame_ok pkg" and "2048 \<le> length pkg"
  shows "\<exists>pkg'. rst_tcp_link pkg = Some pkg'
     \<and> pkg' ! (ip_ihl pkg * 4 + 16) = 0 \<and> pkg' ! (ip_ihl pkg * 4 + 17) = 0"
proof -
  let ?po = "payload_at pkg"
  let ?n = "min 8 (length pkg - ?po)"
  define p1 where "p1 = take ?po pkg @ replicate ?n 0 @ drop (?po + ?n) pkg"
  note keep = blanking_keeps_headers [OF assms(1), folded p1_def]
  have "ip_total p1 = length pkg" "ip_ihl pkg * 4 + 20 \<le> length pkg"
    using header_fields_cong(3) [OF keep(4)] keep(1) assms(1) by (simp_all add: frame_ok_def)
  moreover from this have "TcpCsum p1 = Some 0" using assms(2) by (simp add: TcpCsum_def)
  ultimately show ?thesis
    using rst_tcp_link_steps [OF assms(1), folded p1_def, of 0] keep(1)
    by (simp add: byte_of_def)
qed

theorem long_request_gets_zero_check_field_witness:
  "\<exists>pkg'. rst_tcp_link long_packet = Some pkg' \<and> pkg' ! 36 = 0 \<and> pkg' ! 37 = 0"
proof -
  let ?head = "[0x45, 0, 8, 0, 0, 1, 0, 0, 64, 6, 0, 0, 10, 0, 0, 1, 10, 0, 0, 2]
     @ [0x12, 0x34, 0, 80, 0, 0, 0, 7, 0, 0, 0, 9, 0x50, 24, 1, 0, 0, 0, 0, 0] :: bytes"
  have len: "length long_packet = 2048" by (simp add: long_packet_def)
  have nth: "long_packet ! i = ?head ! i" if "i < 40" for i
    using that unfolding long_packet_def by (subst nth_append) simp
  have vals: "unat (0x45 AND 0x0F :: u8) = 5" "unat (drop_bit 4 (0x45 :: u8)) = 4"
    "unat (drop_bit 4 (0x50 :: u8)) = 5" "unat (be16 8 0) = 2048"
    by code_simp+
  have ihl: "ip_ihl long_packet = 5" using nth [of 0] vals by (simp add: ip_ihl_def)
  have "frame_ok long_packet"
    using nth [of 0] nth [of 2] nth [of 3] nth [of 9] nth [of 32] ihl len vals
    by (simp add: frame_ok_def ip_version_def ip_total_def tcp_doff_def IPPROTO_TCP_def)
  then show ?thesis
    using long_request_gets_zero_check_field [of long_packet] len ihl by simp
qed

end
