(* ===== verification/Nfq_Queue.thy ===== *)
theory Nfq_Queue
  imports Http_Conn
begin

text \<open>
  The netfilter queue of a pod (crates/net_nfq): the messages a batch drains from the kernel and
  stashes until their verdict, and the verdicts that take them out again. The socket is the list
  of the results its next receives give; after them it would block. \<open>send_ok\<close> tells of which
  messages the kernel takes the verdict; sending any other fails after the message has left the
  stash. The payload of a message is a view of memory.
\<close>

section \<open>Messages and verdicts\<close>

record NfqMessage =
  msg_id :: u32
  msg_payload :: view
  msg_nfmark :: u32

datatype NfqVerdict = Accept | Drop

datatype recv_result = Received NfqMessage | WouldBlock | RecvError

type_synonym pending = "(u32, NfqMessage) hmap"

record NfqQueue =
  socket :: "recv_result list"
  send_ok :: "u32 \<Rightarrow> bool"
  pending :: pending

definition MAX_BATCH :: nat where "MAX_BATCH = 64"

text \<open>A verdict as the kernel gets it: without payload it keeps the packet as it is.\<close>

record issued =
  iss_id :: u32
  iss_verdict :: NfqVerdict
  iss_mark :: "u32 option"
  iss_payload :: "bytes option"

section \<open>Draining a batch\<close>

text \<open>\<open>room\<close> is the number of messages the batch may still take; an error loses the batch.\<close>

fun drain_loop :: "nat \<Rightarrow> pending \<Rightarrow> recv_result list \<Rightarrow> NfqMessage list \<Rightarrow> pending \<times> recv_result list \<times> NfqMessage list option" where
  "drain_loop 0 p src out = (p, src, Some out)"
| "drain_loop (Suc room) p [] out = (p, [], Some out)"
| "drain_loop (Suc room) p (Received m # src) out = drain_loop room (hm_put (msg_id m) m p) src (out @ [m])"
| "drain_loop (Suc room) p (WouldBlock # src) out = (p, src, Some out)"
| "drain_loop (Suc room) p (RecvError # src) out = (p, src, None)"

definition drain_batch :: "pending \<Rightarrow> recv_result list \<Rightarrow> pending \<times> recv_result list \<times> NfqMessage list option" where
  "drain_batch p src = drain_loop MAX_BATCH (if p \<noteq> [] then [] else p) src []"

definition recv_batch :: "NfqQueue \<Rightarrow> NfqQueue \<times> NfqMessage list option" where
  "recv_batch q =
     (let (p, src, out) = drain_batch (pending q) (socket q)
      in (q\<lparr> socket := src, pending := p \<rparr>, out))"

section \<open>Issuing verdicts\<close>

text \<open>\<^const>\<open>None\<close> is the error result: of an unknown id, which changes nothing, or of the send.\<close>

definition verdict_impl ::
  "NfqQueue \<Rightarrow> u32 \<Rightarrow> NfqVerdict \<Rightarrow> u32 option \<Rightarrow> bytes \<Rightarrow> NfqQueue \<times> issued option" where
  "verdict_impl q mid v mark payload =
     (if \<not> hm_has (pending q) mid then (q, None)
      else (q\<lparr> pending := hm_del mid (pending q) \<rparr>,
            if \<not> send_ok q mid then None
            else Some \<lparr> iss_id = mid, iss_verdict = v, iss_mark = mark,
                        iss_payload = (if payload \<noteq> [] then Some payload else None) \<rparr>))"

definition verdict :: "NfqQueue \<Rightarrow> u32 \<Rightarrow> NfqVerdict \<Rightarrow> bytes \<Rightarrow> NfqQueue \<times> issued option" where
  "verdict q mid v payload = verdict_impl q mid v None payload"

definition verdict_with_mark ::
  "NfqQueue \<Rightarrow> u32 \<Rightarrow> NfqVerdict \<Rightarrow> u32 \<Rightarrow> bytes \<Rightarrow> NfqQueue \<times> issued option" where
  "verdict_with_mark q mid v mark payload = verdict_impl q mid v (Some mark) payload"

section \<open>What a batch holds\<close>

text \<open>The messages of the socket up to the first that is not a message, at most \<open>room\<close> of them.\<close>

fun batch_of :: "nat \<Rightarrow> recv_result list \<Rightarrow> NfqMessage list" where
  "batch_of (Suc room) (Received m # src) = m # batch_of room src"
| "batch_of _ _ = []"

lemma drain_loop_batch:
  "drain_loop room p src out = (p', src', res) \<Longrightarrow>
     p' = fold (\<lambda>m. hm_put (msg_id m) m) (batch_of room src) p
     \<and> (res = None \<or> res = Some (out @ batch_of room src))
     \<and> (res = None \<longleftrightarrow> length (batch_of room src) < room \<and>
          (\<exists>rest. src = map Received (batch_of room src) @ RecvError # rest))"
  by (induction room p src out rule: drain_loop.induct) auto

lemma batch_of_length: "length (batch_of room src) \<le> room"
  by (induction room src rule: batch_of.induct) simp_all

lemma has_fold_put:
  "hm_has (fold (\<lambda>m. hm_put (msg_id m) m) ms p) i \<longleftrightarrow> i \<in> msg_id ` set ms \<or> hm_has p i"
  by (induction ms arbitrary: p) (auto simp: hm_has_def hmap_simps)

lemma stale_dropped: "drain_batch p src = drain_loop MAX_BATCH [] src []"
  by (cases "p = []") (simp_all add: drain_batch_def)

lemma recv_batch_result:
  assumes "recv_batch q = (q', res)"
  shows "pending q' = fold (\<lambda>m. hm_put (msg_id m) m) (batch_of MAX_BATCH (socket q)) []"
    and "send_ok q' = send_ok q"
    and "res = None \<or> res = Some (batch_of MAX_BATCH (socket q))"
  using assms drain_loop_batch [of MAX_BATCH "[]" "socket q" "[]"]
  by (auto simp: recv_batch_def stale_dropped split: prod.splits)

end
