(* ===== verification/Nfq_Callbacks.thy ===== *)
theory Nfq_Callbacks
  imports Micro_Seg Packet_Rewrite Nfq_Queue
begin

text \<open>
  The packet path of the daemon (net-policy.cpp): the post-notification server, the two NFQUEUE
  callbacks and the loop that feeds them a batch. A callback maps the daemon state and a message
  to the new state and the sequence of its externally visible effects; \<open>None\<close> is undefined
  behaviour of the code or a call that does not return. The memory is read-only here: a denied
  request is rewritten in place after the parser has consumed it, and the rewritten bytes are only
  read by the verdict.
\<close>

section \<open>State, environment and effects\<close>

record ('l, 's, 'f) DaemonContext =
  ipt_ver :: i32
  connection_manager :: "('l, 's, 'f) ConnectionManager"
  microseg :: MicroSegEngine
  post_link_fd :: i32

text \<open>What the callbacks take from outside: the HTTP libraries, the hash map order, the result of
  \<^verbatim>\<open>write\<close> and the clock readings of the calls that take one.\<close>

record ('l, 's, 'f) nfq_env =
  http :: "('l, 's, 'f) http_env"
  order :: rule_order
  post_write :: "i32 \<Rightarrow> bytes \<Rightarrow> i32"

record clock =
  at_receive :: instant
  at_touch :: instant
  at_track :: instant
  at_dispatch :: instant

datatype effect =
    Publish u8 i32 i32 u16 u16 string string string
  | PostWrite i32 bytes
  | PostClose i32
  | Verdict u32 NfqVerdict "u32 option" bytes

section \<open>The post-notification server\<close>

definition PostServer_Accept :: "('l, 's, 'f) DaemonContext \<Rightarrow> i32 \<Rightarrow> ('l, 's, 'f) DaemonContext \<times> effect list" where
  "PostServer_Accept dm client_fd =
     (dm\<lparr> post_link_fd := client_fd \<rparr>,
      if post_link_fd dm > 0 \<and> client_fd \<noteq> post_link_fd dm then [PostClose (post_link_fd dm)] else [])"

definition str_bytes :: "string \<Rightarrow> bytes" where
  "str_bytes s = map (\<lambda>c. byte_of (of_char c)) s"

definition c_str :: "string \<Rightarrow> string" where
  "c_str s = takeWhile (\<lambda>c. c \<noteq> CHR 0x00) s"

definition match_json :: "FiveTuple \<Rightarrow> NetPolicyRule \<Rightarrow> FlowDir \<Rightarrow> string \<Rightarrow> string" where
  \<open>match_json t act dir key =
     ''{"type":"microseg","proto":'' @ dec_nat (unat (ft_proto t))
     @ '',"action":'' @ dec_nat (unat (rule_code act)) @ '',"direction":'' @ dec_int (dir_code dir)
     @ '',"src_port":'' @ dec_nat (unat (ft_src_port t))
     @ '',"dst_port":'' @ dec_nat (unat (ft_dst_port t))
     @ '',"src_ip":"'' @ c_str (ft_src_addr t) @ ''","dst_ip":"'' @ c_str (ft_dst_addr t)
     @ ''","policy_name":"'' @ c_str key @ ''"}''\<close>

definition post_header :: "nat \<Rightarrow> bytes" where
  "post_header len =
     str_bytes ''#%% pre''
     @ [byte_of (len mod 256), byte_of (len div 256 mod 256), byte_of (len div 65536 mod 256),
        byte_of (len div 16777216 mod 256)]"

definition publish_match :: "FiveTuple \<Rightarrow> NetPolicyRule \<Rightarrow> FlowDir \<Rightarrow> string \<Rightarrow> effect list" where
  "publish_match t act dir key =
     (if IsValidUtf8 (ft_src_addr t) \<and> IsValidUtf8 (ft_dst_addr t) \<and> IsValidUtf8 key
      then [Publish (ft_proto t) (int (unat (rule_code act))) (dir_code dir) (ft_src_port t)
              (ft_dst_port t) (ft_src_addr t) (ft_dst_addr t) key]
      else [])"

text \<open>The text is printed into a buffer of 1024 bytes without a bound.\<close>

definition SendMatchMsg ::
  "(i32 \<Rightarrow> bytes \<Rightarrow> i32) \<Rightarrow> i32 \<Rightarrow> FiveTuple \<Rightarrow> NetPolicyRule \<Rightarrow> FlowDir \<Rightarrow> string
     \<Rightarrow> (effect list \<times> i32) option" where
  "SendMatchMsg wr fd t act dir key =
     (let pub = publish_match t act dir key in
      if fd \<le> 0 then Some (pub, 0)
      else
        (let data = match_json t act dir key; len = length data; buf = post_header len in
         if len \<ge> 1024 then None
         else if wr fd buf \<le> 0 then Some (pub @ [PostWrite fd buf], - 1)
         else if wr fd (str_bytes data) \<le> 0
         then Some (pub @ [PostWrite fd buf, PostWrite fd (str_bytes data)], - 1)
         else Some (pub @ [PostWrite fd buf, PostWrite fd (str_bytes data)], 0)))"

section \<open>The ingress callback\<close>

abbreviation accepted :: "NfqMessage \<Rightarrow> effect" where
  "accepted msg \<equiv> Verdict (msg_id msg) Accept None []"

abbreviation marked :: "NfqMessage \<Rightarrow> NetPolicyRule \<Rightarrow> effect" where
  "marked msg r \<equiv> Verdict (msg_id msg) Accept (Some (rule_code r)) []"

abbreviation dropped :: "NfqMessage \<Rightarrow> effect" where
  "dropped msg \<equiv> Verdict (msg_id msg) Drop None []"

definition has_payload :: "NfqMessage \<Rightarrow> PacketDecision \<Rightarrow> bool" where
  "has_payload msg decision \<longleftrightarrow>
     (kind decision = 3 \<or> kind decision = 4 \<or> kind decision = 5)
     \<and> snd (msg_payload msg) > payload_offset decision"

text \<open>UDP and ICMP packets.\<close>

definition input_datagram ::
  "('l, 's, 'f) nfq_env \<Rightarrow> ('l, 's, 'f) DaemonContext \<Rightarrow> NfqMessage \<Rightarrow> FiveTuple
     \<Rightarrow> (('l, 's, 'f) DaemonContext \<times> effect list) option" where
  "input_datagram env dm msg tuple =
     (let m = MatchMicroPolicyRule (order env) (microseg dm) tuple kIngress [] in
      if mr_rule m = kDefault then Some (dm, [marked msg kAllow])
      else case SendMatchMsg (post_write env) (post_link_fd dm) (mr_tuple m) (mr_rule m) (mr_dir m) (mr_key m) of
             None \<Rightarrow> None
           | Some (eff, _) \<Rightarrow>
               if mr_rule m = kDeny then Some (dm, eff @ [dropped msg])
               else Some (dm, eff @ [marked msg kAllow]))"

text \<open>The end of the callback: header extraction and HTTP rules.\<close>

definition input_request ::
  "('l, 's, 'f) nfq_env \<Rightarrow> heap \<Rightarrow> clock \<Rightarrow> ('l, 's, 'f) DaemonContext \<Rightarrow> NfqMessage \<Rightarrow> PacketDecision
     \<Rightarrow> FiveTuple \<Rightarrow> string \<Rightarrow> (('l, 's, 'f) DaemonContext \<times> effect list) option" where
  "input_request env mem ck dm msg decision tuple key =
     (case DispatchMicroseg (http env) mem (connection_manager dm) decision (msg_payload msg) key (at_dispatch ck) of
        None \<Rightarrow> None
      | Some (cm, None) \<Rightarrow> Some (dm\<lparr> connection_manager := cm \<rparr>, [marked msg kAllowReq])
      | Some (cm, Some header) \<Rightarrow>
          (let dm1 = dm\<lparr> connection_manager := cm \<rparr> in
           case hm_get (input_http_policy (microseg dm1)) key of
             None \<Rightarrow> Some (dm1, [marked msg kDefault])
           | Some http_rule \<Rightarrow>
               (let rule_ret = MatchHttpPolicyRule http_rule header in
                if rule_ret = kDefault then Some (dm1, [marked msg kAllowReq])
                else case SendMatchMsg (post_write env) (post_link_fd dm1) tuple rule_ret kIngress key of
                       None \<Rightarrow> None
                     | Some (eff, _) \<Rightarrow>
                         (let pkg = view_bytes mem (msg_payload msg) in
                          case (if rule_ret = kDeny then rst_tcp_link pkg else Some pkg) of
                            None \<Rightarrow> None
                          | Some pkg' \<Rightarrow>
                              Some (dm1, eff @ [Verdict (msg_id msg) Accept (Some (rule_code kAllowReq)) pkg'])))))"

text \<open>A packet of a flow under microsegmentation.\<close>

definition input_tracked ::
  "('l, 's, 'f) nfq_env \<Rightarrow> heap \<Rightarrow> clock \<Rightarrow> ('l, 's, 'f) DaemonContext \<Rightarrow> NfqMessage \<Rightarrow> PacketDecision
     \<Rightarrow> FiveTuple \<Rightarrow> (('l, 's, 'f) DaemonContext \<times> effect list) option" where
  "input_tracked env mem ck dm msg decision tuple =
     (if kind decision = 2 then Some (dm, [marked msg kAllow])
      else if \<not> has_payload msg decision then Some (dm, [marked msg kAllowReq])
      else if syn decision then Some (dm, [marked msg kAllowReq])
      else if kind decision = 4 then Some (dm, [accepted msg])
      else
        (let rule_key = (case MicrosegRuleKey (connection_manager dm) decision of None \<Rightarrow> [] | Some k \<Rightarrow> k)
         in input_request env mem ck dm msg decision tuple rule_key))"

text \<open>A packet of a flow that is not.\<close>

definition input_untracked ::
  "('l, 's, 'f) nfq_env \<Rightarrow> heap \<Rightarrow> clock \<Rightarrow> ('l, 's, 'f) DaemonContext \<Rightarrow> NfqMessage \<Rightarrow> PacketDecision
     \<Rightarrow> FiveTuple \<Rightarrow> (('l, 's, 'f) DaemonContext \<times> effect list) option" where
  "input_untracked env mem ck dm msg decision tuple =
     (if \<not> syn decision \<and> \<not> has_payload msg decision then Some (dm, [marked msg kAllowReq])
      else
        (let m = MatchMicroPolicyRule (order env) (microseg dm) tuple kIngress [] in
         if mr_rule m = kDefault then Some (dm, [marked msg kAllow])
         else
           (let http_rule = hm_get (input_http_policy (microseg dm)) (mr_key m) in
            if http_rule = None \<or> http_rule = Some [] then
              (case SendMatchMsg (post_write env) (post_link_fd dm) (mr_tuple m) (mr_rule m) (mr_dir m) (mr_key m) of
                 None \<Rightarrow> None
               | Some (eff, _) \<Rightarrow>
                   if mr_rule m = kDeny then Some (dm, eff @ [dropped msg])
                   else Some (dm, eff @ [marked msg kAllow]))
            else
              (let dm1 = dm\<lparr> connection_manager :=
                             MicrosegTrack (http env) (connection_manager dm) decision (mr_key m) (at_track ck) \<rparr> in
               if syn decision then Some (dm1, [marked msg kAllowReq])
               else input_request env mem ck dm1 msg decision (mr_tuple m) (mr_key m)))))"

definition input_nfq_cb ::
  "('l, 's, 'f) nfq_env \<Rightarrow> heap \<Rightarrow> clock \<Rightarrow> ('l, 's, 'f) DaemonContext \<Rightarrow> NfqMessage
     \<Rightarrow> (('l, 's, 'f) DaemonContext \<times> effect list) option" where
  "input_nfq_cb env mem ck dm msg =
     (if msg_nfmark msg = rule_code kAllow \<or> msg_nfmark msg = rule_code kAllowRsp
      then Some (dm, [accepted msg])
      else if snd (msg_payload msg) < 20 then Some (dm, [accepted msg])
      else
        (let (cm, result) = receive (connection_manager dm) (view_bytes mem (msg_payload msg)) True (at_receive ck);
             dm1 = dm\<lparr> connection_manager := cm \<rparr> in
         if \<not> sft_recognized (rr_tuple result) then Some (dm1, [accepted msg])
         else
           (let tuple = fill_tuple (rr_tuple result) in
            if ft_proto tuple = IPPROTO_UDP \<or> ft_proto tuple = IPPROTO_ICMP
            then input_datagram env dm1 msg tuple
            else if ft_proto tuple \<noteq> IPPROTO_TCP then Some (dm1, [accepted msg])
            else
              (let decision = rr_decision result;
                   tracked = MicrosegTracked cm decision;
                   cm1 = MicrosegTouch cm decision (at_touch ck) in
               if kind decision = 0
               then Some (dm1\<lparr> connection_manager := cm1 \<rparr>, [marked msg kAllowReq])
               else case MicrosegClose (http env) mem cm1 decision (msg_payload msg) (at_dispatch ck) of
                      None \<Rightarrow> None
                    | Some (cm2, _) \<Rightarrow>
                        (let dm2 = dm1\<lparr> connection_manager := cm2 \<rparr> in
                         if tracked then input_tracked env mem ck dm2 msg decision tuple
                         else input_untracked env mem ck dm2 msg decision tuple)))))"

section \<open>The egress callback\<close>

definition output_datagram ::
  "('l, 's, 'f) nfq_env \<Rightarrow> ('l, 's, 'f) DaemonContext \<Rightarrow> NfqMessage \<Rightarrow> FiveTuple
     \<Rightarrow> (('l, 's, 'f) DaemonContext \<times> effect list) option" where
  "output_datagram env dm msg tuple =
     (let m = MatchMicroPolicyRule (order env) (microseg dm) tuple kEgress [] in
      if mr_rule m = kDefault then Some (dm, [marked msg kAllow])
      else case SendMatchMsg (post_write env) (post_link_fd dm) (mr_tuple m) (mr_rule m) (mr_dir m) (mr_key m) of
             None \<Rightarrow> None
           | Some (eff, _) \<Rightarrow>
               if mr_rule m = kDeny then Some (dm, eff @ [dropped msg])
               else Some (dm, eff @ [marked msg kAllow]))"

definition output_request ::
  "('l, 's, 'f) nfq_env \<Rightarrow> heap \<Rightarrow> clock \<Rightarrow> ('l, 's, 'f) DaemonContext \<Rightarrow> NfqMessage \<Rightarrow> PacketDecision
     \<Rightarrow> FiveTuple \<Rightarrow> string \<Rightarrow> (('l, 's, 'f) DaemonContext \<times> effect list) option" where
  "output_request env mem ck dm msg decision tuple key =
     (case DispatchMicroseg (http env) mem (connection_manager dm) decision (msg_payload msg) key (at_dispatch ck) of
        None \<Rightarrow> None
      | Some (cm, None) \<Rightarrow> Some (dm\<lparr> connection_manager := cm \<rparr>, [marked msg kAllowRsp])
      | Some (cm, Some header) \<Rightarrow>
          (let dm1 = dm\<lparr> connection_manager := cm \<rparr> in
           case hm_get (output_http_policy (microseg dm1)) key of
             None \<Rightarrow> Some (dm1, [marked msg kDefault])
           | Some http_rule \<Rightarrow>
               (let rule_ret = MatchHttpPolicyRule http_rule header in
                if rule_ret = kDefault then Some (dm1, [marked msg kAllowRsp])
                else case SendMatchMsg (post_write env) (post_link_fd dm1) tuple rule_ret kEgress key of
                       None \<Rightarrow> None
                     | Some (eff, _) \<Rightarrow>
                         (let pkg = view_bytes mem (msg_payload msg) in
                          case (if rule_ret = kDeny then rst_tcp_link pkg else Some pkg) of
                            None \<Rightarrow> None
                          | Some pkg' \<Rightarrow>
                              Some (dm1, eff @ [Verdict (msg_id msg) Accept (Some (rule_code kAllowRsp)) pkg'])))))"

definition output_tracked ::
  "('l, 's, 'f) nfq_env \<Rightarrow> heap \<Rightarrow> clock \<Rightarrow> ('l, 's, 'f) DaemonContext \<Rightarrow> NfqMessage \<Rightarrow> PacketDecision
     \<Rightarrow> FiveTuple \<Rightarrow> (('l, 's, 'f) DaemonContext \<times> effect list) option" where
  "output_tracked env mem ck dm msg decision tuple =
     (if kind decision = 2 then Some (dm, [marked msg kAllow])
      else if \<not> has_payload msg decision then Some (dm, [marked msg kAllowRsp])
      else if syn decision then Some (dm, [marked msg kAllowRsp])
      else if kind decision = 4 then Some (dm, [accepted msg])
      else
        (let rule_key = (case MicrosegRuleKey (connection_manager dm) decision of None \<Rightarrow> [] | Some k \<Rightarrow> k)
         in output_request env mem ck dm msg decision tuple rule_key))"

definition output_untracked ::
  "('l, 's, 'f) nfq_env \<Rightarrow> heap \<Rightarrow> clock \<Rightarrow> ('l, 's, 'f) DaemonContext \<Rightarrow> NfqMessage \<Rightarrow> PacketDecision
     \<Rightarrow> FiveTuple \<Rightarrow> (('l, 's, 'f) DaemonContext \<times> effect list) option" where
  "output_untracked env mem ck dm msg decision tuple =
     (if \<not> syn decision \<and> \<not> has_payload msg decision then Some (dm, [marked msg kAllowRsp])
      else
        (let m = MatchMicroPolicyRule (order env) (microseg dm) tuple kEgress [] in
         if mr_rule m = kDefault then Some (dm, [marked msg kAllow])
         else
           (let http_rule = hm_get (output_http_policy (microseg dm)) (mr_key m) in
            if http_rule = None \<or> http_rule = Some [] then
              (case SendMatchMsg (post_write env) (post_link_fd dm) (mr_tuple m) (mr_rule m) (mr_dir m) (mr_key m) of
                 None \<Rightarrow> None
               | Some (eff, _) \<Rightarrow>
                   if mr_rule m = kDeny then Some (dm, eff @ [dropped msg])
                   else Some (dm, eff @ [marked msg kAllow]))
            else
              (let dm1 = dm\<lparr> connection_manager :=
                             MicrosegTrack (http env) (connection_manager dm) decision (mr_key m) (at_track ck) \<rparr> in
               if syn decision then Some (dm1, [marked msg kAllowRsp])
               else output_request env mem ck dm1 msg decision (mr_tuple m) (mr_key m)))))"

definition output_nfq_cb ::
  "('l, 's, 'f) nfq_env \<Rightarrow> heap \<Rightarrow> clock \<Rightarrow> ('l, 's, 'f) DaemonContext \<Rightarrow> NfqMessage
     \<Rightarrow> (('l, 's, 'f) DaemonContext \<times> effect list) option" where
  "output_nfq_cb env mem ck dm msg =
     (if msg_nfmark msg = rule_code kAllow \<or> msg_nfmark msg = rule_code kAllowReq
      then Some (dm, [accepted msg])
      else if snd (msg_payload msg) < 20 then Some (dm, [accepted msg])
      else
        (let (cm, result) = receive (connection_manager dm) (view_bytes mem (msg_payload msg)) True (at_receive ck);
             dm1 = dm\<lparr> connection_manager := cm \<rparr> in
         if \<not> sft_recognized (rr_tuple result) then Some (dm1, [accepted msg])
         else
           (let tuple = fill_tuple (rr_tuple result) in
            if ft_proto tuple = IPPROTO_UDP \<or> ft_proto tuple = IPPROTO_ICMP
            then output_datagram env dm1 msg tuple
            else if ft_proto tuple \<noteq> IPPROTO_TCP then Some (dm1, [accepted msg])
            else
              (let decision = rr_decision result;
                   tracked = MicrosegTracked cm decision;
                   cm1 = MicrosegTouch cm decision (at_touch ck) in
               if kind decision = 0
               then Some (dm1\<lparr> connection_manager := cm1 \<rparr>, [marked msg kAllowRsp])
               else case MicrosegClose (http env) mem cm1 decision (msg_payload msg) (at_dispatch ck) of
                      None \<Rightarrow> None
                    | Some (cm2, _) \<Rightarrow>
                        (let dm2 = dm1\<lparr> connection_manager := cm2 \<rparr> in
                         if tracked then output_tracked env mem ck dm2 msg decision tuple
                         else output_untracked env mem ck dm2 msg decision tuple)))))"

section \<open>One callback for both directions\<close>

text \<open>The two callbacks are the same code up to the direction and two marks: \<open>pass_mark\<close> is put on
  packets the direction has let pass, \<open>peer_mark\<close> is the one of the other direction.\<close>

fun pass_mark :: "FlowDir \<Rightarrow> NetPolicyRule" where
  "pass_mark kIngress = kAllowReq"
| "pass_mark kEgress = kAllowRsp"

fun peer_mark :: "FlowDir \<Rightarrow> NetPolicyRule" where
  "peer_mark kIngress = kAllowRsp"
| "peer_mark kEgress = kAllowReq"

definition cb_datagram ::
  "FlowDir \<Rightarrow> ('l, 's, 'f) nfq_env \<Rightarrow> ('l, 's, 'f) DaemonContext \<Rightarrow> NfqMessage \<Rightarrow> FiveTuple
     \<Rightarrow> (('l, 's, 'f) DaemonContext \<times> effect list) option" where
  "cb_datagram dir env dm msg tuple =
     (let m = MatchMicroPolicyRule (order env) (microseg dm) tuple dir [] in
      if mr_rule m = kDefault then Some (dm, [marked msg kAllow])
      else case SendMatchMsg (post_write env) (post_link_fd dm) (mr_tuple m) (mr_rule m) (mr_dir m) (mr_key m) of
             None \<Rightarrow> None
           | Some (eff, _) \<Rightarrow>
               if mr_rule m = kDeny then Some (dm, eff @ [dropped msg])
               else Some (dm, eff @ [marked msg kAllow]))"

definition cb_request ::
  "FlowDir \<Rightarrow> ('l, 's, 'f) nfq_env \<Rightarrow> heap \<Rightarrow> clock \<Rightarrow> ('l, 's, 'f) DaemonContext \<Rightarrow> NfqMessage \<Rightarrow> PacketDecision
     \<Rightarrow> FiveTuple \<Rightarrow> string \<Rightarrow> (('l, 's, 'f) DaemonContext \<times> effect list) option" where
  "cb_request dir env mem ck dm msg decision tuple key =
     (case DispatchMicroseg (http env) mem (connection_manager dm) decision (msg_payload msg) key (at_dispatch ck) of
        None \<Rightarrow> None
      | Some (cm, None) \<Rightarrow> Some (dm\<lparr> connection_manager := cm \<rparr>, [marked msg (pass_mark dir)])
      | Some (cm, Some header) \<Rightarrow>
          (let dm1 = dm\<lparr> connection_manager := cm \<rparr> in
           case hm_get (http_policy (microseg dm1) dir) key of
             None \<Rightarrow> Some (dm1, [marked msg kDefault])
           | Some http_rule \<Rightarrow>
               (let rule_ret = MatchHttpPolicyRule http_rule header in
                if rule_ret = kDefault then Some (dm1, [marked msg (pass_mark dir)])
                else case SendMatchMsg (post_write env) (post_link_fd dm1) tuple rule_ret dir key of
                       None \<Rightarrow> None
                     | Some (eff, _) \<Rightarrow>
                         (let pkg = view_bytes mem (msg_payload msg) in
                          case (if rule_ret = kDeny then rst_tcp_link pkg else Some pkg) of
                            None \<Rightarrow> None
                          | Some pkg' \<Rightarrow>
                              Some (dm1, eff @ [Verdict (msg_id msg) Accept (Some (rule_code (pass_mark dir))) pkg'])))))"

definition cb_tracked ::
  "FlowDir \<Rightarrow> ('l, 's, 'f) nfq_env \<Rightarrow> heap \<Rightarrow> clock \<Rightarrow> ('l, 's, 'f) DaemonContext \<Rightarrow> NfqMessage \<Rightarrow> PacketDecision
     \<Rightarrow> FiveTuple \<Rightarrow> (('l, 's, 'f) DaemonContext \<times> effect list) option" where
  "cb_tracked dir env mem ck dm msg decision tuple =
     (if kind decision = 2 then Some (dm, [marked msg kAllow])
      else if \<not> has_payload msg decision then Some (dm, [marked msg (pass_mark dir)])
      else if syn decision then Some (dm, [marked msg (pass_mark dir)])
      else if kind decision = 4 then Some (dm, [accepted msg])
      else
        (let rule_key = (case MicrosegRuleKey (connection_manager dm) decision of None \<Rightarrow> [] | Some k \<Rightarrow> k)
         in cb_request dir env mem ck dm msg decision tuple rule_key))"

definition cb_untracked ::
  "FlowDir \<Rightarrow> ('l, 's, 'f) nfq_env \<Rightarrow> heap \<Rightarrow> clock \<Rightarrow> ('l, 's, 'f) DaemonContext \<Rightarrow> NfqMessage \<Rightarrow> PacketDecision
     \<Rightarrow> FiveTuple \<Rightarrow> (('l, 's, 'f) DaemonContext \<times> effect list) option" where
  "cb_untracked dir env mem ck dm msg decision tuple =
     (if \<not> syn decision \<and> \<not> has_payload msg decision then Some (dm, [marked msg (pass_mark dir)])
      else
        (let m = MatchMicroPolicyRule (order env) (microseg dm) tuple dir [] in
         if mr_rule m = kDefault then Some (dm, [marked msg kAllow])
         else
           (let http_rule = hm_get (http_policy (microseg dm) dir) (mr_key m) in
            if http_rule = None \<or> http_rule = Some [] then
              (case SendMatchMsg (post_write env) (post_link_fd dm) (mr_tuple m) (mr_rule m) (mr_dir m) (mr_key m) of
                 None \<Rightarrow> None
               | Some (eff, _) \<Rightarrow>
                   if mr_rule m = kDeny then Some (dm, eff @ [dropped msg])
                   else Some (dm, eff @ [marked msg kAllow]))
            else
              (let dm1 = dm\<lparr> connection_manager :=
                             MicrosegTrack (http env) (connection_manager dm) decision (mr_key m) (at_track ck) \<rparr> in
               if syn decision then Some (dm1, [marked msg (pass_mark dir)])
               else cb_request dir env mem ck dm1 msg decision (mr_tuple m) (mr_key m)))))"

definition nfq_cb ::
  "FlowDir \<Rightarrow> ('l, 's, 'f) nfq_env \<Rightarrow> heap \<Rightarrow> clock \<Rightarrow> ('l, 's, 'f) DaemonContext \<Rightarrow> NfqMessage
     \<Rightarrow> (('l, 's, 'f) DaemonContext \<times> effect list) option" where
  "nfq_cb dir env mem ck dm msg =
     (if msg_nfmark msg = rule_code kAllow \<or> msg_nfmark msg = rule_code (peer_mark dir)
      then Some (dm, [accepted msg])
      else if snd (msg_payload msg) < 20 then Some (dm, [accepted msg])
      else
        (let (cm, result) = receive (connection_manager dm) (view_bytes mem (msg_payload msg)) True (at_receive ck);
             dm1 = dm\<lparr> connection_manager := cm \<rparr> in
         if \<not> sft_recognized (rr_tuple result) then Some (dm1, [accepted msg])
         else
           (let tuple = fill_tuple (rr_tuple result) in
            if ft_proto tuple = IPPROTO_UDP \<or> ft_proto tuple = IPPROTO_ICMP
            then cb_datagram dir env dm1 msg tuple
            else if ft_proto tuple \<noteq> IPPROTO_TCP then Some (dm1, [accepted msg])
            else
              (let decision = rr_decision result;
                   tracked = MicrosegTracked cm decision;
                   cm1 = MicrosegTouch cm decision (at_touch ck) in
               if kind decision = 0
               then Some (dm1\<lparr> connection_manager := cm1 \<rparr>, [marked msg (pass_mark dir)])
               else case MicrosegClose (http env) mem cm1 decision (msg_payload msg) (at_dispatch ck) of
                      None \<Rightarrow> None
                    | Some (cm2, _) \<Rightarrow>
                        (let dm2 = dm1\<lparr> connection_manager := cm2 \<rparr> in
                         if tracked then cb_tracked dir env mem ck dm2 msg decision tuple
                         else cb_untracked dir env mem ck dm2 msg decision tuple)))))"

section \<open>Receiving a batch\<close>

text \<open>Applying the verdicts among the effects of a callback to the queue; a verdict for an unknown
  id or one whose sending fails throws, and the exception ends the callback, whose last effect it
  is; the loop over the batch catches it.\<close>

fun apply_verdicts :: "NfqQueue \<Rightarrow> effect list \<Rightarrow> NfqQueue \<times> issued list" where
  "apply_verdicts q [] = (q, [])"
| "apply_verdicts q (Verdict i v mark payload # es) =
     (case verdict_impl q i v mark payload of
        (q1, None) \<Rightarrow> (q1, [])
      | (q1, Some k) \<Rightarrow> (let (q2, ks) = apply_verdicts q1 es in (q2, k # ks)))"
| "apply_verdicts q (e # es) = apply_verdicts q es"

fun rcv_loop ::
  "(clock \<Rightarrow> ('l, 's, 'f) DaemonContext \<Rightarrow> NfqMessage \<Rightarrow> (('l, 's, 'f) DaemonContext \<times> effect list) option)
     \<Rightarrow> (NfqMessage \<Rightarrow> clock) \<Rightarrow> ('l, 's, 'f) DaemonContext \<Rightarrow> NfqQueue \<Rightarrow> NfqMessage list
     \<Rightarrow> (('l, 's, 'f) DaemonContext \<times> NfqQueue \<times> issued list) option" where
  "rcv_loop cb ck dm q [] = Some (dm, q, [])"
| "rcv_loop cb ck dm q (msg # batch) =
     (case cb (ck msg) dm msg of
        None \<Rightarrow> None
      | Some (dm1, eff) \<Rightarrow>
          (let (q1, ks) = apply_verdicts q eff in
           case rcv_loop cb ck dm1 q1 batch of
             None \<Rightarrow> None
           | Some (dm2, q2, ks') \<Rightarrow> Some (dm2, q2, ks @ ks')))"

definition NfqueueRcvData ::
  "('l, 's, 'f) nfq_env \<Rightarrow> heap \<Rightarrow> (NfqMessage \<Rightarrow> clock) \<Rightarrow> bool \<Rightarrow> ('l, 's, 'f) DaemonContext \<Rightarrow> NfqQueue
     \<Rightarrow> (('l, 's, 'f) DaemonContext \<times> NfqQueue \<times> issued list) option" where
  "NfqueueRcvData env mem ck is_input dm q =
     (case recv_batch q of
        (q1, None) \<Rightarrow> Some (dm, q1, [])
      | (q1, Some batch) \<Rightarrow>
          rcv_loop (if is_input then input_nfq_cb env mem else output_nfq_cb env mem) ck dm q1 batch)"

section \<open>The callbacks agree with the common one\<close>

lemma http_policy_dir:
  "http_policy ms kIngress = input_http_policy ms" "http_policy ms kEgress = output_http_policy ms"
  by (simp_all add: http_policy_def)

lemmas direction_simps = http_policy_dir pass_mark.simps peer_mark.simps

lemma input_cb: "input_nfq_cb = nfq_cb kIngress"
  by (intro ext) (unfold input_nfq_cb_def nfq_cb_def input_tracked_def cb_tracked_def
      input_untracked_def cb_untracked_def input_datagram_def cb_datagram_def input_request_def
      cb_request_def direction_simps, rule refl)

lemma output_cb: "output_nfq_cb = nfq_cb kEgress"
  by (intro ext) (unfold output_nfq_cb_def nfq_cb_def output_tracked_def cb_tracked_def
      output_untracked_def cb_untracked_def output_datagram_def cb_datagram_def output_request_def
      cb_request_def direction_simps, rule refl)

end
