(* ===== verification/Packet_Path.thy ===== *)
theory Packet_Path
  imports Nfq_Callbacks
begin

text \<open>
  The correctness of the packet path: every packet gets exactly one verdict, a drop is due to a
  deny rule and a deny rule leads to a drop, a denied request is blanked, and a batch leaves no
  message without a verdict. The lemmas are about the callback common to both directions.
\<close>

section \<open>The notification fits its buffer\<close>

lemma dec_nat_at_most: "0 < k \<Longrightarrow> n < 10 ^ k \<Longrightarrow> length (dec_nat n) \<le> k"
proof (induction k arbitrary: n)
  case (Suc k)
  show ?case
  proof (cases "n < 10")
    case True
    then show ?thesis by (subst dec_nat.simps) simp
  next
    case False
    with Suc.prems have "0 < k" "n div 10 < 10 ^ k" by (cases k; auto)+
    from Suc.IH [OF this] False show ?thesis by (subst dec_nat.simps) simp
  qed
qed simp

lemma length_dec_byte: "length (dec_nat (unat (b :: u8))) \<le> 3"
  by (rule dec_nat_at_most) (simp, rule less_le_trans [OF unsigned_less], simp)

lemma length_dec_port: "length (dec_nat (unat (b :: u16))) \<le> 5"
  by (rule dec_nat_at_most) (simp, rule less_le_trans [OF unsigned_less], simp)

lemma length_ipv4ToString: "length (ipv4ToString ip) \<le> 15"
  using length_dec_byte [of "ne_byte 0 ip"] length_dec_byte [of "ne_byte 1 ip"]
    length_dec_byte [of "ne_byte 2 ip"] length_dec_byte [of "ne_byte 3 ip"]
  by (simp add: ipv4ToString_def dotted_def)

lemma length_c_str: "length (c_str s) \<le> length s"
  by (simp add: c_str_def length_takeWhile_le)

lemma length_rule_code: "length (dec_nat (unat (rule_code r))) = 1"
  by (cases r) (simp_all add: dec_nat.simps)

lemma length_dir_code: "length (dec_int (dir_code d)) = 1"
  by (cases d) (simp_all add: dec_int_def dec_nat.simps)

lemma match_json_length:
  assumes "tuple_ok t"
  shows "length (match_json t act dir key) \<le> 200 + length key"
proof -
  have "length (c_str (ft_src_addr t)) \<le> 15" "length (c_str (ft_dst_addr t)) \<le> 15"
    using assms length_ipv4ToString length_c_str by (auto simp: tuple_ok_def intro: order_trans)
  then show ?thesis
    using length_dec_byte [of "ft_proto t"] length_dec_port [of "ft_src_port t"]
      length_dec_port [of "ft_dst_port t"] length_c_str [of key]
    by (simp add: match_json_def length_rule_code length_dir_code)
qed

section \<open>Effects and well-formed daemons\<close>

fun is_verdict :: "effect \<Rightarrow> bool" where
  "is_verdict (Verdict i v mk pl) = True"
| "is_verdict e = False"

lemma publish_no_verdict: "e \<in> set (publish_match t act dir key) \<Longrightarrow> \<not> is_verdict e"
  by (auto simp: publish_match_def split: if_splits)

lemma send_returns:
  assumes "tuple_ok t" and "fd \<le> 0 \<or> length key \<le> 800"
  shows "\<exists>eff ret. SendMatchMsg wr fd t act dir key = Some (eff, ret) \<and> (\<forall>e\<in>set eff. \<not> is_verdict e)"
proof (cases "fd \<le> 0")
  case True
  then show ?thesis by (auto simp: SendMatchMsg_def Let_def publish_no_verdict)
next
  case False
  then have "length (match_json t act dir key) < 1024"
    using assms(2) match_json_length [OF assms(1), of act dir key] by simp
  with False show ?thesis by (auto simp: SendMatchMsg_def Let_def publish_no_verdict)
qed

lemma send_no_verdict:
  "SendMatchMsg wr fd t act dir key = Some (eff, ret) \<Longrightarrow> e \<in> set eff \<Longrightarrow> \<not> is_verdict e"
  by (auto simp: SendMatchMsg_def Let_def publish_no_verdict split: if_splits)

text \<open>A listener only gets texts that fit when the policy names are short enough.\<close>

definition names_fit :: "('l, 's, 'f) DaemonContext \<Rightarrow> bool" where
  "names_fit dm \<longleftrightarrow> post_link_fd dm \<le> 0 \<or>
     (\<forall>dir key name r. rule_lookup (ms_engine (microseg dm)) dir key name = Some r \<longrightarrow> length (policy_key r) \<le> 800)
     \<and> (\<forall>c k. bound_key (connection_manager dm) c = Some k \<longrightarrow> length k \<le> 800)"

definition daemon_ok :: "('s \<Rightarrow> int set) \<Rightarrow> ('l, 's, 'f) DaemonContext \<Rightarrow> bool" where
  "daemon_ok opn dm \<longleftrightarrow>
     manager_ok opn (connection_manager dm) \<and> microseg_wf (microseg dm) \<and> names_fit dm"

definition env_ok :: "('l, 's, 'f) nfq_env \<Rightarrow> ('s \<Rightarrow> int set) \<Rightarrow> bool" where
  "env_ok env opn \<longleftrightarrow> http_env_ok (http env) opn \<and> visits_all (order env)"

text \<open>The kernel hands over whole packets: the length field of a TCP packet is its length.\<close>

definition complete :: "heap \<Rightarrow> NfqMessage \<Rightarrow> bool" where
  "complete mem msg \<longleftrightarrow>
     (let pkg = view_bytes mem (msg_payload msg)
      in tcp_packet pkg \<noteq> None \<longrightarrow> ip_total pkg = length pkg)"

text \<open>A call that ends with exactly one verdict for the message, keeps the configuration and binds
  flows only to policies with HTTP rules.\<close>

definition answers ::
  "('s \<Rightarrow> int set) \<Rightarrow> FlowDir \<Rightarrow> ('l, 's, 'f) DaemonContext \<Rightarrow> NfqMessage
     \<Rightarrow> (('l, 's, 'f) DaemonContext \<times> effect list) option \<Rightarrow> bool" where
  "answers opn dir dm msg res \<longleftrightarrow>
     (\<exists>dm' pre v mk pl. res = Some (dm', pre @ [Verdict (msg_id msg) v mk pl])
        \<and> (\<forall>e\<in>set pre. \<not> is_verdict e) \<and> daemon_ok opn dm' \<and> microseg dm' = microseg dm
        \<and> post_link_fd dm' = post_link_fd dm
        \<and> (\<forall>c k. bound_key (connection_manager dm') c = Some k \<longrightarrow>
             bound_key (connection_manager dm) c = Some k
             \<or> (\<exists>rs. rs \<noteq> [] \<and> hm_get (http_policy (microseg dm) dir) k = Some rs)))"

section \<open>The match of a packet\<close>

lemma match_tuple_ok:
  "tuple_ok t \<Longrightarrow> tuple_ok (mr_tuple (MatchMicroPolicyRule it ms t dir key0))"
  by (cases rule: match_micro_cases [of it ms t dir key0]) simp_all

lemma match_key_short:
  assumes "env_ok env opn" and "daemon_ok opn dm" and "tuple_ok t"
  shows "post_link_fd dm \<le> 0 \<or> length (mr_key (MatchMicroPolicyRule (order env) (microseg dm) t dir [])) \<le> 800"
proof -
  have "visits_all (order env)" "engine_wf (ms_engine (microseg dm))" "names_fit dm"
    using assms by (simp_all add: env_ok_def daemon_ok_def microseg_wf_def)
  with match_micro_attributed [OF this(1,2) assms(3), of dir "[]"] show ?thesis
    by (auto simp: names_fit_def covers_def)
qed

section \<open>Packets\<close>

lemma tcp_packet_frame:
  assumes "tcp_packet pkg = Some (ip, tcp)" and "ip_total pkg = length pkg" and "ip_version pkg = 4"
  shows "frame_ok pkg"
proof -
  from assms(1) have ip: "parse_ipv4_header pkg = Some ip" "ip_protocol ip = IPPROTO_TCP"
    and tcp: "parse_tcp_header (drop (ip_header_len ip) pkg) = Some tcp"
    by (auto simp: tcp_packet_def split: option.splits if_splits)
  have len: "20 \<le> length pkg" "ip_header_len ip = ip_ihl pkg * 4" "20 \<le> ip_ihl pkg * 4" "pkg ! 9 = IPPROTO_TCP"
    "ip_ihl pkg * 4 \<le> length pkg"
    using ip by (auto simp: parse_ipv4_header_def ip_ihl_def Let_def flow_consts split: if_splits)
  have "ip_ihl pkg * 4 + 20 \<le> length pkg" "20 \<le> tcp_doff pkg * 4"
    "ip_ihl pkg * 4 + tcp_doff pkg * 4 \<le> length pkg"
    using tcp len by (auto simp: parse_tcp_header_def tcp_doff_def Let_def flow_consts add.commute split: if_splits)
  then show ?thesis using len assms(2,3) by (simp add: frame_ok_def)
qed

lemma rst_tcp_link_returns:
  assumes "frame_ok pkg"
  shows "\<exists>pkg'. rst_tcp_link pkg = Some pkg' \<and> length pkg' = length pkg"
proof -
  let ?po = "payload_at pkg"
  let ?n = "min 8 (length pkg - ?po)"
  define p1 where "p1 = take ?po pkg @ replicate ?n 0 @ drop (?po + ?n) pkg"
  note keep = blanking_keeps_headers [OF assms, folded p1_def]
  have same: "ip_ihl p1 = ip_ihl pkg" "ip_total p1 = ip_total pkg" "p1 ! 9 = pkg ! 9"
    using header_fields_cong [OF keep(4)] keep(1) assms by (simp_all add: frame_ok_def)
  have "\<exists>c. TcpCsum p1 = Some c"
  proof (cases "length pkg < 2048")
    case True
    then obtain c where "TcpCsum p1 = Some c"
      using checksum_written [of p1] assms same keep(1) by (auto simp: frame_ok_def)
    then show ?thesis ..
  next
    case False
    then show ?thesis using same assms by (simp add: TcpCsum_def frame_ok_def)
  qed
  then show ?thesis using rst_tcp_link_steps [OF assms, folded p1_def] keep(1) by fastforce
qed

lemma denied_packet_rewritten:
  assumes "complete mem msg" and "tcp_packet (view_bytes mem (msg_payload msg)) \<noteq> None"
  shows "\<exists>pkg'. rst_tcp_link (view_bytes mem (msg_payload msg)) = Some pkg'"
proof (cases "ip_version (view_bytes mem (msg_payload msg)) = 4")
  case True
  then show ?thesis
    using assms tcp_packet_frame rst_tcp_link_returns by (fastforce simp: complete_def Let_def)
next
  case False
  then show ?thesis by (simp add: rst_tcp_link_def)
qed

section \<open>Every packet is answered\<close>

lemma answersI:
  assumes "daemon_ok opn dm'" and "microseg dm' = microseg dm" and "post_link_fd dm' = post_link_fd dm"
    and "\<forall>e\<in>set pre. \<not> is_verdict e"
    and "\<And>c k. bound_key (connection_manager dm') c = Some k \<Longrightarrow>
      bound_key (connection_manager dm) c = Some k
      \<or> (\<exists>rs. rs \<noteq> [] \<and> hm_get (http_policy (microseg dm) dir) k = Some rs)"
  shows "answers opn dir dm msg (Some (dm', pre @ [Verdict (msg_id msg) v mk pl]))"
  unfolding answers_def using assms by blast

lemma answers_single:
  assumes "daemon_ok opn dm"
  shows "answers opn dir dm msg (Some (dm, [Verdict (msg_id msg) v mk pl]))"
  using answersI [of opn dm dm "[]"] assms by simp

lemma daemon_ok_cm:
  assumes "daemon_ok opn dm" and "manager_ok opn cm"
    and "\<And>c k. bound_key cm c = Some k \<Longrightarrow>
      bound_key (connection_manager dm) c = Some k \<or> post_link_fd dm \<le> 0 \<or> length k \<le> 800"
  shows "daemon_ok opn (dm\<lparr> connection_manager := cm \<rparr>)"
  using assms unfolding daemon_ok_def names_fit_def by simp metis

lemma notified:
  assumes "env_ok env opn" and "daemon_ok opn dm" and "tuple_ok t" and "post_link_fd dm \<le> 0 \<or> length key \<le> 800"
  obtains eff ret where "SendMatchMsg wr (post_link_fd dm) t act d key = Some (eff, ret)"
    and "\<forall>e\<in>set eff. \<not> is_verdict e"
  using send_returns [OF assms(3,4)] by metis

lemma cb_datagram_answers:
  assumes "env_ok env opn" and "daemon_ok opn dm" and "tuple_ok t"
  shows "answers opn dir dm msg (cb_datagram dir env dm msg t)"
proof -
  let ?m = "MatchMicroPolicyRule (order env) (microseg dm) t dir []"
  obtain eff ret where "SendMatchMsg (post_write env) (post_link_fd dm) (mr_tuple ?m) (mr_rule ?m) (mr_dir ?m)
      (mr_key ?m) = Some (eff, ret)" "\<forall>e\<in>set eff. \<not> is_verdict e"
    using notified [OF assms(1,2) match_tuple_ok [OF assms(3)] match_key_short [OF assms]] by metis
  then show ?thesis
    using assms(2) by (simp add: cb_datagram_def Let_def answers_single answersI)
qed

lemma cb_request_answers:
  assumes env: "env_ok env opn" and dm: "daemon_ok opn dm" and t: "tuple_ok t"
    and short: "post_link_fd dm \<le> 0 \<or> length key \<le> 800"
    and bound: "bound_key (connection_manager dm) (conn_id d) \<noteq> None" and "kind d \<noteq> 2"
    and pkg: "complete mem msg" "tcp_packet (view_bytes mem (msg_payload msg)) \<noteq> None"
  shows "answers opn dir dm msg (cb_request dir env mem ck dm msg d t key)"
proof -
  have http: "http_env_ok (http env) opn" "manager_ok opn (connection_manager dm)"
    using env dm by (simp_all add: env_ok_def daemon_ok_def)
  obtain cm hdr where cm: "DispatchMicroseg (http env) mem (connection_manager dm) d (msg_payload msg) key
      (at_dispatch ck) = Some (cm, hdr)" "manager_ok opn cm" "bound_key cm = bound_key (connection_manager dm)"
    using dispatch_microseg_returns [OF http, of mem d "msg_payload msg" key "at_dispatch ck"] bound \<open>kind d \<noteq> 2\<close>
    by (fastforce simp: track_keys close_keys fun_eq_iff)
  have dm1: "daemon_ok opn (dm\<lparr> connection_manager := cm \<rparr>)"
    using daemon_ok_cm [OF dm cm(2)] cm(3) by simp
  have ans: "answers opn dir dm msg (Some (dm\<lparr> connection_manager := cm \<rparr>, eff @ [Verdict (msg_id msg) v mk pl]))"
    if "\<forall>e\<in>set eff. \<not> is_verdict e" for eff v mk pl
    by (rule answersI) (use dm1 cm(3) that in simp_all)
  obtain pkg' where pkg': "rst_tcp_link (view_bytes mem (msg_payload msg)) = Some pkg'"
    using denied_packet_rewritten [OF pkg] by blast
  have ans1: "answers opn dir dm msg (Some (dm\<lparr> connection_manager := cm \<rparr>, [Verdict (msg_id msg) v mk pl]))"
    for v mk pl using ans [of "[]"] by simp
  show ?thesis
  proof (cases hdr)
    case None
    then show ?thesis by (simp add: cb_request_def cm(1) ans1)
  next
    case (Some h)
    show ?thesis
    proof (cases "hm_get (http_policy (microseg dm) dir) key")
      case None
      then show ?thesis using Some by (simp add: cb_request_def cm(1) ans1 Let_def)
    next
      case (Some rules)
      obtain eff ret where "SendMatchMsg (post_write env) (post_link_fd dm) t (MatchHttpPolicyRule rules h) dir key
          = Some (eff, ret)" "\<forall>e\<in>set eff. \<not> is_verdict e"
        using notified [OF env dm t short] by metis
      then show ?thesis using Some \<open>hdr = Some h\<close> ans pkg'
        by (simp add: cb_request_def cm(1) ans1 Let_def)
    qed
  qed
qed

lemma cb_tracked_answers:
  assumes env: "env_ok env opn" and dm: "daemon_ok opn dm" and t: "tuple_ok t"
    and bound: "kind d \<noteq> 2 \<Longrightarrow> bound_key (connection_manager dm) (conn_id d) \<noteq> None"
    and pkg: "complete mem msg" "tcp_packet (view_bytes mem (msg_payload msg)) \<noteq> None"
  shows "answers opn dir dm msg (cb_tracked dir env mem ck dm msg d t)"
proof (cases "kind d = 2")
  case True
  then show ?thesis by (simp add: cb_tracked_def answers_single [OF dm])
next
  case False
  then obtain k where k: "bound_key (connection_manager dm) (conn_id d) = Some k" using bound by auto
  then have short: "post_link_fd dm \<le> 0 \<or> length k \<le> 800"
    using dm by (auto simp: daemon_ok_def names_fit_def)
  have "answers opn dir dm msg (cb_request dir env mem ck dm msg d t k)"
    by (rule cb_request_answers [OF env dm t short _ False pkg]) (simp add: k)
  then show ?thesis
    by (simp add: cb_tracked_def answers_single [OF dm] rule_key_bound k)
qed

lemma cb_untracked_answers:
  assumes env: "env_ok env opn" and dm: "daemon_ok opn dm" and t: "tuple_ok t"
    and new: "bound_key (connection_manager dm) (conn_id d) = None"
    and pkg: "complete mem msg" "tcp_packet (view_bytes mem (msg_payload msg)) \<noteq> None"
  shows "answers opn dir dm msg (cb_untracked dir env mem ck dm msg d t)"
proof -
  let ?m = "MatchMicroPolicyRule (order env) (microseg dm) t dir []"
  let ?cm = "MicrosegTrack (http env) (connection_manager dm) d (mr_key ?m) (at_track ck)"
  let ?dm = "dm\<lparr> connection_manager := ?cm \<rparr>"
  note tm = match_tuple_ok [OF t, of "order env" "microseg dm" dir "[]"]
  note short = match_key_short [OF env dm t, of dir]
  obtain eff ret where sent: "SendMatchMsg (post_write env) (post_link_fd dm) (mr_tuple ?m) (mr_rule ?m) (mr_dir ?m)
      (mr_key ?m) = Some (eff, ret)" "\<forall>e\<in>set eff. \<not> is_verdict e"
    using notified [OF env dm tm short] by metis
  have ok: "manager_ok opn ?cm" using dm by (simp add: daemon_ok_def track_ok)
  have keys: "bound_key ?cm c = Some k \<Longrightarrow> bound_key (connection_manager dm) c = Some k \<or> k = mr_key ?m" for c k
    by (auto simp: track_keys split: if_splits)
  have dm1: "daemon_ok opn ?dm" by (rule daemon_ok_cm [OF dm ok]) (use keys short in auto)
  have sent_ans: "answers opn dir dm msg (Some (dm, eff @ [Verdict (msg_id msg) v mk pl]))" for v mk pl
    by (rule answersI) (use dm sent(2) in auto)
  have no_http: ?thesis if "hm_get (http_policy (microseg dm) dir) (mr_key ?m) \<in> {None, Some []}"
    using that by (auto simp: cb_untracked_def Let_def sent(1) answers_single [OF dm] sent_ans)
  have http: ?thesis if rs: "hm_get (http_policy (microseg dm) dir) (mr_key ?m) = Some rs" "rs \<noteq> []" for rs
  proof -
    have lift: "answers opn dir dm msg res" if "answers opn dir ?dm msg res" for res
      using that keys rs unfolding answers_def by simp metis
    have "answers opn dir ?dm msg (cb_request dir env mem ck ?dm msg d (mr_tuple ?m) (mr_key ?m))"
      if "kind d \<noteq> 2"
      by (rule cb_request_answers [OF env dm1 tm _ _ that pkg]) (use short new in \<open>simp_all add: track_keys\<close>)
    then show ?thesis
      using rs lift answers_single [OF dm1]
      by (auto simp: cb_untracked_def Let_def answers_single [OF dm] has_payload_def)
  qed
  consider "hm_get (http_policy (microseg dm) dir) (mr_key ?m) \<in> {None, Some []}"
    | rs where "hm_get (http_policy (microseg dm) dir) (mr_key ?m) = Some rs" "rs \<noteq> []" by fastforce
  then show ?thesis using no_http http by cases blast+
qed

text \<open>The part of the callback before the flow's state matters.\<close>

definition screened :: "FlowDir \<Rightarrow> NfqMessage \<Rightarrow> bool" where
  "screened dir msg \<longleftrightarrow>
     msg_nfmark msg = rule_code kAllow \<or> msg_nfmark msg = rule_code (peer_mark dir) \<or> snd (msg_payload msg) < 20"

abbreviation bytes_in :: "heap \<Rightarrow> NfqMessage \<Rightarrow> bytes" where
  "bytes_in mem msg \<equiv> view_bytes mem (msg_payload msg)"

text \<open>The daemon after the shared prologue, and the decision of the flow engine.\<close>

definition decided_by :: "('l, 's, 'f) DaemonContext \<Rightarrow> bytes \<Rightarrow> clock \<Rightarrow> PacketDecision" where
  "decided_by dm pkg ck = snd (on_packet (cm_engine (connection_manager dm)) pkg (at_receive ck))"

definition prologue ::
  "('l, 's, 'f) DaemonContext \<Rightarrow> bytes \<Rightarrow> clock \<Rightarrow> ('l, 's, 'f) DaemonContext" where
  "prologue dm pkg ck =
     dm\<lparr> connection_manager :=
          close_entries (MicrosegTouch (fst (receive (connection_manager dm) pkg True (at_receive ck)))
            (decided_by dm pkg ck) (at_touch ck)) (decided_by dm pkg ck) \<rparr>"

lemma close_other: "kind d \<noteq> 2 \<Longrightarrow> close_entries cm d = cm"
  by (simp add: close_entries_def)

lemma receive_keys [simp]: "bound_key (fst (receive cm pkg track now)) = bound_key cm"
  by (simp add: bound_key_def fun_eq_iff)

lemma prologue_keys:
  "bound_key (connection_manager (prologue dm pkg ck)) c =
     (if kind (decided_by dm pkg ck) = 2 \<and> c \<in> {conn_id (decided_by dm pkg ck), peer_conn_id (decided_by dm pkg ck)}
      then None else bound_key (connection_manager dm) c)"
  by (auto simp: prologue_def close_keys)

lemma prologue_fields [simp]:
  "microseg (prologue dm pkg ck) = microseg dm" "post_link_fd (prologue dm pkg ck) = post_link_fd dm"
  "ipt_ver (prologue dm pkg ck) = ipt_ver dm"
  by (simp_all add: prologue_def)

lemma received_ok:
  "daemon_ok opn dm \<Longrightarrow>
     daemon_ok opn (dm\<lparr> connection_manager := fst (receive (connection_manager dm) pkg True now) \<rparr>)"
  by (rule daemon_ok_cm) (auto simp: daemon_ok_def receive_ok)

lemma prologue_ok: "daemon_ok opn dm \<Longrightarrow> daemon_ok opn (prologue dm pkg ck)"
  unfolding prologue_def
  by (rule daemon_ok_cm)
     (auto simp: daemon_ok_def receive_ok touch_ok close_ok close_keys split: if_splits)

lemma nfq_cb_outcomes [case_names Screened Unrecognised Datagram Stray Tracked Untracked]:
  fixes dir env mem ck dm msg
  defines "pkg \<equiv> bytes_in mem msg"
  defines "d \<equiv> decided_by dm pkg ck"
  defines "t \<equiv> fill_tuple (parse_five_tuple pkg)"
  defines "res \<equiv> nfq_cb dir env mem ck dm msg"
  defines "dm1 \<equiv> dm\<lparr> connection_manager := fst (receive (connection_manager dm) pkg True (at_receive ck)) \<rparr>"
  assumes "screened dir msg \<Longrightarrow> res = Some (dm, [accepted msg]) \<Longrightarrow> P"
    and "\<not> screened dir msg \<Longrightarrow> \<not> sft_recognized (parse_five_tuple pkg) \<Longrightarrow>
      res = Some (dm1, [accepted msg]) \<Longrightarrow> P"
    and "\<not> screened dir msg \<Longrightarrow> sft_recognized (parse_five_tuple pkg) \<Longrightarrow> tcp_packet pkg = None \<Longrightarrow>
      res = cb_datagram dir env dm1 msg t \<Longrightarrow> P"
    and "\<not> screened dir msg \<Longrightarrow> tcp_packet pkg \<noteq> None \<Longrightarrow> kind d = 0 \<Longrightarrow>
      res = Some (prologue dm pkg ck, [marked msg (pass_mark dir)]) \<Longrightarrow> P"
    and "\<not> screened dir msg \<Longrightarrow> tcp_packet pkg \<noteq> None \<Longrightarrow> kind d \<noteq> 0 \<Longrightarrow>
      bound_key (connection_manager dm) (conn_id d) \<noteq> None \<Longrightarrow>
      res = cb_tracked dir env mem ck (prologue dm pkg ck) msg d t \<Longrightarrow> P"
    and "\<not> screened dir msg \<Longrightarrow> tcp_packet pkg \<noteq> None \<Longrightarrow> kind d \<noteq> 0 \<Longrightarrow>
      bound_key (connection_manager dm) (conn_id d) = None \<Longrightarrow>
      res = cb_untracked dir env mem ck (prologue dm pkg ck) msg d t \<Longrightarrow> P"
  shows P
proof -
  let ?r = "receive (connection_manager dm) pkg True (at_receive ck)"
  obtain cm rr where r: "?r = (cm, rr)" by fastforce
  have tup: "rr_tuple rr = parse_five_tuple pkg"
    using receive_result(1) [of "connection_manager dm" pkg True "at_receive ck"] r by simp
  have tcp: "sft_recognized (parse_five_tuple pkg) \<Longrightarrow> ft_proto t \<notin> {IPPROTO_UDP, IPPROTO_ICMP} \<longleftrightarrow> tcp_packet pkg \<noteq> None"
    "ft_proto t = IPPROTO_TCP \<longleftrightarrow> sft_proto (parse_five_tuple pkg) = IPPROTO_TCP"
    "tcp_packet pkg \<noteq> None \<Longrightarrow> sft_recognized (parse_five_tuple pkg) \<and> ft_proto t = IPPROTO_TCP"
    using recognized_tcp_iff [of pkg] recognized_proto [of pkg] by (auto simp: t_def fill_tuple_def flow_consts)
  have dec: "tcp_packet pkg \<noteq> None \<Longrightarrow> rr_decision rr = d"
    using receive_result(3) [of "connection_manager dm" pkg "at_receive ck"] r by (simp add: d_def decided_by_def)
  have track: "MicrosegTracked cm d \<longleftrightarrow> bound_key (connection_manager dm) (conn_id d) \<noteq> None"
    using receive_conns [of "connection_manager dm" pkg True "at_receive ck"] r
    by (simp add: tracked_iff bound_key_def)
  have pro: "dm\<lparr> connection_manager := close_entries (MicrosegTouch cm d (at_touch ck)) d \<rparr> = prologue dm pkg ck"
    using r by (simp add: prologue_def d_def)
  have res: "\<not> screened dir msg \<Longrightarrow> tcp_packet pkg \<noteq> None \<Longrightarrow> res =
      (if kind d = 0 then Some (prologue dm pkg ck, [marked msg (pass_mark dir)])
       else if bound_key (connection_manager dm) (conn_id d) \<noteq> None
       then cb_tracked dir env mem ck (prologue dm pkg ck) msg d t
       else cb_untracked dir env mem ck (prologue dm pkg ck) msg d t)"
    using tcp(3) dec r tup track pro [symmetric]
    by (auto simp: res_def nfq_cb_def pkg_def [symmetric] screened_def Let_def t_def [symmetric]
        close_is_close_entries close_other flow_consts)
  have "tcp_packet pkg = None \<Longrightarrow> sft_recognized (parse_five_tuple pkg) \<Longrightarrow>
      ft_proto t = IPPROTO_UDP \<or> ft_proto t = IPPROTO_ICMP" using tcp(1) by blast
  then have plain: "\<not> screened dir msg \<Longrightarrow> tcp_packet pkg = None \<Longrightarrow> res =
      (if sft_recognized (parse_five_tuple pkg) then cb_datagram dir env dm1 msg t
       else Some (dm1, [accepted msg]))"
    using r tup
    by (simp add: res_def nfq_cb_def pkg_def [symmetric] screened_def Let_def t_def [symmetric] dm1_def)
  consider "screened dir msg" | "\<not> screened dir msg" "tcp_packet pkg = None" "sft_recognized (parse_five_tuple pkg)"
    | "\<not> screened dir msg" "tcp_packet pkg = None" "\<not> sft_recognized (parse_five_tuple pkg)"
    | "\<not> screened dir msg" "tcp_packet pkg \<noteq> None" "kind d = 0"
    | "\<not> screened dir msg" "tcp_packet pkg \<noteq> None" "kind d \<noteq> 0" "bound_key (connection_manager dm) (conn_id d) \<noteq> None"
    | "\<not> screened dir msg" "tcp_packet pkg \<noteq> None" "kind d \<noteq> 0" "bound_key (connection_manager dm) (conn_id d) = None"
    by blast
  then show P
  proof cases
    case 1
    then show ?thesis by (intro assms(6)) (auto simp: res_def nfq_cb_def screened_def)
  next
    case 2
    then show ?thesis using plain by (intro assms(8)) simp_all
  next
    case 3
    then show ?thesis using plain by (intro assms(7)) simp_all
  next
    case 4
    then show ?thesis using res by (intro assms(9)) simp_all
  next
    case 5
    then show ?thesis using res by (intro assms(10)) simp_all
  next
    case 6
    then show ?thesis using res by (intro assms(11)) simp_all
  qed
qed

lemma answers_weaken:
  assumes "answers opn dir dm1 msg res" and "microseg dm1 = microseg dm" and "post_link_fd dm1 = post_link_fd dm"
    and "\<And>c k. bound_key (connection_manager dm1) c = Some k \<Longrightarrow> bound_key (connection_manager dm) c = Some k"
  shows "answers opn dir dm msg res"
  using assms unfolding answers_def by metis

lemma nfq_cb_answers:
  assumes env: "env_ok env opn" and dm: "daemon_ok opn dm" and whole: "complete mem msg"
  shows "answers opn dir dm msg (nfq_cb dir env mem ck dm msg)"
proof (cases rule: nfq_cb_outcomes [of dir msg env mem ck dm])
  case Screened
  then show ?thesis using answers_single [OF dm] by simp
next
  case Unrecognised
  show ?thesis unfolding Unrecognised(3)
    by (rule answers_weaken [OF answers_single [OF received_ok [OF dm]]]) simp_all
next
  case Datagram
  show ?thesis unfolding Datagram(4)
    by (rule answers_weaken [OF cb_datagram_answers [OF env received_ok [OF dm] tuple_ok_fill]]) simp_all
next
  case Stray
  show ?thesis unfolding Stray(4)
    by (rule answers_weaken [OF answers_single [OF prologue_ok [OF dm]]])
       (auto simp: prologue_keys split: if_splits)
next
  case Tracked
  show ?thesis unfolding Tracked(5)
    by (rule answers_weaken [OF cb_tracked_answers [OF env prologue_ok [OF dm] tuple_ok_fill _ whole Tracked(2)]])
       (use Tracked(4) in \<open>auto simp: prologue_keys split: if_splits\<close>)
next
  case Untracked
  show ?thesis unfolding Untracked(5)
    by (rule answers_weaken [OF cb_untracked_answers [OF env prologue_ok [OF dm] tuple_ok_fill _ whole Untracked(2)]])
       (use Untracked(4) in \<open>auto simp: prologue_keys split: if_splits\<close>)
qed

section \<open>Drops\<close>

abbreviation denied_by_match :: "FlowDir \<Rightarrow> ('l, 's, 'f) nfq_env \<Rightarrow> MicroSegEngine \<Rightarrow> FiveTuple \<Rightarrow> bool" where
  "denied_by_match dir env ms t \<equiv> mr_rule (MatchMicroPolicyRule (order env) ms t dir []) = kDeny"

lemma send_no_drop: "SendMatchMsg wr fd t act d key = Some (eff, ret) \<Longrightarrow> Verdict i v mk pl \<notin> set eff"
  using send_no_verdict by fastforce

lemma cb_request_no_drop:
  "cb_request dir env mem ck dm msg d t key = Some (dm', eff) \<Longrightarrow> Verdict i Drop mk pl \<notin> set eff"
  by (auto simp: cb_request_def Let_def send_no_drop
      split: option.splits prod.splits if_splits)

lemma cb_datagram_drop:
  "cb_datagram dir env dm msg t = Some (dm', eff) \<Longrightarrow> Verdict i Drop mk pl \<in> set eff \<Longrightarrow>
     denied_by_match dir env (microseg dm) t"
  by (auto simp: cb_datagram_def Let_def send_no_drop split: option.splits prod.splits if_splits)

lemma cb_tracked_no_drop:
  "cb_tracked dir env mem ck dm msg d t = Some (dm', eff) \<Longrightarrow> Verdict i Drop mk pl \<notin> set eff"
  by (auto simp: cb_tracked_def Let_def cb_request_no_drop split: if_splits)

lemma cb_untracked_drop:
  "cb_untracked dir env mem ck dm msg d t = Some (dm', eff) \<Longrightarrow> Verdict i Drop mk pl \<in> set eff \<Longrightarrow>
     denied_by_match dir env (microseg dm) t"
  by (auto simp: cb_untracked_def Let_def send_no_drop dest: cb_request_no_drop
      split: option.splits prod.splits if_splits)

lemma nfq_cb_drop:
  assumes "nfq_cb dir env mem ck dm msg = Some (dm', eff)" and "Verdict i Drop mk pl \<in> set eff"
  shows "\<not> screened dir msg \<and> sft_recognized (parse_five_tuple (bytes_in mem msg))
    \<and> denied_by_match dir env (microseg dm) (fill_tuple (parse_five_tuple (bytes_in mem msg)))"
proof (cases rule: nfq_cb_outcomes [of dir msg env mem ck dm])
  case Datagram
  from cb_datagram_drop [OF assms(1) [unfolded Datagram(4)] assms(2)] Datagram show ?thesis by simp
next
  case Tracked
  from cb_tracked_no_drop [OF assms(1) [unfolded Tracked(5)]] assms(2) show ?thesis by blast
next
  case Untracked
  from cb_untracked_drop [OF assms(1) [unfolded Untracked(5)] assms(2)] Untracked show ?thesis
    using recognized_tcp_iff [of "bytes_in mem msg"] by simp
qed (use assms in auto)

lemma nfq_cb_deny:
  assumes env: "env_ok env opn" and dm: "daemon_ok opn dm"
    and seen: "\<not> screened dir msg" "sft_recognized (parse_five_tuple (bytes_in mem msg))"
    and deny: "denied_by_match dir env (microseg dm) (fill_tuple (parse_five_tuple (bytes_in mem msg)))"
    and flow: "tcp_packet (bytes_in mem msg) \<noteq> None \<Longrightarrow>
      (let d = decided_by dm (bytes_in mem msg) ck
       in kind d \<noteq> 0 \<and> (syn d \<or> has_payload msg d) \<and> bound_key (connection_manager dm) (conn_id d) = None
          \<and> (\<forall>k. hm_get (http_policy (microseg dm) dir) k \<in> {None, Some []}))"
  shows "\<exists>dm' pre. nfq_cb dir env mem ck dm msg = Some (dm', pre @ [dropped msg])"
proof -
  let ?t = "fill_tuple (parse_five_tuple (bytes_in mem msg))"
  let ?m = "MatchMicroPolicyRule (order env) (microseg dm) ?t dir []"
  obtain eff ret where sent: "SendMatchMsg (post_write env) (post_link_fd dm) (mr_tuple ?m) (mr_rule ?m) (mr_dir ?m)
      (mr_key ?m) = Some (eff, ret)"
    using notified [OF env dm match_tuple_ok [OF tuple_ok_fill] match_key_short [OF env dm tuple_ok_fill]] by metis
  show ?thesis
  proof (cases rule: nfq_cb_outcomes [of dir msg env mem ck dm])
    case Datagram
    then show ?thesis using sent deny by (auto simp: cb_datagram_def Let_def)
  next
    case Untracked
    then show ?thesis using sent deny flow
      by (auto simp: cb_untracked_def Let_def)
  qed (use seen flow in \<open>auto simp: Let_def\<close>)
qed

section \<open>Batches\<close>

lemma apply_answer:
  assumes "\<forall>e\<in>set pre. \<not> is_verdict e" and "hm_has (pending q) i"
  shows "\<exists>ks. apply_verdicts q (pre @ [Verdict i v mk pl]) = (q\<lparr> pending := hm_del i (pending q) \<rparr>, ks)
    \<and> map iss_id ks = filter (send_ok q) [i]"
  using assms
proof (induction pre)
  case (Cons e pre)
  then show ?case by (cases e) simp_all
qed (simp add: verdict_impl_def)

lemma rcv_loop_answers:
  assumes env: "env_ok env opn" and "daemon_ok opn dm"
    and "\<forall>m\<in>set batch. complete mem m" and "distinct (map msg_id batch)"
    and "\<And>i. hm_has (pending q) i \<longleftrightarrow> i \<in> msg_id ` set batch"
  shows "\<exists>dm' q' ks. rcv_loop (nfq_cb dir env mem) ck dm q batch = Some (dm', q', ks)
    \<and> daemon_ok opn dm' \<and> microseg dm' = microseg dm
    \<and> map iss_id ks = filter (send_ok q) (map msg_id batch)
    \<and> (\<forall>i. \<not> hm_has (pending q') i)"
  using assms(2-)
proof (induction batch arbitrary: dm q)
  case (Cons m batch)
  have "answers opn dir dm m (nfq_cb dir env mem (ck m) dm m)"
    using nfq_cb_answers [OF env] Cons.prems by simp
  then obtain dm1 pre v mk pl where cb: "nfq_cb dir env mem (ck m) dm m = Some (dm1, pre @ [Verdict (msg_id m) v mk pl])"
    and pre: "\<forall>e\<in>set pre. \<not> is_verdict e" and dm1: "daemon_ok opn dm1" "microseg dm1 = microseg dm"
    unfolding answers_def by blast
  obtain ks1 where k: "apply_verdicts q (pre @ [Verdict (msg_id m) v mk pl])
      = (q\<lparr> pending := hm_del (msg_id m) (pending q) \<rparr>, ks1)" "map iss_id ks1 = filter (send_ok q) [msg_id m]"
    using apply_answer [OF pre, of q "msg_id m" v mk pl] Cons.prems(4) by auto
  let ?q = "q\<lparr> pending := hm_del (msg_id m) (pending q) \<rparr>"
  have "hm_has (pending ?q) i \<longleftrightarrow> i \<in> msg_id ` set batch" for i
    using Cons.prems(3,4) by (auto simp: hm_has_def hmap_simps)
  from Cons.IH [OF dm1(1) _ _ this] Cons.prems(2,3)
  obtain dm' q' ks where "rcv_loop (nfq_cb dir env mem) ck dm1 ?q batch = Some (dm', q', ks)"
    "daemon_ok opn dm'" "microseg dm' = microseg dm1" "map iss_id ks = filter (send_ok q) (map msg_id batch)"
    "\<forall>i. \<not> hm_has (pending q') i" by auto
  then show ?case using cb k dm1(2) by simp
qed simp

lemma no_keys_empty:
  assumes "\<And>k. \<not> hm_has p k"
  shows "p = []"
proof (cases p)
  case (Cons kv rest)
  then have "hm_has p (fst kv)" by (cases kv) (simp add: hm_has_def)
  then show ?thesis using assms by blast
qed

section \<open>The callbacks of the daemon\<close>

definition callback ::
  "FlowDir \<Rightarrow> ('l, 's, 'f) nfq_env \<Rightarrow> heap \<Rightarrow> clock \<Rightarrow> ('l, 's, 'f) DaemonContext \<Rightarrow> NfqMessage
     \<Rightarrow> (('l, 's, 'f) DaemonContext \<times> effect list) option" where
  "callback dir = (case dir of kIngress \<Rightarrow> input_nfq_cb | kEgress \<Rightarrow> output_nfq_cb)"

lemma callback_cb: "callback dir = nfq_cb dir"
  by (cases dir) (simp_all add: callback_def input_cb output_cb)

text \<open>A daemon without listener, its environment, and packets for the examples: a DNS query, and
  the closing segment of a web connection that carries a request.\<close>

definition sample_nfq_env :: "(unit, unit, unit) nfq_env" where
  "sample_nfq_env = \<lparr> http = sample_env, order = rev, post_write = \<lambda>fd bs. 1 \<rparr>"

definition sample_daemon :: "MicroSegEngine \<Rightarrow> (unit, unit, unit) ConnectionManager \<Rightarrow> (unit, unit, unit) DaemonContext" where
  "sample_daemon ms cm = \<lparr> ipt_ver = 0, connection_manager = cm, microseg = ms, post_link_fd = 0 \<rparr>"

definition sample_clock :: clock where
  "sample_clock = \<lparr> at_receive = 0, at_touch = 0, at_track = 0, at_dispatch = 0 \<rparr>"

definition dns_packet :: bytes where
  "dns_packet =
     [0x45, 0, 0, 28, 0, 0, 0, 0, 64, 17, 0, 0, 10, 0, 0, 7, 10, 0, 0, 2] @ [19, 136, 0, 53, 0, 8, 0, 0]"

definition message_of :: "bytes \<Rightarrow> NfqMessage" where
  "message_of bs = \<lparr> msg_id = 9, msg_payload = (0, length bs), msg_nfmark = 0 \<rparr>"

text \<open>The web connection of the examples, opened by a SYN and bound to a policy that denies every
  request: a segment with a request, and one with the FIN flag and the payload \<^verbatim>\<open>GET \<close>.\<close>

definition web_manager :: "(unit, unit, unit) ConnectionManager" where
  "web_manager =
     (let (cm, rr) = receive new_connection_manager (sample_packet 0 2 []) True 0
      in MicrosegTrack sample_env cm (rr_decision rr) ''web'' 0)"

definition web_microseg :: MicroSegEngine where
  "web_microseg =
     fst (AddHttpPolicy new_microseg kIngress ''web''
            \<lparr> hr_direction = 0, hr_action = kDeny, hr_host = [], hr_method = [], hr_path = [] \<rparr>)"

definition web_request :: bytes where
  "web_request = sample_packet 1 16 [71, 72, 10, 71]"

definition fin_request :: bytes where
  "fin_request = sample_packet 1 17 [71, 69, 84, 32]"

lemma sample_nfq_env_ok: "env_ok sample_nfq_env (\<lambda>s. {})"
  by (simp add: env_ok_def sample_nfq_env_def sample_env_ok visits_all_rev)

lemma sample_daemon_ok: "microseg_wf ms \<Longrightarrow> manager_ok opn cm \<Longrightarrow> daemon_ok opn (sample_daemon ms cm)"
  by (simp add: daemon_ok_def sample_daemon_def names_fit_def)

lemma sample_bytes [simp]: "bytes_in (rx_buffer bs) (message_of bs) = bs"
  by (rule nth_equalityI) (simp_all add: view_bytes_def rx_buffer_def message_of_def)

section \<open>Properties of the packet path\<close>

text \<open>The ingress and the egress callback are one function of the direction: they differ in the
  rules and HTTP policies they consult and in the marks they set, and in nothing else.\<close>

theorem callbacks_mirror_each_other:
  "input_nfq_cb = nfq_cb kIngress \<and> output_nfq_cb = nfq_cb kEgress"
  by (simp add: input_cb output_cb)

text \<open>C2: for every message either callback returns and issues exactly one verdict, for that
  message and as its last effect. It keeps the daemon well formed and the configuration
  unchanged, and binds a flow only to a policy that has HTTP rules for the direction.\<close>

theorem callback_gives_one_verdict:
  assumes "env_ok env opn" and "daemon_ok opn dm" and "complete mem msg"
  shows "\<exists>dm' pre v mk pl. callback dir env mem ck dm msg = Some (dm', pre @ [Verdict (msg_id msg) v mk pl])
    \<and> (\<forall>e\<in>set pre. \<not> is_verdict e) \<and> daemon_ok opn dm' \<and> microseg dm' = microseg dm
    \<and> (\<forall>c k. bound_key (connection_manager dm') c = Some k \<longrightarrow>
         bound_key (connection_manager dm) c = Some k
         \<or> (\<exists>rs. rs \<noteq> [] \<and> hm_get (http_policy (microseg dm) dir) k = Some rs))"
  using nfq_cb_answers [OF assms, of dir ck] unfolding answers_def callback_cb by blast

theorem callback_gives_one_verdict_witness:
  "\<exists>dm' pre v mk pl. callback kIngress sample_nfq_env (rx_buffer dns_packet) sample_clock
     (sample_daemon (sample_microseg 0) new_connection_manager) (message_of dns_packet)
     = Some (dm', pre @ [Verdict 9 v mk pl])"
proof -
  have "complete (rx_buffer dns_packet) (message_of dns_packet)"
    unfolding complete_def sample_bytes Let_def by code_simp
  from callback_gives_one_verdict [OF sample_nfq_env_ok
      sample_daemon_ok [OF sample_microseg_wf manager_ok_new] this, of kIngress sample_clock 0]
  show ?thesis by (auto simp: message_of_def)
qed

text \<open>C4: a packet is only dropped when a stored rule denies it: the rule covers the packet in the
  direction of the queue or the reversed packet in the other direction.\<close>

theorem drop_is_due_to_deny_rule:
  assumes "visits_all (order env)" and "microseg_wf (microseg dm)"
    and "callback dir env mem ck dm msg = Some (dm', eff)" and "Verdict i Drop mk pl \<in> set eff"
  shows "let t = fill_tuple (parse_five_tuple (bytes_in mem msg)) in
    \<exists>r. rule_of_code (action r) = kDeny
      \<and> (covers (microseg dm) dir t r \<or> covers (microseg dm) (other_dir dir) (ReverseTuple t) r)"
proof -
  let ?t = "fill_tuple (parse_five_tuple (bytes_in mem msg))"
  have wf: "engine_wf (ms_engine (microseg dm))" using assms(2) by (simp add: microseg_wf_def)
  have deny: "denied_by_match dir env (microseg dm) ?t"
    using nfq_cb_drop assms(3,4) by (metis callback_cb)
  show ?thesis
  proof (cases rule: match_micro_cases [of "order env" "microseg dm" ?t dir "[]"])
    case Default
    then show ?thesis using deny by simp
  next
    case (Forward detail)
    then show ?thesis using deny MatchFiveTuple_Some(1) [OF assms(1) wf tuple_ok_fill]
      by (auto simp: MatchNet_Some Let_def)
  next
    case (Reverse detail revDetail)
    have "covers (microseg dm) (other_dir dir) (ReverseTuple ?t) revDetail"
      using Reverse(3) MatchFiveTuple_Some(1) [OF assms(1) wf] by (simp add: MatchNet_Some)
    then show ?thesis using deny Reverse(5) by (auto simp: Let_def)
  qed
qed

theorem drop_is_due_to_deny_rule_witness:
  "\<exists>r. rule_of_code (action r) = kDeny
     \<and> (covers (sample_microseg 0) kIngress (fill_tuple (parse_five_tuple dns_packet)) r
        \<or> covers (sample_microseg 0) kEgress (ReverseTuple (fill_tuple (parse_five_tuple dns_packet))) r)"
proof -
  have "(case callback kIngress sample_nfq_env (rx_buffer dns_packet) sample_clock
      (sample_daemon (sample_microseg 0) new_connection_manager) (message_of dns_packet) of
      None \<Rightarrow> False | Some (dm', eff) \<Rightarrow> Verdict 9 Drop None [] \<in> set eff)"
    by code_simp
  then obtain dm' eff where "callback kIngress sample_nfq_env (rx_buffer dns_packet) sample_clock
      (sample_daemon (sample_microseg 0) new_connection_manager) (message_of dns_packet) = Some (dm', eff)"
    "Verdict 9 Drop None [] \<in> set eff"
    by (auto split: option.splits)
  from drop_is_due_to_deny_rule [OF _ _ this] show ?thesis
    by (simp add: Let_def sample_nfq_env_def visits_all_rev sample_daemon_def sample_microseg_wf)
qed

text \<open>C3: a deny rule is enforced end to end on the packets that are matched against the network rules.
  Take a packet of at least 20 bytes that carries neither the mark of an allowed packet nor that of the
  other direction, that a deny rule covers, from a source that is no node, with no other covering rule
  of at most its priority number that does not deny, and no rule with a smaller number for the reverse
  direction. If it is a UDP or ICMP packet, its verdict is a drop. If it is a TCP packet, its verdict is
  a drop when the flow engine knows the flow, the packet is a SYN or carries data, the flow is not bound
  to an HTTP policy, and no HTTP rules are configured in the direction; other TCP packets (strays, pure
  acknowledgements, packets of bound flows) are not matched against the network rules and are not
  claimed to be dropped.\<close>

theorem covering_deny_rule_drops_packet:
  assumes "env_ok env opn" and "daemon_ok opn dm"
    and "\<not> screened dir msg" and "sft_recognized (parse_five_tuple (bytes_in mem msg))"
    and "\<not> IsNodeIp (microseg dm) (sft_src_addr (parse_five_tuple (bytes_in mem msg)))"
    and "t = fill_tuple (parse_five_tuple (bytes_in mem msg))"
    and "covers (microseg dm) dir t r" and "rule_of_code (action r) = kDeny"
    and "\<And>r'. covers (microseg dm) dir t r' \<Longrightarrow> priority r' \<le> priority r \<Longrightarrow> rule_of_code (action r') = kDeny"
    and "\<And>r'. covers (microseg dm) (other_dir dir) (ReverseTuple t) r' \<Longrightarrow> priority r \<le> priority r'"
    and "tcp_packet (bytes_in mem msg) \<noteq> None \<Longrightarrow>
      (let d = decided_by dm (bytes_in mem msg) ck
       in kind d \<noteq> 0 \<and> (syn d \<or> has_payload msg d) \<and> bound_key (connection_manager dm) (conn_id d) = None
          \<and> (\<forall>k. hm_get (http_policy (microseg dm) dir) k \<in> {None, Some []}))"
  shows "\<exists>dm' pre. callback dir env mem ck dm msg = Some (dm', pre @ [dropped msg])"
proof -
  have ok: "visits_all (order env)" "engine_wf (ms_engine (microseg dm))"
    using assms(1,2) by (simp_all add: env_ok_def daemon_ok_def microseg_wf_def)
  have "denied_by_match dir env (microseg dm) t"
    using match_micro_deny [OF ok _ _ assms(7,8,9,10)] assms(5,6) by (simp add: fill_tuple_def tuple_ok_def)
  then show ?thesis
    using nfq_cb_deny [OF assms(1-4) _ assms(11)] assms(6) by (simp add: callback_cb)
qed

lemma dns_rule_covers:
  "covers (sample_microseg 0) kIngress (fill_tuple (parse_five_tuple dns_packet))
     (((sample_rule ''dns'' 10 ''10.0.0.0/24'' 0)\<lparr> proto := 17 \<rparr>)
        \<lparr> ports := [\<lparr> end_port = 53, port = 53, port_proto = 17 \<rparr>] \<rparr>)"
proof -
  let ?r = "((sample_rule ''dns'' 10 ''10.0.0.0/24'' 0)\<lparr> proto := 17 \<rparr>)
    \<lparr> ports := [\<lparr> end_port = 53, port = 53, port_proto = 17 \<rparr>] \<rparr>"
  let ?t = "fill_tuple (parse_five_tuple dns_packet)"
  have "rule_lookup (ms_engine (sample_microseg 0)) kIngress ''10-17-10.0.0.0/24-10.0.0.2'' ''dns'' = Some ?r"
    by code_simp
  moreover have "rule_applies ?r (ft_proto ?t) (ft_dst_port ?t) (ntohl (ft_src_addr_u32 ?t)) (ntohl (ft_dst_addr_u32 ?t))"
    by code_simp
  ultimately show ?thesis unfolding covers_def by blast
qed

theorem covering_deny_rule_drops_packet_witness:
  "\<exists>dm' pre. callback kIngress sample_nfq_env (rx_buffer dns_packet) sample_clock
     (sample_daemon (sample_microseg 0) new_connection_manager) (message_of dns_packet)
     = Some (dm', pre @ [dropped (message_of dns_packet)])"
proof -
  have seen: "\<not> screened kIngress (message_of dns_packet)" "sft_recognized (parse_five_tuple dns_packet)"
    "\<not> IsNodeIp (sample_microseg 0) (sft_src_addr (parse_five_tuple dns_packet))"
    "tcp_packet dns_packet = None" by code_simp+
  have rules: "\<And>d r'. covers (sample_microseg 0) d t r' \<Longrightarrow> d = kIngress \<and> action r' = 0 \<and> priority r' = 10" for t
    using sample_microseg_rules by (auto simp: covers_def)
  show ?thesis
    by (rule covering_deny_rule_drops_packet [OF sample_nfq_env_ok
          sample_daemon_ok [OF sample_microseg_wf manager_ok_new] _ _ _ refl])
       (use seen dns_rule_covers rules in \<open>auto simp: sample_daemon_def rule_of_code_def sample_rule_def\<close>)
qed

text \<open>C13: a batch is answered completely: when the queue delivers a batch of messages with different
  ids, every message of it is taken out of the stash by exactly one verdict, in order; the kernel gets
  the verdicts of exactly those messages whose sending does not fail, an error of one message does not
  keep the later ones from being answered, the daemon stays well formed, and no message is left
  pending, whatever was left over from an earlier failed batch.\<close>

theorem batch_is_answered_completely:
  assumes "env_ok env opn" and "daemon_ok opn dm"
    and "recv_batch q = (q1, Some batch)" and "distinct (map msg_id batch)"
    and "\<forall>m\<in>set batch. complete mem m"
  shows "\<exists>dm' q' ks. NfqueueRcvData env mem ck is_input dm q = Some (dm', q', ks)
    \<and> map iss_id ks = filter (send_ok q) (map msg_id batch) \<and> pending q' = []
    \<and> length batch \<le> MAX_BATCH
    \<and> daemon_ok opn dm' \<and> microseg dm' = microseg dm"
proof -
  have batch: "batch = batch_of MAX_BATCH (socket q)" and
    pend: "pending q1 = fold (\<lambda>m. hm_put (msg_id m) m) batch []" and send: "send_ok q1 = send_ok q"
    using recv_batch_result [OF assms(3)] by auto
  have "hm_has (pending q1) i \<longleftrightarrow> i \<in> msg_id ` set batch" for i
    by (simp add: pend has_fold_put) (simp add: hm_has_def)
  from rcv_loop_answers [OF assms(1,2,5,4) this, of "if is_input then kIngress else kEgress" ck]
  obtain dm' q' ks where r: "rcv_loop (nfq_cb (if is_input then kIngress else kEgress) env mem) ck dm q1 batch
      = Some (dm', q', ks)" "daemon_ok opn dm'" "microseg dm' = microseg dm"
    "map iss_id ks = filter (send_ok q) (map msg_id batch)" "\<forall>i. \<not> hm_has (pending q') i"
    unfolding send by blast
  have "pending q' = []" using r(5) no_keys_empty by blast
  moreover have "length batch \<le> MAX_BATCH" unfolding batch by (rule batch_of_length)
  ultimately show ?thesis using r
    by (cases is_input) (simp_all add: NfqueueRcvData_def assms(3) input_cb output_cb)
qed

text \<open>Two queries, of which the verdict of the first cannot be sent.\<close>

theorem batch_is_answered_completely_witness:
  "\<exists>dm' q' ks. NfqueueRcvData sample_nfq_env (rx_buffer dns_packet) (\<lambda>m. sample_clock) True
     (sample_daemon (sample_microseg 0) new_connection_manager)
     \<lparr> socket = [Received ((message_of dns_packet)\<lparr> msg_id := 8 \<rparr>), Received (message_of dns_packet), WouldBlock],
       send_ok = (\<lambda>i. i \<noteq> 8), pending = [(3, message_of [])] \<rparr>
     = Some (dm', q', ks) \<and> map iss_id ks = [9] \<and> pending q' = []"
proof -
  let ?m = "(message_of dns_packet)\<lparr> msg_id := 8 \<rparr>"
  let ?q = "\<lparr> socket = [Received ?m, Received (message_of dns_packet), WouldBlock],
       send_ok = (\<lambda>i. i \<noteq> 8), pending = [(3, message_of [])] \<rparr>"
  have "drain_loop (Suc (Suc (Suc n))) [] (socket ?q) [] =
      (hm_put 9 (message_of dns_packet) [(8, ?m)], [], Some [?m, message_of dns_packet])" for n
    by (simp add: message_of_def)
  from this [of 61] have "recv_batch ?q = (\<lparr> socket = [], send_ok = (\<lambda>i. i \<noteq> 8),
      pending = hm_put 9 (message_of dns_packet) [(8, ?m)] \<rparr>, Some [?m, message_of dns_packet])"
    by (simp add: recv_batch_def drain_batch_def MAX_BATCH_def)
  moreover have whole: "complete (rx_buffer dns_packet) (message_of dns_packet)"
    unfolding complete_def sample_bytes Let_def by code_simp
  moreover have "complete (rx_buffer dns_packet) ?m"
    using whole by (simp add: complete_def)
  ultimately show ?thesis
    using batch_is_answered_completely [OF sample_nfq_env_ok
        sample_daemon_ok [OF sample_microseg_wf [of 0] manager_ok_new], of ?q _ "[?m, message_of dns_packet]"
        "rx_buffer dns_packet" "\<lambda>m. sample_clock" True]
    by (fastforce simp: message_of_def)
qed

text \<open>C14: a denied HTTP request does not reach the server as it was sent. Take a complete TCP packet
  shorter than the 2048 bytes of the checksum buffer, unmarked, not a SYN, that carries data of a flow
  bound to an HTTP policy. When the header of a request is complete with this packet and the first
  applicable HTTP rule of the policy denies it, the packet is accepted with a payload whose first bytes,
  at most eight, are zero and whose TCP checksum is valid. (From 2048 bytes on the checksum field is
  zero, and earlier packets of the same header have passed.)\<close>

theorem denied_request_is_blanked:
  assumes "env_ok env opn" and "daemon_ok opn dm" and "\<not> screened dir msg"
    and "pkg = bytes_in mem msg" and "tcp_packet pkg \<noteq> None" and "frame_ok pkg" and "length pkg < 2048"
    and "d = decided_by dm pkg ck" and "kind d \<in> {3, 5}" and "\<not> syn d" and "has_payload msg d"
    and "bound_key (connection_manager dm) (conn_id d) = Some key"
    and "DispatchMicroseg (http env) mem (connection_manager (prologue dm pkg ck)) d (msg_payload msg) key
      (at_dispatch ck) = Some (cm, Some h)"
    and "hm_get (http_policy (microseg dm) dir) key = Some rs" and "MatchHttpPolicyRule rs h = kDeny"
  shows "\<exists>dm' pre pkg'. callback dir env mem ck dm msg =
      Some (dm', pre @ [Verdict (msg_id msg) Accept (Some (rule_code (pass_mark dir))) pkg'])
    \<and> length pkg' = length pkg \<and> tcp_check_value pkg' = 0
    \<and> take (min 8 (length pkg - payload_at pkg)) (drop (payload_at pkg) pkg')
      = replicate (min 8 (length pkg - payload_at pkg)) 0"
proof -
  have short: "post_link_fd dm \<le> 0 \<or> length key \<le> 800"
    using assms(2,12) by (auto simp: daemon_ok_def names_fit_def)
  obtain eff ret where sent: "SendMatchMsg (post_write env) (post_link_fd dm) (fill_tuple (parse_five_tuple pkg)) kDeny dir key
      = Some (eff, ret)"
    using notified [OF assms(1,2) tuple_ok_fill short] by metis
  obtain pkg' where pkg': "rst_tcp_link pkg = Some pkg'" "length pkg' = length pkg" "tcp_check_value pkg' = 0"
    "drop (payload_at pkg) pkg' = (let n = min 8 (length pkg - payload_at pkg)
          in replicate n 0 @ drop n (drop (payload_at pkg) pkg))"
    using rst_tcp_link_blanks [OF assms(6,7)] by blast
  have key: "MicrosegRuleKey (connection_manager (prologue dm pkg ck)) d = Some key"
    using assms(8,9,12) by (auto simp: rule_key_bound prologue_keys)
  have "nfq_cb dir env mem ck dm msg =
      Some (prologue dm pkg ck\<lparr> connection_manager := cm \<rparr>,
        eff @ [Verdict (msg_id msg) Accept (Some (rule_code (pass_mark dir))) pkg'])"
  proof (cases rule: nfq_cb_outcomes [of dir msg env mem ck dm])
    case Tracked
    then show ?thesis using assms(4-15) key sent pkg'(1)
      by (auto simp: cb_tracked_def cb_request_def Let_def)
  qed (use assms(3-5,8,9,12) recognized_tcp_iff [of pkg] in auto)
  then show ?thesis using pkg' by (auto simp: callback_cb Let_def)
qed

theorem denied_request_is_blanked_witness:
  "\<exists>dm' pre pkg'. callback kIngress sample_nfq_env (rx_buffer web_request) sample_clock
     (sample_daemon web_microseg web_manager) (message_of web_request)
     = Some (dm', pre @ [Verdict 9 Accept (Some (rule_code kAllowReq)) pkg'])
     \<and> tcp_check_value pkg' = 0 \<and> take 4 (drop 40 pkg') = replicate 4 0"
proof -
  let ?dm = "sample_daemon web_microseg web_manager"
  let ?d = "decided_by ?dm web_request sample_clock"
  let ?dispatch = "DispatchMicroseg sample_env (rx_buffer web_request)
    (connection_manager (prologue ?dm web_request sample_clock)) ?d (0, 44) ''web'' 0"
  let ?rules = "[\<lparr> hr_direction = 0, hr_action = kDeny, hr_host = [], hr_method = [], hr_path = [] \<rparr>]"
  have ok: "daemon_ok (\<lambda>s. {}) ?dm"
    by (intro sample_daemon_ok)
       (simp_all add: web_microseg_def web_manager_def microseg_wf_http microseg_wf_new case_prod_unfold
          Let_def track_ok receive_ok manager_ok_new)
  have facts: "\<not> screened kIngress (message_of web_request)" "tcp_packet web_request \<noteq> None"
    "frame_ok web_request" "length web_request = 44" "payload_at web_request = 40" "kind ?d = 3" "\<not> syn ?d"
    "has_payload (message_of web_request) ?d" "bound_key (connection_manager ?dm) (conn_id ?d) = Some ''web''"
    "hm_get (http_policy (microseg ?dm) kIngress) ''web'' = Some ?rules"
    by code_simp+
  have "case ?dispatch of Some (cm, Some h) \<Rightarrow> True | _ \<Rightarrow> False" by code_simp
  then obtain cm h where disp: "?dispatch = Some (cm, Some h)" by (auto split: option.splits prod.splits)
  have deny: "MatchHttpPolicyRule ?rules h = kDeny" by simp
  have parts: "http sample_nfq_env = sample_env" "at_dispatch sample_clock = 0"
    "msg_payload (message_of web_request) = (0, 44)" "msg_id (message_of web_request) = 9"
    using facts(4) by (simp_all add: sample_nfq_env_def sample_clock_def message_of_def)
  have small: "length web_request < 2048" "kind ?d \<in> {3, 5}" using facts(4,6) by simp_all
  from denied_request_is_blanked [OF sample_nfq_env_ok ok facts(1) sample_bytes [symmetric] facts(2,3) small(1)
      refl small(2) facts(7-9) _ facts(10) deny, of cm] disp parts facts(4,5)
  show ?thesis by auto
qed

text \<open>A FIN or RST segment of a tracked flow is accepted as it is and the flow is forgotten,
  whatever data the segment carries: HTTP rules are not applied to it.\<close>

theorem closing_segment_is_not_inspected:
  assumes "\<not> screened dir msg" and "pkg = bytes_in mem msg" and "tcp_packet pkg \<noteq> None"
    and "kind (decided_by dm pkg ck) = 2"
    and "bound_key (connection_manager dm) (conn_id (decided_by dm pkg ck)) \<noteq> None"
  shows "callback dir env mem ck dm msg = Some (prologue dm pkg ck, [marked msg kAllow])
    \<and> bound_key (connection_manager (prologue dm pkg ck)) (conn_id (decided_by dm pkg ck)) = None"
proof -
  have "nfq_cb dir env mem ck dm msg = Some (prologue dm pkg ck, [marked msg kAllow])"
    by (cases rule: nfq_cb_outcomes [of dir msg env mem ck dm])
       (use assms recognized_tcp_iff [of pkg] in \<open>auto simp: cb_tracked_def\<close>)
  then show ?thesis using assms(4) by (simp add: callback_cb prologue_keys)
qed

theorem closing_segment_is_not_inspected_witness:
  "callback kIngress sample_nfq_env (rx_buffer fin_request) sample_clock
     (sample_daemon new_microseg web_manager) (message_of fin_request)
   = Some (prologue (sample_daemon new_microseg web_manager) fin_request sample_clock,
       [marked (message_of fin_request) kAllow])"
proof -
  let ?dm = "sample_daemon new_microseg web_manager"
  have "\<not> screened kIngress (message_of fin_request)" "tcp_packet fin_request \<noteq> None"
    "kind (decided_by ?dm fin_request sample_clock) = 2"
    "bound_key (connection_manager ?dm) (conn_id (decided_by ?dm fin_request sample_clock)) \<noteq> None"
    by code_simp+
  then show ?thesis
    using closing_segment_is_not_inspected [of kIngress "message_of fin_request" fin_request "rx_buffer fin_request"
        ?dm sample_clock sample_nfq_env] by simp
qed

end
