(* ===== verification/Json_Number.thy ===== *)
theory Json_Number
  imports Complex_Main NP_Text
begin

text \<open>
  The part of the C library that the JSON code uses for numbers: IEEE double precision values,
  \<^verbatim>\<open>strtod\<close> on the characters a JSON number can have, and the \<^verbatim>\<open>%g\<close> conversion of \<^verbatim>\<open>printf\<close>.
  A finite double is the rational number it denotes, so the two zeros are one value; no
  operation of the code yields a NaN. The lemmas show that whole numbers below \<open>10 ^ 15\<close> are printed
  as their decimal digits and read back exactly.
\<close>

section \<open>Double precision\<close>

datatype double = Finite rat | Infinity bool

definition round_half_even :: "rat \<Rightarrow> int" where
  "round_half_even r =
     (let f = \<lfloor>r\<rfloor>; d = r - of_int f in
      if d < 1 / 2 then f else if d > 1 / 2 then f + 1 else if even f then f else f + 1)"

function log_floor :: "int \<Rightarrow> int \<Rightarrow> nat" where
  "log_floor b n = (if 2 \<le> b \<and> b \<le> n then Suc (log_floor b (n div b)) else 0)"
  by auto

termination log_floor
  by (relation "measure (\<lambda>(b, n). nat n)") (auto simp: nat_less_eq_zless zdiv_mono2 int_div_less_self)

declare log_floor.simps [simp del]

text \<open>The power of ten or two just below a positive number, exact down to the smallest double.\<close>

definition exponent :: "int \<Rightarrow> nat \<Rightarrow> rat \<Rightarrow> int" where
  "exponent b lo a =
     (if 1 \<le> a then int (log_floor b \<lfloor>a\<rfloor>)
      else int (log_floor b \<lfloor>a * of_int b ^ lo\<rfloor>) - int lo)"

definition scale :: "int \<Rightarrow> int \<Rightarrow> rat" where
  "scale b e = (if 0 \<le> e then of_int b ^ nat e else 1 / of_int b ^ nat (- e))"

definition round_double :: "rat \<Rightarrow> double" where
  "round_double r =
     (if r = 0 then Finite 0
      else
        (let a = \<bar>r\<bar>;
             e = max (exponent 2 1080 a - 52) (- 1074);
             v = of_int (round_half_even (a / scale 2 e)) * scale 2 e
         in if v \<ge> 2 ^ 1024 then Infinity (r < 0) else Finite (if r < 0 then - v else v)))"

definition int_to_double :: "int \<Rightarrow> double" where
  "int_to_double n = round_double (of_int n)"

text \<open>\<^verbatim>\<open>(int)\<close> with the saturation the callers write out.\<close>

definition trunc_zero :: "rat \<Rightarrow> int" where
  "trunc_zero r = (if r < 0 then - \<lfloor>- r\<rfloor> else \<lfloor>r\<rfloor>)"

definition saturate :: "double \<Rightarrow> int" where
  "saturate d =
     (case d of
        Infinity neg \<Rightarrow> if neg then i32_min else i32_max
      | Finite r \<Rightarrow> if r \<ge> of_int i32_max then i32_max else if r \<le> of_int i32_min then i32_min
                     else trunc_zero r)"

section \<open>Reading numbers\<close>

definition take_digits :: "string \<Rightarrow> string \<times> string" where
  "take_digits s = (takeWhile is_digit s, dropWhile is_digit s)"

definition is_sign :: "char \<Rightarrow> bool" where
  "is_sign c \<longleftrightarrow> c = CHR ''+'' \<or> c = CHR ''-''"

definition take_sign :: "string \<Rightarrow> bool \<times> string" where
  "take_sign s =
     (case s of [] \<Rightarrow> (False, s) | c # cs \<Rightarrow> if is_sign c then (c = CHR ''-'', cs) else (False, s))"

definition take_fraction :: "string \<Rightarrow> string \<times> string" where
  "take_fraction s =
     (case s of [] \<Rightarrow> ([], s) | c # cs \<Rightarrow> if c = CHR ''.'' then take_digits cs else ([], s))"

text \<open>An exponent belongs to the number only if it has digits.\<close>

definition take_exponent :: "string \<Rightarrow> int \<times> string" where
  "take_exponent s =
     (case s of
        [] \<Rightarrow> (0, s)
      | c # cs \<Rightarrow>
          if c = CHR ''e'' \<or> c = CHR ''E'' then
            (let (neg, r) = take_sign cs; (ds, r') = take_digits r in
             if ds = [] then (0, s)
             else ((if neg then - int (digits_val ds) else int (digits_val ds)), r'))
          else (0, s))"

text \<open>The value and the rest of the text; \<open>None\<close> if there is no number.\<close>

definition strtod :: "string \<Rightarrow> (double \<times> string) option" where
  "strtod s =
     (let (neg, r0) = take_sign s; (ip, r1) = take_digits r0; (fp, r2) = take_fraction r1 in
      if ip = [] \<and> fp = [] then None
      else
        (let (e, r3) = take_exponent r2;
             v = of_nat (digits_val (ip @ fp)) * scale 10 (e - int (length fp))
         in Some (round_double (if neg then - v else v), r3)))"

section \<open>Printing numbers\<close>

definition strip_zeros :: "string \<Rightarrow> string" where
  "strip_zeros s = rev (dropWhile (\<lambda>c. c = CHR ''0'') (rev s))"

definition with_fraction :: "string \<Rightarrow> string \<Rightarrow> string" where
  "with_fraction ip fp = (if fp = [] then ip else ip @ ''.'' @ fp)"

definition exponent_text :: "int \<Rightarrow> string" where
  "exponent_text x =
     (let ds = dec_nat (nat \<bar>x\<bar>)
      in ''e'' @ (if x < 0 then ''-'' else ''+'') @ (if length ds < 2 then CHR ''0'' # ds else ds))"

text \<open>\<^verbatim>\<open>%1.<p>g\<close>: \<open>p\<close> significant digits, trailing zeros removed.\<close>

definition print_g :: "nat \<Rightarrow> rat \<Rightarrow> string" where
  "print_g p r =
     (if r = 0 then ''0''
      else
        (let a = \<bar>r\<bar>;
             x0 = exponent 10 400 a;
             m0 = round_half_even (a / scale 10 (x0 - int p + 1));
             (m, x) = (if m0 = 10 ^ p then (10 ^ (p - 1), x0 + 1) else (m0, x0));
             ds = dec_nat (nat m);
             txt = (if x < - 4 \<or> x \<ge> int p
                    then with_fraction (take 1 ds) (strip_zeros (drop 1 ds)) @ exponent_text x
                    else if 0 \<le> x
                    then with_fraction (take (nat x + 1) ds) (strip_zeros (drop (nat x + 1) ds))
                    else ''0.'' @ replicate (nat (- x) - 1) (CHR ''0'') @ strip_zeros ds)
         in if r < 0 then CHR ''-'' # txt else txt))"

section \<open>Whole numbers are exact\<close>

lemma log_floor_bounds:
  assumes "2 \<le> b" "1 \<le> n"
  shows "b ^ log_floor b n \<le> n \<and> n < b ^ Suc (log_floor b n)"
  using assms
proof (induction b n rule: log_floor.induct)
  case (1 b n)
  show ?case
  proof (cases "b \<le> n")
    case True
    let ?l = "log_floor b (n div b)"
    have l: "log_floor b n = Suc ?l"
      using 1(2) True by (subst log_floor.simps) simp
    have q: "1 \<le> n div b"
      using 1(2) True by (simp add: pos_imp_zdiv_pos_iff int_one_le_iff_zero_less)
    then have IH: "b ^ ?l \<le> n div b" "n div b < b * b ^ ?l"
      using 1(1) [OF conjI [OF 1(2) True] 1(2)] by simp_all
    have "b * b ^ ?l \<le> b * (n div b)"
      using IH(1) 1(2) by simp
    also have "\<dots> \<le> n"
      using 1(2) by (metis mult.commute div_times_less_eq_dividend zero_le_numeral order_trans
          minus_mod_eq_mult_div pos_mod_sign diff_le_eq le_add_same_cancel1 zero_less_numeral less_le_trans)
    finally have lo: "b * b ^ ?l \<le> n" .
    have "n < b * (n div b) + b"
      using 1(2) pos_mod_bound [of b n] mult_div_mod_eq [of b n] by linarith
    also have "\<dots> = b * (n div b + 1)"
      by (simp add: distrib_left)
    also have "\<dots> \<le> b * (b * b ^ ?l)"
      using IH(2) 1(2) by (intro mult_left_mono) linarith+
    finally have "n < b * (b * b ^ ?l)" .
    with lo show ?thesis
      by (simp add: l)
  next
    case False
    then have "log_floor b n = 0"
      by (subst log_floor.simps) simp
    with False 1(3) show ?thesis
      by simp
  qed
qed

lemma log_floor_less:
  assumes "2 \<le> b" "1 \<le> n" "n < b ^ k"
  shows "log_floor b n < k"
proof -
  have "b ^ log_floor b n < b ^ k"
    using log_floor_bounds [OF assms(1,2)] assms(3) by linarith
  then show ?thesis
    using assms(1) by (simp add: power_strict_increasing_iff)
qed

lemma round_half_even_of_int [simp]: "round_half_even (of_int n) = n"
  by (simp add: round_half_even_def)

lemma round_double_of_int:
  assumes "\<bar>n\<bar> < 2 ^ 53"
  shows "round_double (of_int n) = Finite (of_int n)"
proof (cases "n = 0")
  case True
  then show ?thesis
    by (simp add: round_double_def)
next
  case False
  define a where "a = \<bar>n\<bar>"
  define l where "l = log_floor 2 a"
  have a: "1 \<le> a" "a < 2 ^ 53"
    using False assms by (simp_all add: a_def)
  have "l < 53"
    unfolding l_def using a by (intro log_floor_less) simp_all
  then have l: "max (int l - 52) (- 1074) = int l - 52" "int l - 52 \<le> 0" "nat (52 - int l) = 52 - l"
    by simp_all
  have sc: "scale 2 (int l - 52) = 1 / 2 ^ (52 - l)"
    using l \<open>l < 53\<close> by (cases "l = 52") (simp_all add: scale_def)
  have ex: "exponent 2 1080 (of_int a) = int l"
    using a by (simp add: exponent_def l_def)
  have div: "(of_int a :: rat) / scale 2 (int l - 52) = of_int (a * 2 ^ (52 - l))"
    by (simp add: sc)
  have v: "(of_int (round_half_even (of_int a / scale 2 (int l - 52))) :: rat) * scale 2 (int l - 52)
    = of_int a"
    unfolding div round_half_even_of_int by (simp add: sc)
  have "(of_int a :: rat) < of_int (2 ^ 53)"
    using a(2) by (simp only: of_int_less_iff)
  also have "\<dots> \<le> 2 ^ 1024"
    by simp
  finally have big: "\<not> (2 ^ 1024 \<le> (of_int a :: rat))"
    by simp
  have ab: "\<bar>of_int n :: rat\<bar> = of_int a"
    by (simp add: a_def)
  have "round_double (of_int n) = Finite (if n < 0 then - of_int a else of_int a)"
    unfolding round_double_def Let_def ab ex l(1) v using big False by simp
  also have "\<dots> = Finite (of_int n)"
    by (simp add: a_def)
  finally show ?thesis .
qed

lemma length_dec_nat: "length (dec_nat n) = Suc (log_floor 10 (int n))"
proof (induction n rule: dec_nat.induct)
  case (1 n)
  show ?case
  proof (cases "n < 10")
    case True
    then have "log_floor 10 (int n) = 0"
      by (subst log_floor.simps) simp
    with True show ?thesis
      by (simp add: dec_nat.simps [of n])
  next
    case False
    then have "log_floor 10 (int n) = Suc (log_floor 10 (int (n div 10)))"
      by (subst log_floor.simps) (simp add: zdiv_int)
    with False 1 show ?thesis
      by (simp add: dec_nat.simps [of n])
  qed
qed

lemma digit_zero: "digit 0 = CHR ''0''"
  by code_simp

lemma dec_nat_zeros: "0 < n \<Longrightarrow> dec_nat (n * 10 ^ k) = dec_nat n @ replicate k (CHR ''0'')"
proof (induction k)
  case (Suc k)
  have ge: "\<not> n * 10 ^ Suc k < 10"
    using Suc.prems by simp
  have "dec_nat (n * 10 ^ Suc k) = dec_nat (n * 10 ^ k) @ [digit 0]"
    using ge by (subst dec_nat.simps) (simp add: mult.assoc [symmetric] mult.commute)
  also have "\<dots> = dec_nat n @ replicate (Suc k) (CHR ''0'')"
    using Suc by (simp add: replicate_append_same digit_zero)
  finally show ?case .
qed simp

lemma strip_zeros_replicate [simp]: "strip_zeros (replicate k (CHR ''0'')) = []"
  by (simp add: strip_zeros_def)

lemma print_g_of_int:
  assumes "\<bar>n\<bar> < 10 ^ p"
  shows "print_g p (of_int n) = dec_int n"
proof (cases "n = 0")
  case True
  then show ?thesis
    by (simp add: print_g_def dec_int_def dec_nat.simps digit_zero)
next
  case False
  define a where "a = \<bar>n\<bar>"
  define l where "l = log_floor 10 a"
  have a: "1 \<le> a" "a < 10 ^ p"
    using False assms by (simp_all add: a_def)
  have l: "l < p" "a < 10 ^ Suc l"
    using log_floor_bounds [of 10 a] a(1) log_floor_less [of 10 a p] a by (simp_all add: l_def)
  have ex: "exponent 10 400 (of_int a) = int l"
    using a by (simp add: exponent_def l_def)
  have sc: "scale 10 (int l - int p + 1) = 1 / 10 ^ (p - Suc l)"
  proof (cases "p = Suc l")
    case False
    then have "nat (- (int l - int p + 1)) = p - Suc l" "\<not> 0 \<le> int l - int p + 1"
      using l(1) by auto
    then show ?thesis
      by (simp add: scale_def)
  qed (simp add: scale_def)
  have "(of_int a :: rat) / scale 10 (int l - int p + 1) = of_int (a * 10 ^ (p - Suc l))"
    by (simp add: sc)
  then have m: "round_half_even ((of_int a :: rat) / scale 10 (int l - int p + 1)) = a * 10 ^ (p - Suc l)"
    by (simp only: round_half_even_of_int)
  have "a * 10 ^ (p - Suc l) < 10 ^ Suc l * 10 ^ (p - Suc l)"
    using l(2) by (intro mult_strict_right_mono) simp_all
  also have "\<dots> = 10 ^ p"
    using l(1) by (simp add: power_add [symmetric] del: power_Suc)
  finally have lt: "a * 10 ^ (p - Suc l) \<noteq> 10 ^ p"
    by simp
  have ds: "dec_nat (nat (a * 10 ^ (p - Suc l))) = dec_nat (nat a) @ replicate (p - Suc l) (CHR ''0'')"
    using a(1) dec_nat_zeros [of "nat a" "p - Suc l"] by (simp add: nat_mult_distrib nat_power_eq)
  have len: "length (dec_nat (nat a)) = nat (int l) + 1"
    using a(1) by (simp add: length_dec_nat l_def)
  have ab: "\<bar>of_int n :: rat\<bar> = of_int a"
    by (simp add: a_def)
  have rng: "\<not> (int l < - 4 \<or> int l \<ge> int p)" "0 \<le> int l"
    using l(1) by simp_all
  have "print_g p (of_int n) = (if n < 0 then CHR ''-'' # dec_nat (nat a) else dec_nat (nat a))"
    unfolding print_g_def Let_def ab ex m if_not_P [OF lt] prod.case ds if_not_P [OF rng(1)]
      if_P [OF rng(2)]
    using False by (simp add: len with_fraction_def)
  also have "\<dots> = dec_int n"
    using False by (auto simp: dec_int_def a_def)
  finally show ?thesis .
qed

lemma take_digits_append:
  "list_all is_digit ds \<Longrightarrow> (s = [] \<or> \<not> is_digit (hd s)) \<Longrightarrow> take_digits (ds @ s) = (ds, s)"
  by (cases s) (auto simp: take_digits_def list_all_iff takeWhile_append dropWhile_append)

text \<open>A text after which a number cannot go on.\<close>

definition number_ends :: "string \<Rightarrow> bool" where
  "number_ends s \<longleftrightarrow>
     (case s of [] \<Rightarrow> True
      | c # cs \<Rightarrow> \<not> is_digit c \<and> \<not> is_sign c \<and> c \<noteq> CHR ''.'' \<and> c \<noteq> CHR ''e'' \<and> c \<noteq> CHR ''E'')"

lemma number_ends_parts:
  assumes "number_ends s"
  shows "take_fraction s = ([], s)" "take_exponent s = (0, s)" "s = [] \<or> \<not> is_digit (hd s)"
  using assms
  by (auto simp: number_ends_def take_fraction_def take_exponent_def split: list.splits)

lemma sign_not_digit: "is_sign c \<Longrightarrow> \<not> is_digit c"
  by (auto simp: is_sign_def is_digit_def)

lemma take_sign_dec_nat: "take_sign (dec_nat n @ s) = (False, dec_nat n @ s)"
proof -
  obtain c cs where c: "dec_nat n = c # cs"
    using dec_nat_not_Nil [of n] by (cases "dec_nat n") auto
  then have "\<not> is_sign c"
    using hd_dec_nat_digit [of n] sign_not_digit by auto
  with c show ?thesis
    by (simp add: take_sign_def)
qed

lemma strtod_dec_int:
  assumes "\<bar>n\<bar> < 2 ^ 53" "number_ends s"
  shows "strtod (dec_int n @ s) = Some (Finite (of_int n), s)"
proof -
  note ends = number_ends_parts [OF assms(2)]
  have td: "take_digits (dec_nat k @ s) = (dec_nat k, s)" for k
    using dec_nat_digits ends(3) by (rule take_digits_append)
  have ts: "take_sign (CHR ''-'' # t) = (True, t)" for t
    by (simp add: take_sign_def is_sign_def)
  show ?thesis
  proof (cases "n < 0")
    case True
    then show ?thesis
      using round_double_of_int [OF assms(1)]
      by (simp add: strtod_def dec_int_def ts td ends digits_val_dec_nat scale_def)
  next
    case False
    then show ?thesis
      using round_double_of_int [OF assms(1)]
      by (simp add: strtod_def dec_int_def take_sign_dec_nat td ends digits_val_dec_nat scale_def)
  qed
qed

lemma int_to_double_exact: "\<bar>n\<bar> < 2 ^ 53 \<Longrightarrow> int_to_double n = Finite (of_int n)"
  by (simp add: int_to_double_def round_double_of_int)

lemma trunc_zero_of_int [simp]: "trunc_zero (of_int n) = n"
  by (simp add: trunc_zero_def flip: of_int_minus)

lemma trunc_zero_bounds:
  assumes "of_int lo < r" "r < of_int hi" "lo \<le> 0" "0 \<le> hi"
  shows "lo \<le> trunc_zero r \<and> trunc_zero r \<le> hi"
proof (cases "r < 0")
  case True
  have "0 \<le> \<lfloor>- r\<rfloor>"
    using True by (simp add: le_floor_iff)
  moreover have "\<lfloor>- r\<rfloor> \<le> - lo"
    using assms(1) by (simp add: floor_le_iff)
  ultimately show ?thesis
    using assms(4) unfolding trunc_zero_def if_P [OF True] by linarith
next
  case False
  then have "0 \<le> \<lfloor>r\<rfloor>" "\<lfloor>r\<rfloor> \<le> hi"
    using assms(2) by (simp_all add: le_floor_iff floor_le_iff)
  with assms(3) show ?thesis
    unfolding trunc_zero_def if_not_P [OF False] by linarith
qed

lemma saturate_in_i32: "in_i32 (saturate d)"
proof (cases d)
  case (Finite r)
  have "i32_min \<le> trunc_zero r \<and> trunc_zero r \<le> i32_max"
    if "of_int i32_min < r" "r < of_int i32_max"
    by (rule trunc_zero_bounds [OF that]) (simp_all add: i32_min_def i32_max_def)
  with Finite show ?thesis
    by (auto simp: saturate_def in_i32_def i32_min_def i32_max_def)
next
  case (Infinity b)
  then show ?thesis
    by (simp add: saturate_def in_i32_def i32_min_def i32_max_def)
qed

lemma saturate_of_int: "in_i32 n \<Longrightarrow> saturate (Finite (of_int n)) = n"
  by (auto simp: saturate_def in_i32_def)

end
