(* ===== verification/Cjson.thy ===== *)
theory Cjson
  imports Json_Number "HOL-Library.Monad_Syntax"
begin

text \<open>
  The JSON library \<^verbatim>\<open>src/cjson.c\<close>: items, parser and printer. The doubly linked list of siblings
  is a list, a C string is the list of its bytes before the terminator, and a type word is its
  kind and its two flags. A function that reports failure returns \<open>None\<close>. Allocation succeeds; the
  limits the code puts on sizes and on nesting are kept. The position of the last error is not
  kept. Items own their parts, so releasing memory has no counterpart here.
\<close>

section \<open>Items\<close>

datatype json_type =
    cJSON_Invalid | cJSON_False | cJSON_True | cJSON_NULL | cJSON_Number | cJSON_String
  | cJSON_Array | cJSON_Object | cJSON_Raw

datatype cJSON =
  Item (jtype: json_type) (is_reference: bool) (string_is_const: bool)
    (valuestring: "string option") (valueint: int) (valuedouble: double)
    (item_string: "string option") (child: "cJSON list")

definition cJSON_New_Item :: cJSON where
  "cJSON_New_Item = Item cJSON_Invalid False False None 0 (Finite 0) None []"

definition kind_item :: "json_type \<Rightarrow> cJSON" where
  "kind_item t = Item t False False None 0 (Finite 0) None []"

definition true_item :: cJSON where
  "true_item = Item cJSON_True False False None 1 (Finite 0) None []"

definition number_item :: "double \<Rightarrow> cJSON" where
  "number_item d = Item cJSON_Number False False None (saturate d) d None []"

definition string_item :: "string \<Rightarrow> cJSON" where
  "string_item v = Item cJSON_String False False (Some v) 0 (Finite 0) None []"

definition list_item :: "json_type \<Rightarrow> cJSON list \<Rightarrow> cJSON" where
  "list_item t cs = Item t False False None 0 (Finite 0) None cs"

fun with_string :: "string option \<Rightarrow> bool \<Rightarrow> cJSON \<Rightarrow> cJSON" where
  "with_string nm const (Item t rf sc vs vi vd nm' cs) = Item t rf const vs vi vd nm cs"

fun with_child :: "cJSON list \<Rightarrow> cJSON \<Rightarrow> cJSON" where
  "with_child cs (Item t rf sc vs vi vd nm cs') = Item t rf sc vs vi vd nm cs"

definition cJSON_SetNumberHelper :: "cJSON \<Rightarrow> double \<Rightarrow> cJSON" where
  "cJSON_SetNumberHelper it d =
     Item (jtype it) (is_reference it) (string_is_const it) (valuestring it) (saturate d) d
       (item_string it) (child it)"

definition cJSON_GetStringValue :: "cJSON \<Rightarrow> string option" where
  "cJSON_GetStringValue it = (if jtype it = cJSON_String then valuestring it else None)"

section \<open>Parsing\<close>

text \<open>A parse buffer is the text from the offset on, the terminating zero included.\<close>

abbreviation (input) nul :: char where "nul \<equiv> CHR 0x00"
abbreviation (input) quote :: char where "quote \<equiv> CHR 0x22"
abbreviation (input) backslash :: char where "backslash \<equiv> CHR 0x5C"

definition code :: "char \<Rightarrow> nat" where
  "code c = of_char c"

definition buffer_skip_whitespace :: "string \<Rightarrow> string" where
  "buffer_skip_whitespace s =
     (let r = dropWhile (\<lambda>c. code c \<le> 32) s in if r = [] then drop (length s - 1) s else r)"

definition skip_utf8_bom :: "string \<Rightarrow> string" where
  "skip_utf8_bom s =
     (if 4 < length s \<and> take 3 s = [CHR 0xEF, CHR 0xBB, CHR 0xBF] then drop 3 s else s)"

definition number_char :: "char \<Rightarrow> bool" where
  "number_char c \<longleftrightarrow> is_digit c \<or> is_sign c \<or> c = CHR ''e'' \<or> c = CHR ''E'' \<or> c = CHR ''.''"

definition parse_number :: "string \<Rightarrow> (cJSON \<times> string) option" where
  "parse_number s =
     (let t = takeWhile number_char (take 63 s) in
      case strtod t of
        None \<Rightarrow> None
      | Some (d, r) \<Rightarrow> Some (number_item d, drop (length t - length r) s))"

definition hex_digit :: "char \<Rightarrow> nat option" where
  "hex_digit c =
     (if 48 \<le> code c \<and> code c \<le> 57 then Some (code c - 48)
      else if 65 \<le> code c \<and> code c \<le> 70 then Some (10 + code c - 65)
      else if 97 \<le> code c \<and> code c \<le> 102 then Some (10 + code c - 97)
      else None)"

fun hex4_loop :: "nat \<Rightarrow> nat \<Rightarrow> string \<Rightarrow> nat" where
  "hex4_loop 0 h s = h"
| "hex4_loop (Suc i) h [] = 0"
| "hex4_loop (Suc i) h (c # s) =
     (case hex_digit c of
        None \<Rightarrow> 0
      | Some d \<Rightarrow> hex4_loop i (if 0 < i then (h + d) * 16 else h + d) s)"

definition parse_hex4 :: "string \<Rightarrow> nat" where
  "parse_hex4 s = hex4_loop 4 0 s"

definition utf8_bytes :: "nat \<Rightarrow> nat list" where
  "utf8_bytes cp =
     (if cp < 0x80 then [cp]
      else if cp < 0x800 then [0xC0 + cp div 64, 0x80 + cp mod 64]
      else if cp < 0x10000 then [0xE0 + cp div 4096, 0x80 + cp div 64 mod 64, 0x80 + cp mod 64]
      else [0xF0 + cp div 262144, 0x80 + cp div 4096 mod 64, 0x80 + cp div 64 mod 64, 0x80 + cp mod 64])"

text \<open>The bytes of one literal and the number of characters it takes; the argument is the text
  up to the closing quote.\<close>

definition utf16_literal_to_utf8 :: "string \<Rightarrow> (string \<times> nat) option" where
  "utf16_literal_to_utf8 s =
     (if length s < 6 then None
      else
        (let first_code = parse_hex4 (drop 2 s) in
         if 0xDC00 \<le> first_code \<and> first_code \<le> 0xDFFF then None
         else if 0xD800 \<le> first_code \<and> first_code \<le> 0xDBFF then
           (let second = drop 6 s; second_code = parse_hex4 (drop 2 second) in
            if length second < 6 then None
            else if take 2 second \<noteq> [backslash, CHR ''u''] then None
            else if second_code < 0xDC00 \<or> 0xDFFF < second_code then None
            else Some (map char_of
                   (utf8_bytes (0x10000 + first_code mod 1024 * 1024 + second_code mod 1024)), 12))
         else Some (map char_of (utf8_bytes first_code), 6)))"

text \<open>The first loop of \<^verbatim>\<open>parse_string\<close>: the text up to the closing quote, and what follows it.\<close>

fun find_end :: "string \<Rightarrow> (string \<times> string) option" where
  "find_end [] = None"
| "find_end (c # s) =
     (if c = quote then Some ([], s)
      else if c = backslash then
        (case s of
           [] \<Rightarrow> None
         | d # s' \<Rightarrow> map_option (\<lambda>(t, r). (c # d # t, r)) (find_end s'))
      else map_option (\<lambda>(t, r). (c # t, r)) (find_end s))"

definition simple_escape :: "char \<Rightarrow> char option" where
  "simple_escape c =
     (if c = CHR ''b'' then Some (CHR 0x08) else if c = CHR ''f'' then Some (CHR 0x0C)
      else if c = CHR ''n'' then Some (CHR 0x0A) else if c = CHR ''r'' then Some (CHR 0x0D)
      else if c = CHR ''t'' then Some (CHR 0x09)
      else if c = quote \<or> c = backslash \<or> c = CHR ''/'' then Some c else None)"

text \<open>The second loop. A backslash as the last character is followed by the closing quote.\<close>

function unescape :: "string \<Rightarrow> string option" where
  "unescape s =
     (case s of
        [] \<Rightarrow> Some []
      | c # s' \<Rightarrow>
          if c \<noteq> backslash then map_option (\<lambda>t. c # t) (unescape s')
          else if s' = [] then Some [quote]
          else if hd s' = CHR ''u'' then
            (case utf16_literal_to_utf8 s of
               None \<Rightarrow> None
             | Some (bs, n) \<Rightarrow> map_option (\<lambda>t. bs @ t) (unescape (drop (max 6 n) s)))
          else
            (case simple_escape (hd s') of
               None \<Rightarrow> None
             | Some e \<Rightarrow> map_option (\<lambda>t. e # t) (unescape (tl s'))))"
  by pat_completeness auto

termination unescape
  by (relation "measure length") auto

declare unescape.simps [simp del]

definition c_string :: "string \<Rightarrow> string" where
  "c_string s = takeWhile (\<lambda>c. c \<noteq> nul) s"

definition parse_string :: "string \<Rightarrow> (string \<times> string) option" where
  "parse_string s =
     (case s of
        [] \<Rightarrow> None
      | c # s' \<Rightarrow>
          if c \<noteq> quote then None
          else
            (case find_end s' of
               None \<Rightarrow> None
             | Some (t, r) \<Rightarrow>
                 (case unescape t of None \<Rightarrow> None | Some out \<Rightarrow> Some (c_string out, r))))"

definition CJSON_NESTING_LIMIT :: nat where
  "CJSON_NESTING_LIMIT = 1000"

definition starts_with :: "string \<Rightarrow> string \<Rightarrow> bool" where
  "starts_with t s \<longleftrightarrow> take (length t) s = t"

lemma length_skip_whitespace [termination_simp]: "length (buffer_skip_whitespace s) \<le> length s"
  by (simp add: buffer_skip_whitespace_def Let_def length_dropWhile_le)

text \<open>The comma separated elements are read by the two loops below. A loop goes on only with less
  text than it began with, which the code does not test: lemmas \<open>array_loop_recursion\<close> and
  \<open>object_loop_recursion\<close> show that the loops satisfy the equations without these tests.\<close>

function (sequential) parse_value :: "nat \<Rightarrow> string \<Rightarrow> (cJSON \<times> string) option"
  and parse_array :: "nat \<Rightarrow> string \<Rightarrow> (cJSON \<times> string) option"
  and array_loop :: "nat \<Rightarrow> string \<Rightarrow> (cJSON list \<times> string) option"
  and parse_object :: "nat \<Rightarrow> string \<Rightarrow> (cJSON \<times> string) option"
  and object_loop :: "nat \<Rightarrow> string \<Rightarrow> (cJSON list \<times> string) option"
where
  "parse_value depth s =
     (if starts_with ''null'' s then Some (kind_item cJSON_NULL, drop 4 s)
      else if starts_with ''false'' s then Some (kind_item cJSON_False, drop 5 s)
      else if starts_with ''true'' s then Some (true_item, drop 4 s)
      else if s = [] then None
      else if hd s = quote then map_option (\<lambda>(v, r). (string_item v, r)) (parse_string s)
      else if hd s = CHR ''-'' \<or> is_digit (hd s) then parse_number s
      else if hd s = CHR ''['' then parse_array depth s
      else if hd s = CHR ''{'' then parse_object depth s
      else None)"
| "parse_array depth s =
     (if CJSON_NESTING_LIMIT \<le> depth then None
      else if s = [] \<or> hd s \<noteq> CHR ''['' then None
      else
        (let s' = buffer_skip_whitespace (tl s) in
         if s' = [] then None
         else if hd s' = CHR '']'' then Some (list_item cJSON_Array [], tl s')
         else map_option (\<lambda>(cs, r). (list_item cJSON_Array cs, r)) (array_loop (depth + 1) s')))"
| "array_loop depth s =
     (case parse_value depth (buffer_skip_whitespace s) of
        None \<Rightarrow> None
      | Some (v, r) \<Rightarrow>
          (let r' = buffer_skip_whitespace r in
           if r' = [] then None
           else if hd r' = CHR '','' then
             (if length (tl r') < length s
              then map_option (\<lambda>(vs, q). (v # vs, q)) (array_loop depth (tl r'))
              else None)
           else if hd r' = CHR '']'' then Some ([v], tl r')
           else None))"
| "parse_object depth s =
     (if CJSON_NESTING_LIMIT \<le> depth then None
      else if s = [] \<or> hd s \<noteq> CHR ''{'' then None
      else
        (let s' = buffer_skip_whitespace (tl s) in
         if s' = [] then None
         else if hd s' = CHR ''}'' then Some (list_item cJSON_Object [], tl s')
         else map_option (\<lambda>(cs, r). (list_item cJSON_Object cs, r)) (object_loop (depth + 1) s')))"
| "object_loop depth s =
     (case parse_string (buffer_skip_whitespace s) of
        None \<Rightarrow> None
      | Some (nm, r0) \<Rightarrow>
          (let r1 = buffer_skip_whitespace r0 in
           if r1 = [] \<or> hd r1 \<noteq> CHR '':'' then None
           else if length (tl r1) < length s then
             (case parse_value depth (buffer_skip_whitespace (tl r1)) of
                None \<Rightarrow> None
              | Some (v0, r) \<Rightarrow>
                  (let v = with_string (Some nm) False v0; r' = buffer_skip_whitespace r in
                   if r' = [] then None
                   else if hd r' = CHR '','' then
                     (if length (tl r') < length s
                      then map_option (\<lambda>(vs, q). (v # vs, q)) (object_loop depth (tl r'))
                      else None)
                   else if hd r' = CHR ''}'' then Some ([v], tl r')
                   else None))
           else None))"
  by pat_completeness auto

definition rest_measure ::
  "(nat \<times> string + nat \<times> string) + nat \<times> string + nat \<times> string + nat \<times> string \<Rightarrow> nat" where
  "rest_measure x =
     (case x of
        Inl (Inl (d, s)) \<Rightarrow> 3 * length s + 1
      | Inl (Inr (d, s)) \<Rightarrow> 3 * length s
      | Inr (Inl (d, s)) \<Rightarrow> 3 * length s + 2
      | Inr (Inr (Inl (d, s))) \<Rightarrow> 3 * length s
      | Inr (Inr (Inr (d, s))) \<Rightarrow> 3 * length s + 2)"

lemma length_skip_tl: "s \<noteq> [] \<Longrightarrow> length (buffer_skip_whitespace (tl s)) < length s"
  using length_skip_whitespace [of "tl s"] by (cases s) auto

lemma skip_measure:
  "3 * length (buffer_skip_whitespace s) < Suc (3 * length s)"
  "length t < length s \<Longrightarrow> 3 * length (buffer_skip_whitespace t) < Suc (3 * length s)"
  "s \<noteq> [] \<Longrightarrow> Suc (Suc (3 * length (buffer_skip_whitespace (tl s)))) < 3 * length s"
  using length_skip_whitespace [of s] length_skip_whitespace [of t] length_skip_tl [of s] by auto

termination parse_value
  by (relation "measure rest_measure") (simp_all add: rest_measure_def skip_measure)

declare parse_value.simps [simp del] parse_array.simps [simp del] array_loop.simps [simp del]
  parse_object.simps [simp del] object_loop.simps [simp del]

text \<open>The item and the text that follows it.\<close>

definition cJSON_ParseWithOpts :: "string option \<Rightarrow> bool \<Rightarrow> (cJSON \<times> string) option" where
  "cJSON_ParseWithOpts txt require_null_terminated =
     (case txt of
        None \<Rightarrow> None
      | Some t \<Rightarrow>
          (case parse_value 0 (buffer_skip_whitespace (skip_utf8_bom (c_string t @ [nul]))) of
             None \<Rightarrow> None
           | Some (it, r) \<Rightarrow>
               if require_null_terminated then
                 (let r' = buffer_skip_whitespace r in
                  if r' = [] \<or> hd r' \<noteq> nul then None else Some (it, r'))
               else Some (it, r)))"

definition cJSON_Parse :: "string option \<Rightarrow> cJSON option" where
  "cJSON_Parse txt = map_option fst (cJSON_ParseWithOpts txt False)"

section \<open>Printing\<close>

text \<open>A print buffer holds the text written so far, whose length is the offset.\<close>

record printbuffer =
  pb_text :: string
  pb_length :: nat
  pb_depth :: nat
  pb_noalloc :: bool
  pb_format :: bool

definition INT_MAX :: nat where
  "INT_MAX = 2147483647"

definition ensure :: "printbuffer \<Rightarrow> nat \<Rightarrow> printbuffer option" where
  "ensure p needed =
     (if 0 < pb_length p \<and> pb_length p \<le> length (pb_text p) then None
      else if INT_MAX < needed then None
      else
        (let n = needed + length (pb_text p) + 1 in
         if n \<le> pb_length p then Some p
         else if pb_noalloc p then None
         else if INT_MAX div 2 < n then
           (if n \<le> INT_MAX then Some (p\<lparr>pb_length := INT_MAX\<rparr>) else None)
         else Some (p\<lparr>pb_length := n * 2\<rparr>)))"

text \<open>Reserve space, then put_text a text there and move the offset past it.\<close>

definition put_text :: "printbuffer \<Rightarrow> nat \<Rightarrow> string \<Rightarrow> printbuffer option" where
  "put_text p needed txt = map_option (pb_text_update (\<lambda>t. t @ txt)) (ensure p needed)"

definition number_text :: "double \<Rightarrow> string" where
  "number_text d =
     (case d of
        Infinity neg \<Rightarrow> ''null''
      | Finite r \<Rightarrow>
          (let t = print_g 15 r in
           case strtod t of
             None \<Rightarrow> print_g 17 r
           | Some (test, rest) \<Rightarrow> if test \<noteq> d then print_g 17 r else t))"

definition print_number :: "cJSON \<Rightarrow> printbuffer \<Rightarrow> printbuffer option" where
  "print_number it p =
     (let t = number_text (valuedouble it) in
      if 25 < length t then None else put_text p (length t + 1) t)"

definition hex_char :: "nat \<Rightarrow> char" where
  "hex_char n = char_of (if n < 10 then 48 + n else 87 + n)"

definition escaped :: "char \<Rightarrow> string" where
  "escaped c =
     (if 31 < code c \<and> c \<noteq> quote \<and> c \<noteq> backslash then [c]
      else if c = backslash then [backslash, backslash]
      else if c = quote then [backslash, quote]
      else if c = CHR 0x08 then [backslash, CHR ''b'']
      else if c = CHR 0x0C then [backslash, CHR ''f'']
      else if c = CHR 0x0A then [backslash, CHR ''n'']
      else if c = CHR 0x0D then [backslash, CHR ''r'']
      else if c = CHR 0x09 then [backslash, CHR ''t'']
      else [backslash, CHR ''u'', CHR ''0'', CHR ''0'', hex_char (code c div 16), hex_char (code c mod 16)])"

definition escape_characters :: "string \<Rightarrow> nat" where
  "escape_characters s =
     sum_list (map (\<lambda>c. if c \<in> {quote, backslash, CHR 0x08, CHR 0x0C, CHR 0x0A, CHR 0x0D, CHR 0x09} then 1
                        else if code c < 32 then 5 else 0) s)"

definition print_string_ptr :: "string option \<Rightarrow> printbuffer \<Rightarrow> printbuffer option" where
  "print_string_ptr input p =
     (case input of
        None \<Rightarrow> put_text p 3 [quote, quote]
      | Some s \<Rightarrow>
          (let output_length = length s + escape_characters s in
           put_text p (output_length + 3)
             (if escape_characters s = 0 then quote # s @ [quote]
              else quote # concat (map escaped s) @ [quote])))"

definition print_string :: "cJSON \<Rightarrow> printbuffer \<Rightarrow> printbuffer option" where
  "print_string it p = print_string_ptr (valuestring it) p"

definition deeper :: "printbuffer \<Rightarrow> printbuffer" where
  "deeper p = p\<lparr>pb_depth := pb_depth p + 1\<rparr>"

definition shallower :: "printbuffer \<Rightarrow> printbuffer" where
  "shallower p = p\<lparr>pb_depth := pb_depth p - 1\<rparr>"

definition tabs :: "nat \<Rightarrow> string" where
  "tabs n = replicate n (CHR 0x09)"

function (sequential) print_value :: "cJSON \<Rightarrow> printbuffer \<Rightarrow> printbuffer option"
  and print_array :: "cJSON list \<Rightarrow> printbuffer \<Rightarrow> printbuffer option"
  and print_elements :: "cJSON list \<Rightarrow> printbuffer \<Rightarrow> printbuffer option"
  and print_object :: "cJSON list \<Rightarrow> printbuffer \<Rightarrow> printbuffer option"
  and print_members :: "cJSON list \<Rightarrow> printbuffer \<Rightarrow> printbuffer option"
where
  "print_value (Item t rf sc vs vi vd nm cs) p =
     (let it = Item t rf sc vs vi vd nm cs in
      case t of
        cJSON_NULL \<Rightarrow> put_text p 5 ''null''
      | cJSON_False \<Rightarrow> put_text p 6 ''false''
      | cJSON_True \<Rightarrow> put_text p 5 ''true''
      | cJSON_Number \<Rightarrow> print_number it p
      | cJSON_Raw \<Rightarrow> (case vs of None \<Rightarrow> None | Some raw \<Rightarrow> put_text p (length raw + 1) raw)
      | cJSON_String \<Rightarrow> print_string it p
      | cJSON_Array \<Rightarrow> print_array cs p
      | cJSON_Object \<Rightarrow> print_object cs p
      | cJSON_Invalid \<Rightarrow> None)"
| "print_array cs p =
     do { p1 \<leftarrow> put_text p 1 ''['';
          p2 \<leftarrow> print_elements cs (deeper p1);
          p3 \<leftarrow> put_text p2 2 '']'';
          Some (shallower p3) }"
| "print_elements [] p = Some p"
| "print_elements (c # cs) p =
     do { p1 \<leftarrow> print_value c p;
          p2 \<leftarrow> (if cs = [] then Some p1
                else if pb_format p1 then put_text p1 3 '', '' else put_text p1 2 '','');
          print_elements cs p2 }"
| "print_object cs p =
     do { p1 \<leftarrow> (if pb_format p then put_text p 3 [CHR ''{'', CHR 0x0A] else put_text p 2 ''{'');
          p2 \<leftarrow> print_members cs (deeper p1);
          p3 \<leftarrow> (if pb_format p2
                then put_text p2 (pb_depth p2 + 1) (tabs (pb_depth p2 - 1) @ ''}'')
                else put_text p2 2 ''}'');
          Some (shallower p3) }"
| "print_members [] p = Some p"
| "print_members (c # cs) p =
     do { p1 \<leftarrow> (if pb_format p then put_text p (pb_depth p) (tabs (pb_depth p)) else Some p);
          p2 \<leftarrow> print_string_ptr (item_string c) p1;
          p3 \<leftarrow> (if pb_format p2 then put_text p2 2 [CHR '':'', CHR 0x09] else put_text p2 1 '':'');
          p4 \<leftarrow> print_value c p3;
          p5 \<leftarrow> put_text p4 ((if pb_format p4 then 1 else 0) + (if cs = [] then 0 else 1) + 1)
                 ((if cs = [] then [] else '','') @ (if pb_format p4 then [CHR 0x0A] else []));
          print_members cs p5 }"
  by pat_completeness auto

termination print_value
  by (relation "measure (\<lambda>x. case x of
        Inl (Inl (i, p)) \<Rightarrow> 2 * size i
      | Inl (Inr (cs, p)) \<Rightarrow> 2 * size_list size cs + 1
      | Inr (Inl (cs, p)) \<Rightarrow> 2 * size_list size cs
      | Inr (Inr (Inl (cs, p))) \<Rightarrow> 2 * size_list size cs + 1
      | Inr (Inr (Inr (cs, p))) \<Rightarrow> 2 * size_list size cs)") simp_all

definition print :: "cJSON \<Rightarrow> bool \<Rightarrow> string option" where
  "print it format =
     map_option pb_text
       (print_value it \<lparr>pb_text = [], pb_length = 256, pb_depth = 0, pb_noalloc = False,
                         pb_format = format\<rparr>)"

definition cJSON_Print :: "cJSON \<Rightarrow> string option" where
  "cJSON_Print it = print it True"

definition cJSON_PrintUnformatted :: "cJSON \<Rightarrow> string option" where
  "cJSON_PrintUnformatted it = print it False"

definition cJSON_PrintBuffered :: "cJSON \<Rightarrow> int \<Rightarrow> bool \<Rightarrow> string option" where
  "cJSON_PrintBuffered it prebuffer fmt =
     (if prebuffer < 0 then None
      else map_option pb_text
             (print_value it \<lparr>pb_text = [], pb_length = nat prebuffer, pb_depth = 0,
                               pb_noalloc = False, pb_format = fmt\<rparr>))"

text \<open>The text written into a buffer of \<open>len\<close> bytes. A print that fails has filled a part of the buffer
  that its callers do not read; it is not modelled.\<close>

definition cJSON_PrintPreallocated :: "cJSON \<Rightarrow> int \<Rightarrow> bool \<Rightarrow> string option" where
  "cJSON_PrintPreallocated it len fmt =
     (if len < 0 then None
      else map_option pb_text
             (print_value it \<lparr>pb_text = [], pb_length = nat len, pb_depth = 0,
                               pb_noalloc = True, pb_format = fmt\<rparr>))"

section \<open>Access\<close>

text \<open>A pointer argument that may be NULL is an option.\<close>

definition tolower :: "char \<Rightarrow> char" where
  "tolower c = (if 65 \<le> code c \<and> code c \<le> 90 then char_of (code c + 32) else c)"

definition case_insensitive_strcmp :: "string option \<Rightarrow> string option \<Rightarrow> bool" where
  "case_insensitive_strcmp string1 string2 =
     (case (string1, string2) of
        (Some a, Some b) \<Rightarrow> map tolower a = map tolower b
      | _ \<Rightarrow> False)"

definition cJSON_GetArraySize :: "cJSON option \<Rightarrow> nat" where
  "cJSON_GetArraySize arr = (case arr of None \<Rightarrow> 0 | Some a \<Rightarrow> length (child a))"

fun nth_child :: "cJSON list \<Rightarrow> nat \<Rightarrow> cJSON option" where
  "nth_child [] i = None"
| "nth_child (c # cs) 0 = Some c"
| "nth_child (c # cs) (Suc i) = nth_child cs i"

definition get_array_item :: "cJSON option \<Rightarrow> nat \<Rightarrow> cJSON option" where
  "get_array_item arr i = (case arr of None \<Rightarrow> None | Some a \<Rightarrow> nth_child (child a) i)"

definition cJSON_GetArrayItem :: "cJSON option \<Rightarrow> int \<Rightarrow> cJSON option" where
  "cJSON_GetArrayItem arr i = (if i < 0 then None else get_array_item arr (nat i))"

text \<open>The position of the first member with a name. Comparing with the missing name of an array
  element case sensitively is undefined, the outer \<open>None\<close>.\<close>

fun find_exact :: "string \<Rightarrow> nat \<Rightarrow> cJSON list \<Rightarrow> nat option option" where
  "find_exact nm i [] = Some None"
| "find_exact nm i (c # cs) =
     (case item_string c of
        None \<Rightarrow> None
      | Some s \<Rightarrow> if s = nm then Some (Some i) else find_exact nm (Suc i) cs)"

fun find_folded :: "string \<Rightarrow> nat \<Rightarrow> cJSON list \<Rightarrow> nat option" where
  "find_folded nm i [] = None"
| "find_folded nm i (c # cs) =
     (if case_insensitive_strcmp (Some nm) (item_string c) then Some i else find_folded nm (Suc i) cs)"

definition get_object_item :: "cJSON option \<Rightarrow> string option \<Rightarrow> bool \<Rightarrow> nat option option" where
  "get_object_item obj name case_sensitive =
     (case (obj, name) of
        (Some ob, Some nm) \<Rightarrow>
          if case_sensitive then find_exact nm 0 (child ob) else Some (find_folded nm 0 (child ob))
      | _ \<Rightarrow> Some None)"

definition item_at :: "cJSON option \<Rightarrow> nat option \<Rightarrow> cJSON option" where
  "item_at obj pos =
     (case (obj, pos) of (Some ob, Some i) \<Rightarrow> nth_child (child ob) i | _ \<Rightarrow> None)"

definition cJSON_GetObjectItem :: "cJSON option \<Rightarrow> string \<Rightarrow> cJSON option" where
  "cJSON_GetObjectItem obj nm =
     Option.bind (get_object_item obj (Some nm) False) (item_at obj)"

definition cJSON_GetObjectItemCaseSensitive :: "cJSON option \<Rightarrow> string \<Rightarrow> cJSON option option" where
  "cJSON_GetObjectItemCaseSensitive obj nm =
     map_option (item_at obj) (get_object_item obj (Some nm) True)"

definition cJSON_HasObjectItem :: "cJSON option \<Rightarrow> string \<Rightarrow> bool" where
  "cJSON_HasObjectItem obj nm \<longleftrightarrow> cJSON_GetObjectItem obj nm \<noteq> None"

definition has_type :: "json_type \<Rightarrow> cJSON option \<Rightarrow> bool" where
  "has_type t it = (case it of None \<Rightarrow> False | Some i \<Rightarrow> jtype i = t)"

definition cJSON_IsInvalid :: "cJSON option \<Rightarrow> bool" where "cJSON_IsInvalid = has_type cJSON_Invalid"
definition cJSON_IsFalse :: "cJSON option \<Rightarrow> bool" where "cJSON_IsFalse = has_type cJSON_False"
definition cJSON_IsTrue :: "cJSON option \<Rightarrow> bool" where "cJSON_IsTrue = has_type cJSON_True"
definition cJSON_IsNull :: "cJSON option \<Rightarrow> bool" where "cJSON_IsNull = has_type cJSON_NULL"
definition cJSON_IsNumber :: "cJSON option \<Rightarrow> bool" where "cJSON_IsNumber = has_type cJSON_Number"
definition cJSON_IsString :: "cJSON option \<Rightarrow> bool" where "cJSON_IsString = has_type cJSON_String"
definition cJSON_IsArray :: "cJSON option \<Rightarrow> bool" where "cJSON_IsArray = has_type cJSON_Array"
definition cJSON_IsObject :: "cJSON option \<Rightarrow> bool" where "cJSON_IsObject = has_type cJSON_Object"
definition cJSON_IsRaw :: "cJSON option \<Rightarrow> bool" where "cJSON_IsRaw = has_type cJSON_Raw"

definition cJSON_IsBool :: "cJSON option \<Rightarrow> bool" where
  "cJSON_IsBool it \<longleftrightarrow> cJSON_IsTrue it \<or> cJSON_IsFalse it"

section \<open>Building\<close>

definition cJSON_strdup :: "string option \<Rightarrow> string option" where
  "cJSON_strdup s = map_option c_string s"

definition cJSON_CreateNull :: cJSON where "cJSON_CreateNull = kind_item cJSON_NULL"
definition cJSON_CreateTrue :: cJSON where "cJSON_CreateTrue = kind_item cJSON_True"
definition cJSON_CreateFalse :: cJSON where "cJSON_CreateFalse = kind_item cJSON_False"
definition cJSON_CreateArray :: cJSON where "cJSON_CreateArray = kind_item cJSON_Array"
definition cJSON_CreateObject :: cJSON where "cJSON_CreateObject = kind_item cJSON_Object"

definition cJSON_CreateBool :: "bool \<Rightarrow> cJSON" where
  "cJSON_CreateBool b = kind_item (if b then cJSON_True else cJSON_False)"

definition cJSON_CreateNumber :: "double \<Rightarrow> cJSON" where
  "cJSON_CreateNumber num = number_item num"

definition cJSON_CreateString :: "string option \<Rightarrow> cJSON option" where
  "cJSON_CreateString s = map_option string_item (cJSON_strdup s)"

definition cJSON_CreateRaw :: "string option \<Rightarrow> cJSON option" where
  "cJSON_CreateRaw raw =
     map_option (\<lambda>v. Item cJSON_Raw False False (Some v) 0 (Finite 0) None []) (cJSON_strdup raw)"

text \<open>\<open>numbers\<close> and \<open>strings\<close> are the first \<open>n\<close> elements of the array argument.\<close>

definition cJSON_CreateIntArray :: "int list option \<Rightarrow> int \<Rightarrow> cJSON option" where
  "cJSON_CreateIntArray numbers n =
     (case numbers of
        None \<Rightarrow> None
      | Some ns \<Rightarrow>
          if n < 0 then None
          else Some (with_child (map (\<lambda>k. cJSON_CreateNumber (int_to_double k)) (take (nat n) ns))
                       cJSON_CreateArray))"

definition cJSON_CreateDoubleArray :: "double list option \<Rightarrow> int \<Rightarrow> cJSON option" where
  "cJSON_CreateDoubleArray numbers n =
     (case numbers of
        None \<Rightarrow> None
      | Some ns \<Rightarrow>
          if n < 0 then None
          else Some (with_child (map cJSON_CreateNumber (take (nat n) ns)) cJSON_CreateArray))"

definition cJSON_CreateStringArray :: "string option list option \<Rightarrow> int \<Rightarrow> cJSON option" where
  "cJSON_CreateStringArray strings n =
     (case strings of
        None \<Rightarrow> None
      | Some ss \<Rightarrow>
          if n < 0 then None
          else map_option (\<lambda>cs. with_child cs cJSON_CreateArray)
                 (those (map cJSON_CreateString (take (nat n) ss))))"

text \<open>Adding returns the changed parent, \<open>None\<close> if the code returns false.\<close>

definition add_item_to_array :: "cJSON option \<Rightarrow> cJSON option \<Rightarrow> cJSON option" where
  "add_item_to_array arr it =
     (case (arr, it) of
        (Some a, Some i) \<Rightarrow> Some (with_child (child a @ [i]) a)
      | _ \<Rightarrow> None)"

definition add_item_to_object ::
  "cJSON option \<Rightarrow> string option \<Rightarrow> cJSON option \<Rightarrow> bool \<Rightarrow> cJSON option" where
  "add_item_to_object obj name it constant_key =
     (case (obj, name, it) of
        (Some ob, Some nm, Some i) \<Rightarrow>
          add_item_to_array obj (Some (with_string (cJSON_strdup name) constant_key i))
      | _ \<Rightarrow> None)"

definition or_unchanged :: "'a option \<Rightarrow> 'a \<Rightarrow> 'a" where
  "or_unchanged r a = (case r of None \<Rightarrow> a | Some b \<Rightarrow> b)"

definition cJSON_AddItemToArray :: "cJSON \<Rightarrow> cJSON option \<Rightarrow> cJSON" where
  "cJSON_AddItemToArray a it = or_unchanged (add_item_to_array (Some a) it) a"

definition cJSON_AddItemToObject :: "cJSON \<Rightarrow> string \<Rightarrow> cJSON option \<Rightarrow> cJSON" where
  "cJSON_AddItemToObject ob nm it = or_unchanged (add_item_to_object (Some ob) (Some nm) it False) ob"

definition cJSON_AddItemToObjectCS :: "cJSON \<Rightarrow> string \<Rightarrow> cJSON option \<Rightarrow> cJSON" where
  "cJSON_AddItemToObjectCS ob nm it = or_unchanged (add_item_to_object (Some ob) (Some nm) it True) ob"

definition cJSON_AddNullToObject :: "cJSON \<Rightarrow> string \<Rightarrow> cJSON" where
  "cJSON_AddNullToObject ob nm = cJSON_AddItemToObject ob nm (Some cJSON_CreateNull)"

definition cJSON_AddTrueToObject :: "cJSON \<Rightarrow> string \<Rightarrow> cJSON" where
  "cJSON_AddTrueToObject ob nm = cJSON_AddItemToObject ob nm (Some cJSON_CreateTrue)"

definition cJSON_AddFalseToObject :: "cJSON \<Rightarrow> string \<Rightarrow> cJSON" where
  "cJSON_AddFalseToObject ob nm = cJSON_AddItemToObject ob nm (Some cJSON_CreateFalse)"

definition cJSON_AddBoolToObject :: "cJSON \<Rightarrow> string \<Rightarrow> bool \<Rightarrow> cJSON" where
  "cJSON_AddBoolToObject ob nm b = cJSON_AddItemToObject ob nm (Some (cJSON_CreateBool b))"

definition cJSON_AddNumberToObject :: "cJSON \<Rightarrow> string \<Rightarrow> double \<Rightarrow> cJSON" where
  "cJSON_AddNumberToObject ob nm d = cJSON_AddItemToObject ob nm (Some (cJSON_CreateNumber d))"

definition cJSON_AddStringToObject :: "cJSON \<Rightarrow> string \<Rightarrow> string option \<Rightarrow> cJSON" where
  "cJSON_AddStringToObject ob nm s = cJSON_AddItemToObject ob nm (cJSON_CreateString s)"

definition cJSON_AddRawToObject :: "cJSON \<Rightarrow> string \<Rightarrow> string option \<Rightarrow> cJSON" where
  "cJSON_AddRawToObject ob nm raw = cJSON_AddItemToObject ob nm (cJSON_CreateRaw raw)"

definition cJSON_AddObjectToObject :: "cJSON \<Rightarrow> string \<Rightarrow> cJSON" where
  "cJSON_AddObjectToObject ob nm = cJSON_AddItemToObject ob nm (Some cJSON_CreateObject)"

definition cJSON_AddArrayToObject :: "cJSON \<Rightarrow> string \<Rightarrow> cJSON" where
  "cJSON_AddArrayToObject ob nm = cJSON_AddItemToObject ob nm (Some cJSON_CreateArray)"

section \<open>Changing\<close>

text \<open>A child is named by its position; the changed parent and the detached child.\<close>

definition cJSON_DetachItemViaPointer :: "cJSON \<Rightarrow> nat option \<Rightarrow> cJSON \<times> cJSON option" where
  "cJSON_DetachItemViaPointer parent pos =
     (case pos of
        None \<Rightarrow> (parent, None)
      | Some i \<Rightarrow>
          (case nth_child (child parent) i of
             None \<Rightarrow> (parent, None)
           | Some c \<Rightarrow> (with_child (take i (child parent) @ drop (Suc i) (child parent)) parent, Some c)))"

definition cJSON_DetachItemFromArray :: "cJSON \<Rightarrow> int \<Rightarrow> cJSON \<times> cJSON option" where
  "cJSON_DetachItemFromArray arr which =
     (if which < 0 then (arr, None) else cJSON_DetachItemViaPointer arr (Some (nat which)))"

definition cJSON_DeleteItemFromArray :: "cJSON \<Rightarrow> int \<Rightarrow> cJSON" where
  "cJSON_DeleteItemFromArray arr which = fst (cJSON_DetachItemFromArray arr which)"

definition cJSON_DetachItemFromObject :: "cJSON \<Rightarrow> string \<Rightarrow> cJSON \<times> cJSON option" where
  "cJSON_DetachItemFromObject ob nm =
     cJSON_DetachItemViaPointer ob (find_folded nm 0 (child ob))"

definition cJSON_DeleteItemFromObject :: "cJSON \<Rightarrow> string \<Rightarrow> cJSON" where
  "cJSON_DeleteItemFromObject ob nm = fst (cJSON_DetachItemFromObject ob nm)"

definition cJSON_InsertItemInArray :: "cJSON \<Rightarrow> int \<Rightarrow> cJSON \<Rightarrow> cJSON" where
  "cJSON_InsertItemInArray arr which newitem =
     (if which < 0 then arr
      else if get_array_item (Some arr) (nat which) = None
      then or_unchanged (add_item_to_array (Some arr) (Some newitem)) arr
      else with_child (take (nat which) (child arr) @ newitem # drop (nat which) (child arr)) arr)"

definition cJSON_ReplaceItemViaPointer :: "cJSON \<Rightarrow> nat option \<Rightarrow> cJSON \<Rightarrow> cJSON" where
  "cJSON_ReplaceItemViaPointer parent pos replacement =
     (case pos of
        None \<Rightarrow> parent
      | Some i \<Rightarrow>
          if i < length (child parent) then with_child ((child parent)[i := replacement]) parent
          else parent)"

definition cJSON_ReplaceItemInArray :: "cJSON \<Rightarrow> int \<Rightarrow> cJSON \<Rightarrow> cJSON" where
  "cJSON_ReplaceItemInArray arr which newitem =
     (if which < 0 then arr else cJSON_ReplaceItemViaPointer arr (Some (nat which)) newitem)"

definition replace_item_in_object :: "cJSON \<Rightarrow> string option \<Rightarrow> cJSON option \<Rightarrow> bool \<Rightarrow> cJSON option" where
  "replace_item_in_object ob name replacement case_sensitive =
     (case (name, replacement) of
        (Some nm, Some r) \<Rightarrow>
          map_option
            (\<lambda>pos. cJSON_ReplaceItemViaPointer ob pos (with_string (cJSON_strdup name) False r))
            (get_object_item (Some ob) name case_sensitive)
      | _ \<Rightarrow> Some ob)"

definition cJSON_ReplaceItemInObject :: "cJSON \<Rightarrow> string \<Rightarrow> cJSON \<Rightarrow> cJSON" where
  "cJSON_ReplaceItemInObject ob nm newitem =
     or_unchanged (replace_item_in_object ob (Some nm) (Some newitem) False) ob"

fun duplicate :: "cJSON \<Rightarrow> cJSON" where
  "duplicate (Item t rf sc vs vi vd nm cs) = Item t False sc vs vi vd nm (map duplicate cs)"

definition cJSON_Duplicate :: "cJSON option \<Rightarrow> bool \<Rightarrow> cJSON option" where
  "cJSON_Duplicate it recurse =
     (case it of
        None \<Rightarrow> None
      | Some i \<Rightarrow> Some (if recurse then duplicate i else duplicate (with_child [] i)))"

section \<open>Removing white space\<close>

fun skip_line :: "string \<Rightarrow> string" where
  "skip_line [] = []"
| "skip_line (c # s) = (if c = CHR 0x0A then c # s else skip_line s)"

text \<open>The end of a comment: \<open>None\<close> if the text ends first, when the code goes on two bytes after
  the terminator.\<close>

fun skip_comment :: "string \<Rightarrow> string option" where
  "skip_comment [] = None"
| "skip_comment (c # s) = (if c = CHR ''*'' \<and> s \<noteq> [] \<and> hd s = CHR ''/'' then Some (tl s) else skip_comment s)"

text \<open>A literal and what follows it; \<open>None\<close> if it is not closed, when the code goes on after the
  terminator.\<close>

fun copy_literal :: "string \<Rightarrow> (string \<times> string) option" where
  "copy_literal [] = None"
| "copy_literal (c # s) =
     (if c = quote then Some ([c], s)
      else if c = backslash then
        (case s of
           [] \<Rightarrow> None
         | d # s' \<Rightarrow> map_option (\<lambda>(t, r). (c # d # t, r)) (copy_literal s'))
      else map_option (\<lambda>(t, r). (c # t, r)) (copy_literal s))"

lemma length_skip_line [termination_simp]: "length (skip_line s) \<le> length s"
  by (induction s) auto

lemma length_skip_comment: "skip_comment s = Some r \<Longrightarrow> length r < length s"
  by (induction s) (auto split: if_splits)

lemma length_copy_literal: "copy_literal s = Some (t, r) \<Longrightarrow> length r < length s"
  by (induction s arbitrary: t r rule: copy_literal.induct) (fastforce split: if_splits list.splits)+

function minify :: "string \<Rightarrow> string option" where
  "minify s =
     (case s of
        [] \<Rightarrow> Some []
      | c # s' \<Rightarrow>
          if c = CHR '' '' \<or> c = CHR 0x09 \<or> c = CHR 0x0D \<or> c = CHR 0x0A then minify s'
          else if c = CHR ''/'' \<and> s' \<noteq> [] \<and> hd s' = CHR ''/'' then minify (skip_line s')
          else if c = CHR ''/'' \<and> s' \<noteq> [] \<and> hd s' = CHR ''*'' then
            (case skip_comment s' of None \<Rightarrow> None | Some r \<Rightarrow> minify r)
          else if c = quote then
            (case copy_literal s' of
               None \<Rightarrow> None
             | Some (t, r) \<Rightarrow> map_option (\<lambda>u. c # t @ u) (minify r))
          else map_option (\<lambda>u. c # u) (minify s'))"
  by pat_completeness auto

termination minify
  by (relation "measure length")
    (auto dest: length_skip_comment length_copy_literal simp: less_Suc_eq_le length_skip_line)

declare minify.simps [simp del]

definition cJSON_Minify :: "string option \<Rightarrow> string option option" where
  "cJSON_Minify json = (case json of None \<Rightarrow> Some None | Some t \<Rightarrow> map_option Some (minify (c_string t)))"

end
