(* ===== verification/Cjson_Roundtrip.thy ===== *)
theory Cjson_Roundtrip
  imports Cjson "HOL-Library.Sublist"
begin

text \<open>
  Correctness of the JSON library: the parser only moves forward, the printer stays within its
  buffer, and printing an item and parsing the text gives the item back. \<open>compact_value\<close> is the
  reference definition of the unformatted text, without buffers.
\<close>

section \<open>Definitions of the properties\<close>

definition compact_string :: "string option \<Rightarrow> string" where
  "compact_string s = quote # concat (map escaped (case s of None \<Rightarrow> [] | Some t \<Rightarrow> t)) @ [quote]"

fun compact_value :: "cJSON \<Rightarrow> string"
  and compact_elements :: "cJSON list \<Rightarrow> string"
  and compact_members :: "cJSON list \<Rightarrow> string"
where
  "compact_value (Item t rf sc vs vi vd nm cs) =
     (case t of
        cJSON_NULL \<Rightarrow> ''null''
      | cJSON_False \<Rightarrow> ''false''
      | cJSON_True \<Rightarrow> ''true''
      | cJSON_Number \<Rightarrow> number_text vd
      | cJSON_Raw \<Rightarrow> (case vs of None \<Rightarrow> [] | Some raw \<Rightarrow> raw)
      | cJSON_String \<Rightarrow> compact_string vs
      | cJSON_Array \<Rightarrow> ''['' @ compact_elements cs @ '']''
      | cJSON_Object \<Rightarrow> ''{'' @ compact_members cs @ ''}''
      | cJSON_Invalid \<Rightarrow> [])"
| "compact_elements [] = []"
| "compact_elements (c # cs) = compact_value c @ (if cs = [] then [] else '','') @ compact_elements cs"
| "compact_members [] = []"
| "compact_members (c # cs) =
     compact_string (item_string c) @ '':'' @ compact_value c @ (if cs = [] then [] else '','')
       @ compact_members cs"

text \<open>Items that a text can stand for: the kinds of JSON, whole numbers below \<open>10 ^ 15\<close>,
  names exactly on the members of objects.\<close>

definition whole :: "double \<Rightarrow> bool" where
  "whole d = (case d of Infinity neg \<Rightarrow> False | Finite r \<Rightarrow> r = of_int \<lfloor>r\<rfloor> \<and> \<bar>r\<bar> < 10 ^ 15)"

definition text_ok :: "string option \<Rightarrow> bool" where
  "text_ok s = (case s of None \<Rightarrow> False | Some t \<Rightarrow> nul \<notin> set t)"

fun plain :: "cJSON \<Rightarrow> bool"
  and plain_elements :: "cJSON list \<Rightarrow> bool"
  and plain_members :: "cJSON list \<Rightarrow> bool"
where
  "plain (Item t rf sc vs vi vd nm cs) \<longleftrightarrow>
     \<not> rf \<and> \<not> sc \<and>
     (case t of
        cJSON_Number \<Rightarrow> vs = None \<and> cs = [] \<and> whole vd \<and> vi = saturate vd
      | cJSON_String \<Rightarrow> text_ok vs \<and> cs = [] \<and> vi = 0 \<and> vd = Finite 0
      | cJSON_True \<Rightarrow> vs = None \<and> cs = [] \<and> vi = 1 \<and> vd = Finite 0
      | cJSON_Array \<Rightarrow> vs = None \<and> plain_elements cs \<and> vi = 0 \<and> vd = Finite 0
      | cJSON_Object \<Rightarrow> vs = None \<and> plain_members cs \<and> vi = 0 \<and> vd = Finite 0
      | cJSON_NULL \<Rightarrow> vs = None \<and> cs = [] \<and> vi = 0 \<and> vd = Finite 0
      | cJSON_False \<Rightarrow> vs = None \<and> cs = [] \<and> vi = 0 \<and> vd = Finite 0
      | _ \<Rightarrow> False)"
| "plain_elements [] \<longleftrightarrow> True"
| "plain_elements (c # cs) \<longleftrightarrow> item_string c = None \<and> plain c \<and> plain_elements cs"
| "plain_members [] \<longleftrightarrow> True"
| "plain_members (c # cs) \<longleftrightarrow> text_ok (item_string c) \<and> plain c \<and> plain_members cs"

text \<open>Items that the parser yields: like \<open>plain\<close>, with any number.\<close>

fun typed :: "cJSON \<Rightarrow> bool"
  and typed_elements :: "cJSON list \<Rightarrow> bool"
  and typed_members :: "cJSON list \<Rightarrow> bool"
where
  "typed (Item t rf sc vs vi vd nm cs) \<longleftrightarrow>
     \<not> rf \<and> \<not> sc \<and>
     (case t of
        cJSON_Number \<Rightarrow> vs = None \<and> cs = [] \<and> vi = saturate vd
      | cJSON_String \<Rightarrow> text_ok vs \<and> cs = [] \<and> vi = 0 \<and> vd = Finite 0
      | cJSON_True \<Rightarrow> vs = None \<and> cs = [] \<and> vi = 1 \<and> vd = Finite 0
      | cJSON_Array \<Rightarrow> vs = None \<and> typed_elements cs \<and> vi = 0 \<and> vd = Finite 0
      | cJSON_Object \<Rightarrow> vs = None \<and> typed_members cs \<and> vi = 0 \<and> vd = Finite 0
      | cJSON_NULL \<Rightarrow> vs = None \<and> cs = [] \<and> vi = 0 \<and> vd = Finite 0
      | cJSON_False \<Rightarrow> vs = None \<and> cs = [] \<and> vi = 0 \<and> vd = Finite 0
      | _ \<Rightarrow> False)"
| "typed_elements [] \<longleftrightarrow> True"
| "typed_elements (c # cs) \<longleftrightarrow> item_string c = None \<and> typed c \<and> typed_elements cs"
| "typed_members [] \<longleftrightarrow> True"
| "typed_members (c # cs) \<longleftrightarrow> text_ok (item_string c) \<and> typed c \<and> typed_members cs"

text \<open>How deep arrays and objects are nested.\<close>

fun nesting :: "cJSON \<Rightarrow> nat"
  and nesting_list :: "cJSON list \<Rightarrow> nat"
where
  "nesting (Item t rf sc vs vi vd nm cs) =
     (if t = cJSON_Array \<or> t = cJSON_Object then Suc (nesting_list cs) else 0)"
| "nesting_list [] = 0"
| "nesting_list (c # cs) = max (nesting c) (nesting_list cs)"

section \<open>The parser moves forward\<close>

lemma suffix_skip_whitespace: "suffix (buffer_skip_whitespace s) s"
  by (simp add: buffer_skip_whitespace_def Let_def suffix_drop suffix_dropWhile)

lemma suffix_skip_utf8_bom: "suffix (skip_utf8_bom s) s"
  by (simp add: skip_utf8_bom_def suffix_drop)

lemma strict_suffix_step: "suffix r s \<Longrightarrow> strict_suffix r (c # s)"
  by (auto simp: strict_suffix_def suffix_Cons dest: suffix_length_le)

lemma strict_suffix_tl: "s \<noteq> [] \<Longrightarrow> suffix r (tl s) \<Longrightarrow> strict_suffix r s"
  by (cases s) (simp_all add: strict_suffix_step)

lemma find_end_suffix: "find_end s = Some (t, r) \<Longrightarrow> strict_suffix r s"
proof (induction s arbitrary: t r rule: find_end.induct)
  case (2 c s)
  then show ?case
    by (fastforce split: if_splits list.splits
        intro!: strict_suffix_step intro: suffix_order.less_imp_le suffix_ConsI)
qed simp

lemma parse_string_suffix: "parse_string s = Some (t, r) \<Longrightarrow> strict_suffix r s"
  by (auto simp: parse_string_def intro!: strict_suffix_step suffix_order.less_imp_le
      dest!: find_end_suffix split: list.splits if_splits option.splits)

lemma take_sign_length: "take_sign s = (b, r) \<Longrightarrow> length r \<le> length s"
  by (auto simp: take_sign_def split: list.splits if_splits)

lemma take_digits_length: "take_digits s = (ds, r) \<Longrightarrow> length ds + length r = length s"
  unfolding take_digits_def by (metis Pair_inject length_append takeWhile_dropWhile_id)

lemma take_fraction_length: "take_fraction s = (ds, r) \<Longrightarrow> length ds + length r \<le> length s"
  by (auto simp: take_fraction_def dest: take_digits_length split: list.splits if_splits)

lemma take_exponent_length: "take_exponent s = (e, r) \<Longrightarrow> length r \<le> length s"
  by (auto simp: take_exponent_def dest!: take_sign_length take_digits_length
      split: list.splits if_splits prod.splits)

lemma strtod_length: "strtod t = Some (d, r) \<Longrightarrow> length r < length t"
  by (auto simp: strtod_def Let_def split: prod.splits if_splits
      dest!: take_sign_length take_digits_length take_fraction_length take_exponent_length
      simp flip: length_greater_0_conv)

lemma strict_suffix_drop: "0 < n \<Longrightarrow> s \<noteq> [] \<Longrightarrow> strict_suffix (drop n s) s"
  by (cases n; cases s) (simp_all add: strict_suffix_step suffix_drop)

lemma parse_number_suffix:
  assumes "parse_number s = Some (v, r)"
  shows "strict_suffix r s"
proof -
  define t where "t = takeWhile number_char (take 63 s)"
  obtain d q where q: "strtod t = Some (d, q)" "r = drop (length t - length q) s"
    using assms by (auto simp: parse_number_def t_def Let_def split: option.splits)
  have "length q < length t" "length t \<le> length s"
    using strtod_length [OF q(1)] by (auto simp: t_def intro: order_trans [OF length_takeWhile_le])
  then show ?thesis
    unfolding q(2) by (intro strict_suffix_drop) auto
qed

lemma starts_with_nonempty: "starts_with t s \<Longrightarrow> t \<noteq> [] \<Longrightarrow> s \<noteq> []"
  by (auto simp: starts_with_def)

lemma skip_then:
  "suffix r (buffer_skip_whitespace s) \<Longrightarrow> suffix r s"
  "strict_suffix r (buffer_skip_whitespace s) \<Longrightarrow> strict_suffix r s"
  using suffix_skip_whitespace [of s]
  by (auto intro: suffix_order.order_trans suffix_order.less_le_trans)

lemma after_skip:
  assumes "suffix r s" "buffer_skip_whitespace r = r'" "r' \<noteq> []"
  shows "strict_suffix (tl r') s"
proof -
  have "strict_suffix (tl r') r'"
    using assms(3) by (simp add: strict_suffix_tl)
  then have "strict_suffix (tl r') r"
    using assms(2) skip_then(2) by blast
  with assms(1) show ?thesis
    by (rule suffix_order.less_le_trans [rotated])
qed

lemma parse_consumes:
  "parse_value d s = Some (v, r) \<Longrightarrow> strict_suffix r s"
  "parse_array d s = Some (v, r) \<Longrightarrow> strict_suffix r s"
  "array_loop d s = Some (vs, r) \<Longrightarrow> strict_suffix r s"
  "parse_object d s = Some (v, r) \<Longrightarrow> strict_suffix r s"
  "object_loop d s = Some (vs, r) \<Longrightarrow> strict_suffix r s"
proof (induction d s and d s and d s and d s and d s arbitrary: v r and v r and vs r and v r and vs r
    rule: parse_value_parse_array_array_loop_parse_object_object_loop.induct)
  case (1 depth s)
  show ?case
  proof (cases "starts_with ''null'' s \<or> starts_with ''false'' s \<or> starts_with ''true'' s")
    case True
    then have "s \<noteq> []" "r = drop 4 s \<or> r = drop 5 s"
      using 1(3) by (auto simp: parse_value.simps [of depth s] starts_with_def split: if_splits)
    then show ?thesis
      using strict_suffix_drop [of 4 s] strict_suffix_drop [of 5 s] by auto
  next
    case False
    then have neg: "\<not> starts_with ''null'' s" "\<not> starts_with ''false'' s" "\<not> starts_with ''true'' s"
      by simp_all
    note eq = parse_value.simps [of depth s] if_not_P [OF neg(1)] if_not_P [OF neg(2)] if_not_P [OF neg(3)]
    have ne: "s \<noteq> []"
      using 1(3) by (auto simp: eq)
    show ?thesis
    proof (cases "hd s = quote")
      case True
      with 1(3) ne show ?thesis
        by (auto simp: eq dest: parse_string_suffix)
    next
      case q: False
      show ?thesis
      proof (cases "hd s = CHR ''-'' \<or> is_digit (hd s)")
        case True
        with 1(3) ne q show ?thesis
          by (auto simp: eq dest: parse_number_suffix)
      next
        case n: False
        show ?thesis
          using 1(3) 1(1) [OF neg ne q n] 1(2) [OF neg ne q n] ne q n
          by (auto simp: eq split: if_splits)
      qed
    qed
  qed
next
  case (2 depth s)
  then have "s \<noteq> []" "suffix r (buffer_skip_whitespace (tl s))"
    by (auto simp: parse_array.simps [of depth s] Let_def suffix_order.less_imp_le split: if_splits)
  then show ?case
    by (rule strict_suffix_tl [OF _ skip_then(1)])
next
  case (3 depth s)
  from 3(3) obtain v0 r0 where v: "parse_value depth (buffer_skip_whitespace s) = Some (v0, r0)"
    by (auto simp: array_loop.simps [of depth s] split: option.splits)
  let ?r = "buffer_skip_whitespace r0"
  have a: "?r \<noteq> [] \<Longrightarrow> strict_suffix (tl ?r) s"
    using 3(1) [OF v] skip_then(2) by (intro after_skip [OF _ refl]) (auto intro: suffix_order.less_imp_le)
  from 3(3) v consider
      "?r \<noteq> []" "r = tl ?r"
    | ws where "?r \<noteq> []" "hd ?r = CHR '',''" "length (tl ?r) < length s"
        "array_loop depth (tl ?r) = Some (ws, r)"
    by (auto simp: array_loop.simps [of depth s] Let_def split: if_splits)
  then show ?case
  proof cases
    case 1
    with a show ?thesis
      by simp
  next
    case 2
    have "strict_suffix r (tl ?r)"
      by (rule 3(2) [OF v refl refl 2])
    then show ?thesis
      using a [OF 2(1)] by (rule suffix_order.less_trans)
  qed
next
  case (4 depth s)
  then have "s \<noteq> []" "suffix r (buffer_skip_whitespace (tl s))"
    by (auto simp: parse_object.simps [of depth s] Let_def suffix_order.less_imp_le split: if_splits)
  then show ?case
    by (rule strict_suffix_tl [OF _ skip_then(1)])
next
  case (5 depth s)
  from 5(3) obtain nm r0 where n: "parse_string (buffer_skip_whitespace s) = Some (nm, r0)"
    by (auto simp: object_loop.simps [of depth s] split: option.splits)
  let ?r1 = "buffer_skip_whitespace r0"
  from 5(3) n obtain v0 q where q: "\<not> (?r1 = [] \<or> hd ?r1 \<noteq> CHR '':'')" "length (tl ?r1) < length s"
    "parse_value depth (buffer_skip_whitespace (tl ?r1)) = Some (v0, q)"
    by (auto simp: object_loop.simps [of depth s] Let_def split: if_splits option.splits)
  let ?r = "buffer_skip_whitespace q"
  have "strict_suffix (tl ?r1) s"
    using q(1) parse_string_suffix [OF n] skip_then(2)
    by (intro after_skip [OF _ refl]) (auto intro: suffix_order.less_imp_le)
  moreover have "strict_suffix q (tl ?r1)"
    by (rule skip_then(2), rule 5(1) [OF n refl refl q(1,2,3)])
  ultimately have a: "?r \<noteq> [] \<Longrightarrow> strict_suffix (tl ?r) s"
    by (intro after_skip [OF _ refl]) (auto dest: suffix_order.less_trans intro: suffix_order.less_imp_le)
  from 5(3) n q consider
      "?r \<noteq> []" "r = tl ?r"
    | ws where "?r \<noteq> []" "hd ?r = CHR '',''" "length (tl ?r) < length s"
        "object_loop depth (tl ?r) = Some (ws, r)"
    by (auto simp: object_loop.simps [of depth s] Let_def split: if_splits)
  then show ?case
  proof cases
    case 1
    with a show ?thesis
      by simp
  next
    case 2
    have "strict_suffix r (tl ?r)"
      by (rule 5(2) [OF n refl refl q refl refl refl 2])
    then show ?thesis
      using a [OF 2(1)] by (rule suffix_order.less_trans)
  qed
qed

text \<open>Every element consumes text, so the length tests of the two loops always succeed: the loops satisfy
  the recursion of the code, which has no such tests.\<close>

lemma loop_rest_shorter:
  assumes "strict_suffix r (buffer_skip_whitespace s)"
  shows "length (tl (buffer_skip_whitespace r)) < length s"
proof -
  have "length r < length s"
    using suffix_length_less [OF assms] length_skip_whitespace [of s] by linarith
  then show ?thesis
    using length_skip_whitespace [of r] by simp
qed

lemma array_loop_recursion:
  "array_loop depth s =
     (case parse_value depth (buffer_skip_whitespace s) of
        None \<Rightarrow> None
      | Some (v, r) \<Rightarrow>
          (let r' = buffer_skip_whitespace r in
           if r' = [] then None
           else if hd r' = CHR '','' then map_option (\<lambda>(vs, q). (v # vs, q)) (array_loop depth (tl r'))
           else if hd r' = CHR '']'' then Some ([v], tl r')
           else None))"
proof (cases "parse_value depth (buffer_skip_whitespace s)")
  case (Some vr)
  obtain v r where vr: "vr = (v, r)" by (cases vr)
  have "length (tl (buffer_skip_whitespace r)) < length s"
    by (rule loop_rest_shorter) (use Some vr parse_consumes(1) in blast)
  then show ?thesis
    using Some vr by (simp add: array_loop.simps [of depth s] Let_def del: length_tl)
qed (simp add: array_loop.simps [of depth s])

lemma object_loop_recursion:
  "object_loop depth s =
     (case parse_string (buffer_skip_whitespace s) of
        None \<Rightarrow> None
      | Some (nm, r0) \<Rightarrow>
          (let r1 = buffer_skip_whitespace r0 in
           if r1 = [] \<or> hd r1 \<noteq> CHR '':'' then None
           else
             (case parse_value depth (buffer_skip_whitespace (tl r1)) of
                None \<Rightarrow> None
              | Some (v0, r) \<Rightarrow>
                  (let v = with_string (Some nm) False v0; r' = buffer_skip_whitespace r in
                   if r' = [] then None
                   else if hd r' = CHR '','' then map_option (\<lambda>(vs, q). (v # vs, q)) (object_loop depth (tl r'))
                   else if hd r' = CHR ''}'' then Some ([v], tl r')
                   else None))))"
proof -
  have name: "length (tl (buffer_skip_whitespace r0)) < length s"
    if "parse_string (buffer_skip_whitespace s) = Some (nm, r0)" for nm r0
    by (rule loop_rest_shorter) (use that parse_string_suffix in blast)
  have val: "length (tl (buffer_skip_whitespace r)) < length s"
    if "parse_string (buffer_skip_whitespace s) = Some (nm, r0)"
      "parse_value depth (buffer_skip_whitespace (tl (buffer_skip_whitespace r0))) = Some (v, r)" for nm r0 v r
    using loop_rest_shorter [OF parse_consumes(1) [OF that(2)]] name [OF that(1)] by linarith
  show ?thesis
    by (subst object_loop.simps) (auto simp: Let_def name val simp del: length_tl split: option.split)
qed

section \<open>The printer\<close>

lemma length_escaped:
  "length (escaped c) =
     1 + (if c \<in> {quote, backslash, CHR 0x08, CHR 0x0C, CHR 0x0A, CHR 0x0D, CHR 0x09} then 1
          else if code c < 32 then 5 else 0)"
  by (auto simp: escaped_def code_def)

lemma length_escaped_text: "length (concat (map escaped s)) = length s + escape_characters s"
  by (induction s) (simp_all add: escape_characters_def length_escaped)

lemma escaped_nothing: "escape_characters s = 0 \<Longrightarrow> concat (map escaped s) = s"
  by (induction s) (auto simp: escape_characters_def escaped_def split: if_splits)

text \<open>A buffer whose text and terminator fit.\<close>

definition fits :: "printbuffer \<Rightarrow> bool" where
  "fits p \<longleftrightarrow> length (pb_text p) < pb_length p"

text \<open>A step of the printer: it keeps the limit of a fixed buffer, and its text fits.\<close>

definition step_ok :: "printbuffer \<Rightarrow> printbuffer \<Rightarrow> string \<Rightarrow> bool" where
  "step_ok p p' txt \<longleftrightarrow>
     pb_text p' = pb_text p @ txt \<and> pb_noalloc p' = pb_noalloc p \<and> pb_format p' = pb_format p
     \<and> pb_depth p' = pb_depth p \<and> (pb_noalloc p \<longrightarrow> pb_length p' = pb_length p) \<and> fits p'"

lemma ensure_some:
  assumes "ensure p needed = Some p'"
  shows "pb_text p' = pb_text p" "pb_noalloc p' = pb_noalloc p" "pb_format p' = pb_format p"
    "pb_depth p' = pb_depth p" "pb_noalloc p \<Longrightarrow> p' = p"
    "needed + length (pb_text p) < pb_length p'"
  using assms by (auto simp: ensure_def Let_def split: if_splits)

lemma put_text_step:
  assumes "put_text p needed txt = Some p'" "length txt \<le> needed"
  shows "step_ok p p' txt"
proof -
  obtain q where q: "ensure p needed = Some q" "p' = pb_text_update (\<lambda>t. t @ txt) q"
    using assms(1) by (auto simp: put_text_def)
  show ?thesis
    using ensure_some [OF q(1)] assms(2) by (auto simp: q(2) step_ok_def fits_def)
qed

lemma put_text_succeeds:
  assumes "fits p" "\<not> pb_noalloc p" "needed + length (pb_text p) < INT_MAX"
  shows "\<exists>p'. put_text p needed txt = Some p'"
  using assms by (auto simp: put_text_def ensure_def fits_def Let_def)

lemma print_string_ptr_eq:
  "print_string_ptr s p = put_text p (length (compact_string s) + 1) (compact_string s)"
  by (auto simp: print_string_ptr_def compact_string_def length_escaped_text escaped_nothing Let_def
      numeral_3_eq_3 escape_characters_def [of "[]"]
      split: option.splits)

lemma step_okD:
  "step_ok p p' txt \<Longrightarrow> fits p'"
  "step_ok p p' txt \<Longrightarrow> pb_text p' = pb_text p @ txt"
  "step_ok p p' txt \<Longrightarrow> pb_format p' = pb_format p"
  "step_ok p p' txt \<Longrightarrow> pb_noalloc p' = pb_noalloc p"
  "step_ok p p' txt \<Longrightarrow> pb_depth p' = pb_depth p"
  by (simp_all add: step_ok_def)

lemma step_ok_trans: "step_ok p q s \<Longrightarrow> step_ok q r t \<Longrightarrow> step_ok p r (s @ t)"
  by (auto simp: step_ok_def)

text \<open>The same for a whole item, whose unformatted text is \<open>t\<close>.\<close>

definition prints :: "printbuffer \<Rightarrow> printbuffer \<Rightarrow> string \<Rightarrow> bool" where
  "prints p p' t \<longleftrightarrow> (\<exists>txt. step_ok p p' txt \<and> (pb_format p \<or> txt = t))"

lemma prints_put_text: "put_text p n t = Some p' \<Longrightarrow> length t \<le> n \<Longrightarrow> prints p p' t"
  using put_text_step prints_def by blast

lemma prints_put_format:
  assumes "(if pb_format p then put_text p m u else put_text p n t) = Some p'"
    "length u \<le> m" "length t \<le> n"
  shows "prints p p' t"
  using assms put_text_step [of p m u p'] put_text_step [of p n t p']
  by (auto simp: prints_def split: if_splits)

lemma prints_nothing: "fits p \<Longrightarrow> prints p p []"
  by (auto simp: prints_def step_ok_def)

lemma prints_trans: "prints p q s \<Longrightarrow> prints q r t \<Longrightarrow> prints p r (s @ t)"
  unfolding prints_def by (metis step_okD(3) step_ok_trans)

lemma prints_fits: "prints p p' t \<Longrightarrow> fits p'"
  by (auto simp: prints_def step_ok_def)

lemma deeper_simps [simp]:
  "pb_text (deeper p) = pb_text p" "pb_format (deeper p) = pb_format p" "fits (deeper p) = fits p"
  by (simp_all add: deeper_def fits_def)

lemma prints_nested:
  assumes "prints p p1 s" "prints (deeper p1) p3 t"
  shows "prints p (shallower p3) (s @ t)"
  using assms
  by (fastforce simp: prints_def step_ok_def deeper_def shallower_def fits_def)

lemma print_prints:
  "print_value it p = Some p' \<Longrightarrow> prints p p' (compact_value it)"
  "print_array cs p = Some p' \<Longrightarrow> prints p p' (''['' @ compact_elements cs @ '']'')"
  "print_elements cs p = Some p' \<Longrightarrow> fits p \<Longrightarrow> prints p p' (compact_elements cs)"
  "print_object cs p = Some p' \<Longrightarrow> prints p p' (''{'' @ compact_members cs @ ''}'')"
  "print_members cs p = Some p' \<Longrightarrow> fits p \<Longrightarrow> prints p p' (compact_members cs)"
proof (induction it p and cs p and cs p and cs p and cs p arbitrary: p' and p' and p' and p' and p'
    rule: print_value_print_array_print_elements_print_object_print_members.induct)
  case (1 t rf sc vs vi vd nm cs p)
  then show ?case
    by (cases t)
      (auto simp: print_number_def print_string_def print_string_ptr_eq Let_def
        intro: prints_put_text split: if_splits option.splits)
next
  case (2 cs p)
  from 2(2) obtain p1 p2 p3 where s: "put_text p 1 ''['' = Some p1"
    "print_elements cs (deeper p1) = Some p2" "put_text p2 2 '']'' = Some p3" "p' = shallower p3"
    by (auto split: bind_splits)
  have p1: "prints p p1 ''[''"
    using s(1) by (rule prints_put_text) simp
  have "prints (deeper p1) p2 (compact_elements cs)"
    using prints_fits [OF p1] by (intro 2(1) [OF s(1,2)]) simp
  moreover have "prints p2 p3 '']''"
    using s(3) by (rule prints_put_text) simp
  ultimately show ?case
    unfolding s(4) by (intro prints_nested [OF p1] prints_trans)
next
  case (3 p)
  then show ?case
    by (simp add: prints_nothing)
next
  case (4 c cs p)
  from 4(3) obtain p1 p2 where s: "print_value c p = Some p1"
    "(if cs = [] then Some p1 else if pb_format p1 then put_text p1 3 '', '' else put_text p1 2 '','') = Some p2"
    "print_elements cs p2 = Some p'"
    by (auto split: bind_splits)
  have p1: "prints p p1 (compact_value c)"
    by (rule 4(1) [OF s(1)])
  have p2: "prints p1 p2 (if cs = [] then [] else '','')"
  proof (cases "cs = []")
    case True
    with s(2) prints_fits [OF p1] show ?thesis
      by (simp add: prints_nothing)
  next
    case False
    with s(2) show ?thesis
      using prints_put_format [of p1 3 "'', ''" 2 "'',''" p2] by simp
  qed
  have "prints p2 p' (compact_elements cs)"
    using prints_fits [OF p2] by (intro 4(2) [OF s])
  with p1 p2 show ?case
    unfolding compact_elements.simps by (intro prints_trans)
next
  case (5 cs p)
  from 5(2) obtain p1 p2 p3 where s:
    "(if pb_format p then put_text p 3 [CHR ''{'', CHR 0x0A] else put_text p 2 ''{'') = Some p1"
    "print_members cs (deeper p1) = Some p2"
    "(if pb_format p2 then put_text p2 (pb_depth p2 + 1) (tabs (pb_depth p2 - 1) @ ''}'')
      else put_text p2 2 ''}'') = Some p3" "p' = shallower p3"
    by (auto split: bind_splits)
  have p1: "prints p p1 ''{''"
    using s(1) by (rule prints_put_format) simp_all
  have "prints (deeper p1) p2 (compact_members cs)"
    using prints_fits [OF p1] by (intro 5(1) [OF s(1,2)]) simp
  moreover have "prints p2 p3 ''}''"
    using s(3) by (rule prints_put_format) (simp_all add: tabs_def)
  ultimately show ?case
    unfolding s(4) by (intro prints_nested [OF p1] prints_trans)
next
  case (6 p)
  then show ?case
    by (simp add: prints_nothing)
next
  case (7 c cs p)
  from 7(3) obtain p1 p2 p3 p4 p5 where s:
    "(if pb_format p then put_text p (pb_depth p) (tabs (pb_depth p)) else Some p) = Some p1"
    "print_string_ptr (item_string c) p1 = Some p2"
    "(if pb_format p2 then put_text p2 2 [CHR '':'', CHR 0x09] else put_text p2 1 '':'') = Some p3"
    "print_value c p3 = Some p4"
    "put_text p4 ((if pb_format p4 then 1 else 0) + (if cs = [] then 0 else 1) + 1)
       ((if cs = [] then [] else '','') @ (if pb_format p4 then [CHR 0x0A] else [])) = Some p5"
    "print_members cs p5 = Some p'"
    by (auto simp del: One_nat_def split: bind_splits)
  have p1: "prints p p1 []"
  proof (cases "pb_format p")
    case True
    then have "put_text p (pb_depth p) (tabs (pb_depth p)) = Some p1"
      using s(1) by simp
    then have "step_ok p p1 (tabs (pb_depth p))"
      by (rule put_text_step) (simp add: tabs_def)
    with True show ?thesis
      unfolding prints_def by blast
  next
    case False
    with s(1) 7(4) show ?thesis
      by (simp add: prints_nothing)
  qed
  have p2: "prints p1 p2 (compact_string (item_string c))"
    using s(2) unfolding print_string_ptr_eq by (rule prints_put_text) simp
  have p3: "prints p2 p3 '':''"
    using s(3) by (rule prints_put_format) simp_all
  have p4: "prints p3 p4 (compact_value c)"
    by (rule 7(1) [OF s(1,2,3,4)])
  have p5: "prints p4 p5 (if cs = [] then [] else '','')"
  proof -
    have "step_ok p4 p5 ((if cs = [] then [] else '','') @ (if pb_format p4 then [CHR 0x0A] else []))"
      by (rule put_text_step [OF s(5)]) simp
    then show ?thesis
      unfolding prints_def by (cases "pb_format p4") auto
  qed
  have "prints p5 p' (compact_members cs)"
    using prints_fits [OF p5] by (intro 7(2) [OF s])
  with p1 p2 p3 p4 p5 have "prints p p' ([] @ compact_string (item_string c) @ '':'' @ compact_value c
      @ (if cs = [] then [] else '','') @ compact_members cs)"
    by (intro prints_trans)
  then show ?case
    by simp
qed

lemma print_unformatted_text:
  assumes "cJSON_PrintUnformatted it = Some txt"
  shows "txt = compact_value it"
  using assms print_prints(1)
  by (fastforce simp: cJSON_PrintUnformatted_def print_def prints_def step_ok_def)

lemma whole_int:
  assumes "whole d"
  obtains n where "d = Finite (of_int n)" "\<bar>n\<bar> < 10 ^ 15"
proof -
  obtain r where r: "d = Finite r" "r = of_int \<lfloor>r\<rfloor>" "\<bar>r\<bar> < 10 ^ 15"
    using assms by (auto simp: whole_def split: double.splits)
  have "of_int \<bar>\<lfloor>r\<rfloor>\<bar> < (of_int (10 ^ 15) :: rat)"
    using r(2,3) by simp
  then have "\<bar>\<lfloor>r\<rfloor>\<bar> < 10 ^ 15"
    by (simp only: of_int_less_iff)
  with r show thesis
    by (intro that) auto
qed

lemma number_text_whole:
  assumes "\<bar>n\<bar> < 10 ^ 15"
  shows "number_text (Finite (of_int n)) = dec_int n"
proof -
  have "strtod (dec_int n @ []) = Some (Finite (of_int n), [])"
    using assms by (intro strtod_dec_int) (simp_all add: number_ends_def)
  then show ?thesis
    by (simp add: number_text_def Let_def print_g_of_int [OF assms])
qed

lemma length_dec_int:
  assumes "\<bar>n\<bar> < 10 ^ 15"
  shows "length (dec_int n) \<le> 16"
proof -
  have "log_floor 10 \<bar>n\<bar> < 15" if "n \<noteq> 0"
    using assms that by (intro log_floor_less) simp_all
  moreover have "log_floor 10 0 = 0"
    by (simp add: log_floor.simps)
  ultimately show ?thesis
    by (cases "n = 0"; cases "n < 0") (auto simp: dec_int_def length_dec_nat)
qed

text \<open>An unformatted buffer that may grow by \<open>n\<close> more characters.\<close>

definition ready :: "printbuffer \<Rightarrow> nat \<Rightarrow> bool" where
  "ready p n \<longleftrightarrow>
     fits p \<and> \<not> pb_noalloc p \<and> \<not> pb_format p \<and> length (pb_text p) + n + 1 < INT_MAX"

lemma ready_after: "prints p p' t \<Longrightarrow> ready p (length t + n) \<Longrightarrow> ready p' n"
  by (auto simp: ready_def prints_def step_ok_def)

lemma ready_put:
  assumes "ready p (length t + k)" "length t \<le> n" "n \<le> length t + 1"
  obtains p' where "put_text p n t = Some p'" "ready p' k"
proof -
  have "n + length (pb_text p) < INT_MAX"
    using assms by (simp add: ready_def)
  then obtain p' where p': "put_text p n t = Some p'"
    using assms(1) put_text_succeeds [of p n t] by (auto simp: ready_def)
  moreover have "ready p' k"
    using prints_put_text [OF p' assms(2)] assms(1) by (rule ready_after)
  ultimately show thesis
    by (rule that)
qed

lemma ready_put_ex:
  "ready p (length t + k) \<Longrightarrow> length t \<le> n \<Longrightarrow> n \<le> length t + 1
    \<Longrightarrow> \<exists>p'. put_text p n t = Some p' \<and> ready p' k"
  by (metis ready_put)

lemma ready_less: "ready p n \<Longrightarrow> m \<le> n \<Longrightarrow> ready p m"
  by (simp add: ready_def)

lemma ready_deeper [simp]: "ready (deeper p) n = ready p n"
  by (simp add: ready_def) (simp add: deeper_def)

lemma ready_fits: "ready p n \<Longrightarrow> fits p"
  by (simp add: ready_def)

lemma ready_format: "ready p n \<Longrightarrow> pb_format p = False"
  by (simp add: ready_def)

lemma print_succeeds:
  "plain it \<Longrightarrow> ready p (length (compact_value it)) \<Longrightarrow> \<exists>p'. print_value it p = Some p'"
  "plain_elements cs \<Longrightarrow> ready p (length (compact_elements cs)) \<Longrightarrow> \<exists>p'. print_elements cs p = Some p'"
  "plain_members cs \<Longrightarrow> ready p (length (compact_members cs)) \<Longrightarrow> \<exists>p'. print_members cs p = Some p'"
proof (induction it and cs and cs arbitrary: p and p and p
    rule: compact_value_compact_elements_compact_members.induct)
  case (1 t rf sc vs vi vd nm cs)
  have scalar: "\<exists>p'. put_text p n u = Some p'"
    if "compact_value (Item t rf sc vs vi vd nm cs) = u" "length u \<le> n" "n \<le> length u + 1" for n u
    using 1(4) that by (auto intro: ready_put [of p u 0 n])
  show ?case
  proof (cases t)
    case cJSON_Number
    with 1(3) obtain n where n: "vd = Finite (of_int n)" "\<bar>n\<bar> < 10 ^ 15"
      by (auto elim: whole_int)
    with cJSON_Number show ?thesis
      using length_dec_int [OF n(2)] scalar [of "dec_int n" "length (dec_int n) + 1"]
      by (simp add: print_number_def number_text_whole Let_def)
  next
    case cJSON_Array
    obtain p1 where p1: "put_text p 1 ''['' = Some p1" "ready p1 (length (compact_elements cs) + 1)"
      using 1(4) cJSON_Array by (auto intro: ready_put [of p "''[''" _ 1])
    then obtain p2 where p2: "print_elements cs (deeper p1) = Some p2"
      using 1(1,3) cJSON_Array ready_less by fastforce
    have "ready p2 1"
      using print_prints(3) [OF p2 deeper_simps(3) [THEN iffD2, OF ready_fits [OF p1(2)]]]
      by (rule ready_after) (simp only: ready_deeper p1(2))
    then obtain p3 where "put_text p2 2 '']'' = Some p3"
      by (auto intro: ready_put [of p2 "'']''" 0 2])
    with p1 p2 cJSON_Array show ?thesis
      by simp
  next
    case cJSON_Object
    obtain p1 where p1: "put_text p 2 ''{'' = Some p1" "ready p1 (length (compact_members cs) + 1)"
      using 1(4) cJSON_Object by (auto intro: ready_put [of p "''{''" _ 2])
    then obtain p2 where p2: "print_members cs (deeper p1) = Some p2"
      using 1(2,3) cJSON_Object ready_less by fastforce
    have p2r: "ready p2 1"
      using print_prints(5) [OF p2 deeper_simps(3) [THEN iffD2, OF ready_fits [OF p1(2)]]]
      by (rule ready_after) (simp only: ready_deeper p1(2))
    then obtain p3 where "put_text p2 2 ''}'' = Some p3"
      by (auto intro: ready_put [of p2 "''}''" 0 2])
    with p1 p2 p2r cJSON_Object show ?thesis
      using ready_format [OF 1(4)] ready_format [OF p2r] by simp
  qed (use 1(3) scalar in \<open>simp_all add: print_string_def print_string_ptr_eq\<close>)
next
  case (3 c cs)
  have r: "ready p (length (compact_value c) + length ((if cs = [] then [] else '','') @ compact_elements cs))"
    using 3(4) by simp
  then obtain p1 where p1: "print_value c p = Some p1"
    using 3(1,3) ready_less by fastforce
  have p1r: "ready p1 (length ((if cs = [] then [] else '','') @ compact_elements cs))"
    using print_prints(1) [OF p1] r by (rule ready_after)
  show ?case
  proof (cases "cs = []")
    case False
    then obtain p2 where "put_text p1 2 '','' = Some p2" "ready p2 (length (compact_elements cs))"
      using p1r by (auto intro: ready_put [of p1 "'',''" _ 2])
    with p1 False 3(2,3) show ?thesis
      using ready_format [OF p1r] by auto
  qed (simp add: p1)
next
  case (5 c cs)
  let ?sep = "if cs = [] then [] else '',''"
  have r: "ready p (length (compact_string (item_string c)) +
      (length '':'' + (length (compact_value c) + (length ?sep + length (compact_members cs)))))"
    using 5(4) by (simp add: ac_simps)
  obtain p2 where p2: "print_string_ptr (item_string c) p = Some p2"
      "ready p2 (length '':'' + (length (compact_value c) + (length ?sep + length (compact_members cs))))"
    using ready_put_ex [OF r, of "length (compact_string (item_string c)) + 1"] unfolding print_string_ptr_eq
    by auto
  obtain p3 where p3: "put_text p2 1 '':'' = Some p3"
      "ready p3 (length (compact_value c) + (length ?sep + length (compact_members cs)))"
    using ready_put_ex [OF p2(2), of 1] by auto
  obtain p4 where p4: "print_value c p3 = Some p4"
    using 5(1,3) ready_less [OF p3(2) le_add1] by auto
  have p4r: "ready p4 (length ?sep + length (compact_members cs))"
    using print_prints(1) [OF p4] p3(2) by (rule ready_after)
  obtain p5 where p5: "put_text p4 ((if cs = [] then 0 else 1) + 1) ?sep = Some p5"
      "ready p5 (length (compact_members cs))"
    using ready_put_ex [OF p4r, of "(if cs = [] then 0 else 1) + 1"]
    by (cases "cs = []") auto
  then show ?case
    using p2 p3 p4 5(2,3) ready_format [OF r] ready_format [OF p2(2)] ready_format [OF p4r]
    by auto
qed simp_all

section \<open>Strings\<close>

lemma code_char_of [simp]: "n < 256 \<Longrightarrow> code (char_of n) = n"
  by (simp add: code_def)

lemma char_of_code [simp]: "char_of (code c) = c"
  by (simp add: code_def)

lemma hex_digit_char: "n < 16 \<Longrightarrow> hex_digit (hex_char n) = Some n"
  by (auto simp: hex_digit_def hex_char_def)

lemma parse_hex4_control:
  assumes "code c < 32"
  shows "parse_hex4 (CHR ''0'' # CHR ''0'' # hex_char (code c div 16) # hex_char (code c mod 16) # s) = code c"
proof -
  have four: "(4 :: nat) = Suc (Suc (Suc (Suc 0)))"
    by simp
  have z: "hex_digit (CHR ''0'') = Some 0"
    by (simp add: hex_digit_def code_def)
  have "code c div 16 < 16" "code c mod 16 < 16"
    using assms by simp_all
  then show ?thesis
    unfolding parse_hex4_def four hex4_loop.simps z by (simp add: hex_digit_char)
qed

lemma unescape_escaped: "unescape (escaped c @ s) = map_option (\<lambda>t. c # t) (unescape s)"
proof (cases "31 < code c \<and> c \<noteq> quote \<and> c \<noteq> backslash")
  case True
  then show ?thesis
    by (simp add: escaped_def unescape.simps [of "c # s"])
next
  case special: False
  show ?thesis
  proof (cases "c \<in> {backslash, quote, CHR 0x08, CHR 0x0C, CHR 0x0A, CHR 0x0D, CHR 0x09}")
    case True
    then show ?thesis
      by (auto simp: escaped_def code_def unescape.simps [of "CHR 0x5C # _"] simple_escape_def)
  next
    case False
    then have lt: "code c < 32"
      using special by auto
    have e: "escaped c = [backslash, CHR ''u'', CHR ''0'', CHR ''0'', hex_char (code c div 16), hex_char (code c mod 16)]"
      using False lt by (auto simp: escaped_def)
    let ?t = "backslash # CHR ''u'' # CHR ''0'' # CHR ''0'' # hex_char (code c div 16) # hex_char (code c mod 16) # s"
    have t: "escaped c @ s = ?t"
      by (simp add: e)
    have u: "utf16_literal_to_utf8 ?t = Some ([c], 6)"
      using lt by (simp add: utf16_literal_to_utf8_def parse_hex4_control utf8_bytes_def)
    show ?thesis
      unfolding t by (subst unescape.simps) (simp add: u, simp add: fun_eq_iff cong: option.map_cong)
  qed
qed

lemma unescape_text: "unescape (concat (map escaped s)) = Some s"
  by (induction s) (simp_all add: unescape_escaped unescape.simps [of "[]"])

lemma hex_char_plain: "n < 16 \<Longrightarrow> hex_char n \<noteq> quote \<and> hex_char n \<noteq> backslash"
  by (auto simp: hex_char_def dest: arg_cong [where f = code] simp: code_def)

lemma find_end_plain: "c \<noteq> quote \<Longrightarrow> c \<noteq> backslash \<Longrightarrow>
    find_end (c # s) = map_option (\<lambda>(t, r). (c # t, r)) (find_end s)"
  by simp

lemma special_codes: "code c < 32 \<Longrightarrow> c \<noteq> quote \<and> c \<noteq> backslash"
  by (auto simp: code_def)

lemma find_end_escaped:
  "find_end (escaped c @ s) = map_option (\<lambda>(t, r). (escaped c @ t, r)) (find_end s)"
proof (cases "code c < 32 \<and> c \<notin> {CHR 0x08, CHR 0x0C, CHR 0x0A, CHR 0x0D, CHR 0x09}")
  case True
  have h: "hex_char (code c div 16) \<noteq> quote" "hex_char (code c div 16) \<noteq> backslash"
    "hex_char (code c mod 16) \<noteq> quote" "hex_char (code c mod 16) \<noteq> backslash"
    using hex_char_plain [of "code c div 16"] hex_char_plain [of "code c mod 16"] conjunct1 [OF True]
    by simp_all
  have e: "escaped c = [backslash, CHR ''u'', CHR ''0'', CHR ''0'', hex_char (code c div 16), hex_char (code c mod 16)]"
    using conjunct1 [OF True] conjunct2 [OF True] special_codes [of c] by (auto simp: escaped_def)
  show ?thesis
    by (simp add: e h option.map_comp comp_def case_prod_unfold)
next
  case False
  then consider "31 < code c" "c \<noteq> quote" "c \<noteq> backslash"
    | "c \<in> {backslash, quote, CHR 0x08, CHR 0x0C, CHR 0x0A, CHR 0x0D, CHR 0x09}"
    by force
  then show ?thesis
  proof cases
    case 1
    then show ?thesis
      by (simp add: escaped_def)
  next
    case 2
    then show ?thesis
      by (auto simp: escaped_def code_def)
  qed
qed

lemma find_end_text:
  "find_end (concat (map escaped s) @ quote # r) = Some (concat (map escaped s), r)"
  by (induction s) (simp_all add: find_end_escaped)

lemma parse_compact_string:
  "nul \<notin> set s \<Longrightarrow> parse_string (compact_string (Some s) @ r) = Some (s, r)"
  by (auto simp: parse_string_def compact_string_def find_end_text unescape_text c_string_def
      intro: takeWhile_eq_all_conv [THEN iffD2])

section \<open>Parsing the printed text\<close>

lemma skip_whitespace_id: "s \<noteq> [] \<Longrightarrow> 32 < code (hd s) \<Longrightarrow> buffer_skip_whitespace s = s"
  by (cases s) (simp_all add: buffer_skip_whitespace_def)

lemma digit_code: "is_digit c \<Longrightarrow> 32 < code c"
  by (simp add: is_digit_def code_def)

lemma dec_int_first: "\<exists>c t. dec_int n = c # t \<and> 32 < code c \<and> (c = CHR ''-'' \<or> is_digit c)"
proof (cases "n < 0")
  case True
  then show ?thesis
    by (simp add: dec_int_def code_def)
next
  case False
  then show ?thesis
    using hd_dec_nat_digit [of "nat n"] digit_code
    by (cases "dec_nat (nat n)") (auto simp: dec_int_def)
qed

lemma compact_first: "plain it \<Longrightarrow> \<exists>c t. compact_value it = c # t \<and> 32 < code c \<and> c \<noteq> CHR '']'' \<and> c \<noteq> CHR 0xEF"
proof (cases it)
  case (Item t rf sc vs vi vd nm cs)
  assume pl: "plain it"
  show ?thesis
  proof (cases t)
    case cJSON_Number
    with Item pl obtain n where "vd = Finite (of_int n)" "\<bar>n\<bar> < 10 ^ 15"
      by (auto elim: whole_int)
    then show ?thesis
      using Item cJSON_Number dec_int_first [of n] number_text_whole [of n]
      by (auto simp: is_digit_def)
  qed (use Item pl in \<open>simp_all add: compact_string_def code_def\<close>)
qed

lemma skip_compact: "plain it \<Longrightarrow> buffer_skip_whitespace (compact_value it @ r) = compact_value it @ r"
  using compact_first [of it] by (auto intro: skip_whitespace_id)

lemma number_chars_dec_int: "list_all number_char (dec_int n)"
  using dec_nat_digits by (auto simp: dec_int_def number_char_def is_sign_def list_all_iff)

lemma number_ends_not_number_char: "number_ends r \<Longrightarrow> r \<noteq> [] \<Longrightarrow> \<not> number_char (hd r)"
  by (auto simp: number_ends_def number_char_def split: list.splits)

lemma parse_dec_int:
  assumes n: "\<bar>n\<bar> < 10 ^ 15" and r: "number_ends r"
  shows "parse_number (dec_int n @ r) = Some (number_item (Finite (of_int n)), r)"
proof -
  have len: "length (dec_int n) \<le> 63"
    using length_dec_int [OF n] by simp
  have "takeWhile number_char (take 63 (dec_int n @ r)) = dec_int n @ takeWhile number_char (take (63 - length (dec_int n)) r)"
    using len number_chars_dec_int [of n] by (simp add: list_all_iff takeWhile_append2)
  also have "takeWhile number_char (take (63 - length (dec_int n)) r) = []"
    using number_ends_not_number_char [OF r] by (cases r; cases "63 - length (dec_int n)") auto
  finally have t: "takeWhile number_char (take 63 (dec_int n @ r)) = dec_int n"
    by simp
  have "strtod (dec_int n @ []) = Some (Finite (of_int n), [])"
    using n by (intro strtod_dec_int) (simp_all add: number_ends_def)
  then show ?thesis
    unfolding parse_number_def t Let_def by simp
qed

lemma starts_with_Cons:
  "starts_with (c # t) (d # s) \<longleftrightarrow> c = d \<and> starts_with t s" "starts_with [] s"
  by (auto simp: starts_with_def)

lemma with_string_own: "plain it \<Longrightarrow> with_string (item_string it) False it = it"
  by (cases it) simp

lemma with_string_twice [simp]: "with_string a b (with_string a' b' it) = with_string a b it"
  by (cases it) simp

lemma parse_number_first:
  assumes "c = CHR ''-'' \<or> is_digit c"
  shows "parse_value d (c # s) = parse_number (c # s)"
proof -
  have c: "c \<noteq> CHR ''n''" "c \<noteq> CHR ''f''" "c \<noteq> CHR ''t''" "c \<noteq> quote"
    using assms by (auto simp: is_digit_def)
  show ?thesis
    using assms by (subst parse_value.simps) (simp add: starts_with_Cons c c [symmetric])
qed

lemma plain_end: "number_ends (c # s) \<longleftrightarrow> \<not> number_char c"
  by (auto simp: number_ends_def number_char_def)

lemma punctuation [simp]:
  "\<not> number_char (CHR '','')" "\<not> number_char (CHR '']'')" "\<not> number_char (CHR ''}'')"
  "\<not> number_char (CHR 0x00)"
  "buffer_skip_whitespace (CHR '','' # s) = CHR '','' # s"
  "buffer_skip_whitespace (CHR '']'' # s) = CHR '']'' # s"
  "buffer_skip_whitespace (CHR ''}'' # s) = CHR ''}'' # s"
  "buffer_skip_whitespace (CHR '':'' # s) = CHR '':'' # s"
  "buffer_skip_whitespace (CHR 0x22 # s) = CHR 0x22 # s"
  by (simp_all add: number_char_def is_digit_def is_sign_def buffer_skip_whitespace_def code_def)

lemma parse_compact:
  "plain it \<Longrightarrow> d + nesting it \<le> CJSON_NESTING_LIMIT \<Longrightarrow> number_ends r
    \<Longrightarrow> parse_value d (compact_value it @ r) = Some (with_string None False it, r)"
  "plain_elements cs \<Longrightarrow> cs \<noteq> [] \<Longrightarrow> d + nesting_list cs \<le> CJSON_NESTING_LIMIT
    \<Longrightarrow> array_loop d (compact_elements cs @ CHR '']'' # r) = Some (cs, r)"
  "plain_members cs \<Longrightarrow> cs \<noteq> [] \<Longrightarrow> d + nesting_list cs \<le> CJSON_NESTING_LIMIT
    \<Longrightarrow> object_loop d (compact_members cs @ CHR ''}'' # r) = Some (cs, r)"
proof (induction it and cs and cs arbitrary: d r and d r and d r
    rule: compact_value_compact_elements_compact_members.induct)
  case (1 t rf sc vs vi vd nm cs)
  show ?case
  proof (cases t)
    case cJSON_Number
    with 1(3) obtain n where n: "vd = Finite (of_int n)" "\<bar>n\<bar> < 10 ^ 15"
      by (auto elim: whole_int)
    obtain c u where c: "dec_int n = c # u" "c = CHR ''-'' \<or> is_digit c"
      using dec_int_first [of n] by auto
    have "parse_value d (dec_int n @ r) = parse_number (dec_int n @ r)"
      using c by (simp add: parse_number_first)
    then show ?thesis
      using 1(3,5) cJSON_Number n
      by (simp add: number_text_whole parse_dec_int number_item_def)
  next
    case cJSON_Array
    have lim: "\<not> CJSON_NESTING_LIMIT \<le> d" "d + 1 + nesting_list cs \<le> CJSON_NESTING_LIMIT"
      using 1(4) cJSON_Array by simp_all
    have "parse_value d (CHR ''['' # compact_elements cs @ CHR '']'' # r)
        = parse_array d (CHR ''['' # compact_elements cs @ CHR '']'' # r)"
      by (subst parse_value.simps) (simp add: starts_with_Cons is_digit_def)
    also have "\<dots> = Some (list_item cJSON_Array cs, r)"
    proof (cases cs)
      case Nil
      with lim(1) show ?thesis
        by (simp add: parse_array.simps)
    next
      case (Cons c cs')
      with 1(3) cJSON_Array have "plain c"
        by simp
      then obtain x u where x: "compact_value c = x # u" "32 < code x" "x \<noteq> CHR '']''"
        using compact_first by blast
      then obtain w where w: "compact_elements cs = x # w"
        using Cons by simp
      have sk: "buffer_skip_whitespace (x # w @ CHR '']'' # r) = x # w @ CHR '']'' # r"
        using x(2) by (intro skip_whitespace_id) simp_all
      have "parse_array d (CHR ''['' # compact_elements cs @ CHR '']'' # r) =
          map_option (\<lambda>(cs, r). (list_item cJSON_Array cs, r))
            (array_loop (d + 1) (compact_elements cs @ CHR '']'' # r))"
        using lim(1) x(3) by (subst parse_array.simps) (simp add: w sk)
      also have "\<dots> = Some (list_item cJSON_Array cs, r)"
        using 1(1) [OF cJSON_Array, of "d + 1" r] 1(3) lim(2) cJSON_Array Cons by simp
      finally show ?thesis .
    qed
    finally show ?thesis
      using 1(3) cJSON_Array by (simp add: list_item_def)
  next
    case cJSON_Object
    have lim: "\<not> CJSON_NESTING_LIMIT \<le> d" "d + 1 + nesting_list cs \<le> CJSON_NESTING_LIMIT"
      using 1(4) cJSON_Object by simp_all
    have "parse_value d (CHR ''{'' # compact_members cs @ CHR ''}'' # r)
        = parse_object d (CHR ''{'' # compact_members cs @ CHR ''}'' # r)"
      by (subst parse_value.simps) (simp add: starts_with_Cons is_digit_def)
    also have "\<dots> = Some (list_item cJSON_Object cs, r)"
    proof (cases cs)
      case Nil
      with lim(1) show ?thesis
        by (simp add: parse_object.simps)
    next
      case (Cons c cs')
      then obtain w where w: "compact_members cs = quote # w"
        by (simp add: compact_string_def)
      have "parse_object d (CHR ''{'' # compact_members cs @ CHR ''}'' # r) =
          map_option (\<lambda>(cs, r). (list_item cJSON_Object cs, r))
            (object_loop (d + 1) (compact_members cs @ CHR ''}'' # r))"
        using lim(1) by (subst parse_object.simps) (simp add: w)
      also have "\<dots> = Some (list_item cJSON_Object cs, r)"
        using 1(2) [OF cJSON_Object, of "d + 1" r] 1(3) lim(2) cJSON_Object Cons by simp
      finally show ?thesis .
    qed
    finally show ?thesis
      using 1(3) cJSON_Object by (simp add: list_item_def)
  next
    case cJSON_String
    with 1(3) obtain v where v: "vs = Some v" "nul \<notin> set v"
      by (auto simp: text_ok_def split: option.splits)
    have "parse_value d (compact_string (Some v) @ r)
        = map_option (\<lambda>(v, r). (string_item v, r)) (parse_string (compact_string (Some v) @ r))"
      by (subst parse_value.simps) (simp add: compact_string_def starts_with_Cons)
    with 1(3) cJSON_String v show ?thesis
      by (simp add: parse_compact_string string_item_def)
  qed (use 1(3) in \<open>simp_all add: parse_value.simps starts_with_Cons kind_item_def true_item_def\<close>)
next
  case (3 c cs)
  let ?q = "(if cs = [] then [] else '','') @ compact_elements cs @ CHR '']'' # r"
  have "number_ends ?q"
    by (simp add: plain_end)
  then have v: "parse_value d (buffer_skip_whitespace (compact_value c @ ?q)) = Some (c, ?q)"
    using 3(1) [of d ?q] 3(3,5) with_string_own [of c] by (simp add: skip_compact)
  have len: "length (compact_elements cs @ CHR '']'' # r) < length (compact_value c @ ?q)" if "cs \<noteq> []"
    using that by simp
  show ?case
  proof (cases "cs = []")
    case True
    with v show ?thesis
      by (simp add: array_loop.simps [of d "compact_value c @ _"])
  next
    case False
    then have "array_loop d (compact_elements cs @ CHR '']'' # r) = Some (cs, r)"
      using 3(2,3,5) by simp
    with v len False show ?thesis
      by (simp add: array_loop.simps [of d "compact_value c @ _"])
  qed
next
  case (5 c cs)
  let ?q = "(if cs = [] then [] else '','') @ compact_members cs @ CHR ''}'' # r"
  let ?s = "compact_string (item_string c) @ CHR '':'' # compact_value c @ ?q"
  obtain nm where nm: "item_string c = Some nm" "nul \<notin> set nm"
    using 5(3) by (auto simp: text_ok_def split: option.splits)
  have "compact_string (item_string c) @ u = quote # tl (compact_string (item_string c)) @ u" for u
    by (simp add: compact_string_def)
  then have n: "parse_string (buffer_skip_whitespace ?s) = Some (nm, CHR '':'' # compact_value c @ ?q)"
    using parse_compact_string [OF nm(2)] nm(1) by (metis punctuation(9))
  have "number_ends ?q"
    by (simp add: plain_end)
  then have v: "parse_value d (buffer_skip_whitespace (compact_value c @ ?q)) = Some (with_string None False c, ?q)"
    using 5(1) [of d ?q] 5(3,5) by (simp add: skip_compact)
  have own: "with_string (Some nm) False c = c"
    using with_string_own [of c] 5(3) nm(1) by simp
  show ?case
  proof (cases "cs = []")
    case True
    with n v own show ?thesis
      by (simp add: object_loop.simps [of d "compact_string _ @ _"])
  next
    case False
    then have "object_loop d (compact_members cs @ CHR ''}'' # r) = Some (cs, r)"
      using 5(2,3,5) by simp
    with n v own False show ?thesis
      by (simp add: object_loop.simps [of d "compact_string _ @ _"])
  qed
qed simp_all

lemma nul_escaped: "c \<noteq> nul \<Longrightarrow> nul \<notin> set (escaped c)"
proof -
  assume c: "c \<noteq> nul"
  have "hex_char n \<noteq> nul" if "n < 16" for n
    using that by (auto simp: hex_char_def dest: arg_cong [where f = code] simp: code_def)
  then have "hex_char (code c mod 16) \<noteq> nul" "code c < 32 \<Longrightarrow> hex_char (code c div 16) \<noteq> nul"
    by simp_all
  with c show ?thesis
    by (auto simp: escaped_def)
qed

lemma nul_compact_string: "text_ok s \<Longrightarrow> nul \<notin> set (compact_string s)"
proof -
  assume s: "text_ok s"
  then obtain t where t: "s = Some t" "nul \<notin> set t"
    by (auto simp: text_ok_def split: option.splits)
  have "nul \<notin> set (escaped c)" if "c \<in> set t" for c
    using that t(2) nul_escaped [of c] by blast
  then show ?thesis
    by (simp add: compact_string_def t(1))
qed

lemma nul_dec_int: "nul \<notin> set (dec_int n)"
  using not_digit_notin_dec_nat [of nul] by (auto simp: dec_int_def is_digit_def)

lemma nul_compact:
  "plain it \<Longrightarrow> nul \<notin> set (compact_value it)"
  "plain_elements cs \<Longrightarrow> nul \<notin> set (compact_elements cs)"
  "plain_members cs \<Longrightarrow> nul \<notin> set (compact_members cs)"
proof (induction it and cs and cs rule: compact_value_compact_elements_compact_members.induct)
  case (1 t rf sc vs vi vd nm cs)
  show ?case
  proof (cases t)
    case cJSON_Number
    with 1(3) obtain n where "vd = Finite (of_int n)" "\<bar>n\<bar> < 10 ^ 15"
      by (auto elim: whole_int)
    with cJSON_Number show ?thesis
      by (simp add: number_text_whole nul_dec_int)
  qed (use 1 in \<open>simp_all add: nul_compact_string\<close>)
qed (simp_all add: nul_compact_string)

lemma c_string_id: "nul \<notin> set s \<Longrightarrow> c_string s = s"
  by (auto simp: c_string_def intro: takeWhile_eq_all_conv [THEN iffD2])

lemma parse_printed:
  assumes "plain it" "item_string it = None" "nesting it \<le> CJSON_NESTING_LIMIT"
  shows "cJSON_ParseWithOpts (Some (compact_value it)) False = Some (it, [nul])"
proof -
  obtain c t where c: "compact_value it = c # t" "c \<noteq> CHR 0xEF"
    using compact_first [OF assms(1)] by blast
  have bom: "skip_utf8_bom (compact_value it @ [nul]) = compact_value it @ [nul]"
    using c by (cases t) (simp_all add: skip_utf8_bom_def)
  have "parse_value 0 (compact_value it @ [nul]) = Some (it, [nul])"
    using parse_compact(1) [of it 0 "[nul]"] assms with_string_own [of it] by (simp add: plain_end)
  then show ?thesis
    using nul_compact(1) [OF assms(1)]
    by (simp add: cJSON_ParseWithOpts_def c_string_id bom skip_compact [OF assms(1)])
qed

lemma print_plain:
  assumes "plain it" "length (compact_value it) + 1 < INT_MAX"
  shows "cJSON_PrintUnformatted it = Some (compact_value it)"
proof -
  let ?p = "\<lparr>pb_text = [], pb_length = 256, pb_depth = 0, pb_noalloc = False, pb_format = False\<rparr>"
  have "ready ?p (length (compact_value it))"
    using assms(2) by (simp add: ready_def fits_def)
  then obtain p' where "print_value it ?p = Some p'"
    using print_succeeds(1) [OF assms(1)] by blast
  then have "cJSON_PrintUnformatted it = Some (pb_text p')"
    by (simp add: cJSON_PrintUnformatted_def print_def)
  then show ?thesis
    using print_unformatted_text by fastforce
qed

section \<open>What the parser yields\<close>

lemma c_string_no_nul: "nul \<notin> set (c_string s)"
  by (auto simp: c_string_def dest: set_takeWhileD)

lemma parse_string_text: "parse_string s = Some (t, r) \<Longrightarrow> nul \<notin> set t"
  using c_string_no_nul by (auto simp: parse_string_def split: list.splits if_splits option.splits)

lemma parse_number_typed:
  "parse_number s = Some (v, r) \<Longrightarrow> typed v \<and> nesting v = 0 \<and> item_string v = None"
  by (auto simp: parse_number_def number_item_def Let_def split: option.splits)

definition yields :: "nat \<Rightarrow> cJSON \<Rightarrow> bool" where
  "yields d v \<longleftrightarrow> typed v \<and> item_string v = None \<and> (nesting v = 0 \<or> d + nesting v \<le> CJSON_NESTING_LIMIT)"

definition yields_list :: "nat \<Rightarrow> cJSON list \<Rightarrow> bool" where
  "yields_list d vs \<longleftrightarrow> nesting_list vs = 0 \<or> d + nesting_list vs \<le> CJSON_NESTING_LIMIT"

lemma with_string_kept [simp]:
  "typed (with_string nm False v) = typed v" if "\<not> string_is_const v" for v
  using that by (cases v) simp

lemma with_string_simps [simp]:
  "nesting (with_string nm b v) = nesting v" "item_string (with_string nm b v) = nm"
  by (cases v, simp)+

lemma typed_not_const: "typed v \<Longrightarrow> \<not> string_is_const v"
  by (cases v) simp

lemma parse_yields:
  "parse_value d s = Some (v, r) \<Longrightarrow> yields d v"
  "parse_array d s = Some (v, r) \<Longrightarrow> yields d v"
  "array_loop d s = Some (vs, r) \<Longrightarrow> typed_elements vs \<and> yields_list d vs"
  "parse_object d s = Some (v, r) \<Longrightarrow> yields d v"
  "object_loop d s = Some (vs, r) \<Longrightarrow> typed_members vs \<and> yields_list d vs"
proof (induction d s and d s and d s and d s and d s arbitrary: v r and v r and vs r and v r and vs r
    rule: parse_value_parse_array_array_loop_parse_object_object_loop.induct)
  case (1 depth s)
  show ?case
  proof (cases "starts_with ''null'' s \<or> starts_with ''false'' s \<or> starts_with ''true'' s")
    case True
    then show ?thesis
      using 1(3)
      by (auto simp: parse_value.simps [of depth s] yields_def kind_item_def true_item_def split: if_splits)
  next
    case False
    then have neg: "\<not> starts_with ''null'' s" "\<not> starts_with ''false'' s" "\<not> starts_with ''true'' s"
      by simp_all
    note eq = parse_value.simps [of depth s] if_not_P [OF neg(1)] if_not_P [OF neg(2)] if_not_P [OF neg(3)]
    have ne: "s \<noteq> []"
      using 1(3) by (auto simp: eq)
    show ?thesis
    proof (cases "hd s = quote")
      case True
      with 1(3) ne show ?thesis
        by (auto simp: eq yields_def string_item_def text_ok_def dest: parse_string_text)
    next
      case q: False
      show ?thesis
      proof (cases "hd s = CHR ''-'' \<or> is_digit (hd s)")
        case True
        with 1(3) ne q have "parse_number s = Some (v, r)"
          by (simp add: eq)
        then show ?thesis
          using parse_number_typed by (auto simp: yields_def)
      next
        case n: False
        show ?thesis
          using 1(3) 1(1) [OF neg ne q n] 1(2) [OF neg ne q n] ne q n
          by (auto simp: eq split: if_splits)
      qed
    qed
  qed
next
  case (2 depth s)
  let ?s = "buffer_skip_whitespace (tl s)"
  from 2(2) have lim: "\<not> CJSON_NESTING_LIMIT \<le> depth" and ne: "\<not> (s = [] \<or> hd s \<noteq> CHR ''['')"
    by (auto simp: parse_array.simps [of depth s] split: if_splits)
  with 2(2) consider "v = list_item cJSON_Array []"
    | cs where "?s \<noteq> []" "hd ?s \<noteq> CHR '']''" "array_loop (depth + 1) ?s = Some (cs, r)"
        "v = list_item cJSON_Array cs"
    by (auto simp: parse_array.simps [of depth s] Let_def split: if_splits)
  then show ?case
  proof cases
    case 1
    with lim show ?thesis
      by (simp add: yields_def list_item_def)
  next
    case c: 2
    have "typed_elements cs \<and> yields_list (depth + 1) cs"
      by (rule 2(1) [OF lim ne refl c(1-3)])
    with lim c(4) show ?thesis
      by (auto simp: yields_def yields_list_def list_item_def)
  qed
next
  case (3 depth s)
  from 3(3) obtain v0 r0 where v: "parse_value depth (buffer_skip_whitespace s) = Some (v0, r0)"
    by (auto simp: array_loop.simps [of depth s] split: option.splits)
  let ?r = "buffer_skip_whitespace r0"
  have v0: "yields depth v0"
    by (rule 3(1) [OF v])
  from 3(3) v consider
      "vs = [v0]"
    | ws where "?r \<noteq> []" "hd ?r = CHR '',''" "length (tl ?r) < length s"
        "array_loop depth (tl ?r) = Some (ws, r)" "vs = v0 # ws"
    by (auto simp: array_loop.simps [of depth s] Let_def split: if_splits)
  then show ?case
  proof cases
    case 1
    with v0 show ?thesis
      by (auto simp: yields_def yields_list_def)
  next
    case 2
    have "typed_elements ws \<and> yields_list depth ws"
      by (rule 3(2) [OF v refl refl 2(1-4)])
    with v0 2(5) show ?thesis
      by (auto simp: yields_def yields_list_def)
  qed
next
  case (4 depth s)
  let ?s = "buffer_skip_whitespace (tl s)"
  from 4(2) have lim: "\<not> CJSON_NESTING_LIMIT \<le> depth" and ne: "\<not> (s = [] \<or> hd s \<noteq> CHR ''{'')"
    by (auto simp: parse_object.simps [of depth s] split: if_splits)
  with 4(2) consider "v = list_item cJSON_Object []"
    | cs where "?s \<noteq> []" "hd ?s \<noteq> CHR ''}''" "object_loop (depth + 1) ?s = Some (cs, r)"
        "v = list_item cJSON_Object cs"
    by (auto simp: parse_object.simps [of depth s] Let_def split: if_splits)
  then show ?case
  proof cases
    case 1
    with lim show ?thesis
      by (simp add: yields_def list_item_def)
  next
    case 2
    have "typed_members cs \<and> yields_list (depth + 1) cs"
      by (rule 4(1) [OF lim ne refl 2(1-3)])
    with lim 2(4) show ?thesis
      by (auto simp: yields_def yields_list_def list_item_def)
  qed
next
  case (5 depth s)
  from 5(3) obtain nm r0 where n: "parse_string (buffer_skip_whitespace s) = Some (nm, r0)"
    by (auto simp: object_loop.simps [of depth s] split: option.splits)
  let ?r1 = "buffer_skip_whitespace r0"
  from 5(3) n obtain v0 q where q: "\<not> (?r1 = [] \<or> hd ?r1 \<noteq> CHR '':'')" "length (tl ?r1) < length s"
    "parse_value depth (buffer_skip_whitespace (tl ?r1)) = Some (v0, q)"
    by (auto simp: object_loop.simps [of depth s] Let_def split: if_splits option.splits)
  let ?r = "buffer_skip_whitespace q"
  let ?v = "with_string (Some nm) False v0"
  have "yields depth v0"
    by (rule 5(1) [OF n refl refl q(1,2,3)])
  then have v0: "typed ?v" "text_ok (item_string ?v)" "nesting ?v = 0 \<or> depth + nesting ?v \<le> CJSON_NESTING_LIMIT"
    using parse_string_text [OF n] by (auto simp: yields_def typed_not_const text_ok_def)
  from 5(3) n q consider
      "vs = [?v]"
    | ws where "?r \<noteq> []" "hd ?r = CHR '',''" "length (tl ?r) < length s"
        "object_loop depth (tl ?r) = Some (ws, r)" "vs = ?v # ws"
    by (auto simp: object_loop.simps [of depth s] Let_def split: if_splits)
  then show ?case
  proof cases
    case 1
    with v0 show ?thesis
      by (auto simp: yields_list_def)
  next
    case 2
    have "typed_members ws \<and> yields_list depth ws"
      by (rule 5(2) [OF n refl refl q refl refl refl 2(1-4)])
    with v0 2(5) show ?thesis
      by (auto simp: yields_list_def)
  qed
qed

section \<open>Properties\<close>

lemmas parser_eval = cJSON_Parse_def cJSON_ParseWithOpts_def c_string_def skip_utf8_bom_def
  buffer_skip_whitespace_def parse_value.simps parse_array.simps array_loop.simps parse_object.simps
  object_loop.simps starts_with_def code_def is_digit_def is_sign_def CJSON_NESTING_LIMIT_def
  parse_string_def unescape.simps simple_escape_def parse_number_def number_char_def

text \<open>C8: Printing a plain item without formatting and parsing the text gives back exactly the item. An
  item is plain when it is a tree of objects, arrays, strings without a zero byte, literals and whole
  numbers below \<open>10 ^ 15\<close> (no raw text, references or constant names); it has no name itself, is nested at
  most \<^verbatim>\<open>CJSON_NESTING_LIMIT\<close> deep and its text is shorter than \<^verbatim>\<open>INT_MAX\<close>. Quotes, backslashes and
  control characters in names and strings survive.\<close>

theorem print_then_parse:
  assumes "plain it" "item_string it = None" "nesting it \<le> CJSON_NESTING_LIMIT"
    "length (compact_value it) + 1 < INT_MAX"
  shows "\<exists>txt. cJSON_PrintUnformatted it = Some txt \<and> cJSON_Parse (Some txt) = Some it"
  using print_plain [OF assms(1,4)] parse_printed [OF assms(1,2,3)] by (simp add: cJSON_Parse_def)

definition sample_item :: cJSON where
  "sample_item =
     list_item cJSON_Object
       [with_string (Some ''pod_id'') False (number_item (Finite 42)),
        with_string (Some [CHR ''a'', CHR 0x22, CHR 0x01]) False
          (list_item cJSON_Array [string_item [CHR 0x5C, CHR 0x0A], number_item (Finite (- 7)), true_item])]"

theorem print_then_parse_witness:
  "\<exists>txt. cJSON_PrintUnformatted sample_item = Some txt \<and> cJSON_Parse (Some txt) = Some sample_item"
proof (rule print_then_parse)
  have "dec_int 42 = ''42''" "dec_int (- 7) = ''-7''"
    by code_simp+
  then have m: "number_text (Finite 42) = ''42''" "number_text (Finite (- 7)) = ''-7''"
    using number_text_whole [of 42] number_text_whole [of "- 7"] by simp_all
  show "length (compact_value sample_item) + 1 < INT_MAX"
    by (simp add: sample_item_def list_item_def number_item_def string_item_def true_item_def
        compact_string_def m escaped_def code_def INT_MAX_def)
qed (simp_all add: sample_item_def list_item_def number_item_def string_item_def true_item_def
      text_ok_def whole_def CJSON_NESTING_LIMIT_def)

text \<open>C26: Whatever the text, an item that the parser accepts is well formed: it is a literal, a number
  whose integer value is the saturated double, a string without a zero byte, or an array or object of
  such items, where exactly the members of objects have names; and it is nested at most
  \<^verbatim>\<open>CJSON_NESTING_LIMIT\<close> deep, which bounds the recursion of the parser.\<close>

theorem parsed_item_is_typed:
  assumes "cJSON_Parse (Some txt) = Some it"
  shows "typed it \<and> item_string it = None \<and> nesting it \<le> CJSON_NESTING_LIMIT"
proof -
  obtain r where "parse_value 0 (buffer_skip_whitespace (skip_utf8_bom (c_string txt @ [nul]))) = Some (it, r)"
    using assms by (auto simp: cJSON_Parse_def cJSON_ParseWithOpts_def split: option.splits)
  then have "yields 0 it"
    by (rule parse_yields(1))
  then show ?thesis
    by (auto simp: yields_def)
qed

theorem parsed_item_is_typed_witness:
  "typed (list_item cJSON_Array [kind_item cJSON_NULL, string_item [CHR 0x0A]])"
proof -
  have "cJSON_Parse (Some ('' [null, '' @ [CHR 0x22, CHR 0x5C, CHR ''n'', CHR 0x22] @ '']x''))
      = Some (list_item cJSON_Array [kind_item cJSON_NULL, string_item [CHR 0x0A]])"
    by (simp add: parser_eval)
  from parsed_item_is_typed [OF this] show ?thesis
    by simp
qed

end
