(* ===== verification/Control_Policy.thy ===== *)
theory Control_Policy
  imports Micro_Seg Cjson_Roundtrip
begin

text \<open>
  The policy half of the control plane, \<^verbatim>\<open>src/net-policy.cpp\<close>: address lists, the JSON forms of
  policies and node lists, and the work that the control calls queue for the event loop. A
  conversion that throws ends the work at once and keeps what it has changed so far; reading
  through a NULL string, or converting a number out of range, is undefined.
\<close>

section \<open>Outcomes\<close>

datatype 'a outcome = Done MicroSegEngine 'a | Threw MicroSegEngine | Undefined

fun and_then :: "'a outcome \<Rightarrow> (MicroSegEngine \<Rightarrow> 'a \<Rightarrow> 'b outcome) \<Rightarrow> 'b outcome" where
  "and_then (Done ms a) f = f ms a"
| "and_then (Threw ms) f = Threw ms"
| "and_then Undefined f = Undefined"

text \<open>Assigning a C string, \<open>None\<close> for NULL, to a string.\<close>

definition with_text :: "MicroSegEngine \<Rightarrow> string option \<Rightarrow> (string \<Rightarrow> 'a outcome) \<Rightarrow> 'a outcome" where
  "with_text ms s f = (case s of None \<Rightarrow> Undefined | Some t \<Rightarrow> f t)"

section \<open>Text conversions\<close>

definition NetProtoConvert :: "string \<Rightarrow> i32" where
  "NetProtoConvert p =
     (if p = [] then 0 else if p = ''TCP'' then 6 else if p = ''UDP'' then 17
      else if p = ''ICMP'' then 1 else 0)"

definition ConvertRuleAction :: "string \<Rightarrow> NetPolicyRule" where
  "ConvertRuleAction s =
     (if s = ''Allow'' \<or> s = ''Log'' then kAllow else if s = ''Alert'' then kMark else kDeny)"

definition ipv4StringToInt :: "string \<Rightarrow> u32" where
  "ipv4StringToInt ip = (case parse_ipv4 (c_string ip) of None \<Rightarrow> 0 | Some a \<Rightarrow> ntohl a)"

text \<open>\<^verbatim>\<open>std::stoi\<close>: white space, a sign, digits, then anything; \<open>None\<close> if it throws.\<close>

definition is_space :: "char \<Rightarrow> bool" where
  "is_space c \<longleftrightarrow> c = CHR '' '' \<or> (9 \<le> code c \<and> code c \<le> 13)"

definition stoi :: "string \<Rightarrow> i32 option" where
  "stoi s =
     (let (neg, r) = take_sign (dropWhile is_space (c_string s));
          ds = fst (take_digits r);
          v = (if neg then - int (digits_val ds) else int (digits_val ds))
      in if ds = [] \<or> \<not> in_i32 v then None else Some v)"

definition getline_segments :: "char \<Rightarrow> string \<Rightarrow> string list" where
  "getline_segments sep s =
     (let segs = split_on sep s in if last segs = [] then butlast segs else segs)"

text \<open>The last component of the start address, up to the end of the range. A range that ends at
  the largest \<^verbatim>\<open>int\<close> overflows the loop variable.\<close>

definition after_last_dot :: "string \<Rightarrow> string \<times> string" where
  "after_last_dot s =
     (let n = length (takeWhile (\<lambda>c. c \<noteq> CHR ''.'') (rev s))
      in (take (length s - n) s, drop (length s - n) s))"

datatype addresses = Addrs "string list" | AddrThrow | AddrOverflow

definition expand_range :: "string \<Rightarrow> string \<Rightarrow> addresses" where
  "expand_range startIP endIP =
     (if length (filter (\<lambda>c. c = CHR ''.'') startIP) \<noteq> 3 then Addrs []
      else
        (let (baseIP, lst) = after_last_dot startIP in
         case stoi lst of
           None \<Rightarrow> AddrThrow
         | Some startRange \<Rightarrow>
             (case stoi endIP of
                None \<Rightarrow> AddrThrow
              | Some endRange \<Rightarrow>
                  if startRange \<le> endRange \<and> endRange = i32_max then AddrOverflow
                  else Addrs (map (\<lambda>i. baseIP @ dec_int i) [startRange..endRange]))))"

definition expand_segment :: "string \<Rightarrow> addresses" where
  "expand_segment segment =
     (if CHR ''-'' \<in> set segment
      then expand_range (takeWhile (\<lambda>c. c \<noteq> CHR ''-'') segment)
             (tl (dropWhile (\<lambda>c. c \<noteq> CHR ''-'') segment))
      else Addrs [segment])"

fun expand_all :: "string list \<Rightarrow> string list \<Rightarrow> addresses" where
  "expand_all ret [] = Addrs ret"
| "expand_all ret (seg # segs) =
     (case expand_segment seg of
        Addrs ips \<Rightarrow> expand_all (ret @ ips) segs
      | AddrThrow \<Rightarrow> AddrThrow
      | AddrOverflow \<Rightarrow> AddrOverflow)"

definition ParseIpString :: "string \<Rightarrow> string list \<Rightarrow> addresses" where
  "ParseIpString input ret = expand_all ret (getline_segments (CHR '','') input)"

section \<open>Policies\<close>

definition control_DeletePolicy :: "MicroSegEngine \<Rightarrow> string \<Rightarrow> MicroSegEngine \<times> i32" where
  "control_DeletePolicy ms name = (if name = [] then (ms, 0) else (MicroSeg_DeletePolicy ms name, 0))"

definition AddNewPolicy :: "MicroSegEngine \<Rightarrow> RuleDetail \<Rightarrow> RulePort \<Rightarrow> MicroSegEngine \<times> i32" where
  "AddNewPolicy ms policy stPort =
     (if priority policy \<le> 0 \<or> priority policy \<ge> 129 then (ms, - 1)
      else AddPolicyToTree ms policy stPort)"

text \<open>\<^verbatim>\<open>(uint64_t)\<close> of a double; \<open>None\<close> outside the range, which is undefined.\<close>

definition double_to_u64 :: "double \<Rightarrow> u64 option" where
  "double_to_u64 d =
     (case d of
        Infinity neg \<Rightarrow> None
      | Finite r \<Rightarrow>
          (let n = trunc_zero r in if 0 \<le> n \<and> n < 2 ^ 64 then Some (word_of_int n) else None))"

type_synonym pod_set = "(u64, string) hmap"

definition insert_pod :: "u64 \<Rightarrow> string \<Rightarrow> pod_set \<Rightarrow> pod_set" where
  "insert_pod k v m = (if hm_has m k then m else hm_put k v m)"

fun http_loop :: "MicroSegEngine \<Rightarrow> RuleDetail \<Rightarrow> cJSON list \<Rightarrow> unit outcome" where
  "http_loop ms rule [] = Done ms ()"
| "http_loop ms rule (it # its) =
     (case cJSON_GetObjectItem (Some it) ''host'' of
        None \<Rightarrow> Done ms ()
      | Some h \<Rightarrow> with_text ms (cJSON_GetStringValue h) (\<lambda>host.
          (case cJSON_GetObjectItem (Some it) ''method'' of
             None \<Rightarrow> Done ms ()
           | Some m \<Rightarrow> with_text ms (cJSON_GetStringValue m) (\<lambda>method.
               (case cJSON_GetObjectItem (Some it) ''path'' of
                  None \<Rightarrow> Done ms ()
                | Some p \<Rightarrow> with_text ms (cJSON_GetStringValue p) (\<lambda>path.
                    http_loop
                      (fst (AddHttpPolicy ms (direction rule) (policy_key rule)
                        \<lparr> hr_direction = word_of_int (dir_code (direction rule)),
                          hr_action = rule_of_code (action rule),
                          hr_host = host, hr_method = method, hr_path = path \<rparr>))
                      rule its))))))"

text \<open>The addresses of one side. The pods of the local side are collected for \<^verbatim>\<open>UpdateMark\<close>.\<close>

fun address_loop ::
  "MicroSegEngine \<Rightarrow> bool \<Rightarrow> string list \<Rightarrow> pod_set \<Rightarrow> cJSON list \<Rightarrow> (string list \<times> pod_set) outcome" where
  "address_loop ms is_local ips cgRes [] = Done ms (ips, cgRes)"
| "address_loop ms is_local ips cgRes (it # its) =
     (case cJSON_GetObjectItem (Some it) ''ip'' of
        None \<Rightarrow> Done ms (ips, cgRes)
      | Some param \<Rightarrow> with_text ms (cJSON_GetStringValue param) (\<lambda>val.
          (case ParseIpString val ips of
             AddrThrow \<Rightarrow> Threw ms
           | AddrOverflow \<Rightarrow> Undefined
           | Addrs ips' \<Rightarrow>
               if \<not> is_local then address_loop ms is_local ips' cgRes its
               else
                 (case cJSON_GetObjectItem (Some it) ''pod_id'' of
                    None \<Rightarrow> address_loop ms is_local ips' cgRes its
                  | Some pod \<Rightarrow>
                      (case double_to_u64 (valuedouble pod) of
                         None \<Rightarrow> Undefined
                       | Some podId \<Rightarrow> address_loop ms is_local ips' (insert_pod podId val cgRes) its)))))"

definition int_member :: "cJSON \<Rightarrow> string \<Rightarrow> int" where
  "int_member it nm = (case cJSON_GetObjectItem (Some it) nm of None \<Rightarrow> 0 | Some v \<Rightarrow> valueint v)"

definition parse_port :: "u8 \<Rightarrow> cJSON \<Rightarrow> RulePort" where
  "parse_port pr it =
     (let e = word_of_int (int_member it ''endPort''); p = word_of_int (int_member it ''port'')
      in \<lparr> end_port = (if e = 0 then p else e), port = p, port_proto = pr \<rparr>)"

text \<open>All combinations of a source, a destination and a port; one empty port if there is none.\<close>

definition add_rules ::
  "MicroSegEngine \<Rightarrow> RuleDetail \<Rightarrow> string list \<Rightarrow> string list \<Rightarrow> RulePort list \<Rightarrow> MicroSegEngine" where
  "add_rules ms rule srcip dstip rulePorts =
     fold (\<lambda>s ms1. fold (\<lambda>d ms2. fold (\<lambda>p ms3.
         fst (AddNewPolicy ms3 (rule\<lparr> src_ip := s, dst_ip := d \<rparr>) p))
       (if rulePorts = [] then [\<lparr> end_port = 0, port = 0, port_proto = 0 \<rparr>] else rulePorts) ms2)
       dstip ms1) srcip ms"

definition children :: "cJSON option \<Rightarrow> cJSON list" where
  "children it = (case it of None \<Rightarrow> [] | Some i \<Rightarrow> child i)"

text \<open>One rule: whether the loop over the rules goes on, and the pods.\<close>

definition parse_rule :: "MicroSegEngine \<Rightarrow> string \<Rightarrow> pod_set \<Rightarrow> cJSON \<Rightarrow> (bool \<times> pod_set) outcome" where
  "parse_rule ms key cgRes arr =
     (case cJSON_GetObjectItem (Some arr) ''action'' of
        None \<Rightarrow> Done ms (False, cgRes)
      | Some act \<Rightarrow> with_text ms (valuestring act) (\<lambda>dsc.
     (case cJSON_GetObjectItem (Some arr) ''direction'' of
        None \<Rightarrow> Done ms (False, cgRes)
      | Some dir \<Rightarrow> with_text ms (valuestring dir) (\<lambda>dirs.
     with_text ms
       (case cJSON_GetObjectItem (Some arr) ''protocol'' of None \<Rightarrow> Some [] | Some v \<Rightarrow> valuestring v)
       (\<lambda>protos.
     let rule = \<lparr> proto = word_of_int (NetProtoConvert protos), priority = 0, addr_type = 0,
                  direction = (if dirs = ''ingress'' then kIngress else kEgress),
                  action = rule_code (ConvertRuleAction dsc), action_dsc = dsc,
                  policy_key = key, src_ip = [], dst_ip = [], ports = [] \<rparr>
     in
     and_then (http_loop ms rule (children (cJSON_GetObjectItem (Some arr) ''http''))) (\<lambda>ms1 _.
     case cJSON_GetObjectItem (Some arr) ''from_addresses'' of
       None \<Rightarrow> Done ms1 (False, cgRes)
     | Some from \<Rightarrow>
     and_then (address_loop ms1 (direction rule = kEgress) [] cgRes (child from)) (\<lambda>ms2 (srcip, cg1).
     let rulePorts = map (parse_port (proto rule)) (children (cJSON_GetObjectItem (Some arr) ''ports'')) in
     case cJSON_GetObjectItem (Some arr) ''priority'' of
       None \<Rightarrow> Done ms2 (False, cg1)
     | Some prio \<Rightarrow>
     case cJSON_GetObjectItem (Some arr) ''to_addresses'' of
       None \<Rightarrow> Done ms2 (False, cg1)
     | Some to \<Rightarrow>
     and_then (address_loop ms2 (direction rule = kIngress) [] cg1 (child to)) (\<lambda>ms3 (dstip, cg2).
     Done (add_rules ms3 (rule\<lparr> priority := valueint prio \<rparr>) srcip dstip rulePorts) (True, cg2)))))))))"

fun rules_loop :: "MicroSegEngine \<Rightarrow> string \<Rightarrow> pod_set \<Rightarrow> cJSON list \<Rightarrow> pod_set outcome" where
  "rules_loop ms key cgRes [] = Done ms cgRes"
| "rules_loop ms key cgRes (it # its) =
     and_then (parse_rule ms key cgRes it) (\<lambda>ms1 (go_on, cg1).
       if go_on then rules_loop ms1 key cg1 its else Done ms1 cg1)"

text \<open>The pods whose accept mark is reset, in the order the map is walked: those with a
  conntrack session.\<close>

definition UpdateMark :: "(pod_set \<Rightarrow> u64 list) \<Rightarrow> MicroSegEngine \<Rightarrow> pod_set \<Rightarrow> u64 list" where
  "UpdateMark walk ms cgRes =
     filter (\<lambda>pod. case GetNfqRes ms pod of None \<Rightarrow> False | Some res \<Rightarrow> nr_conntrack res) (walk cgRes)"

definition ParseNetPolicy ::
  "(pod_set \<Rightarrow> u64 list) \<Rightarrow> MicroSegEngine \<Rightarrow> string option \<Rightarrow> (i32 \<times> u64 list) outcome" where
  "ParseNetPolicy walk ms buf =
     (case buf of
        None \<Rightarrow> Done ms (- 1, [])
      | Some txt \<Rightarrow>
     (case cJSON_Parse (Some txt) of
        None \<Rightarrow> Done ms (- 1, [])
      | Some doc \<Rightarrow>
     (case cJSON_GetObjectItem (Some doc) ''policy_name'' of
        None \<Rightarrow> Done ms (- 1, [])
      | Some nm \<Rightarrow> with_text ms (valuestring nm) (\<lambda>key.
     let ms1 = fst (control_DeletePolicy ms key) in
     case cJSON_GetObjectItem (Some doc) ''rules'' of
       None \<Rightarrow> Done ms1 (- 1, [])
     | Some rs \<Rightarrow>
     and_then (rules_loop ms1 key [] (child rs)) (\<lambda>ms2 cgRes.
     Done ms2 (0, UpdateMark walk ms2 cgRes))))))"

section \<open>Node addresses\<close>

fun node_loop :: "MicroSegEngine \<Rightarrow> bool \<Rightarrow> cJSON list \<Rightarrow> unit outcome" where
  "node_loop ms del [] = Done ms ()"
| "node_loop ms del (it # its) =
     with_text ms (valuestring it) (\<lambda>ip.
       node_loop ((if del then RemoveNodeIp else AddNodeIp) ms (ipv4StringToInt ip)) del its)"

definition ParseNodeCfg :: "MicroSegEngine \<Rightarrow> string option \<Rightarrow> i32 outcome" where
  "ParseNodeCfg ms buf =
     (case buf of
        None \<Rightarrow> Done ms (- 1)
      | Some txt \<Rightarrow>
     (case cJSON_Parse (Some txt) of
        None \<Rightarrow> Done ms (- 1)
      | Some doc \<Rightarrow>
     (case cJSON_GetObjectItem (Some doc) ''action'' of
        None \<Rightarrow> Done ms (- 1)
      | Some act \<Rightarrow> with_text ms (valuestring act) (\<lambda>val.
     case cJSON_GetObjectItem (Some doc) ''node_ips'' of
       None \<Rightarrow> Done ms (- 1)
     | Some ips \<Rightarrow> and_then (node_loop ms (val = ''delete'') (child ips)) (\<lambda>ms1 _. Done ms1 0)))))"

end
