(* ===== verification/Control_Rpc.thy ===== *)
theory Control_Rpc
  imports Control_Policy
begin

text \<open>
  The control calls of \<^verbatim>\<open>src/net-policy.cpp\<close> that build a JSON text from their arguments and queue
  the work that reads it back: adding a policy and updating the node addresses. The result of a
  call is what its closure stores; a closure that throws leaves the initial value 1. The lemmas
  show that the detour through JSON changes nothing.
\<close>

section \<open>Messages\<close>

record HttpMatchRule =
  hm_host :: string
  hm_method :: string
  hm_path :: string

record AddressEndpoint =
  ae_ip :: string
  ae_pod_id :: u64

record PortRange =
  pr_port :: u32
  pr_end_port :: u32

record PolicyRuleSpec =
  ps_action :: i32
  ps_direction :: i32
  ps_protocol :: i32
  ps_http_rules :: "HttpMatchRule list"
  ps_from_addresses :: "AddressEndpoint list"
  ps_to_addresses :: "AddressEndpoint list"
  ps_ports :: "PortRange list"
  ps_priority :: i32

definition PolicyActionToStr :: "i32 \<Rightarrow> string" where
  "PolicyActionToStr a = (if a = 2 then ''Allow'' else if a = 3 then ''Alert'' else ''Deny'')"

definition FlowDirectionToStr :: "i32 \<Rightarrow> string" where
  "FlowDirectionToStr d = (if d = 1 then ''ingress'' else ''egress'')"

definition L4ProtocolToStr :: "i32 \<Rightarrow> string" where
  "L4ProtocolToStr p = (if p = 1 then ''TCP'' else if p = 2 then ''UDP'' else if p = 3 then ''ICMP'' else [])"

section \<open>From messages to JSON\<close>

definition AddressEndpointToJsonRust :: "AddressEndpoint \<Rightarrow> cJSON" where
  "AddressEndpointToJsonRust ep =
     (let obj = cJSON_AddStringToObject cJSON_CreateObject ''ip'' (Some (ae_ip ep))
      in cJSON_AddNumberToObject obj ''pod_id'' (int_to_double (uint (ae_pod_id ep))))"

definition http_json :: "HttpMatchRule \<Rightarrow> cJSON" where
  "http_json h =
     (let it = cJSON_AddStringToObject cJSON_CreateObject ''host'' (Some (hm_host h));
          it = cJSON_AddStringToObject it ''method'' (Some (hm_method h))
      in cJSON_AddStringToObject it ''path'' (Some (hm_path h)))"

definition port_json :: "PortRange \<Rightarrow> cJSON" where
  "port_json p =
     (let it = cJSON_AddNumberToObject cJSON_CreateObject ''port'' (int_to_double (uint (pr_port p)))
      in cJSON_AddNumberToObject it ''endPort'' (int_to_double (uint (pr_end_port p))))"

definition array_json :: "cJSON list \<Rightarrow> cJSON" where
  "array_json its = fold (\<lambda>it arr. cJSON_AddItemToArray arr (Some it)) its cJSON_CreateArray"

definition rule_json :: "PolicyRuleSpec \<Rightarrow> cJSON" where
  "rule_json rule =
     (let r = cJSON_AddStringToObject cJSON_CreateObject ''action'' (Some (PolicyActionToStr (ps_action rule)));
          r = cJSON_AddStringToObject r ''direction'' (Some (FlowDirectionToStr (ps_direction rule)));
          r = (if ps_protocol rule \<noteq> 0
               then cJSON_AddStringToObject r ''protocol'' (Some (L4ProtocolToStr (ps_protocol rule))) else r);
          r = (if ps_http_rules rule \<noteq> []
               then cJSON_AddItemToObject r ''http'' (Some (array_json (map http_json (ps_http_rules rule)))) else r);
          r = cJSON_AddItemToObject r ''from_addresses''
                (Some (array_json (map AddressEndpointToJsonRust (ps_from_addresses rule))));
          r = cJSON_AddItemToObject r ''to_addresses''
                (Some (array_json (map AddressEndpointToJsonRust (ps_to_addresses rule))));
          r = (if ps_ports rule \<noteq> []
               then cJSON_AddItemToObject r ''ports'' (Some (array_json (map port_json (ps_ports rule)))) else r)
      in cJSON_AddNumberToObject r ''priority'' (int_to_double (ps_priority rule)))"

definition policy_json :: "string \<Rightarrow> PolicyRuleSpec list \<Rightarrow> cJSON" where
  "policy_json name rs =
     (let doc = cJSON_AddStringToObject cJSON_CreateObject ''policy_name'' (Some name)
      in cJSON_AddItemToObject doc ''rules'' (Some (array_json (map rule_json rs))))"

definition node_json :: "bool \<Rightarrow> string list \<Rightarrow> cJSON" where
  "node_json is_delete node_ips =
     (let doc = cJSON_AddStringToObject cJSON_CreateObject ''action''
            (Some (if is_delete then ''delete'' else ''add''));
          ips = fold (\<lambda>ip arr. cJSON_AddItemToArray arr (cJSON_CreateString (Some ip))) node_ips cJSON_CreateArray
      in cJSON_AddItemToObject doc ''node_ips'' (Some ips))"

section \<open>The calls\<close>

text \<open>The engine after the closure and the result of the call; \<open>None\<close> for undefined behaviour. For
  the policy call also the pods whose marks are reset.\<close>

fun call_result :: "i32 outcome \<Rightarrow> (MicroSegEngine \<times> i32) option" where
  "call_result (Done ms r) = Some (ms, r)"
| "call_result (Threw ms) = Some (ms, 1)"
| "call_result Undefined = None"

definition GrpcDispatchAddPolicyRule ::
  "(pod_set \<Rightarrow> u64 list) \<Rightarrow> MicroSegEngine \<Rightarrow> string \<Rightarrow> PolicyRuleSpec list \<Rightarrow> (i32 \<times> u64 list) outcome" where
  "GrpcDispatchAddPolicyRule walk ms policy_name rs =
     (case cJSON_PrintUnformatted (policy_json policy_name rs) of
        None \<Rightarrow> Undefined
      | Some json \<Rightarrow> ParseNetPolicy walk ms (Some json))"

definition GrpcDispatchUpdateNodeConfig ::
  "MicroSegEngine \<Rightarrow> bool \<Rightarrow> string list \<Rightarrow> i32 outcome" where
  "GrpcDispatchUpdateNodeConfig ms is_delete node_ips =
     (case cJSON_PrintUnformatted (node_json is_delete node_ips) of
        None \<Rightarrow> Undefined
      | Some json \<Rightarrow> ParseNodeCfg ms (Some json))"

definition GrpcDispatchDeletePolicyRule :: "MicroSegEngine \<Rightarrow> string \<Rightarrow> i32 outcome" where
  "GrpcDispatchDeletePolicyRule ms policy_name =
     (let (ms', r) = control_DeletePolicy ms policy_name in Done ms' r)"

definition GrpcDispatchResetConfig :: "MicroSegEngine \<Rightarrow> i32 outcome" where
  "GrpcDispatchResetConfig ms = (let (ms', r) = PolicyRule_ClearCfg ms in Done ms' r)"

section \<open>What the calls mean\<close>

text \<open>The same without JSON: the reference that the calls implement.\<close>

fun spec_addresses ::
  "MicroSegEngine \<Rightarrow> bool \<Rightarrow> string list \<Rightarrow> pod_set \<Rightarrow> AddressEndpoint list \<Rightarrow> (string list \<times> pod_set) outcome" where
  "spec_addresses ms is_local ips pods [] = Done ms (ips, pods)"
| "spec_addresses ms is_local ips pods (ep # eps) =
     (case ParseIpString (ae_ip ep) ips of
        AddrThrow \<Rightarrow> Threw ms
      | AddrOverflow \<Rightarrow> Undefined
      | Addrs ips' \<Rightarrow>
          spec_addresses ms is_local ips'
            (if is_local then insert_pod (ae_pod_id ep) (ae_ip ep) pods else pods) eps)"

definition spec_direction :: "PolicyRuleSpec \<Rightarrow> FlowDir" where
  "spec_direction r = (if ps_direction r = 1 then kIngress else kEgress)"

definition spec_action :: "PolicyRuleSpec \<Rightarrow> NetPolicyRule" where
  "spec_action r = (if ps_action r = 2 then kAllow else if ps_action r = 3 then kMark else kDeny)"

definition spec_proto :: "PolicyRuleSpec \<Rightarrow> u8" where
  "spec_proto r = (if ps_protocol r = 1 then 6 else if ps_protocol r = 2 then 17
                   else if ps_protocol r = 3 then 1 else 0)"

text \<open>Ports are kept modulo \<open>2 ^ 16\<close>, after saturating at the largest \<^verbatim>\<open>int\<close>.\<close>

definition spec_port :: "PolicyRuleSpec \<Rightarrow> PortRange \<Rightarrow> RulePort" where
  "spec_port r p =
     (let sat = (\<lambda>n :: u32. word_of_int (min (uint n) i32_max) :: u16);
          e = sat (pr_end_port p)
      in \<lparr> end_port = (if e = 0 then sat (pr_port p) else e), port = sat (pr_port p),
           port_proto = spec_proto r \<rparr>)"

definition spec_rule :: "string \<Rightarrow> PolicyRuleSpec \<Rightarrow> RuleDetail" where
  "spec_rule key r =
     \<lparr> proto = spec_proto r, priority = ps_priority r, addr_type = 0, direction = spec_direction r,
       action = rule_code (spec_action r), action_dsc = PolicyActionToStr (ps_action r),
       policy_key = key, src_ip = [], dst_ip = [], ports = [] \<rparr>"

definition spec_http :: "string \<Rightarrow> PolicyRuleSpec \<Rightarrow> MicroSegEngine \<Rightarrow> MicroSegEngine" where
  "spec_http key r =
     fold (\<lambda>h ms. fst (AddHttpPolicy ms (spec_direction r) key
        \<lparr> hr_direction = word_of_int (dir_code (spec_direction r)), hr_action = spec_action r,
          hr_host = hm_host h, hr_method = hm_method h, hr_path = hm_path h \<rparr>)) (ps_http_rules r)"

definition install_rule ::
  "string \<Rightarrow> MicroSegEngine \<Rightarrow> pod_set \<Rightarrow> PolicyRuleSpec \<Rightarrow> pod_set outcome" where
  "install_rule key ms pods r =
     and_then (spec_addresses (spec_http key r ms) (spec_direction r = kEgress) [] pods (ps_from_addresses r))
       (\<lambda>ms1 (src, pods1).
         and_then (spec_addresses ms1 (spec_direction r = kIngress) [] pods1 (ps_to_addresses r))
           (\<lambda>ms2 (dst, pods2).
             Done (add_rules ms2 (spec_rule key r) src dst (map (spec_port r) (ps_ports r))) pods2))"

fun install_rules ::
  "string \<Rightarrow> MicroSegEngine \<Rightarrow> pod_set \<Rightarrow> PolicyRuleSpec list \<Rightarrow> pod_set outcome" where
  "install_rules key ms pods [] = Done ms pods"
| "install_rules key ms pods (r # rs) =
     and_then (install_rule key ms pods r) (\<lambda>ms1 pods1. install_rules key ms1 pods1 rs)"

definition install_policy ::
  "(pod_set \<Rightarrow> u64 list) \<Rightarrow> MicroSegEngine \<Rightarrow> string \<Rightarrow> PolicyRuleSpec list \<Rightarrow> (i32 \<times> u64 list) outcome" where
  "install_policy walk ms key rs =
     and_then (install_rules key (if key = [] then ms else MicroSeg_DeletePolicy ms key) [] rs)
       (\<lambda>ms1 pods. Done ms1 (0, UpdateMark walk ms1 pods))"

text \<open>Messages that JSON carries exactly: no zero bytes in texts, pod ids below \<open>10 ^ 15\<close>.\<close>

definition endpoint_ok :: "AddressEndpoint \<Rightarrow> bool" where
  "endpoint_ok ep \<longleftrightarrow> nul \<notin> set (ae_ip ep) \<and> uint (ae_pod_id ep) < 10 ^ 15"

definition spec_ok :: "PolicyRuleSpec \<Rightarrow> bool" where
  "spec_ok r \<longleftrightarrow>
     in_i32 (ps_priority r)
     \<and> list_all (\<lambda>h. nul \<notin> set (hm_host h) \<and> nul \<notin> set (hm_method h) \<and> nul \<notin> set (hm_path h)) (ps_http_rules r)
     \<and> list_all endpoint_ok (ps_from_addresses r) \<and> list_all endpoint_ok (ps_to_addresses r)"

section \<open>Objects by their members\<close>

text \<open>An object is the list of its named members.\<close>

definition object :: "(string \<times> cJSON) list \<Rightarrow> cJSON" where
  "object kvs = list_item cJSON_Object (map (\<lambda>(k, v). with_string (Some k) False v) kvs)"

lemma child_list_item [simp]: "child (list_item t cs) = cs"
  by (simp add: list_item_def)

lemma child_with_string [simp]:
  "child (with_string nm b it) = child it" "valuestring (with_string nm b it) = valuestring it"
  "valueint (with_string nm b it) = valueint it" "valuedouble (with_string nm b it) = valuedouble it"
  "jtype (with_string nm b it) = jtype it"
  by (cases it, simp)+

lemma scalar_items [simp]:
  "valuestring (string_item s) = Some s" "jtype (string_item s) = cJSON_String"
  "valuedouble (number_item d) = d" "valueint (number_item d) = saturate d"
  by (simp_all add: string_item_def number_item_def)

lemma string_value [simp]: "cJSON_GetStringValue (with_string nm b (string_item s)) = Some s"
  by (simp add: cJSON_GetStringValue_def)

lemma create_object: "cJSON_CreateObject = object []"
  by (simp add: cJSON_CreateObject_def kind_item_def object_def list_item_def)

lemma add_member:
  "cJSON_AddItemToObject (object kvs) nm (Some it) = object (kvs @ [(c_string nm, it)])"
  by (simp add: cJSON_AddItemToObject_def add_item_to_object_def add_item_to_array_def or_unchanged_def
      object_def list_item_def cJSON_strdup_def)

lemma add_text_member:
  "cJSON_AddStringToObject (object kvs) nm (Some s) = object (kvs @ [(c_string nm, string_item (c_string s))])"
  by (simp add: cJSON_AddStringToObject_def cJSON_CreateString_def cJSON_strdup_def add_member)

lemma add_number_member:
  "cJSON_AddNumberToObject (object kvs) nm d = object (kvs @ [(c_string nm, number_item d)])"
  by (simp add: cJSON_AddNumberToObject_def cJSON_CreateNumber_def add_member)

lemma array_json_eq: "array_json its = list_item cJSON_Array its"
proof -
  have "fold (\<lambda>it arr. cJSON_AddItemToArray arr (Some it)) its (list_item cJSON_Array acc)
      = list_item cJSON_Array (acc @ its)" for acc
    by (induction its arbitrary: acc)
      (simp_all add: cJSON_AddItemToArray_def add_item_to_array_def or_unchanged_def list_item_def)
  from this [of "[]"] show ?thesis
    by (simp add: array_json_def cJSON_CreateArray_def kind_item_def list_item_def)
qed

lemma find_folded_shift: "find_folded nm (Suc i) cs = map_option Suc (find_folded nm i cs)"
  by (induction cs arbitrary: i) auto

lemma get_member_Nil: "cJSON_GetObjectItem (Some (object [])) nm = None"
  by (simp add: cJSON_GetObjectItem_def get_object_item_def item_at_def object_def)

lemma get_member_Cons:
  "cJSON_GetObjectItem (Some (object ((k, v) # kvs))) nm =
     (if map tolower nm = map tolower k then Some (with_string (Some k) False v)
      else cJSON_GetObjectItem (Some (object kvs)) nm)"
  by (auto simp: cJSON_GetObjectItem_def get_object_item_def item_at_def object_def
      case_insensitive_strcmp_def find_folded_shift split: option.splits)

lemma names_folded:
  "map tolower ''action'' = ''action''" "map tolower ''direction'' = ''direction''"
  "map tolower ''protocol'' = ''protocol''" "map tolower ''http'' = ''http''"
  "map tolower ''from_addresses'' = ''from_addresses''" "map tolower ''to_addresses'' = ''to_addresses''"
  "map tolower ''ports'' = ''ports''" "map tolower ''priority'' = ''priority''"
  "map tolower ''ip'' = ''ip''" "map tolower ''pod_id'' = ''pod_id''"
  "map tolower ''port'' = ''port''" "map tolower ''endPort'' = ''endport''"
  "map tolower ''host'' = ''host''" "map tolower ''method'' = ''method''" "map tolower ''path'' = ''path''"
  "map tolower ''policy_name'' = ''policy_name''" "map tolower ''rules'' = ''rules''"
  "map tolower ''node_ips'' = ''node_ips''"
  by code_simp+

lemma literal_text: "list_all (\<lambda>c. c \<noteq> nul) s \<Longrightarrow> c_string s = s"
  by (auto simp: list_all_iff intro: c_string_id)

lemma object_append: "object kvs = object (kvs @ [])"
  by simp

lemmas json_build = create_object add_member add_text_member add_number_member array_json_eq

lemmas json_get = get_member_Nil get_member_Cons names_folded

lemma endpoint_json:
  "AddressEndpointToJsonRust ep =
     object [(''ip'', string_item (c_string (ae_ip ep))),
             (''pod_id'', number_item (int_to_double (uint (ae_pod_id ep))))]"
  by (simp add: AddressEndpointToJsonRust_def json_build literal_text)

lemma http_json_eq:
  "http_json h =
     object [(''host'', string_item (c_string (hm_host h))), (''method'', string_item (c_string (hm_method h))),
             (''path'', string_item (c_string (hm_path h)))]"
  by (simp add: http_json_def json_build literal_text)

lemma port_json_eq:
  "port_json p =
     object [(''port'', number_item (int_to_double (uint (pr_port p)))),
             (''endPort'', number_item (int_to_double (uint (pr_end_port p))))]"
  by (simp add: port_json_def json_build literal_text)

definition rule_members :: "PolicyRuleSpec \<Rightarrow> (string \<times> cJSON) list" where
  "rule_members rule =
     [(''action'', string_item (PolicyActionToStr (ps_action rule))),
      (''direction'', string_item (FlowDirectionToStr (ps_direction rule)))]
     @ (if ps_protocol rule \<noteq> 0 then [(''protocol'', string_item (L4ProtocolToStr (ps_protocol rule)))] else [])
     @ (if ps_http_rules rule \<noteq> []
        then [(''http'', list_item cJSON_Array (map http_json (ps_http_rules rule)))] else [])
     @ [(''from_addresses'', list_item cJSON_Array (map AddressEndpointToJsonRust (ps_from_addresses rule))),
        (''to_addresses'', list_item cJSON_Array (map AddressEndpointToJsonRust (ps_to_addresses rule)))]
     @ (if ps_ports rule \<noteq> [] then [(''ports'', list_item cJSON_Array (map port_json (ps_ports rule)))] else [])
     @ [(''priority'', number_item (int_to_double (ps_priority rule)))]"

lemma rule_json_eq: "rule_json rule = object (rule_members rule)"
proof -
  have t: "c_string (PolicyActionToStr a) = PolicyActionToStr a"
      "c_string (FlowDirectionToStr a) = FlowDirectionToStr a"
      "c_string (L4ProtocolToStr a) = L4ProtocolToStr a" for a
    by (simp_all add: PolicyActionToStr_def FlowDirectionToStr_def L4ProtocolToStr_def literal_text)
  show ?thesis
    by (simp add: rule_json_def rule_members_def json_build t literal_text Let_def)
qed

lemma policy_json_eq:
  "policy_json name rs =
     object [(''policy_name'', string_item (c_string name)), (''rules'', list_item cJSON_Array (map rule_json rs))]"
  by (simp add: policy_json_def json_build literal_text)

section \<open>Reading the JSON back\<close>

lemma rule_get:
  "cJSON_GetObjectItem (Some (object (rule_members r))) ''action'' =
     Some (with_string (Some ''action'') False (string_item (PolicyActionToStr (ps_action r))))"
  "cJSON_GetObjectItem (Some (object (rule_members r))) ''direction'' =
     Some (with_string (Some ''direction'') False (string_item (FlowDirectionToStr (ps_direction r))))"
  "cJSON_GetObjectItem (Some (object (rule_members r))) ''protocol'' =
     (if ps_protocol r = 0 then None
      else Some (with_string (Some ''protocol'') False (string_item (L4ProtocolToStr (ps_protocol r)))))"
  "cJSON_GetObjectItem (Some (object (rule_members r))) ''http'' =
     (if ps_http_rules r = [] then None
      else Some (with_string (Some ''http'') False (list_item cJSON_Array (map http_json (ps_http_rules r)))))"
  "cJSON_GetObjectItem (Some (object (rule_members r))) ''from_addresses'' =
     Some (with_string (Some ''from_addresses'') False
       (list_item cJSON_Array (map AddressEndpointToJsonRust (ps_from_addresses r))))"
  "cJSON_GetObjectItem (Some (object (rule_members r))) ''to_addresses'' =
     Some (with_string (Some ''to_addresses'') False
       (list_item cJSON_Array (map AddressEndpointToJsonRust (ps_to_addresses r))))"
  "cJSON_GetObjectItem (Some (object (rule_members r))) ''ports'' =
     (if ps_ports r = [] then None
      else Some (with_string (Some ''ports'') False (list_item cJSON_Array (map port_json (ps_ports r)))))"
  "cJSON_GetObjectItem (Some (object (rule_members r))) ''priority'' =
     Some (with_string (Some ''priority'') False (number_item (int_to_double (ps_priority r))))"
  by (cases "ps_protocol r = 0"; cases "ps_http_rules r = []"; cases "ps_ports r = []";
      simp add: rule_members_def json_get del: list.map)+

lemma exact_number: "\<bar>n\<bar> < 10 ^ 15 \<Longrightarrow> int_to_double n = Finite (of_int n)"
  by (rule int_to_double_exact) simp

lemma u32_exact: "int_to_double (uint (w :: u32)) = Finite (of_int (uint w))"
proof (rule exact_number)
  have "uint w < 2 ^ 32"
    by (rule less_le_trans [OF unsigned_less]) simp
  then show "\<bar>uint w\<bar> < 10 ^ 15"
    by simp
qed

lemma saturate_u32: "saturate (Finite (of_int (uint (w :: u32)))) = min (uint w) i32_max"
proof -
  have "\<not> uint w \<le> i32_min"
    using uint_ge_0 [of w] unfolding i32_min_def by linarith
  then show ?thesis
    by (simp add: saturate_def min_def del: of_int_uint)
qed

lemma pod_id_exact:
  "uint (w :: u64) < 10 ^ 15 \<Longrightarrow> double_to_u64 (int_to_double (uint w)) = Some w"
  by (simp add: exact_number double_to_u64_def del: of_int_uint, simp)

lemma read_port: "parse_port (spec_proto r) (port_json p) = spec_port r p"
  by (simp add: parse_port_def port_json_eq int_member_def json_get u32_exact saturate_u32 spec_port_def Let_def
      del: list.map of_int_uint)

lemma http_get:
  "cJSON_GetObjectItem (Some (http_json h)) ''host'' =
     Some (with_string (Some ''host'') False (string_item (c_string (hm_host h))))"
  "cJSON_GetObjectItem (Some (http_json h)) ''method'' =
     Some (with_string (Some ''method'') False (string_item (c_string (hm_method h))))"
  "cJSON_GetObjectItem (Some (http_json h)) ''path'' =
     Some (with_string (Some ''path'') False (string_item (c_string (hm_path h))))"
  by (simp_all add: http_json_eq json_get del: list.map)

lemma read_http:
  "list_all (\<lambda>h. nul \<notin> set (hm_host h) \<and> nul \<notin> set (hm_method h) \<and> nul \<notin> set (hm_path h)) hs
    \<Longrightarrow> http_loop ms rule (map http_json hs) =
     Done (fold (\<lambda>h ms. fst (AddHttpPolicy ms (direction rule) (policy_key rule)
        \<lparr> hr_direction = word_of_int (dir_code (direction rule)), hr_action = rule_of_code (action rule),
          hr_host = hm_host h, hr_method = hm_method h, hr_path = hm_path h \<rparr>)) hs ms) ()"
  by (induction hs arbitrary: ms)
    (simp_all add: http_get with_text_def c_string_id)

lemma read_addresses:
  "list_all endpoint_ok eps \<Longrightarrow>
     address_loop ms is_local ips pods (map AddressEndpointToJsonRust eps) = spec_addresses ms is_local ips pods eps"
  by (induction eps arbitrary: ips pods)
    (auto simp: endpoint_json json_get with_text_def c_string_id endpoint_ok_def pod_id_exact
      split: addresses.splits)

lemma convert_proto: "word_of_int (NetProtoConvert (L4ProtocolToStr (ps_protocol r))) = spec_proto r"
  by (simp add: NetProtoConvert_def L4ProtocolToStr_def spec_proto_def)

lemma convert_action: "ConvertRuleAction (PolicyActionToStr (ps_action r)) = spec_action r"
  by (simp add: ConvertRuleAction_def PolicyActionToStr_def spec_action_def)

lemma convert_direction:
  "(if FlowDirectionToStr (ps_direction r) = ''ingress'' then kIngress else kEgress) = spec_direction r"
  by (simp add: FlowDirectionToStr_def spec_direction_def)

lemma rule_of_code_spec: "rule_of_code (rule_code (spec_action r)) = spec_action r"
  by (simp add: spec_action_def rule_of_code_def)

lemma children_read:
  "children (if xs = [] then None else Some (with_string nm b (list_item t (map f xs)))) = map f xs"
  by (simp add: children_def)

lemma and_then_assoc: "and_then (and_then m f) g = and_then m (\<lambda>ms a. and_then (f ms a) g)"
  by (cases m) simp_all

lemma read_rule:
  assumes "spec_ok r"
  shows "parse_rule ms key pods (rule_json r) =
     and_then (install_rule key ms pods r) (\<lambda>ms1 pods1. Done ms1 (True, pods1))"
proof -
  have prio: "saturate (int_to_double (ps_priority r)) = ps_priority r"
  proof -
    have p: "in_i32 (ps_priority r)"
      using assms by (simp add: spec_ok_def)
    then have "\<bar>ps_priority r\<bar> < 10 ^ 15"
      by (auto simp: in_i32_def i32_min_def i32_max_def)
    with p show ?thesis
      by (simp add: exact_number saturate_of_int)
  qed
  have pr: "(case if ps_protocol r = 0 then None
       else Some (with_string (Some ''protocol'') False (string_item (L4ProtocolToStr (ps_protocol r)))) of
       None \<Rightarrow> Some [] | Some v \<Rightarrow> valuestring v) = Some (L4ProtocolToStr (ps_protocol r))"
    by (simp add: L4ProtocolToStr_def)
  have ports: "parse_port (spec_proto r) \<circ> port_json = spec_port r"
    by (rule ext) (simp add: read_port)
  show ?thesis
    unfolding parse_rule_def rule_json_eq rule_get option.case pr children_read
    using assms
    by (simp add: with_text_def convert_proto convert_action convert_direction read_http read_addresses
        spec_ok_def rule_of_code_spec prio ports install_rule_def spec_rule_def spec_http_def Let_def
        and_then_assoc case_prod_unfold)
qed

lemma read_rules:
  "list_all spec_ok rs \<Longrightarrow> rules_loop ms key pods (map rule_json rs) = install_rules key ms pods rs"
  by (induction rs arbitrary: ms pods) (simp_all add: read_rule and_then_assoc)

section \<open>The JSON is plain\<close>

lemma plain_members_iff:
  "plain_members (map (\<lambda>(k, v). with_string (Some k) False v) kvs)
     \<longleftrightarrow> list_all (\<lambda>(k, v). nul \<notin> set k \<and> plain (with_string (Some k) False v)) kvs"
  by (induction kvs) (auto simp: text_ok_def)

lemma plain_elements_iff: "plain_elements cs \<longleftrightarrow> list_all (\<lambda>c. item_string c = None \<and> plain c) cs"
  by (induction cs) auto

lemma nesting_list_le: "nesting_list cs \<le> n \<longleftrightarrow> list_all (\<lambda>c. nesting c \<le> n) cs"
  by (induction cs) auto

lemma nesting_object: "nesting (object kvs) \<le> Suc n \<longleftrightarrow> list_all (\<lambda>(k, v). nesting v \<le> n) kvs"
  by (simp add: object_def list_item_def nesting_list_le list.pred_map comp_def case_prod_unfold)

lemma nesting_array: "nesting (list_item cJSON_Array cs) \<le> Suc n \<longleftrightarrow> list_all (\<lambda>c. nesting c \<le> n) cs"
  by (simp add: list_item_def nesting_list_le)

lemma plain_named [simp]: "plain v \<Longrightarrow> plain (with_string nm False v)"
  by (cases v) simp

lemma plain_object: "plain (object kvs)" if "list_all (\<lambda>(k, v). nul \<notin> set k \<and> plain v) kvs" for kvs
  using that by (auto simp: object_def list_item_def plain_members_iff list_all_iff)

lemma plain_array: "plain (list_item cJSON_Array cs)" if "list_all (\<lambda>c. item_string c = None \<and> plain c) cs"
  using that by (simp add: list_item_def plain_elements_iff)

lemma plain_string: "plain (string_item (c_string s))"
  using c_string_no_nul by (simp add: string_item_def text_ok_def)

lemma plain_number: "\<bar>n\<bar> < 10 ^ 15 \<Longrightarrow> plain (number_item (int_to_double n))"
  by (simp add: exact_number number_item_def whole_def)

lemma scalar_nesting [simp]: "nesting (string_item s) = 0" "nesting (number_item d) = 0"
  by (simp_all add: string_item_def number_item_def)

lemma object_name [simp]: "item_string (object kvs) = None" "item_string (list_item t cs) = None"
  by (simp_all add: object_def list_item_def)

lemma plain_text: "nul \<notin> set s \<Longrightarrow> plain (string_item s)"
  by (simp add: string_item_def text_ok_def)

lemma u32_small: "\<bar>uint (w :: u32)\<bar> < 10 ^ 15"
  using less_le_trans [OF unsigned_less [of w, where 'a = int]] by simp

lemma plain_endpoint: "endpoint_ok ep \<Longrightarrow> plain (AddressEndpointToJsonRust ep) \<and> nesting (AddressEndpointToJsonRust ep) \<le> Suc 0"
  by (simp add: endpoint_json endpoint_ok_def plain_object plain_string plain_number nesting_object)

lemma plain_http: "plain (http_json h) \<and> nesting (http_json h) \<le> Suc 0"
  by (simp add: http_json_eq plain_object plain_string nesting_object)

lemma plain_port: "plain (port_json p) \<and> nesting (port_json p) \<le> Suc 0"
  using u32_small by (simp add: port_json_eq plain_object plain_number nesting_object)

lemma plain_array_of:
  assumes "\<And>x. x \<in> set xs \<Longrightarrow> plain (f x) \<and> nesting (f x) \<le> n \<and> item_string (f x) = None"
  shows "plain (list_item cJSON_Array (map f xs)) \<and> nesting (list_item cJSON_Array (map f xs)) \<le> Suc n"
  using assms by (simp add: plain_array nesting_array list_all_iff)

lemma json_names:
  "item_string (AddressEndpointToJsonRust ep) = None" "item_string (http_json h) = None"
  "item_string (port_json p) = None" "item_string (rule_json r) = None"
  by (simp_all add: endpoint_json http_json_eq port_json_eq rule_json_eq)

lemma plain_rule:
  assumes "spec_ok r"
  shows "plain (rule_json r) \<and> nesting (rule_json r) \<le> Suc (Suc (Suc 0)) \<and> item_string (rule_json r) = None"
proof -
  have texts: "nul \<notin> set (PolicyActionToStr (ps_action r))" "nul \<notin> set (FlowDirectionToStr (ps_direction r))"
      "nul \<notin> set (L4ProtocolToStr (ps_protocol r))"
    by (simp_all add: PolicyActionToStr_def FlowDirectionToStr_def L4ProtocolToStr_def)
  have prio: "\<bar>ps_priority r\<bar> < 10 ^ 15"
    using assms by (auto simp: spec_ok_def in_i32_def i32_min_def i32_max_def)
  have eps: "plain (list_item cJSON_Array (map AddressEndpointToJsonRust eps)) \<and>
      nesting (list_item cJSON_Array (map AddressEndpointToJsonRust eps)) \<le> Suc (Suc 0)"
    if "list_all endpoint_ok eps" for eps
    using that by (intro plain_array_of) (auto simp: plain_endpoint json_names list_all_iff)
  have http: "plain (list_item cJSON_Array (map http_json hs)) \<and>
      nesting (list_item cJSON_Array (map http_json hs)) \<le> Suc (Suc 0)" for hs
    by (intro plain_array_of) (simp add: plain_http json_names)
  have ports: "plain (list_item cJSON_Array (map port_json ps)) \<and>
      nesting (list_item cJSON_Array (map port_json ps)) \<le> Suc (Suc 0)" for ps
    by (intro plain_array_of) (simp add: plain_port json_names)
  have "list_all (\<lambda>(k, v). nul \<notin> set k \<and> plain v) (rule_members r)"
    using assms texts prio eps http ports
    by (simp add: rule_members_def plain_text plain_number spec_ok_def)
  moreover have "list_all (\<lambda>(k, v). nesting v \<le> Suc (Suc 0)) (rule_members r)"
    using assms eps http ports by (simp add: rule_members_def spec_ok_def)
  ultimately show ?thesis
    by (simp add: rule_json_eq plain_object nesting_object)
qed

lemma plain_policy:
  assumes "list_all spec_ok rs"
  shows "plain (policy_json name rs) \<and> nesting (policy_json name rs) \<le> CJSON_NESTING_LIMIT"
proof -
  have a: "plain (list_item cJSON_Array (map rule_json rs)) \<and>
      nesting (list_item cJSON_Array (map rule_json rs)) \<le> Suc (Suc (Suc (Suc 0)))"
    using assms plain_rule by (intro plain_array_of) (auto simp: list_all_iff)
  then have "nesting (policy_json name rs) \<le> Suc (Suc (Suc (Suc (Suc 0))))"
    by (simp add: policy_json_eq nesting_object)
  with a show ?thesis
    by (simp add: policy_json_eq plain_object plain_string CJSON_NESTING_LIMIT_def)
qed

lemma policy_get:
  "cJSON_GetObjectItem (Some (policy_json name rs)) ''policy_name'' =
     Some (with_string (Some ''policy_name'') False (string_item (c_string name)))"
  "cJSON_GetObjectItem (Some (policy_json name rs)) ''rules'' =
     Some (with_string (Some ''rules'') False (list_item cJSON_Array (map rule_json rs)))"
  by (simp_all add: policy_json_eq json_get del: list.map)

lemma json_detour:
  assumes "plain it" "item_string it = None" "nesting it \<le> CJSON_NESTING_LIMIT"
    "length (compact_value it) + 1 < INT_MAX"
  obtains t where "cJSON_PrintUnformatted it = Some t" "cJSON_Parse (Some t) = Some it"
  using print_plain [OF assms(1,4)] parse_printed [OF assms(1,2,3)] by (simp add: cJSON_Parse_def)

lemma add_policy_installs:
  assumes "list_all spec_ok rs" "nul \<notin> set name" "length (compact_value (policy_json name rs)) + 1 < INT_MAX"
  shows "GrpcDispatchAddPolicyRule walk ms name rs = install_policy walk ms name rs"
proof -
  obtain t where "cJSON_PrintUnformatted (policy_json name rs) = Some t"
    "cJSON_Parse (Some t) = Some (policy_json name rs)"
    using plain_policy [OF assms(1), of name] assms(3)
    by (auto intro: json_detour simp: policy_json_eq)
  then show ?thesis
    using assms(1,2)
    by (simp add: GrpcDispatchAddPolicyRule_def ParseNetPolicy_def policy_get with_text_def read_rules
        install_policy_def control_DeletePolicy_def c_string_id)
qed

section \<open>Node addresses\<close>

lemma node_array:
  "fold (\<lambda>ip arr. cJSON_AddItemToArray arr (cJSON_CreateString (Some ip))) ips (list_item cJSON_Array acc)
     = list_item cJSON_Array (acc @ map (\<lambda>ip. string_item (c_string ip)) ips)"
  by (induction ips arbitrary: acc)
    (simp_all add: cJSON_AddItemToArray_def add_item_to_array_def or_unchanged_def list_item_def
      cJSON_CreateString_def cJSON_strdup_def)

lemma node_json_eq:
  "node_json del ips =
     object [(''action'', string_item (if del then ''delete'' else ''add'')),
             (''node_ips'', list_item cJSON_Array (map (\<lambda>ip. string_item (c_string ip)) ips))]"
  using node_array [of ips "[]"]
  by (simp add: node_json_def cJSON_CreateArray_def kind_item_def list_item_def json_build literal_text)

lemma string_item_name [simp]: "item_string (string_item s) = None"
  by (simp add: string_item_def)

lemma plain_node: "plain (node_json del ips) \<and> nesting (node_json del ips) \<le> CJSON_NESTING_LIMIT"
proof -
  have a: "plain (list_item cJSON_Array (map (\<lambda>ip. string_item (c_string ip)) ips)) \<and>
      nesting (list_item cJSON_Array (map (\<lambda>ip. string_item (c_string ip)) ips)) \<le> Suc 0"
    by (rule plain_array_of) (simp add: plain_string)
  then have "nesting (node_json del ips) \<le> Suc (Suc 0)"
    by (simp add: node_json_eq nesting_object)
  with a show ?thesis
    by (simp add: node_json_eq plain_object plain_text CJSON_NESTING_LIMIT_def)
qed

lemma node_get:
  "cJSON_GetObjectItem (Some (node_json del ips)) ''action'' =
     Some (with_string (Some ''action'') False (string_item (if del then ''delete'' else ''add'')))"
  "cJSON_GetObjectItem (Some (node_json del ips)) ''node_ips'' =
     Some (with_string (Some ''node_ips'') False
       (list_item cJSON_Array (map (\<lambda>ip. string_item (c_string ip)) ips)))"
  by (simp_all add: node_json_eq json_get del: list.map)

lemma c_string_twice [simp]: "c_string (c_string s) = c_string s"
  by (rule c_string_id) (rule c_string_no_nul)

lemma node_loop_fold:
  "node_loop ms del (map (\<lambda>ip. string_item (c_string ip)) ips) =
     Done (fold (\<lambda>ip ms. (if del then RemoveNodeIp else AddNodeIp) ms (ipv4StringToInt ip)) ips ms) ()"
  by (induction ips arbitrary: ms) (simp_all add: with_text_def ipv4StringToInt_def)

lemma update_node_config_eq:
  assumes "length (compact_value (node_json del ips)) + 1 < INT_MAX"
  shows "GrpcDispatchUpdateNodeConfig ms del ips =
    Done (fold (\<lambda>ip ms. (if del then RemoveNodeIp else AddNodeIp) ms (ipv4StringToInt ip)) ips ms) 0"
proof -
  obtain t where "cJSON_PrintUnformatted (node_json del ips) = Some t"
    "cJSON_Parse (Some t) = Some (node_json del ips)"
    using plain_node [of del ips] assms by (auto intro: json_detour simp: node_json_eq)
  then show ?thesis
    by (simp add: GrpcDispatchUpdateNodeConfig_def ParseNodeCfg_def node_get with_text_def node_loop_fold)
qed

end
