(* ===== verification/Control_Safety.thy ===== *)
theory Control_Safety
  imports Control_Rpc
begin

text \<open>
  Correctness of the policy calls: what a policy update may change, that it installs every
  combination of addresses and ports, what a failed update leaves behind, and what the node call
  does to the set of node addresses.
\<close>

section \<open>Definitions of the properties\<close>

fun leads :: "(MicroSegEngine \<Rightarrow> MicroSegEngine \<Rightarrow> bool) \<Rightarrow> MicroSegEngine \<Rightarrow> 'a outcome \<Rightarrow> bool" where
  "leads R ms (Done ms' a) = R ms ms'"
| "leads R ms (Threw ms') = R ms ms'"
| "leads R ms Undefined = True"

text \<open>The policy that a document names.\<close>

definition named_policy :: "string option \<Rightarrow> string option" where
  "named_policy buf =
     Option.bind buf (\<lambda>t. Option.bind (cJSON_Parse (Some t)) (\<lambda>doc.
       Option.bind (cJSON_GetObjectItem (Some doc) ''policy_name'') valuestring))"

text \<open>Everything but one policy stays as it was.\<close>

definition same_for :: "string \<Rightarrow> MicroSegEngine \<Rightarrow> MicroSegEngine \<Rightarrow> bool" where
  "same_for name ms ms' \<longleftrightarrow>
     (\<forall>dir key. rule_lookup (ms_engine ms') dir key name = rule_lookup (ms_engine ms) dir key name)
     \<and> (\<forall>dir. hm_get (http_policy ms' dir) name = hm_get (http_policy ms dir) name)"

definition only_policy :: "string option \<Rightarrow> MicroSegEngine \<Rightarrow> MicroSegEngine \<Rightarrow> bool" where
  "only_policy key ms ms' \<longleftrightarrow>
     (microseg_wf ms \<longrightarrow>
        microseg_wf ms' \<and> nodes_ip ms' = nodes_ip ms \<and> res_data ms' = res_data ms
        \<and> (\<forall>name. key \<noteq> Some name \<longrightarrow> same_for name ms ms'))"

text \<open>The addresses that a list of endpoints stands for.\<close>

fun expand_endpoints :: "string list \<Rightarrow> AddressEndpoint list \<Rightarrow> addresses" where
  "expand_endpoints ips [] = Addrs ips"
| "expand_endpoints ips (ep # eps) =
     (case ParseIpString (ae_ip ep) ips of
        Addrs ips' \<Rightarrow> expand_endpoints ips' eps
      | AddrThrow \<Rightarrow> AddrThrow
      | AddrOverflow \<Rightarrow> AddrOverflow)"

definition effective_ports :: "RulePort list \<Rightarrow> RulePort list" where
  "effective_ports ps = (if ps = [] then [\<lparr> end_port = 0, port = 0, port_proto = 0 \<rparr>] else ps)"

definition stored :: "MicroSegEngine \<Rightarrow> RuleDetail \<Rightarrow> RulePort \<Rightarrow> bool" where
  "stored ms r p \<longleftrightarrow>
     (\<exists>x. rule_lookup (ms_engine ms) (direction r) (fst (create_rule_key r)) (policy_key r) = Some x
        \<and> p \<in> set (ports x))"

definition accepted :: "RuleDetail \<Rightarrow> bool" where
  "accepted r \<longleftrightarrow>
     0 < priority r \<and> priority r < 129 \<and> IsValidUtf8 (policy_key r) \<and> IsValidUtf8 (src_ip r)
     \<and> IsValidUtf8 (dst_ip r) \<and> IsValidUtf8 (action_dsc r)"

section \<open>Updates as steps of a relation\<close>

text \<open>A relation between the engine before and after that holds for the three changes a policy
  update makes holds for the whole update, however it ends.\<close>

locale update_relation =
  fixes R :: "MicroSegEngine \<Rightarrow> MicroSegEngine \<Rightarrow> bool" and key :: string
  assumes refl: "R ms ms"
    and trans: "R a b \<Longrightarrow> R b c \<Longrightarrow> R a c"
    and http: "R ms (fst (AddHttpPolicy ms dir key h))"
    and add: "policy_key r = key \<Longrightarrow> R ms (fst (AddPolicyToTree ms r p))"
    and del: "R ms (MicroSeg_DeletePolicy ms key)"
begin

lemma leads_step: "R a b \<Longrightarrow> leads R b x \<Longrightarrow> leads R a x"
  by (cases x) (auto intro: trans)

lemma leads_and_then:
  "leads R ms m \<Longrightarrow> (\<And>ms' a. m = Done ms' a \<Longrightarrow> leads R ms' (f ms' a)) \<Longrightarrow> leads R ms (and_then m f)"
  by (cases m) (auto intro: leads_step)

lemma leads_text: "(\<And>t. s = Some t \<Longrightarrow> leads R ms (f t)) \<Longrightarrow> leads R ms (with_text ms s f)"
  by (cases s) (auto simp: with_text_def)

lemma fold_steps: "(\<And>x ms. R ms (f x ms)) \<Longrightarrow> R ms (fold f xs ms)"
  by (induction xs arbitrary: ms) (auto intro: refl trans)

lemma add_new_policy: "policy_key r = key \<Longrightarrow> R ms (fst (AddNewPolicy ms r p))"
  by (simp add: AddNewPolicy_def refl add)

lemma add_all_rules: "policy_key r = key \<Longrightarrow> R ms (add_rules ms r src dst ps)"
  unfolding add_rules_def by (intro fold_steps add_new_policy) simp

lemma http_steps: "policy_key r = key \<Longrightarrow> leads R ms (http_loop ms r its)"
proof (induction its arbitrary: ms)
  case (Cons it its)
  have step: "leads R ms (http_loop (fst (AddHttpPolicy ms d (policy_key r) h)) r its)" for ms d h
    unfolding Cons.prems by (rule leads_step [OF http Cons.IH [OF Cons.prems]])
  show ?case
    by (auto simp: refl step split: option.split intro!: leads_text)
qed (simp add: refl)

lemma address_steps: "leads R ms (address_loop ms l ips pods its)"
proof (induction its arbitrary: ips pods)
  case (Cons it its)
  then show ?case
    by (auto simp: refl split: option.splits addresses.splits intro!: leads_text)
qed (simp add: refl)

lemma rule_steps: "leads R ms (parse_rule ms key pods arr)"
  unfolding parse_rule_def Let_def
  by (auto simp: refl split: option.splits intro!: leads_text leads_and_then http_steps address_steps
      add_all_rules)

lemma rules_steps: "leads R ms (rules_loop ms key pods its)"
proof (induction its arbitrary: ms pods)
  case (Cons it its)
  then show ?case
    by (auto simp: refl split: prod.splits intro!: leads_and_then rule_steps)
qed (simp add: refl)

lemma install_steps:
  assumes "named_policy buf = Some key"
  shows "leads R ms (ParseNetPolicy walk ms buf)"
proof -
  have d: "R ms (fst (control_DeletePolicy ms key))"
    by (simp add: control_DeletePolicy_def refl del)
  obtain t doc nm where n: "buf = Some t" "cJSON_Parse (Some t) = Some doc"
    "cJSON_GetObjectItem (Some doc) ''policy_name'' = Some nm" "valuestring nm = Some key"
    using assms by (auto simp: named_policy_def bind_eq_Some_conv)
  have "leads R (fst (control_DeletePolicy ms key))
      (case cJSON_GetObjectItem (Some doc) ''rules'' of
         None \<Rightarrow> Done (fst (control_DeletePolicy ms key)) (- 1, [])
       | Some rs \<Rightarrow> and_then (rules_loop (fst (control_DeletePolicy ms key)) key [] (child rs))
           (\<lambda>ms2 cgRes. Done ms2 (0, UpdateMark walk ms2 cgRes)))"
    by (auto simp: refl split: option.splits intro!: leads_and_then rules_steps)
  from leads_step [OF d this] show ?thesis
    by (simp add: ParseNetPolicy_def n with_text_def Let_def)
qed

end

lemma same_for_refl: "same_for name ms ms"
  by (simp add: same_for_def)

lemma same_for_trans: "same_for name a b \<Longrightarrow> same_for name b c \<Longrightarrow> same_for name a c"
  by (simp add: same_for_def)

lemma http_policy_add:
  "hm_get (http_policy (fst (AddHttpPolicy ms dir key h)) d) name =
     (if name = key \<and> d = dir then Some ((case hm_get (http_policy ms dir) key of None \<Rightarrow> [] | Some rs \<Rightarrow> rs) @ [h])
      else hm_get (http_policy ms d) name)"
  by (cases dir; cases d) (simp_all add: AddHttpPolicy_def append_http_rule_def http_policy_def hmap_simps)

lemma http_add_frame:
  "nodes_ip (fst (AddHttpPolicy ms dir key h)) = nodes_ip ms"
  "res_data (fst (AddHttpPolicy ms dir key h)) = res_data ms"
  "ms_engine (fst (AddHttpPolicy ms dir key h)) = ms_engine ms"
  by (cases dir; simp add: AddHttpPolicy_def)+

lemma only_policy_http: "only_policy (Some key) ms (fst (AddHttpPolicy ms dir key h))"
  by (simp add: only_policy_def same_for_def microseg_wf_http http_policy_add http_add_frame)

lemma tree_add_frame:
  "nodes_ip (fst (AddPolicyToTree ms r p)) = nodes_ip ms"
  "res_data (fst (AddPolicyToTree ms r p)) = res_data ms"
  "http_policy (fst (AddPolicyToTree ms r p)) d = http_policy ms d"
  "name \<noteq> policy_key r \<Longrightarrow>
     rule_lookup (ms_engine (fst (AddPolicyToTree ms r p))) dir key name = rule_lookup (ms_engine ms) dir key name"
  by (simp_all add: AddPolicyToTree_def http_policy_def rule_lookup_add split: FlowDir.split)

lemma only_policy_add: "policy_key r = key \<Longrightarrow> only_policy (Some key) ms (fst (AddPolicyToTree ms r p))"
  by (simp add: only_policy_def same_for_def microseg_wf_add tree_add_frame)

lemma wf_engine: "microseg_wf ms \<Longrightarrow> engine_wf (ms_engine ms)"
  by (simp add: microseg_wf_def)

lemma microseg_delete_frame:
  "nodes_ip (MicroSeg_DeletePolicy ms name) = nodes_ip ms"
  "res_data (MicroSeg_DeletePolicy ms name) = res_data ms"
  "\<not> IsValidUtf8 name \<Longrightarrow> ms_engine (MicroSeg_DeletePolicy ms name) = ms_engine ms"
  by (simp_all add: MicroSeg_DeletePolicy_def PolicyRule_DeletePolicy_def Let_def)

lemma only_policy_del: "only_policy (Some key) ms (MicroSeg_DeletePolicy ms key)"
proof (cases "IsValidUtf8 key")
  case True
  then show ?thesis
    by (auto simp: only_policy_def same_for_def microseg_wf_delete microseg_delete_lookup
        microseg_delete_http microseg_delete_frame wf_engine)
next
  case False
  then show ?thesis
    by (auto simp: only_policy_def same_for_def microseg_wf_delete microseg_delete_http
        microseg_delete_frame)
qed

lemma only_policy_refl: "only_policy key ms ms"
  by (simp add: only_policy_def same_for_refl)

lemma only_policy_trans: "only_policy key a b \<Longrightarrow> only_policy key b c \<Longrightarrow> only_policy key a c"
  unfolding only_policy_def by (blast intro: same_for_trans dest: sym intro: trans)

interpretation one_policy: update_relation "only_policy (Some key)" key
  for key
  by unfold_locales
    (rule only_policy_refl only_policy_http only_policy_del | erule only_policy_trans only_policy_add)+

section \<open>Every combination is installed\<close>

lemma fold_establishes:
  assumes "\<And>x s. P x (f x s)" and "\<And>x y s. P x s \<Longrightarrow> P x (f y s)"
  shows "x \<in> set xs \<Longrightarrow> P x (fold f xs s)"
proof (induction xs arbitrary: s)
  case (Cons y ys)
  have keep: "P x (fold f zs s)" if "P x s" for zs s
    using that by (induction zs arbitrary: s) (auto intro: assms(2))
  show ?case
  proof (cases "x = y")
    case True
    then have "P x (f y s)"
      by (simp add: assms(1))
    then show ?thesis
      by (simp add: keep)
  next
    case False
    with Cons show ?thesis
      by simp
  qed
qed simp

lemma fold_keeps: "(\<And>y s. P s \<Longrightarrow> P (f y s)) \<Longrightarrow> P s \<Longrightarrow> P (fold f xs s)"
  by (induction xs arbitrary: s) auto

lemma stored_kept: "stored ms r p \<Longrightarrow> stored (fst (AddNewPolicy ms r' p')) r p"
  by (auto simp: stored_def AddNewPolicy_def AddPolicyToTree_def rule_lookup_add merged_rule_def)

lemma stored_own: "accepted r \<Longrightarrow> stored (fst (AddNewPolicy ms r p)) r p"
  by (auto simp: stored_def AddNewPolicy_def AddPolicyToTree_def accepted_def rule_lookup_add merged_rule_def
      split: option.splits)

lemma stored_http: "stored ms r p \<Longrightarrow> stored (fst (AddHttpPolicy ms dir key h)) r p"
  by (simp add: stored_def http_add_frame)

lemma add_rules_keeps: "stored ms r p \<Longrightarrow> stored (add_rules ms r' src dst ps) r p"
  unfolding add_rules_def by (intro fold_keeps [where P = "\<lambda>ms. stored ms r p"] stored_kept)

lemma add_rules_stores:
  assumes "s \<in> set src" "d \<in> set dst" "p \<in> set (effective_ports ps)"
    "accepted (r\<lparr> src_ip := s, dst_ip := d \<rparr>)"
  shows "stored (add_rules ms r src dst ps) (r\<lparr> src_ip := s, dst_ip := d \<rparr>) p"
proof -
  let ?r = "\<lambda>s d. r\<lparr> src_ip := s, dst_ip := d \<rparr>"
  let ?port = "\<lambda>s d p ms. fst (AddNewPolicy ms (?r s d) p)"
  let ?dst = "\<lambda>s d. fold (?port s d) (effective_ports ps)"
  have keep: "stored ms x q \<Longrightarrow> stored (?dst s d ms) x q" for s d ms x q
    by (intro fold_keeps [where P = "\<lambda>ms. stored ms x q"] stored_kept)
  have keep2: "stored ms x q \<Longrightarrow> stored (fold (?dst s) dst ms) x q" for s ms x q
    by (intro fold_keeps [where P = "\<lambda>ms. stored ms x q"] keep)
  have p: "accepted (?r s d) \<Longrightarrow> stored (?dst s d ms) (?r s d) p" for s d ms
    by (rule fold_establishes [where P = "\<lambda>p ms. stored ms (?r s d) p", OF stored_own stored_kept assms(3)])
  have d: "accepted (?r s d) \<Longrightarrow> stored (fold (?dst s) dst ms) (?r s d) p" for s ms
    using fold_establishes [where P = "\<lambda>d ms. accepted (?r s d) \<longrightarrow> stored ms (?r s d) p" and f = "?dst s",
        OF _ _ assms(2)] p keep by blast
  have "stored (fold (\<lambda>s. fold (?dst s) dst) src ms) (?r s d) p"
    using fold_establishes [where P = "\<lambda>s ms. accepted (?r s d) \<longrightarrow> stored ms (?r s d) p"
        and f = "\<lambda>s. fold (?dst s) dst", OF _ _ assms(1)] d keep2 assms(4) by blast
  then show ?thesis
    by (simp add: add_rules_def effective_ports_def)
qed

lemma spec_addresses_expand:
  "(case expand_endpoints ips eps of
      Addrs ips' \<Rightarrow> \<exists>pods'. spec_addresses ms l ips pods eps = Done ms (ips', pods')
    | AddrThrow \<Rightarrow> spec_addresses ms l ips pods eps = Threw ms
    | AddrOverflow \<Rightarrow> spec_addresses ms l ips pods eps = Undefined)"
proof (induction eps arbitrary: ips pods)
  case (Cons ep eps)
  show ?case
  proof (cases "ParseIpString (ae_ip ep) ips")
    case (Addrs ips')
    from Cons.IH [of ips' "if l then insert_pod (ae_pod_id ep) (ae_ip ep) pods else pods"]
    show ?thesis
      by (simp only: expand_endpoints.simps spec_addresses.simps Addrs addresses.case)
  qed simp_all
qed simp

lemma spec_http_stored: "stored ms r p \<Longrightarrow> stored (spec_http key spec ms) r p"
  unfolding spec_http_def by (intro fold_keeps [where P = "\<lambda>ms. stored ms r p"] stored_http)

lemma install_rule_done:
  assumes "install_rule key ms pods r = Done ms' pods'"
  obtains src dst where "expand_endpoints [] (ps_from_addresses r) = Addrs src"
    "expand_endpoints [] (ps_to_addresses r) = Addrs dst"
    "ms' = add_rules (spec_http key r ms) (spec_rule key r) src dst (map (spec_port r) (ps_ports r))"
proof -
  have f: "case expand_endpoints [] (ps_from_addresses r) of
      Addrs ips \<Rightarrow> \<exists>pods'. spec_addresses m l [] q (ps_from_addresses r) = Done m (ips, pods')
    | AddrThrow \<Rightarrow> spec_addresses m l [] q (ps_from_addresses r) = Threw m
    | AddrOverflow \<Rightarrow> spec_addresses m l [] q (ps_from_addresses r) = Undefined" for m l q
    by (rule spec_addresses_expand)
  have t: "case expand_endpoints [] (ps_to_addresses r) of
      Addrs ips \<Rightarrow> \<exists>pods'. spec_addresses m l [] q (ps_to_addresses r) = Done m (ips, pods')
    | AddrThrow \<Rightarrow> spec_addresses m l [] q (ps_to_addresses r) = Threw m
    | AddrOverflow \<Rightarrow> spec_addresses m l [] q (ps_to_addresses r) = Undefined" for m l q
    by (rule spec_addresses_expand)
  obtain src where src: "expand_endpoints [] (ps_from_addresses r) = Addrs src"
    using assms f [where m = "spec_http key r ms" and l = "spec_direction r = kEgress" and q = pods]
    by (cases "expand_endpoints [] (ps_from_addresses r)") (auto simp: install_rule_def)
  obtain pods1 where p1: "spec_addresses (spec_http key r ms) (spec_direction r = kEgress) [] pods
      (ps_from_addresses r) = Done (spec_http key r ms) (src, pods1)"
    using f [where m = "spec_http key r ms" and l = "spec_direction r = kEgress" and q = pods] src by auto
  obtain dst where dst: "expand_endpoints [] (ps_to_addresses r) = Addrs dst"
    using assms p1 t [where m = "spec_http key r ms" and l = "spec_direction r = kIngress" and q = pods1]
    by (cases "expand_endpoints [] (ps_to_addresses r)") (auto simp: install_rule_def)
  obtain pods2 where p2: "spec_addresses (spec_http key r ms) (spec_direction r = kIngress) [] pods1
      (ps_to_addresses r) = Done (spec_http key r ms) (dst, pods2)"
    using t [where m = "spec_http key r ms" and l = "spec_direction r = kIngress" and q = pods1] dst by auto
  show thesis
    using that [OF src dst] assms p1 p2 by (simp add: install_rule_def)
qed

lemma and_then_done:
  assumes "and_then m f = Done ms' a"
  obtains ms1 b where "m = Done ms1 b" "f ms1 b = Done ms' a"
  using assms by (cases m) auto

lemma install_rules_keeps:
  "install_rules key ms pods rs = Done ms' pods' \<Longrightarrow> stored ms r p \<Longrightarrow> stored ms' r p"
proof (induction rs arbitrary: ms pods)
  case (Cons x rs)
  then obtain ms1 pods1 where s: "install_rule key ms pods x = Done ms1 pods1"
    "install_rules key ms1 pods1 rs = Done ms' pods'"
    by (auto elim: and_then_done)
  from s(1) have "stored ms1 r p"
    by (rule install_rule_done) (simp add: add_rules_keeps spec_http_stored Cons.prems(2))
  with Cons.IH s(2) show ?case
    by blast
qed simp

lemma install_rules_stores:
  assumes "install_rules key ms pods rs = Done ms' pods'" "r \<in> set rs"
  obtains src dst where "expand_endpoints [] (ps_from_addresses r) = Addrs src"
    "expand_endpoints [] (ps_to_addresses r) = Addrs dst"
    "\<And>s d p. s \<in> set src \<Longrightarrow> d \<in> set dst \<Longrightarrow> p \<in> set (effective_ports (map (spec_port r) (ps_ports r)))
      \<Longrightarrow> accepted ((spec_rule key r)\<lparr> src_ip := s, dst_ip := d \<rparr>)
      \<Longrightarrow> stored ms' ((spec_rule key r)\<lparr> src_ip := s, dst_ip := d \<rparr>) p"
  using assms
proof (induction rs arbitrary: ms pods thesis)
  case (Cons x rs)
  then obtain ms1 pods1 where s: "install_rule key ms pods x = Done ms1 pods1"
    "install_rules key ms1 pods1 rs = Done ms' pods'"
    by (auto elim: and_then_done)
  show ?case
  proof (cases "r = x")
    case True
    from s(1) obtain src dst where e: "expand_endpoints [] (ps_from_addresses r) = Addrs src"
      "expand_endpoints [] (ps_to_addresses r) = Addrs dst"
      "ms1 = add_rules (spec_http key r ms) (spec_rule key r) src dst (map (spec_port r) (ps_ports r))"
      unfolding True by (rule install_rule_done)
    show ?thesis
      by (rule Cons.prems(1) [OF e(1,2)], rule install_rules_keeps [OF s(2)])
        (simp add: e(3) add_rules_stores)
  next
    case False
    with Cons s(2) show ?thesis
      by auto
  qed
qed simp

section \<open>Node addresses\<close>

lemma node_step:
  "IsNodeIp (RemoveNodeIp ms ip) x \<longleftrightarrow> IsNodeIp ms x \<and> x \<noteq> ip"
  "IsNodeIp (AddNodeIp ms ip) x \<longleftrightarrow> IsNodeIp ms x \<or> x = ip"
  by (auto simp: IsNodeIp_def RemoveNodeIp_def AddNodeIp_def hmap_simps hm_has_def)

lemma node_fold:
  "IsNodeIp (fold (\<lambda>ip ms. (if del then RemoveNodeIp else AddNodeIp) ms (f ip)) ips ms) x \<longleftrightarrow>
     (if del then IsNodeIp ms x \<and> x \<notin> f ` set ips else IsNodeIp ms x \<or> x \<in> f ` set ips)"
  by (induction ips arbitrary: ms) (auto simp: node_step)

lemma node_fold_engine:
  "ms_engine (fold (\<lambda>ip ms. (if del then RemoveNodeIp else AddNodeIp) ms (f ip)) ips ms) = ms_engine ms"
  by (induction ips arbitrary: ms) (auto simp: RemoveNodeIp_def AddNodeIp_def)

section \<open>Properties\<close>

definition sample_spec :: "string \<Rightarrow> PolicyRuleSpec" where
  "sample_spec src =
     \<lparr> ps_action = 1, ps_direction = 1, ps_protocol = 2, ps_http_rules = [],
       ps_from_addresses = [\<lparr> ae_ip = src, ae_pod_id = 3 \<rparr>],
       ps_to_addresses = [\<lparr> ae_ip = ''10.0.0.9'', ae_pod_id = 7 \<rparr>],
       ps_ports = [\<lparr> pr_port = 53, pr_end_port = 0 \<rparr>], ps_priority = 10 \<rparr>"

lemma number_text_int: "\<bar>n\<bar> < 10 ^ 15 \<Longrightarrow> number_text (int_to_double n) = dec_int n"
  by (simp add: exact_number number_text_whole)

lemma sample_ok:
  "src = ''10.0.0.1-3'' \<or> src = ''10.0.0.x-3'' \<Longrightarrow> list_all spec_ok [sample_spec src]"
  "src = ''10.0.0.1-3'' \<or> src = ''10.0.0.x-3'' \<Longrightarrow> length (compact_value (policy_json ''dns'' [sample_spec src])) + 1 < INT_MAX"
proof -
  show "list_all spec_ok [sample_spec src]" if "src = ''10.0.0.1-3'' \<or> src = ''10.0.0.x-3''"
    using that by (auto simp: sample_spec_def spec_ok_def endpoint_ok_def in_i32_def i32_min_def i32_max_def)
  have d: "dec_int 3 = ''3''" "dec_int 7 = ''7''" "dec_int 53 = ''53''" "dec_int 0 = ''0''" "dec_int 10 = ''10''"
    by code_simp+
  show "length (compact_value (policy_json ''dns'' [sample_spec src])) + 1 < INT_MAX"
    if "src = ''10.0.0.1-3'' \<or> src = ''10.0.0.x-3''"
    using that
    by (auto simp: policy_json_eq rule_json_eq rule_members_def sample_spec_def object_def list_item_def
        string_item_def number_item_def compact_string_def escaped_def code_def INT_MAX_def endpoint_json
        port_json_eq number_text_int d literal_text PolicyActionToStr_def FlowDirectionToStr_def
        L4ProtocolToStr_def)
qed

text \<open>C7: The control call that adds a policy implements its message: the engine state, the status and
  the pods whose marks are reset are those of installing the rules directly, although the code
  prints the message as JSON and parses it again. It holds for every engine state and every message
  without zero bytes, with 32-bit priorities, pod ids below \<open>10 ^ 15\<close> and a text shorter than \<^verbatim>\<open>INT_MAX\<close>;
  larger pod ids lose precision in the JSON number.\<close>

theorem add_policy_call_refines_install:
  assumes "list_all spec_ok rs" "nul \<notin> set name" "length (compact_value (policy_json name rs)) + 1 < INT_MAX"
  shows "GrpcDispatchAddPolicyRule walk ms name rs = install_policy walk ms name rs"
  using assms by (rule add_policy_installs)

theorem add_policy_call_refines_install_witness:
  "GrpcDispatchAddPolicyRule (map fst) new_microseg ''dns'' [sample_spec ''10.0.0.1-3''] =
     install_policy (map fst) new_microseg ''dns'' [sample_spec ''10.0.0.1-3'']"
  by (intro add_policy_call_refines_install sample_ok) simp_all

text \<open>C27: A policy document changes nothing but the policy it names, whatever it contains and however
  its processing ends (also with an error or an exception): the rules and HTTP rules of every other
  policy, the node addresses and the pod resources stay as they were, and the engine stays well
  formed.\<close>

theorem document_touches_only_its_policy:
  "leads (only_policy (named_policy buf)) ms (ParseNetPolicy walk ms buf)"
proof (cases "named_policy buf")
  case None
  then show ?thesis
    by (auto simp: named_policy_def ParseNetPolicy_def with_text_def only_policy_refl
        split: option.splits)
next
  case (Some key)
  then show ?thesis
    by (simp add: one_policy.install_steps)
qed

text \<open>C28: After a policy call that returns normally, every combination of a source address, a destination
  address and a port of a rule with a priority between 1 and 128 is stored in the engine: the policy has an
  entry under the key of the combination that holds the port. Ranges are expanded, and a rule without
  ports is stored with the port 0. The texts of the combination are valid UTF-8; the message is as for the
  refinement above (no zero bytes, pod ids below \<open>10 ^ 15\<close>, text shorter than \<^verbatim>\<open>INT_MAX\<close>). A rule with
  another priority is skipped although the call returns 0.\<close>

theorem add_policy_call_installs_every_combination:
  assumes "list_all spec_ok rs" "nul \<notin> set name" "length (compact_value (policy_json name rs)) + 1 < INT_MAX"
    and "GrpcDispatchAddPolicyRule walk ms name rs = Done ms' res" "r \<in> set rs"
    and "expand_endpoints [] (ps_from_addresses r) = Addrs src" "s \<in> set src"
    and "expand_endpoints [] (ps_to_addresses r) = Addrs dst" "d \<in> set dst"
    and "p \<in> set (effective_ports (map (spec_port r) (ps_ports r)))"
    and "accepted ((spec_rule name r)\<lparr> src_ip := s, dst_ip := d \<rparr>)"
  shows "stored ms' ((spec_rule name r)\<lparr> src_ip := s, dst_ip := d \<rparr>) p"
proof -
  have "install_policy walk ms name rs = Done ms' res"
    using add_policy_installs [OF assms(1-3)] assms(4) by simp
  then obtain pods where i: "install_rules name (if name = [] then ms else MicroSeg_DeletePolicy ms name) [] rs
      = Done ms' pods"
    unfolding install_policy_def by (auto elim: and_then_done)
  show ?thesis
    by (rule install_rules_stores [OF i assms(5)]) (use assms(6-11) in simp)
qed

lemma sample_expand:
  "expand_endpoints [] (ps_from_addresses (sample_spec ''10.0.0.1-3'')) = Addrs [''10.0.0.1'', ''10.0.0.2'', ''10.0.0.3'']"
  "expand_endpoints [] (ps_to_addresses (sample_spec src)) = Addrs [''10.0.0.9'']"
  "expand_endpoints [] (ps_from_addresses (sample_spec ''10.0.0.x-3'')) = AddrThrow"
  unfolding sample_spec_def by code_simp+

lemma sample_installs:
  "\<exists>ms' res. GrpcDispatchAddPolicyRule (map fst) new_microseg ''dns'' [sample_spec ''10.0.0.1-3''] = Done ms' res"
proof -
  have f: "\<exists>pods. spec_addresses ms l [] q (ps_from_addresses (sample_spec ''10.0.0.1-3''))
      = Done ms ([''10.0.0.1'', ''10.0.0.2'', ''10.0.0.3''], pods)" for ms l q
    using spec_addresses_expand [where ips = "[]" and eps = "ps_from_addresses (sample_spec ''10.0.0.1-3'')"]
    by (simp add: sample_expand)
  have t: "\<exists>pods. spec_addresses ms l [] q (ps_to_addresses (sample_spec ''10.0.0.1-3''))
      = Done ms ([''10.0.0.9''], pods)" for ms l q
    using spec_addresses_expand [where ips = "[]" and eps = "ps_to_addresses (sample_spec ''10.0.0.1-3'')"]
    by (simp add: sample_expand)
  have "\<exists>ms' pods. install_rule ''dns'' ms q (sample_spec ''10.0.0.1-3'') = Done ms' pods" for ms q
  proof -
    let ?r = "sample_spec ''10.0.0.1-3''"
    obtain p1 where p1: "spec_addresses (spec_http ''dns'' ?r ms) (spec_direction ?r = kEgress) [] q (ps_from_addresses ?r)
        = Done (spec_http ''dns'' ?r ms) ([''10.0.0.1'', ''10.0.0.2'', ''10.0.0.3''], p1)"
      using f by blast
    obtain p2 where p2: "spec_addresses (spec_http ''dns'' ?r ms) (spec_direction ?r = kIngress) [] p1 (ps_to_addresses ?r)
        = Done (spec_http ''dns'' ?r ms) ([''10.0.0.9''], p2)"
      using t by blast
    show ?thesis
      unfolding install_rule_def p1 and_then.simps prod.case p2 by blast
  qed
  then have "\<exists>ms' res. install_policy (map fst) new_microseg ''dns'' [sample_spec ''10.0.0.1-3''] = Done ms' res"
  proof -
    assume i: "\<And>ms q. \<exists>ms' pods. install_rule ''dns'' ms q (sample_spec ''10.0.0.1-3'') = Done ms' pods"
    obtain ms' pods where "install_rule ''dns'' (MicroSeg_DeletePolicy new_microseg ''dns'') []
        (sample_spec ''10.0.0.1-3'') = Done ms' pods"
      using i by blast
    then show ?thesis
      by (simp add: install_policy_def)
  qed
  moreover have "GrpcDispatchAddPolicyRule (map fst) new_microseg ''dns'' [sample_spec ''10.0.0.1-3''] =
     install_policy (map fst) new_microseg ''dns'' [sample_spec ''10.0.0.1-3'']"
    by (intro add_policy_installs sample_ok) simp_all
  ultimately show ?thesis
    by simp
qed

theorem add_policy_call_installs_every_combination_witness:
  "\<exists>ms' res. GrpcDispatchAddPolicyRule (map fst) new_microseg ''dns'' [sample_spec ''10.0.0.1-3''] = Done ms' res
     \<and> stored ms' ((spec_rule ''dns'' (sample_spec ''10.0.0.1-3''))\<lparr> src_ip := ''10.0.0.2'', dst_ip := ''10.0.0.9'' \<rparr>)
         \<lparr> end_port = 53, port = 53, port_proto = 17 \<rparr>"
proof -
  let ?r = "sample_spec ''10.0.0.1-3''"
  obtain ms' res where d: "GrpcDispatchAddPolicyRule (map fst) new_microseg ''dns'' [?r] = Done ms' res"
    using sample_installs by blast
  have p: "\<lparr> end_port = 53, port = 53, port_proto = 17 \<rparr> \<in> set (effective_ports (map (spec_port ?r) (ps_ports ?r)))"
    by (simp add: effective_ports_def sample_spec_def spec_port_def spec_proto_def i32_max_def)
  have a: "accepted ((spec_rule ''dns'' ?r)\<lparr> src_ip := ''10.0.0.2'', dst_ip := ''10.0.0.9'' \<rparr>)"
    unfolding accepted_def by code_simp
  have "stored ms' ((spec_rule ''dns'' ?r)\<lparr> src_ip := ''10.0.0.2'', dst_ip := ''10.0.0.9'' \<rparr>)
      \<lparr> end_port = 53, port = 53, port_proto = 17 \<rparr>"
    by (rule add_policy_call_installs_every_combination [OF sample_ok(1) _ sample_ok(2) d _ sample_expand(1) _
        sample_expand(2) _ p a]) simp_all
  with d show ?thesis
    by blast
qed



text \<open>The control call for node addresses adds the given addresses to the set of cluster nodes, or
  removes them, and changes no policy. A text that is not an address counts as 0.0.0.0.\<close>

theorem node_call_updates_node_set:
  assumes "length (compact_value (node_json del ips)) + 1 < INT_MAX"
  shows "\<exists>ms'. GrpcDispatchUpdateNodeConfig ms del ips = Done ms' 0 \<and> ms_engine ms' = ms_engine ms
     \<and> (\<forall>ip. IsNodeIp ms' ip \<longleftrightarrow>
          (if del then IsNodeIp ms ip \<and> ip \<notin> ipv4StringToInt ` set ips
           else IsNodeIp ms ip \<or> ip \<in> ipv4StringToInt ` set ips))"
  by (simp only: update_node_config_eq [OF assms] outcome.inject simp_thms node_fold node_fold_engine)

theorem node_call_updates_node_set_witness:
  "\<exists>ms'. GrpcDispatchUpdateNodeConfig new_microseg False [''10.0.0.1'', ''x''] = Done ms' 0
     \<and> IsNodeIp ms' 0x0100000A \<and> IsNodeIp ms' 0"
proof -
  have "length (compact_value (node_json False [''10.0.0.1'', ''x''])) + 1 < INT_MAX"
    by (simp add: node_json_eq object_def list_item_def string_item_def compact_string_def escaped_def
        code_def INT_MAX_def literal_text)
  from node_call_updates_node_set [OF this, of new_microseg]
  obtain ms' where "GrpcDispatchUpdateNodeConfig new_microseg False [''10.0.0.1'', ''x''] = Done ms' 0"
    "\<forall>ip. IsNodeIp ms' ip \<longleftrightarrow> IsNodeIp new_microseg ip \<or> ip \<in> ipv4StringToInt ` set [''10.0.0.1'', ''x'']"
    by auto
  moreover have "ipv4StringToInt ''10.0.0.1'' = 0x0100000A" "ipv4StringToInt ''x'' = 0"
    by code_simp+
  ultimately show ?thesis
    by auto
qed

end
