(* ===== verification/Iptables.thy ===== *)
theory Iptables
  imports NP_Text "HOL-Library.Sublist"
begin

text \<open>
  The packet filter rules that send the traffic of a pod to its queues (crates/net_iptables). The
  \<^verbatim>\<open>iptables\<close> program is outside the daemon: what a command does to the tables and what the listings
  print are parameters.
\<close>

section \<open>Running the program\<close>

text \<open>\<open>'k\<close> is the state of the tables; a listing is \<open>None\<close> when the program cannot be started.\<close>

record 'k iptables =
  execute :: "string \<Rightarrow> string list \<Rightarrow> 'k \<Rightarrow> 'k"
  printed :: "string \<Rightarrow> string list \<Rightarrow> 'k \<Rightarrow> string option"

definition iptables_bin :: "i32 \<Rightarrow> string" where
  "iptables_bin ipt_ver = (if ipt_ver = 0 then ''iptables'' else ''iptables-legacy'')"

definition mangle_table_contains :: "'k iptables \<Rightarrow> 'k \<Rightarrow> string \<Rightarrow> string \<Rightarrow> bool" where
  "mangle_table_contains ipt k bin needle =
     (case printed ipt bin [''-t'', ''mangle'', ''-S''] k of None \<Rightarrow> False | Some out \<Rightarrow> sublist needle out)"

definition check_iptables_rule :: "'k iptables \<Rightarrow> 'k \<Rightarrow> i32 \<Rightarrow> bool" where
  "check_iptables_rule ipt k ipt_ver =
     mangle_table_contains ipt k (iptables_bin ipt_ver) ''TS_ZERO_PREROUTING''"

fun run_all :: "'k iptables \<Rightarrow> string \<Rightarrow> string list list \<Rightarrow> 'k \<Rightarrow> 'k" where
  "run_all ipt bin [] k = k"
| "run_all ipt bin (args # cmds) k = run_all ipt bin cmds (execute ipt bin args k)"

definition clear_iptables_rule :: "'k iptables \<Rightarrow> i32 \<Rightarrow> 'k \<Rightarrow> 'k" where
  "clear_iptables_rule ipt ipt_ver =
     run_all ipt (iptables_bin ipt_ver)
       [[''-t'', ''mangle'', ''-F''],
        [''-t'', ''mangle'', ''-X'', ''TS_ZERO_PREROUTING''],
        [''-t'', ''mangle'', ''-X'', ''TS_ZERO_OUTPUT'']]"

section \<open>Installing the rules\<close>

text \<open>The commands of the two halves: a chain with its jump, the restored mark in front of the jump,
  the accepted mark, the queue and the saved mark.\<close>

definition redirect_commands :: "string \<Rightarrow> string \<Rightarrow> i32 \<Rightarrow> string \<Rightarrow> string \<Rightarrow> string list list" where
  "redirect_commands chn hook mark queue save =
     [[''-t'', ''mangle'', ''-N'', chn],
      [''-t'', ''mangle'', ''-I'', hook, ''-j'', chn],
      [''-t'', ''mangle'', ''-I'', hook, ''-j'', ''CONNMARK'', ''--restore-mark''],
      [''-t'', ''mangle'', ''-A'', chn, ''-m'', ''mark'', ''--mark'', dec_int mark, ''-j'', ''ACCEPT''],
      [''-t'', ''mangle'', ''-A'', chn, ''-j'', ''NFQUEUE'', ''--queue-num'', queue, ''--queue-bypass''],
      [''-t'', ''mangle'', ''-A'', save, ''-j'', ''CONNMARK'', ''--save-mark'']]"

definition write_iptable_rule :: "'k iptables \<Rightarrow> i32 \<Rightarrow> i32 \<Rightarrow> i32 \<Rightarrow> 'k \<Rightarrow> 'k" where
  "write_iptable_rule ipt i_mark o_mark ipt_ver k =
     (let bin = iptables_bin ipt_ver;
          k1 = (if check_iptables_rule ipt k ipt_ver then clear_iptables_rule ipt ipt_ver k else k);
          k2 = (if \<not> mangle_table_contains ipt k1 bin ''TS_ZERO_PREROUTING''
                then run_all ipt bin (redirect_commands ''TS_ZERO_PREROUTING'' ''PREROUTING'' i_mark ''0'' ''INPUT'') k1
                else k1)
      in if \<not> mangle_table_contains ipt k2 bin ''TS_ZERO_OUTPUT''
         then run_all ipt bin (redirect_commands ''TS_ZERO_OUTPUT'' ''OUTPUT'' o_mark ''1'' ''POSTROUTING'') k2
         else k2)"

definition get_iptables_version :: "'k iptables \<Rightarrow> 'k \<Rightarrow> i32" where
  "get_iptables_version ipt k =
     (case printed ipt ''iptables'' [''-t'', ''nat'', ''-S'', ''PREROUTING''] k of
        None \<Rightarrow> 0
      | Some txt \<Rightarrow> if sublist ''-A PREROUTING'' txt then 0 else 1)"

end
