(* ===== verification/Transition.thy ===== *)
theory Transition
  imports Main
begin

text \<open>
  What the step relations of the development share: a transition system with an invariant.
\<close>

locale transition_system =
  fixes start :: "'c \<Rightarrow> bool"
    and step :: "'c \<Rightarrow> 'c \<Rightarrow> bool"
    and inv :: "'c \<Rightarrow> bool"
  assumes inv_start: "start c \<Longrightarrow> inv c"
    and inv_step: "step c c' \<Longrightarrow> inv c \<Longrightarrow> inv c'"
begin

lemma inv_steps: "step\<^sup>*\<^sup>* c c' \<Longrightarrow> inv c \<Longrightarrow> inv c'"
  by (induction rule: rtranclp_induct) (auto intro: inv_step)

lemma inv_reachable: "start c \<Longrightarrow> step\<^sup>*\<^sup>* c c' \<Longrightarrow> inv c'"
  by (blast intro: inv_start inv_steps)

end

end
