(* ===== verification/Pod_Lifecycle.thy ===== *)
theory Pod_Lifecycle
  imports Micro_Seg Iptables Transition
begin

text \<open>
  Bringing pods up and down (net-policy.cpp: OpenNfque, AddEpollEvent, InitNfqueue,
  GrpcDispatchPodUp, GrpcDispatchPodDown; crates/net_nfq/src/netns.rs; the resource table of
  rule-detail.cpp is in \<open>Micro_Seg\<close>): the queues of a pod, the callbacks registered for them with
  epoll and the network namespace they are opened in. What the kernel answers is a parameter.
\<close>

section \<open>State and environment\<close>

text \<open>The namespace of the epoll thread: the daemon's own, the one of a process, or the empty one that
  \<^verbatim>\<open>unshare\<close> makes.\<close>

datatype netns = HostNs | ProcessNs i32 | FreshNs

record 'k pods =
  engine_of :: MicroSegEngine
  epoll_of :: epoll_state
  thread_ns :: netns
  tables :: "netns \<Rightarrow> 'k"

text \<open>The answers to one call: opening and entering a namespace, opening a queue in it, the conntrack
  session, registering a descriptor, and the addresses the two callbacks get.\<close>

record 'k pod_env =
  ns_file :: "i32 \<Rightarrow> bool"
  unshare_ok :: bool
  setns_ok :: bool
  open_queue :: "netns \<Rightarrow> u16 \<Rightarrow> i32 option"
  open_conntrack_session :: bool
  epoll_ctl_ok :: "i32 \<Rightarrow> bool"
  input_address :: nat
  output_address :: nat
  packet_filter :: "'k iptables"

definition set_ns :: "'k pod_env \<Rightarrow> netns \<Rightarrow> i32 \<Rightarrow> netns \<times> bool" where
  "set_ns env ns pid =
     (if pid \<le> 0 then (ns, False)
      else if \<not> ns_file env pid then (ns, False)
      else if \<not> unshare_ok env then (ns, False)
      else if \<not> setns_ok env then (FreshNs, False)
      else (ProcessNs pid, True))"

definition epoll_add :: "'k pod_env \<Rightarrow> i32 \<Rightarrow> nat \<Rightarrow> epoll_state \<Rightarrow> epoll_state option" where
  "epoll_add env fd a ep =
     (if hm_has (interest ep) fd \<or> \<not> epoll_ctl_ok env fd then None
      else Some (ep\<lparr> interest := hm_put fd a (interest ep) \<rparr>))"

section \<open>Opening the resources of a pod\<close>

definition Init :: NFQ_RES_INFO where
  "Init = \<lparr> nr_pid = 0, nr_poll_fd = 0, nr_input_queue = None, nr_output_queue = None, nr_input_cb = None,
            nr_output_cb = None, nr_conntrack = False, nr_pod_id = 0 \<rparr>"

definition OpenNfque :: "'k pod_env \<Rightarrow> netns \<Rightarrow> FlowDir \<Rightarrow> NFQ_RES_INFO \<Rightarrow> NFQ_RES_INFO \<times> i32" where
  "OpenNfque env ns quenum res =
     (case open_queue env ns (word_of_int (dir_code quenum)) of
        None \<Rightarrow> (res, - 1)
      | Some fd \<Rightarrow>
          (case quenum of
             kIngress \<Rightarrow> (res\<lparr> nr_input_queue := Some fd \<rparr>, 0)
           | kEgress \<Rightarrow> (res\<lparr> nr_output_queue := Some fd \<rparr>, 0)))"

text \<open>\<open>None\<close> when a queue is not open.\<close>

definition AddEpollEvent ::
  "'k pod_env \<Rightarrow> epoll_state \<Rightarrow> NFQ_RES_INFO \<Rightarrow> (epoll_state \<times> NFQ_RES_INFO \<times> i32) option" where
  "AddEpollEvent env ep res =
     (case (nr_input_queue res, nr_output_queue res) of
        (Some input_fd, Some output_fd) \<Rightarrow>
          (let a = input_address env; b = output_address env;
               cb = (\<lambda>fd. \<lparr> cb_fd = fd, epoll_in_func = Some CbNfqueueRcvData, cb_nfq_res = Some (nr_pod_id res) \<rparr>);
               ep1 = ep\<lparr> callbacks := hm_put b (cb output_fd) (hm_put a (cb input_fd) (callbacks ep)) \<rparr>;
               fail = (\<lambda>ep. Some (delete_cb (Some b) (delete_cb (Some a) ep), res, 9))
           in case epoll_add env input_fd a ep1 of
                None \<Rightarrow> fail ep1
              | Some ep2 \<Rightarrow>
                  (case epoll_add env output_fd b ep2 of
                     None \<Rightarrow> fail ep2
                   | Some ep3 \<Rightarrow> Some (ep3, res\<lparr> nr_input_cb := Some a, nr_output_cb := Some b \<rparr>, 0)))
      | _ \<Rightarrow> None)"

text \<open>Destroying a resource without freeing it closes its queues, and the kernel forgets them.\<close>

definition close_queues :: "NFQ_RES_INFO \<Rightarrow> epoll_state \<Rightarrow> epoll_state" where
  "close_queues res ep = epoll_del (nr_output_queue res) (epoll_del (nr_input_queue res) ep)"

definition InitNfqueue ::
  "'k pod_env \<Rightarrow> i32 \<Rightarrow> i32 \<Rightarrow> u64 \<Rightarrow> 'k pods \<Rightarrow> ('k pods \<times> i32) option" where
  "InitNfqueue env epoll_fd pid pod_id st =
     (if GetNfqRes (engine_of st) pod_id \<noteq> None then Some (st, 0)
      else
        let err = (\<lambda>ep res. Some (st\<lparr> epoll_of := fst (FreeResource ep res) \<rparr>, - 6));
            res0 = Init\<lparr> nr_pid := pid, nr_pod_id := pod_id, nr_poll_fd := epoll_fd \<rparr>;
            (res1, ret1) = OpenNfque env (thread_ns st) kIngress res0
        in if ret1 \<noteq> 0 then err (epoll_of st) res1
        else
        let (res2, ret2) = OpenNfque env (thread_ns st) kEgress res1
        in if ret2 \<noteq> 0 then err (epoll_of st) res2
        else if \<not> open_conntrack_session env then err (epoll_of st) res2
        else
          (case AddEpollEvent env (epoll_of st) (res2\<lparr> nr_conntrack := True \<rparr>) of
             None \<Rightarrow> None
           | Some (ep, res3, ret3) \<Rightarrow>
               if ret3 \<noteq> 0 then err ep res3
               else
                 let (ms, ret4) = NewNfQueRes (engine_of st) pod_id res3
                 in if ret4 \<noteq> 0 then Some (st\<lparr> engine_of := ms, epoll_of := close_queues res3 ep \<rparr>, - 6)
                    else Some (st\<lparr> engine_of := ms, epoll_of := ep \<rparr>, 0)))"

section \<open>The calls\<close>

definition GrpcDispatchPodUp ::
  "'k pod_env \<Rightarrow> i32 \<Rightarrow> i32 \<Rightarrow> i32 \<Rightarrow> u64 \<Rightarrow> 'k pods \<Rightarrow> ('k pods \<times> i32) option" where
  "GrpcDispatchPodUp env ipt_version epoll_fd pid pod_id st =
     (let (ns, entered) = set_ns env (thread_ns st) pid;
          st1 = st\<lparr> thread_ns := ns \<rparr>
      in if \<not> entered then Some (st1, - 1)
         else
           (case InitNfqueue env epoll_fd pid pod_id st1 of
              None \<Rightarrow> None
            | Some (st2, ret) \<Rightarrow>
                if ret = 0
                then Some (st2\<lparr> tables := (tables st2)
                     (thread_ns st2 := write_iptable_rule (packet_filter env) 1 1 ipt_version (tables st2 (thread_ns st2))) \<rparr>, ret)
                else Some (st2, ret)))"

definition GrpcDispatchPodDown :: "u64 \<Rightarrow> 'k pods \<Rightarrow> 'k pods \<times> i32" where
  "GrpcDispatchPodDown pod_id st =
     (let (ms, ep, ret) = DeleteNfQueRes (engine_of st) (epoll_of st) pod_id
      in (st\<lparr> engine_of := ms, epoll_of := ep \<rparr>, ret))"

section \<open>Registrations and resources\<close>

text \<open>The callback of a queue of a pod.\<close>

definition queue_cb :: "u64 \<Rightarrow> i32 \<Rightarrow> RcvEpollCb" where
  "queue_cb pod fd = \<lparr> cb_fd = fd, epoll_in_func = Some CbNfqueueRcvData, cb_nfq_res = Some pod \<rparr>"

text \<open>A queue of a pod with its callback, registered and live.\<close>

definition queue_ready :: "epoll_state \<Rightarrow> u64 \<Rightarrow> i32 option \<Rightarrow> nat option \<Rightarrow> bool" where
  "queue_ready ep pod q p \<longleftrightarrow>
     (\<exists>fd a. q = Some fd \<and> p = Some a \<and> hm_get (interest ep) fd = Some a
        \<and> hm_get (callbacks ep) a = Some (queue_cb pod fd))"

definition pod_ready :: "epoll_state \<Rightarrow> u64 \<Rightarrow> NFQ_RES_INFO \<Rightarrow> bool" where
  "pod_ready ep pod res \<longleftrightarrow>
     nr_pod_id res = pod \<and> nr_conntrack res \<and> nr_input_queue res \<noteq> nr_output_queue res
     \<and> queue_ready ep pod (nr_input_queue res) (nr_input_cb res)
     \<and> queue_ready ep pod (nr_output_queue res) (nr_output_cb res)"

text \<open>A registered descriptor has a live callback that was made for it; a callback of a queue belongs
  to a pod that is up and owns the queue.\<close>

definition owns :: "MicroSegEngine \<Rightarrow> u64 \<Rightarrow> i32 \<Rightarrow> bool" where
  "owns ms pod fd \<longleftrightarrow>
     (\<exists>res. GetNfqRes ms pod = Some res \<and> (nr_input_queue res = Some fd \<or> nr_output_queue res = Some fd))"

definition registered_ok :: "MicroSegEngine \<Rightarrow> epoll_state \<Rightarrow> i32 \<Rightarrow> nat \<Rightarrow> bool" where
  "registered_ok ms ep fd a \<longleftrightarrow>
     (\<exists>cb. hm_get (callbacks ep) a = Some cb \<and> cb_fd cb = fd
        \<and> (epoll_in_func cb = Some CbNfqueueRcvData \<longrightarrow> cb_nfq_res cb \<noteq> None)
        \<and> (\<forall>pod. cb_nfq_res cb = Some pod \<longrightarrow> owns ms pod fd))"

definition links_ok :: "MicroSegEngine \<Rightarrow> epoll_state \<Rightarrow> bool" where
  "links_ok ms ep \<longleftrightarrow>
     (\<forall>pod res. GetNfqRes ms pod = Some res \<longrightarrow> pod_ready ep pod res)
     \<and> (\<forall>fd a. hm_get (interest ep) fd = Some a \<longrightarrow> registered_ok ms ep fd a)"

abbreviation pods_ok :: "'k pods \<Rightarrow> bool" where
  "pods_ok st \<equiv> links_ok (engine_of st) (epoll_of st)"

text \<open>What the kernel and the allocator guarantee: descriptors and addresses that are not in use.\<close>

definition fresh_env :: "'k pod_env \<Rightarrow> 'k pods \<Rightarrow> bool" where
  "fresh_env env st \<longleftrightarrow>
     (\<forall>ns n fd. open_queue env ns n = Some fd \<longrightarrow> \<not> hm_has (interest (epoll_of st)) fd)
     \<and> (\<forall>ns fd fd'. open_queue env ns 0 = Some fd \<longrightarrow> open_queue env ns 1 = Some fd' \<longrightarrow> fd \<noteq> fd')
     \<and> input_address env \<noteq> output_address env
     \<and> \<not> hm_has (callbacks (epoll_of st)) (input_address env)
     \<and> \<not> hm_has (callbacks (epoll_of st)) (output_address env)"

section \<open>Opening and freeing\<close>

lemma del_absent: "\<not> hm_has m k \<Longrightarrow> hm_del k m = m"
  by (induction m) (auto simp: hm_has_def split: if_splits)

lemma has_put [simp]: "hm_has (hm_put k v m) k' \<longleftrightarrow> k' = k \<or> hm_has m k'"
  by (simp add: hm_has_def hmap_simps)

lemmas undo_simps = del_absent AList.delete_update_same AList.delete_update epoll_del_def delete_cb_def

text \<open>The resources a successful call stores, and the state after it.\<close>

definition opened_res :: "'k pod_env \<Rightarrow> i32 \<Rightarrow> i32 \<Rightarrow> u64 \<Rightarrow> i32 \<Rightarrow> i32 \<Rightarrow> NFQ_RES_INFO" where
  "opened_res env epoll_fd pid pod i q =
     \<lparr> nr_pid = pid, nr_poll_fd = epoll_fd, nr_input_queue = Some i, nr_output_queue = Some q,
       nr_input_cb = Some (input_address env), nr_output_cb = Some (output_address env),
       nr_conntrack = True, nr_pod_id = pod \<rparr>"

definition opened :: "'k pod_env \<Rightarrow> i32 \<Rightarrow> i32 \<Rightarrow> u64 \<Rightarrow> i32 \<Rightarrow> i32 \<Rightarrow> 'k pods \<Rightarrow> 'k pods" where
  "opened env epoll_fd pid pod i q st =
     st\<lparr> engine_of := (engine_of st)
           \<lparr> res_data := hm_put pod (opened_res env epoll_fd pid pod i q) (res_data (engine_of st)) \<rparr>,
         epoll_of :=
           \<lparr> interest = hm_put q (output_address env) (hm_put i (input_address env) (interest (epoll_of st))),
             callbacks = hm_put (output_address env) (queue_cb pod q)
               (hm_put (input_address env) (queue_cb pod i) (callbacks (epoll_of st))) \<rparr> \<rparr>"

text \<open>Opening a pod either gives all its resources or nothing.\<close>

lemma InitNfqueue_all_or_nothing:
  assumes "GetNfqRes (engine_of st) pod = None" "fresh_env env st"
  shows "InitNfqueue env epoll_fd pid pod st = Some (st, - 6) \<or>
    (\<exists>i q. open_queue env (thread_ns st) 0 = Some i \<and> open_queue env (thread_ns st) 1 = Some q \<and>
       InitNfqueue env epoll_fd pid pod st = Some (opened env epoll_fd pid pod i q st, 0))"
proof -
  have fresh: "\<not> hm_has (interest (epoll_of st)) fd" if "open_queue env ns n = Some fd" for ns n fd
    using assms(2) that by (auto simp: fresh_env_def)
  have addr: "input_address env \<noteq> output_address env" "output_address env \<noteq> input_address env"
    "\<not> hm_has (callbacks (epoll_of st)) (input_address env)" "\<not> hm_has (callbacks (epoll_of st)) (output_address env)"
    using assms(2) by (auto simp: fresh_env_def)
  have apart: "i \<noteq> q" "q \<noteq> i"
    if "open_queue env ns 0 = Some i" "open_queue env ns 1 = Some q" for ns i q
    using assms(2) that unfolding fresh_env_def by metis+
  show ?thesis
  proof (cases "open_queue env (thread_ns st) 0")
    case None
    then show ?thesis
      using assms(1) by (simp add: InitNfqueue_def OpenNfque_def FreeResource_def Init_def epoll_del_def delete_cb_def)
  next
    case i: (Some i)
    show ?thesis
    proof (cases "open_queue env (thread_ns st) 1")
      case None
      then show ?thesis
        using assms(1) i fresh [OF i]
        by (simp add: InitNfqueue_def OpenNfque_def FreeResource_def Init_def undo_simps)
    next
      case q: (Some q)
      note facts = assms(1) i q fresh [OF i] fresh [OF q] apart [OF i q] addr
      have new: "\<not> hm_has (res_data (engine_of st)) pod"
        using assms(1) by (simp add: GetNfqRes_def hm_has_def)
      show ?thesis
      proof (cases "open_conntrack_session env \<and> epoll_ctl_ok env i \<and> epoll_ctl_ok env q")
        case True
        then show ?thesis
          using facts new
          by (simp add: InitNfqueue_def OpenNfque_def Init_def AddEpollEvent_def epoll_add_def NewNfQueRes_def
              opened_def opened_res_def queue_cb_def Let_def)
      next
        case False
        then show ?thesis
          using facts
          by (auto simp: InitNfqueue_def OpenNfque_def FreeResource_def Init_def AddEpollEvent_def
              epoll_add_def undo_simps Let_def)
      qed
    qed
  qed
qed

lemma queue_readyE:
  assumes "links_ok ms ep" "GetNfqRes ms pod = Some res"
  obtains i q a b where "nr_input_queue res = Some i" "nr_output_queue res = Some q" "i \<noteq> q"
    "nr_input_cb res = Some a" "nr_output_cb res = Some b"
    "hm_get (interest ep) i = Some a" "hm_get (interest ep) q = Some b"
    "hm_get (callbacks ep) a = Some (queue_cb pod i)"
    "hm_get (callbacks ep) b = Some (queue_cb pod q)"
proof -
  have "pod_ready ep pod res"
    using assms by (simp add: links_ok_def)
  then show ?thesis
    using that by (auto simp: pod_ready_def queue_ready_def)
qed

lemma queue_cb_sel [simp]:
  "cb_fd (queue_cb pod fd) = fd" "epoll_in_func (queue_cb pod fd) = Some CbNfqueueRcvData"
  "cb_nfq_res (queue_cb pod fd) = Some pod"
  "queue_cb pod fd = queue_cb pod' fd' \<longleftrightarrow> pod = pod' \<and> fd = fd'"
  by (auto simp: queue_cb_def)

lemma down_eq:
  assumes "GetNfqRes (engine_of st) pod = Some res" "nr_input_queue res = Some i" "nr_output_queue res = Some q"
    "nr_input_cb res = Some a" "nr_output_cb res = Some b"
  shows "fst (GrpcDispatchPodDown pod st) =
    st\<lparr> engine_of := (engine_of st)\<lparr> res_data := hm_del pod (res_data (engine_of st)) \<rparr>,
        epoll_of := \<lparr> interest = hm_del q (hm_del i (interest (epoll_of st))),
                      callbacks = hm_del b (hm_del a (callbacks (epoll_of st))) \<rparr> \<rparr>"
  using assms by (simp add: GrpcDispatchPodDown_def DeleteNfQueRes_def GetNfqRes_def FreeResource_def
      epoll_del_def delete_cb_def)

lemma down_absent: "GetNfqRes (engine_of st) pod = None \<Longrightarrow> GrpcDispatchPodDown pod st = (st, 0)"
  by (simp add: GrpcDispatchPodDown_def DeleteNfQueRes_def GetNfqRes_def)

text \<open>Taking the two descriptors and the two callbacks of a pod away.\<close>

lemma links_ok_remove:
  assumes ok: "links_ok ms ep" and res: "GetNfqRes ms pod = Some res" "nr_input_queue res = Some i"
    "nr_output_queue res = Some q" "nr_input_cb res = Some a" "nr_output_cb res = Some b"
  shows "links_ok (ms\<lparr> res_data := hm_del pod (res_data ms) \<rparr>)
    \<lparr> interest = hm_del q (hm_del i (interest ep)), callbacks = hm_del b (hm_del a (callbacks ep)) \<rparr>"
    (is "links_ok ?ms ?ep")
proof -
  have cbs: "hm_get (callbacks ep) a = Some (queue_cb pod i)" "hm_get (callbacks ep) b = Some (queue_cb pod q)"
    by (rule queue_readyE [OF ok res(1)], use res in simp)+
  have get: "GetNfqRes ?ms pod' = (if pod' = pod then None else GetNfqRes ms pod')" for pod'
    by (simp add: GetNfqRes_def hmap_simps)
  have "queue_ready ?ep pod' x p" if "queue_ready ep pod' x p" "pod' \<noteq> pod" for pod' x p
  proof -
    from that(1) obtain fd c where x: "x = Some fd" "p = Some c" "hm_get (interest ep) fd = Some c"
      "hm_get (callbacks ep) c = Some (queue_cb pod' fd)"
      by (auto simp: queue_ready_def)
    then have "c \<noteq> a" "c \<noteq> b"
      using cbs that(2) by auto
    moreover have "fd \<noteq> i" "fd \<noteq> q"
      by (rule queue_readyE [OF ok res(1)], use res x \<open>c \<noteq> a\<close> \<open>c \<noteq> b\<close> in auto)+
    ultimately show ?thesis
      using x by (simp add: queue_ready_def hmap_simps)
  qed
  moreover have "pod_ready ep pod' res'" if "GetNfqRes ms pod' = Some res'" for pod' res'
    using ok that by (simp add: links_ok_def)
  ultimately have "pod_ready ?ep pod' res'" if "GetNfqRes ?ms pod' = Some res'" for pod' res'
    using that by (simp add: get pod_ready_def split: if_splits)
  moreover have "registered_ok ?ms ?ep fd c" if reg: "hm_get (interest ?ep) fd = Some c" for fd c
  proof -
    have fd: "fd \<noteq> i" "fd \<noteq> q" "hm_get (interest ep) fd = Some c"
      using reg by (auto simp: hmap_simps split: if_splits)
    then obtain cb where cb: "hm_get (callbacks ep) c = Some cb" "cb_fd cb = fd"
      "epoll_in_func cb = Some CbNfqueueRcvData \<longrightarrow> cb_nfq_res cb \<noteq> None"
      "\<And>pod. cb_nfq_res cb = Some pod \<Longrightarrow> owns ms pod fd"
      using ok unfolding links_ok_def registered_ok_def by blast
    then have "c \<noteq> a" "c \<noteq> b"
      using cbs fd by auto
    moreover have "owns ?ms pod' fd" if "owns ms pod' fd" for pod'
      using that fd res by (auto simp: owns_def get)
    ultimately show ?thesis
      using cb by (auto simp: registered_ok_def hmap_simps)
  qed
  ultimately show ?thesis
    by (simp add: links_ok_def)
qed

lemma down_keeps_ok:
  assumes "pods_ok st"
  shows "pods_ok (fst (GrpcDispatchPodDown pod st))"
proof (cases "GetNfqRes (engine_of st) pod")
  case None
  then show ?thesis using assms by (simp add: down_absent)
next
  case (Some res)
  from queue_readyE [OF assms Some] obtain i q a b where
    res: "nr_input_queue res = Some i" "nr_output_queue res = Some q"
      "nr_input_cb res = Some a" "nr_output_cb res = Some b"
    by metis
  show ?thesis
    using links_ok_remove [OF assms Some res] by (simp add: down_eq [OF Some res])
qed

text \<open>Adding them.\<close>

lemma links_ok_add:
  assumes ok: "links_ok ms ep" and new: "GetNfqRes ms pod = None"
    and fd: "\<not> hm_has (interest ep) i" "\<not> hm_has (interest ep) q" "i \<noteq> q"
    and ad: "a \<noteq> b" "\<not> hm_has (callbacks ep) a" "\<not> hm_has (callbacks ep) b"
    and res: "nr_input_queue res = Some i" "nr_output_queue res = Some q" "nr_input_cb res = Some a"
      "nr_output_cb res = Some b" "nr_pod_id res = pod" "nr_conntrack res"
  shows "links_ok (ms\<lparr> res_data := hm_put pod res (res_data ms) \<rparr>)
    \<lparr> interest = hm_put q b (hm_put i a (interest ep)),
      callbacks = hm_put b (queue_cb pod q) (hm_put a (queue_cb pod i) (callbacks ep)) \<rparr>"
    (is "links_ok ?ms ?ep")
proof -
  have get: "GetNfqRes ?ms pod' = (if pod' = pod then Some res else GetNfqRes ms pod')" for pod'
    by (simp add: GetNfqRes_def hmap_simps)
  have keep: "hm_get (interest ?ep) fd' = Some c" if "hm_get (interest ep) fd' = Some c" for fd' c
    using that fd by (auto simp: hmap_simps hm_has_def)
  have cbkeep: "hm_get (callbacks ?ep) c = Some cb" if "hm_get (callbacks ep) c = Some cb" for c cb
    using that ad by (auto simp: hmap_simps hm_has_def)
  have "pod_ready ?ep pod' res'" if "GetNfqRes ?ms pod' = Some res'" for pod' res'
  proof (cases "pod' = pod")
    case True
    then have "res' = res" using that by (simp add: get)
    with True show ?thesis
      using fd ad res by (simp add: pod_ready_def queue_ready_def hmap_simps)
  next
    case False
    then have "pod_ready ep pod' res'"
      using ok that by (simp add: links_ok_def get)
    then show ?thesis
      using keep cbkeep unfolding pod_ready_def queue_ready_def by blast
  qed
  moreover have "registered_ok ?ms ?ep fd' c" if reg: "hm_get (interest ?ep) fd' = Some c" for fd' c
  proof (cases "hm_get (interest ep) fd' = Some c")
    case True
    then have "registered_ok ms ep fd' c"
      using ok by (simp add: links_ok_def)
    moreover have "owns ?ms pod' fd'" if "owns ms pod' fd'" for pod'
      using that new by (auto simp: owns_def get)
    ultimately show ?thesis
      using cbkeep unfolding registered_ok_def by blast
  next
    case False
    then have "fd' = i \<and> c = a \<or> fd' = q \<and> c = b"
      using reg by (auto simp: hmap_simps split: if_splits)
    moreover have "owns ?ms pod i" "owns ?ms pod q"
      using res by (simp_all add: owns_def get)
    ultimately show ?thesis
      using ad(1) by (auto simp: registered_ok_def hmap_simps)
  qed
  ultimately show ?thesis
    by (simp add: links_ok_def)
qed

section \<open>The calls on well-formed states\<close>

text \<open>The state after the rules have been written in the namespace the thread is in.\<close>

definition ruled :: "'k pod_env \<Rightarrow> i32 \<Rightarrow> 'k pods \<Rightarrow> 'k pods" where
  "ruled env v st = st\<lparr> tables := (tables st)
     (thread_ns st := write_iptable_rule (packet_filter env) 1 1 v (tables st (thread_ns st))) \<rparr>"

lemma ruled_sel [simp]:
  "engine_of (ruled env v st) = engine_of st" "epoll_of (ruled env v st) = epoll_of st"
  "thread_ns (ruled env v st) = thread_ns st"
  by (simp_all add: ruled_def)

lemma fresh_env_ns [simp]: "fresh_env env (st\<lparr> thread_ns := ns \<rparr>) = fresh_env env st"
  by (simp add: fresh_env_def)

lemma set_ns_entered: "set_ns env ns pid = (ns', True) \<Longrightarrow> ns' = ProcessNs pid"
  by (auto simp: set_ns_def split: if_splits)

lemma PodUp_cases:
  assumes "fresh_env env st"
  obtains
    (ns) ns where "GrpcDispatchPodUp env v efd pid pod st = Some (st\<lparr> thread_ns := ns \<rparr>, - 1)"
  | (known) "GetNfqRes (engine_of st) pod \<noteq> None"
      "GrpcDispatchPodUp env v efd pid pod st = Some (ruled env v (st\<lparr> thread_ns := ProcessNs pid \<rparr>), 0)"
  | (failed) "GetNfqRes (engine_of st) pod = None"
      "GrpcDispatchPodUp env v efd pid pod st = Some (st\<lparr> thread_ns := ProcessNs pid \<rparr>, - 6)"
  | (fresh) i q where "GetNfqRes (engine_of st) pod = None"
      "open_queue env (ProcessNs pid) 0 = Some i" "open_queue env (ProcessNs pid) 1 = Some q"
      "GrpcDispatchPodUp env v efd pid pod st =
         Some (ruled env v (opened env efd pid pod i q (st\<lparr> thread_ns := ProcessNs pid \<rparr>)), 0)"
proof -
  obtain ns entered where set: "set_ns env (thread_ns st) pid = (ns, entered)"
    by (cases "set_ns env (thread_ns st) pid")
  show ?thesis
  proof (cases entered)
    case False
    then show ?thesis
      using ns [of ns] set by (simp add: GrpcDispatchPodUp_def)
  next
    case True
    then have own: "ns = ProcessNs pid"
      using set set_ns_entered [of env "thread_ns st" pid ns] by simp
    let ?st = "st\<lparr> thread_ns := ProcessNs pid \<rparr>"
    have call: "GrpcDispatchPodUp env v efd pid pod st =
      (case InitNfqueue env efd pid pod ?st of None \<Rightarrow> None
       | Some (st2, ret) \<Rightarrow> if ret = 0 then Some (ruled env v st2, ret) else Some (st2, ret))"
      using set True by (simp add: GrpcDispatchPodUp_def own ruled_def split: option.split)
    show ?thesis
    proof (cases "GetNfqRes (engine_of st) pod")
      case (Some res)
      then show ?thesis
        using known call by (simp add: InitNfqueue_def)
    next
      case None
      with InitNfqueue_all_or_nothing [of ?st pod env efd pid] assms consider
        "InitNfqueue env efd pid pod ?st = Some (?st, - 6)"
        | i q where "open_queue env (ProcessNs pid) 0 = Some i" "open_queue env (ProcessNs pid) 1 = Some q"
            "InitNfqueue env efd pid pod ?st = Some (opened env efd pid pod i q ?st, 0)"
        by auto
      then show ?thesis
        by cases (use None call failed fresh in auto)
    qed
  qed
qed

lemma opened_keeps_ok:
  assumes "pods_ok st" "fresh_env env st" "GetNfqRes (engine_of st) pod = None"
    "open_queue env ns 0 = Some i" "open_queue env ns 1 = Some q"
  shows "pods_ok (opened env efd pid pod i q st)"
proof -
  have "i \<noteq> q" "\<not> hm_has (interest (epoll_of st)) i" "\<not> hm_has (interest (epoll_of st)) q"
    "input_address env \<noteq> output_address env"
    "\<not> hm_has (callbacks (epoll_of st)) (input_address env)" "\<not> hm_has (callbacks (epoll_of st)) (output_address env)"
    using assms unfolding fresh_env_def by metis+
  with assms(1,3) show ?thesis
    unfolding opened_def by (simp, intro links_ok_add) (simp_all add: opened_res_def)
qed

lemma opened_ns [simp]:
  "opened env efd pid pod i q (st\<lparr> thread_ns := ns \<rparr>) = (opened env efd pid pod i q st)\<lparr> thread_ns := ns \<rparr>"
  by (simp add: opened_def)

lemma up_keeps_ok:
  assumes "pods_ok st" "fresh_env env st" "GrpcDispatchPodUp env v efd pid pod st = Some (st', ret)"
  shows "pods_ok st'"
  using assms(2)
proof (cases rule: PodUp_cases [where v = v and efd = efd and pid = pid and pod = pod])
  case (fresh i q)
  then show ?thesis
    using assms opened_keeps_ok [OF assms(1,2) fresh(1-3)] by auto
qed (use assms in auto)

lemma policy_keeps_ok: "links_ok ms ep \<Longrightarrow> res_data ms' = res_data ms \<Longrightarrow> links_ok ms' ep"
  by (simp add: links_ok_def registered_ok_def owns_def GetNfqRes_def)

section \<open>Pods over time\<close>

text \<open>Pods come and go, and policy calls change the rest of the engine.\<close>

inductive pod_step :: "'k pods \<Rightarrow> 'k pods \<Rightarrow> bool" where
  up: "fresh_env env st \<Longrightarrow> GrpcDispatchPodUp env v efd pid pod st = Some (st', ret) \<Longrightarrow> pod_step st st'"
| down: "pod_step st (fst (GrpcDispatchPodDown pod st))"
| policy: "res_data ms = res_data (engine_of st) \<Longrightarrow> pod_step st (st\<lparr> engine_of := ms \<rparr>)"

text \<open>The daemon starts without pods; its own descriptors are registered with their callbacks.\<close>

definition pods_start :: "'k pods \<Rightarrow> bool" where
  "pods_start st \<longleftrightarrow> res_data (engine_of st) = [] \<and>
     (\<forall>fd a. hm_get (interest (epoll_of st)) fd = Some a \<longrightarrow>
        (\<exists>cb. hm_get (callbacks (epoll_of st)) a = Some cb \<and> cb_fd cb = fd \<and> cb_nfq_res cb = None
           \<and> epoll_in_func cb \<noteq> Some CbNfqueueRcvData))"

lemma pod_step_ok: "pod_step st st' \<Longrightarrow> pods_ok st \<Longrightarrow> pods_ok st'"
  by (induction rule: pod_step.induct) (auto intro: up_keeps_ok down_keeps_ok policy_keeps_ok)

lemma pods_start_ok: "pods_start st \<Longrightarrow> pods_ok st"
  unfolding pods_start_def links_ok_def registered_ok_def GetNfqRes_def by fastforce

interpretation pod_table: transition_system pods_start pod_step pods_ok
  by unfold_locales (auto intro: pod_step_ok pods_start_ok)

text \<open>C11: Whatever pods come and go, a descriptor that epoll watches was registered with a callback
  that is still allocated and made for that descriptor, and the callback of a queue leads to a pod
  that is up and owns the queue.\<close>

theorem registered_callback_is_live:
  assumes "pods_start s" "pod_step\<^sup>*\<^sup>* s st" "hm_get (interest (epoll_of st)) fd = Some a"
  shows "\<exists>cb. hm_get (callbacks (epoll_of st)) a = Some cb \<and> cb_fd cb = fd \<and>
    (epoll_in_func cb = Some CbNfqueueRcvData \<longrightarrow> cb_nfq_res cb \<noteq> None) \<and>
    (\<forall>pod. cb_nfq_res cb = Some pod \<longrightarrow>
       (\<exists>res. GetNfqRes (engine_of st) pod = Some res \<and> nr_conntrack res \<and> nr_input_queue res \<noteq> None
          \<and> nr_output_queue res \<noteq> None \<and> (nr_input_queue res = Some fd \<or> nr_output_queue res = Some fd)))"
proof -
  have ok: "pods_ok st"
    by (rule pod_table.inv_reachable [OF assms(1,2)])
  then obtain cb where cb: "hm_get (callbacks (epoll_of st)) a = Some cb" "cb_fd cb = fd"
    "epoll_in_func cb = Some CbNfqueueRcvData \<longrightarrow> cb_nfq_res cb \<noteq> None"
    "\<And>pod. cb_nfq_res cb = Some pod \<Longrightarrow> owns (engine_of st) pod fd"
    using assms(3) unfolding links_ok_def registered_ok_def by blast
  have "nr_conntrack res \<and> nr_input_queue res \<noteq> None \<and> nr_output_queue res \<noteq> None"
    if "GetNfqRes (engine_of st) pod = Some res" for pod res
  proof -
    have "pod_ready (epoll_of st) pod res"
      using ok that by (simp add: links_ok_def)
    then show ?thesis
      by (auto simp: pod_ready_def queue_ready_def)
  qed
  with cb show ?thesis
    unfolding owns_def by blast
qed

text \<open>C30: Bringing a pod up either opens everything or fails without a trace: after a failed call the
  pods, their queues and callbacks, the registrations and the packet filter are as before.\<close>

theorem failed_pod_up_leaves_no_trace:
  assumes "fresh_env env st" "GrpcDispatchPodUp env v efd pid pod st = Some (st', ret)" "ret \<noteq> 0"
  shows "engine_of st' = engine_of st \<and> epoll_of st' = epoll_of st \<and> tables st' = tables st"
  using assms(1)
  by (cases rule: PodUp_cases [where v = v and efd = efd and pid = pid and pod = pod]) (use assms in auto)

text \<open>C31: Taking a new pod down again restores the pods, the registrations and the callbacks exactly;
  only the rules written in the namespace of the pod stay.\<close>

theorem pod_up_then_down_restores:
  assumes "fresh_env env st" "GetNfqRes (engine_of st) pod = None"
    "GrpcDispatchPodUp env v efd pid pod st = Some (st', 0)"
  shows "\<exists>st''. GrpcDispatchPodDown pod st' = (st'', 0) \<and> engine_of st'' = engine_of st \<and> epoll_of st'' = epoll_of st
    \<and> thread_ns st'' = ProcessNs pid \<and> tables st'' = (tables st)
         (ProcessNs pid := write_iptable_rule (packet_filter env) 1 1 v (tables st (ProcessNs pid)))"
  using assms(1)
proof (cases rule: PodUp_cases [where v = v and efd = efd and pid = pid and pod = pod])
  case (fresh i q)
  have "\<not> hm_has (interest (epoll_of st)) i" "\<not> hm_has (interest (epoll_of st)) q" "i \<noteq> q"
    "input_address env \<noteq> output_address env"
    "\<not> hm_has (callbacks (epoll_of st)) (input_address env)" "\<not> hm_has (callbacks (epoll_of st)) (output_address env)"
    using assms(1) fresh unfolding fresh_env_def by metis+
  moreover have "\<not> hm_has (res_data (engine_of st)) pod"
    using assms(2) by (simp add: GetNfqRes_def hm_has_def)
  ultimately show ?thesis
    using fresh assms(3)
    by (auto simp: GrpcDispatchPodDown_def DeleteNfQueRes_def FreeResource_def opened_def opened_res_def
        ruled_def undo_simps hmap_simps)
qed (use assms in auto)

text \<open>For a pod that is already known the call reports success but opens no queue: when the pod has
  a new process, the rules are written in the new namespace while the queues stay in the old one.\<close>

theorem known_pod_gets_rules_but_no_queues:
  assumes "GetNfqRes (engine_of st) pod = Some res" "set_ns env (thread_ns st) pid = (ns, True)"
  shows "\<exists>st'. GrpcDispatchPodUp env v efd pid pod st = Some (st', 0) \<and> engine_of st' = engine_of st
    \<and> epoll_of st' = epoll_of st
    \<and> tables st' (ProcessNs pid) = write_iptable_rule (packet_filter env) 1 1 v (tables st (ProcessNs pid))"
  using set_ns_entered [OF assms(2)] assms by (simp add: GrpcDispatchPodUp_def InitNfqueue_def)

section \<open>Examples\<close>

text \<open>The daemon with its three own descriptors, and a kernel that grants everything for one pod; a
  second one refuses to register the output queue.\<close>

definition idle_pods :: "unit pods" where
  "idle_pods =
     \<lparr> engine_of = new_microseg,
       epoll_of =
         \<lparr> interest = [(4, 1), (5, 2), (6, 3)],
           callbacks = [(1, \<lparr> cb_fd = 4, epoll_in_func = Some CbProcAcceptPostLinkEvent, cb_nfq_res = None \<rparr>),
                        (2, \<lparr> cb_fd = 5, epoll_in_func = Some CbDispatchGrpcRustQueueEvent, cb_nfq_res = None \<rparr>),
                        (3, \<lparr> cb_fd = 6, epoll_in_func = Some CbReaperTimerEvent, cb_nfq_res = None \<rparr>)] \<rparr>,
       thread_ns = HostNs, tables = (\<lambda>_. ()) \<rparr>"

definition granting_env :: "(i32 \<Rightarrow> bool) \<Rightarrow> unit pod_env" where
  "granting_env ctl =
     \<lparr> ns_file = (\<lambda>_. True), unshare_ok = True, setns_ok = True,
       open_queue = (\<lambda>_ n. Some (7 + uint n)), open_conntrack_session = True, epoll_ctl_ok = ctl,
       input_address = 8, output_address = 9,
       packet_filter = \<lparr> execute = (\<lambda>_ _ _. ()), printed = (\<lambda>_ _ _. None) \<rparr> \<rparr>"

definition one_pod :: "unit pods" where
  "one_pod = ruled (granting_env (\<lambda>_. True)) 0 (opened (granting_env (\<lambda>_. True)) 3 40 11 7 8 (idle_pods\<lparr> thread_ns := ProcessNs 40 \<rparr>))"

lemma fresh_granting: "fresh_env (granting_env ctl) idle_pods"
proof -
  have "\<not> hm_has (interest (epoll_of idle_pods)) (7 + uint n)" for n :: u16
  proof -
    have "0 \<le> uint n" by simp
    then have "7 + uint n \<noteq> 4" "7 + uint n \<noteq> 5" "7 + uint n \<noteq> 6" by linarith+
    then show ?thesis by (simp add: idle_pods_def hm_has_def)
  qed
  then show ?thesis
    by (auto simp: fresh_env_def granting_env_def) (simp_all add: idle_pods_def hm_has_def)
qed

lemmas pod_eval = GrpcDispatchPodUp_def set_ns_def InitNfqueue_def OpenNfque_def AddEpollEvent_def epoll_add_def
  NewNfQueRes_def GetNfqRes_def FreeResource_def epoll_del_def delete_cb_def granting_env_def idle_pods_def
  new_microseg_def Init_def hm_has_def

lemma one_pod_up: "GrpcDispatchPodUp (granting_env (\<lambda>_. True)) 0 3 40 11 idle_pods = Some (one_pod, 0)"
  by (simp add: pod_eval one_pod_def ruled_def opened_def opened_res_def queue_cb_def)

theorem registered_callback_is_live_witness:
  "pods_start idle_pods \<and> pod_step\<^sup>*\<^sup>* idle_pods one_pod \<and> hm_get (interest (epoll_of one_pod)) 8 = Some 9
   \<and> (\<exists>cb. hm_get (callbacks (epoll_of one_pod)) 9 = Some cb \<and> cb_fd cb = 8)"
proof -
  have "pods_start idle_pods"
    by (auto simp: pods_start_def idle_pods_def new_microseg_def split: if_splits)
  moreover have "pod_step\<^sup>*\<^sup>* idle_pods one_pod"
    by (rule r_into_rtranclp, rule pod_step.up [OF fresh_granting one_pod_up])
  moreover have "hm_get (interest (epoll_of one_pod)) 8 = Some 9"
    by (simp add: one_pod_def opened_def granting_env_def hmap_simps)
  ultimately show ?thesis
    using registered_callback_is_live [of idle_pods one_pod 8 9] by blast
qed

theorem failed_pod_up_leaves_no_trace_witness:
  "\<exists>st'. GrpcDispatchPodUp (granting_env (\<lambda>fd. fd \<noteq> 8)) 0 3 40 11 idle_pods = Some (st', - 6)
     \<and> epoll_of st' = epoll_of idle_pods"
proof -
  have "GrpcDispatchPodUp (granting_env (\<lambda>fd. fd \<noteq> 8)) 0 3 40 11 idle_pods
      = Some (idle_pods\<lparr> thread_ns := ProcessNs 40 \<rparr>, - 6)"
    by (simp add: pod_eval)
  with failed_pod_up_leaves_no_trace [OF fresh_granting this] show ?thesis
    by simp
qed

theorem pod_up_then_down_restores_witness:
  "\<exists>st''. GrpcDispatchPodDown 11 one_pod = (st'', 0) \<and> engine_of st'' = engine_of idle_pods
     \<and> epoll_of st'' = epoll_of idle_pods"
  using pod_up_then_down_restores [OF fresh_granting _ one_pod_up]
  by (auto simp: GetNfqRes_def idle_pods_def new_microseg_def)

theorem known_pod_gets_rules_but_no_queues_witness:
  "\<exists>res st'. GetNfqRes (engine_of one_pod) 11 = Some res \<and> nr_pid res = 40
     \<and> GrpcDispatchPodUp (granting_env (\<lambda>_. True)) 0 3 41 11 one_pod = Some (st', 0) \<and> engine_of st' = engine_of one_pod"
proof -
  let ?res = "opened_res (granting_env (\<lambda>_. True)) 3 40 11 7 8"
  have "GetNfqRes (engine_of one_pod) 11 = Some ?res" "nr_pid ?res = 40"
    by (simp_all add: one_pod_def opened_def GetNfqRes_def hmap_simps opened_res_def)
  moreover have "set_ns (granting_env (\<lambda>_. True)) (thread_ns one_pod) 41 = (ProcessNs 41, True)"
    by (simp add: set_ns_def granting_env_def)
  ultimately show ?thesis
    using known_pod_gets_rules_but_no_queues [of one_pod 11 ?res "granting_env (\<lambda>_. True)" 41 "ProcessNs 41" 0 3] by blast
qed

end
