(* ===== verification/Admin_Calls.thy ===== *)
theory Admin_Calls
  imports Control_Rpc Conn_Manager
begin

text \<open>
  The calls that inspect the daemon: the configuration dump (GetAllConfig of rule-detail.cpp, the
  names of utils.h, GrpcDispatchDumpConfig), the connection dump (dumpConnectons,
  GrpcDispatchDumpConnections), the heap profiler (admin/profile.cc, GrpcDispatchDumpHeapProfile) and
  the log level. Results travel through cJSON trees, the requests of the connection dump and of the
  profiler through JSON text. \<open>lossy\<close> is \<^verbatim>\<open>rust::String::lossy\<close>; the hash map orders are parameters.
\<close>

section \<open>Names\<close>

definition actionString :: "u32 \<Rightarrow> string" where
  "actionString a = (if a = 0 then ''Deny'' else if a = 1 then ''Allow'' else if a = 2 then ''Alert'' else ''Unknown'')"

definition directionString :: "i32 \<Rightarrow> string" where
  "directionString d = (if d = 0 then ''ingress'' else if d = 1 then ''egress'' else ''unknown'')"

definition protocolString :: "i32 \<Rightarrow> string" where
  "protocolString p = (if p = 6 then ''TCP'' else if p = 17 then ''UDP'' else if p = 1 then ''ICMP'' else [])"

section \<open>The configuration as JSON\<close>

definition config_entry :: "RuleDetail \<Rightarrow> cJSON" where
  "config_entry rd =
     (let r = cJSON_AddStringToObject cJSON_CreateObject ''policy_name'' (Some (policy_key rd));
          r = cJSON_AddNumberToObject r ''priority'' (int_to_double (priority rd));
          r = cJSON_AddStringToObject r ''direction'' (Some (directionString (dir_code (direction rd))));
          r = cJSON_AddStringToObject r ''action'' (Some (actionString (action rd)));
          r = cJSON_AddStringToObject r ''protocol'' (Some (protocolString (uint (proto rd))));
          r = cJSON_AddNumberToObject r ''protocol_int'' (int_to_double (uint (proto rd)));
          r = cJSON_AddStringToObject r ''from_address'' (Some (src_ip rd))
      in cJSON_AddStringToObject r ''to_address'' (Some (dst_ip rd)))"

definition shown_rules :: "group_order \<Rightarrow> rule_order \<Rightarrow> MicroSegEngine \<Rightarrow> string \<Rightarrow> FlowDir \<Rightarrow> RuleDetail list" where
  "shown_rules itg it ms name dir =
     filter (\<lambda>rd. \<not> (name \<noteq> [] \<and> policy_key rd \<noteq> name)) (all_rules itg it (ms_engine ms) dir)"

definition container_json :: "NFQ_RES_INFO \<Rightarrow> cJSON" where
  "container_json res =
     (let item = cJSON_AddNumberToObject cJSON_CreateObject ''pid'' (int_to_double (nr_pid res))
      in cJSON_AddNumberToObject item ''pod_id'' (int_to_double (uint (nr_pod_id res))))"

type_synonym pod_order = "(u64, NFQ_RES_INFO) hmap \<Rightarrow> (u64, NFQ_RES_INFO) hmap"

definition GetAllConfig ::
  "group_order \<Rightarrow> rule_order \<Rightarrow> pod_order \<Rightarrow> MicroSegEngine \<Rightarrow> string \<Rightarrow> nat \<Rightarrow> cJSON" where
  "GetAllConfig itg it itp ms name tcp_conn =
     (let rule_array = (\<lambda>dir. Some (array_json (map config_entry (shown_rules itg it ms name dir))));
          config = cJSON_AddItemToObject cJSON_CreateObject ''inbound_rules'' (rule_array kIngress);
          config = cJSON_AddItemToObject config ''outbound_rules'' (rule_array kEgress)
      in if name \<noteq> [] then config
         else
           let config = cJSON_AddItemToObject config ''containers''
                 (Some (array_json (map (container_json \<circ> snd) (itp (res_data ms)))));
               tcp = cJSON_AddNumberToObject cJSON_CreateObject ''tcp_connection'' (int_to_double (int tcp_conn))
           in cJSON_AddItemToObject config ''tcp'' (Some tcp))"

section \<open>From JSON to the reply\<close>

record PolicyRuleConfigEntry =
  ce_policy_name :: string
  ce_priority :: i32
  ce_direction :: string
  ce_action :: string
  ce_protocol :: string
  ce_protocol_int :: i32
  ce_from_address :: string
  ce_to_address :: string

record ContainerInfo =
  ci_pid :: i32
  ci_pod_id :: u64

record DumpConfigResult =
  dc_inbound_rules :: "PolicyRuleConfigEntry list"
  dc_outbound_rules :: "PolicyRuleConfigEntry list"
  dc_containers :: "ContainerInfo list"
  dc_tcp_connections :: int

definition text_field :: "(string \<Rightarrow> string) \<Rightarrow> cJSON \<Rightarrow> string \<Rightarrow> string" where
  "text_field lossy e nm =
     (case cJSON_GetObjectItem (Some e) nm of
        None \<Rightarrow> []
      | Some v \<Rightarrow> (case valuestring v of None \<Rightarrow> [] | Some s \<Rightarrow> lossy s))"

definition int_field :: "cJSON \<Rightarrow> string \<Rightarrow> int" where
  "int_field e nm = (case cJSON_GetObjectItem (Some e) nm of None \<Rightarrow> 0 | Some v \<Rightarrow> valueint v)"

definition array_items :: "cJSON option \<Rightarrow> cJSON list" where
  "array_items arr = List.map_filter (\<lambda>i. cJSON_GetArrayItem arr (int i)) [0..<cJSON_GetArraySize arr]"

definition convert_entry :: "(string \<Rightarrow> string) \<Rightarrow> cJSON \<Rightarrow> PolicyRuleConfigEntry" where
  "convert_entry lossy e =
     \<lparr> ce_policy_name = text_field lossy e ''policy_name'', ce_priority = int_field e ''priority'',
       ce_direction = text_field lossy e ''direction'', ce_action = text_field lossy e ''action'',
       ce_protocol = text_field lossy e ''protocol'', ce_protocol_int = int_field e ''protocol_int'',
       ce_from_address = text_field lossy e ''from_address'', ce_to_address = text_field lossy e ''to_address'' \<rparr>"

definition convert_entries :: "(string \<Rightarrow> string) \<Rightarrow> cJSON option \<Rightarrow> PolicyRuleConfigEntry list" where
  "convert_entries lossy arr = map (convert_entry lossy) (array_items arr)"

text \<open>Conversions of a double that is out of range are undefined, \<open>None\<close>.\<close>

definition double_to_signed :: "nat \<Rightarrow> double \<Rightarrow> int option" where
  "double_to_signed w d =
     (case d of
        Infinity neg \<Rightarrow> None
      | Finite r \<Rightarrow> (let n = trunc_zero r in if - (2 ^ (w - 1)) \<le> n \<and> n < 2 ^ (w - 1) then Some n else None))"

definition convert_container :: "cJSON \<Rightarrow> ContainerInfo option" where
  "convert_container c =
     (case cJSON_GetObjectItem (Some c) ''pod_id'' of
        None \<Rightarrow> Some \<lparr> ci_pid = int_field c ''pid'', ci_pod_id = 0 \<rparr>
      | Some v \<Rightarrow> map_option (\<lambda>p. \<lparr> ci_pid = int_field c ''pid'', ci_pod_id = p \<rparr>) (double_to_u64 (valuedouble v)))"

definition convert_tcp :: "cJSON option \<Rightarrow> int option" where
  "convert_tcp tcp =
     (case tcp of
        None \<Rightarrow> Some 0
      | Some t \<Rightarrow>
          (case cJSON_GetObjectItem (Some t) ''tcp_connection'' of
             None \<Rightarrow> Some 0
           | Some conn \<Rightarrow> double_to_signed 64 (valuedouble conn)))"

definition GrpcDispatchDumpConfig ::
  "(string \<Rightarrow> string) \<Rightarrow> group_order \<Rightarrow> rule_order \<Rightarrow> pod_order \<Rightarrow> MicroSegEngine
     \<Rightarrow> ('l, 's, 'f) ConnectionManager \<Rightarrow> string \<Rightarrow> DumpConfigResult option" where
  "GrpcDispatchDumpConfig lossy itg it itp ms cm name =
     (let config = Some (GetAllConfig itg it itp ms name (stat cm)) in
      case those (map convert_container (array_items (cJSON_GetObjectItem config ''containers''))) of
        None \<Rightarrow> None
      | Some cs \<Rightarrow>
          map_option (\<lambda>n.
             \<lparr> dc_inbound_rules = convert_entries lossy (cJSON_GetObjectItem config ''inbound_rules''),
               dc_outbound_rules = convert_entries lossy (cJSON_GetObjectItem config ''outbound_rules''),
               dc_containers = cs, dc_tcp_connections = n \<rparr>)
            (convert_tcp (cJSON_GetObjectItem config ''tcp'')))"

section \<open>Connections\<close>

text \<open>\<open>None\<close>: the request is not an object with a number \<open>limit\<close>, or the limit exceeds the list.\<close>

definition dumpConnectons :: "string \<Rightarrow> nat \<Rightarrow> string list \<Rightarrow> cJSON option" where
  "dumpConnectons req tcp_conn conns =
     (case cJSON_GetObjectItem (cJSON_Parse (Some req)) ''limit'' of
        None \<Rightarrow> None
      | Some limitItem \<Rightarrow>
          (case double_to_signed 32 (valuedouble limitItem) of
             None \<Rightarrow> None
           | Some limit \<Rightarrow>
               if nat limit > length conns then None
               else
                 let reply = cJSON_AddNumberToObject cJSON_CreateObject ''total'' (int_to_double (int tcp_conn));
                     items = fold (\<lambda>c arr. cJSON_AddItemToArray arr (cJSON_CreateString (Some c)))
                       (take (nat limit) conns) cJSON_CreateArray
                 in Some (cJSON_AddItemToObject reply ''items'' (Some items))))"

record DumpConnectionsResult =
  dr_total :: int
  dr_items :: "string list"

definition GrpcDispatchDumpConnections ::
  "(string \<Rightarrow> string) \<Rightarrow> ((ConnectionId \<times> FlowState) list \<Rightarrow> (ConnectionId \<times> FlowState) list)
     \<Rightarrow> ('l, 's, 'f) ConnectionManager \<Rightarrow> i32 \<Rightarrow> DumpConnectionsResult option" where
  \<open>GrpcDispatchDumpConnections lossy it cm limit =
     (let conns = connections it cm;
          actual_count = sint (word_of_nat (length conns) :: u32);
          safe_limit = min limit actual_count;
          safe_limit = (if safe_limit < 0 then 0 else safe_limit);
          json = ''{"limit":'' @ dec_int safe_limit @ ''}''
      in case dumpConnectons json (stat cm) conns of
           None \<Rightarrow> None
         | Some r \<Rightarrow>
             (let items = List.map_filter (\<lambda>e. map_option lossy (valuestring e))
                    (array_items (cJSON_GetObjectItem (Some r) ''items''))
              in case cJSON_GetObjectItem (Some r) ''total'' of
                   None \<Rightarrow> Some \<lparr> dr_total = 0, dr_items = items \<rparr>
                 | Some tot \<Rightarrow>
                     map_option (\<lambda>n. \<lparr> dr_total = n, dr_items = items \<rparr>) (double_to_signed 64 (valuedouble tot))))\<close>

section \<open>The heap profiler and the log level\<close>

datatype Status = StatusOK | ERR_ALREADY_STARTED | ERR_NOT_STARTED | ERR_INVALID_PARAM

text \<open>The state is whether the profiler runs; \<open>None\<close> is the null pointer of a missing member.\<close>

definition handleHeapProfile :: "string \<Rightarrow> bool \<Rightarrow> (bool \<times> Status) option" where
  "handleHeapProfile data running =
     (case cJSON_GetObjectItem (cJSON_Parse (Some data)) ''enable'' of
        None \<Rightarrow> None
      | Some item \<Rightarrow>
          (case valuestring item of
             None \<Rightarrow> None
           | Some val \<Rightarrow>
               if val \<noteq> ''y'' \<and> val \<noteq> ''n'' then Some (running, ERR_INVALID_PARAM)
               else if val = ''y'' then
                 if running then Some (running, ERR_ALREADY_STARTED) else Some (True, StatusOK)
               else if running then Some (False, StatusOK) else Some (running, ERR_NOT_STARTED)))"

definition GrpcDispatchDumpHeapProfile :: "bool \<Rightarrow> bool \<Rightarrow> (bool \<times> i32) option" where
  \<open>GrpcDispatchDumpHeapProfile enable running =
     (let json = ''{"enable":"'' @ (if enable then ''y'' else ''n'') @ ''"}''
      in map_option (\<lambda>(running', status). (running', if status = StatusOK then 0 else 1))
           (handleHeapProfile json running))\<close>

definition GrpcDispatchSetLogLevel :: "i32 \<Rightarrow> i32 \<Rightarrow> i32 \<times> i32" where
  "GrpcDispatchSetLogLevel level g_log_level = (level, 0)"

section \<open>Reading back what was built\<close>

lemma admin_names_folded:
  "map tolower ''protocol_int'' = ''protocol_int''" "map tolower ''from_address'' = ''from_address''"
  "map tolower ''to_address'' = ''to_address''" "map tolower ''inbound_rules'' = ''inbound_rules''"
  "map tolower ''outbound_rules'' = ''outbound_rules''" "map tolower ''containers'' = ''containers''"
  "map tolower ''tcp'' = ''tcp''" "map tolower ''tcp_connection'' = ''tcp_connection''"
  "map tolower ''pid'' = ''pid''" "map tolower ''limit'' = ''limit''" "map tolower ''total'' = ''total''"
  "map tolower ''items'' = ''items''" "map tolower ''enable'' = ''enable''"
  by code_simp+

lemmas admin_get = json_get admin_names_folded

lemma nth_child_nth: "i < length cs \<Longrightarrow> nth_child cs i = Some (cs ! i)"
  by (induction cs i rule: nth_child.induct) auto

lemma array_items_Some [simp]: "array_items (Some arr) = child arr"
proof -
  have "List.map_filter (nth_child (child arr)) [0..<length (child arr)] = map ((!) (child arr)) [0..<length (child arr)]"
    unfolding List.map_filter_def
    by (rule map_cong [OF filter_True]) (auto simp: nth_child_nth)
  then show ?thesis
    by (simp add: array_items_def cJSON_GetArrayItem_def cJSON_GetArraySize_def get_array_item_def comp_def map_nth)
qed

lemma array_items_None [simp]: "array_items None = []"
  by (simp add: array_items_def cJSON_GetArraySize_def)

lemma name_nul [simp]: "nul \<notin> set (directionString d)" "nul \<notin> set (actionString a)" "nul \<notin> set (protocolString p)"
  by (simp_all add: directionString_def actionString_def protocolString_def)

lemma config_entry_eq:
  "config_entry rd =
     object [(''policy_name'', string_item (c_string (policy_key rd))),
             (''priority'', number_item (int_to_double (priority rd))),
             (''direction'', string_item (directionString (dir_code (direction rd)))),
             (''action'', string_item (actionString (action rd))),
             (''protocol'', string_item (protocolString (uint (proto rd)))),
             (''protocol_int'', number_item (int_to_double (uint (proto rd)))),
             (''from_address'', string_item (c_string (src_ip rd))),
             (''to_address'', string_item (c_string (dst_ip rd)))]"
  by (simp add: config_entry_def json_build literal_text c_string_id)

lemma container_json_eq:
  "container_json res =
     object [(''pid'', number_item (int_to_double (nr_pid res))),
             (''pod_id'', number_item (int_to_double (uint (nr_pod_id res))))]"
  by (simp add: container_json_def json_build literal_text)

text \<open>What the reply says about a rule, without the detour.\<close>

definition entry_of :: "(string \<Rightarrow> string) \<Rightarrow> RuleDetail \<Rightarrow> PolicyRuleConfigEntry" where
  "entry_of lossy rd =
     \<lparr> ce_policy_name = lossy (c_string (policy_key rd)), ce_priority = priority rd,
       ce_direction = lossy (case direction rd of kIngress \<Rightarrow> ''ingress'' | kEgress \<Rightarrow> ''egress''),
       ce_action = lossy (actionString (action rd)), ce_protocol = lossy (protocolString (uint (proto rd))),
       ce_protocol_int = uint (proto rd), ce_from_address = lossy (c_string (src_ip rd)),
       ce_to_address = lossy (c_string (dst_ip rd)) \<rparr>"

lemma small_int: "in_i32 n \<Longrightarrow> \<bar>n\<bar> < 10 ^ 15"
  by (auto simp: in_i32_def i32_min_def i32_max_def abs_if)

lemma read_int: "in_i32 n \<Longrightarrow> saturate (int_to_double n) = n"
  using small_int [of n] by (simp add: exact_number saturate_of_int)

lemma read_signed:
  assumes "\<bar>n\<bar> < 10 ^ 15"
  shows "double_to_signed 64 (int_to_double n) = Some n"
  using assms by (auto simp: exact_number double_to_signed_def Let_def)

lemma proto_i32: "in_i32 (uint (p :: u8))"
proof -
  have "0 \<le> uint p" "uint p < 256"
    using unsigned_less [of p, where 'a = int] by simp_all
  then show ?thesis
    unfolding in_i32_def i32_min_def i32_max_def by linarith
qed

lemma config_texts:
  "text_field lossy (config_entry rd) ''policy_name'' = lossy (c_string (policy_key rd))"
  "text_field lossy (config_entry rd) ''direction'' = lossy (directionString (dir_code (direction rd)))"
  "text_field lossy (config_entry rd) ''action'' = lossy (actionString (action rd))"
  "text_field lossy (config_entry rd) ''protocol'' = lossy (protocolString (uint (proto rd)))"
  "text_field lossy (config_entry rd) ''from_address'' = lossy (c_string (src_ip rd))"
  "text_field lossy (config_entry rd) ''to_address'' = lossy (c_string (dst_ip rd))"
  by (simp_all add: config_entry_eq text_field_def admin_get del: list.map)

lemma config_ints:
  "int_field (config_entry rd) ''priority'' = saturate (int_to_double (priority rd))"
  "int_field (config_entry rd) ''protocol_int'' = saturate (int_to_double (uint (proto rd)))"
  by (simp_all add: config_entry_eq int_field_def admin_get del: list.map)

lemma read_entry: "in_i32 (priority rd) \<Longrightarrow> convert_entry lossy (config_entry rd) = entry_of lossy rd"
  using proto_i32 [of "proto rd"]
  by (cases "direction rd") (simp_all add: convert_entry_def config_texts config_ints entry_of_def read_int directionString_def)

lemma read_container:
  assumes "in_i32 (nr_pid res)" "uint (nr_pod_id res) < 10 ^ 15"
  shows "convert_container (container_json res) = Some \<lparr> ci_pid = nr_pid res, ci_pod_id = nr_pod_id res \<rparr>"
  using assms
  by (simp add: convert_container_def container_json_eq int_field_def admin_get read_int pod_id_exact del: list.map)

lemma config_members:
  "GetAllConfig itg it itp ms name n =
     object ([(''inbound_rules'', list_item cJSON_Array (map config_entry (shown_rules itg it ms name kIngress))),
              (''outbound_rules'', list_item cJSON_Array (map config_entry (shown_rules itg it ms name kEgress)))]
       @ (if name \<noteq> [] then []
          else [(''containers'', list_item cJSON_Array (map (container_json \<circ> snd) (itp (res_data ms)))),
                (''tcp'', object [(''tcp_connection'', number_item (int_to_double (int n)))])]))"
  by (simp add: GetAllConfig_def json_build literal_text)

lemma config_get:
  "cJSON_GetObjectItem (Some (GetAllConfig itg it itp ms name n)) ''inbound_rules'' =
     Some (with_string (Some ''inbound_rules'') False
       (list_item cJSON_Array (map config_entry (shown_rules itg it ms name kIngress))))"
  "cJSON_GetObjectItem (Some (GetAllConfig itg it itp ms name n)) ''outbound_rules'' =
     Some (with_string (Some ''outbound_rules'') False
       (list_item cJSON_Array (map config_entry (shown_rules itg it ms name kEgress))))"
  "cJSON_GetObjectItem (Some (GetAllConfig itg it itp ms name n)) ''containers'' =
     (if name \<noteq> [] then None
      else Some (with_string (Some ''containers'') False
        (list_item cJSON_Array (map (container_json \<circ> snd) (itp (res_data ms))))))"
  "cJSON_GetObjectItem (Some (GetAllConfig itg it itp ms name n)) ''tcp'' =
     (if name \<noteq> [] then None
      else Some (with_string (Some ''tcp'') False (object [(''tcp_connection'', number_item (int_to_double (int n)))])))"
  by (simp_all add: config_members admin_get del: list.map)

lemma with_string_object:
  "cJSON_GetObjectItem (Some (with_string nm b (object kvs))) k = cJSON_GetObjectItem (Some (object kvs)) k"
  by (simp add: cJSON_GetObjectItem_def get_object_item_def item_at_def split: option.split)

lemma read_tcp:
  "int n < 10 ^ 15 \<Longrightarrow>
     convert_tcp (Some (with_string (Some nm) False (object [(''tcp_connection'', number_item (int_to_double (int n)))]))) = Some (int n)"
  by (simp add: convert_tcp_def with_string_object admin_get read_signed del: list.map)

lemma those_map: "list_all (\<lambda>x. f x = Some (g x)) xs \<Longrightarrow> those (map f xs) = Some (map g xs)"
  by (induction xs) auto

text \<open>A state the dump can show: priorities and process ids are 32 bit, pod ids and the number of
  connections are small enough for a double.\<close>

definition dump_ok :: "group_order \<Rightarrow> rule_order \<Rightarrow> pod_order \<Rightarrow> MicroSegEngine \<Rightarrow> nat \<Rightarrow> bool" where
  "dump_ok itg it itp ms n \<longleftrightarrow>
     (\<forall>dir. list_all (\<lambda>rd. in_i32 (priority rd)) (all_rules itg it (ms_engine ms) dir))
     \<and> list_all (\<lambda>p. in_i32 (nr_pid (snd p)) \<and> uint (nr_pod_id (snd p)) < 10 ^ 15) (itp (res_data ms))
     \<and> int n < 10 ^ 15"

lemma shown_ok:
  "dump_ok itg it itp ms n \<Longrightarrow> map (convert_entry lossy) (map config_entry (shown_rules itg it ms name dir))
     = map (entry_of lossy) (shown_rules itg it ms name dir)"
  by (auto simp: dump_ok_def shown_rules_def list_all_iff intro!: read_entry)

lemma dump_config_eq:
  assumes "dump_ok itg it itp ms (stat cm)"
  shows "GrpcDispatchDumpConfig lossy itg it itp ms cm name =
    Some \<lparr> dc_inbound_rules = map (entry_of lossy)
             (filter (\<lambda>rd. name = [] \<or> policy_key rd = name) (all_rules itg it (ms_engine ms) kIngress)),
           dc_outbound_rules = map (entry_of lossy)
             (filter (\<lambda>rd. name = [] \<or> policy_key rd = name) (all_rules itg it (ms_engine ms) kEgress)),
           dc_containers = (if name = [] then map (\<lambda>(_, res). \<lparr> ci_pid = nr_pid res, ci_pod_id = nr_pod_id res \<rparr>) (itp (res_data ms)) else []),
           dc_tcp_connections = (if name = [] then int (stat cm) else 0) \<rparr>"
proof -
  have shown: "shown_rules itg it ms name dir =
      filter (\<lambda>rd. name = [] \<or> policy_key rd = name) (all_rules itg it (ms_engine ms) dir)" for dir
    unfolding shown_rules_def by (rule filter_cong) auto
  have "those (map convert_container (map (container_json \<circ> snd) (itp (res_data ms))))
      = Some (map (\<lambda>(_, res). \<lparr> ci_pid = nr_pid res, ci_pod_id = nr_pod_id res \<rparr>) (itp (res_data ms)))"
    unfolding map_map using assms
    by (intro those_map) (fastforce simp: dump_ok_def list_all_iff intro: read_container)
  moreover have "int (stat cm) < 10 ^ 15"
    using assms by (simp add: dump_ok_def)
  ultimately show ?thesis
    unfolding shown [symmetric] using shown_ok [OF assms]
    by (simp add: GrpcDispatchDumpConfig_def config_get convert_entries_def read_tcp convert_tcp_def [of None] del: map_map)
qed

section \<open>The stored rules\<close>

text \<open>The rules a dump visits are those the engine stores, each once, whatever the order of its maps.\<close>

definition rule_index :: "group_order \<Rightarrow> rule_order \<Rightarrow> RustPolicyEngine \<Rightarrow> FlowDir \<Rightarrow> (string \<times> string) list" where
  "rule_index itg it e dir =
     concat (map (\<lambda>(key, g). map (\<lambda>(n, _). (key, n)) (it (rules g))) (itg (chain (tree_chain (engine_tree e dir)))))"

lemma visits_all_distinct: "visits_all it \<Longrightarrow> distinct (map f (it xs)) \<longleftrightarrow> distinct (map f xs)"
  by (rule mset_eq_imp_distinct_iff) (simp add: visits_all_def)

lemma distinct_index:
  assumes "distinct (map fst gs)" "\<forall>(key, g)\<in>set gs. distinct (map fst (it (rules g)))"
  shows "distinct (concat (map (\<lambda>(key, g). map (\<lambda>(n, _). (key, n)) (it (rules g))) gs))"
  using assms
proof (induction gs)
  case (Cons kg gs)
  obtain key g where kg: "kg = (key, g)" by (cases kg)
  have "distinct (map (\<lambda>(n, _). (key, n)) (it (rules g)))"
    using Cons.prems(2) kg by (auto simp: distinct_map inj_on_def case_prod_unfold)
  then show ?case
    using Cons kg by (force simp: image_iff)
qed simp

lemma chain_of:
  assumes "engine_wf e"
  shows "chain_wf dir (tree_chain (engine_tree e dir))"
  using assms by (cases dir) (simp_all add: engine_wf_def tree_wf_def engine_tree_def)

lemma hm_in_set: "hm_wf m \<Longrightarrow> (k, v) \<in> set m \<longleftrightarrow> hm_get m k = Some v"
  by (simp add: hm_wf_def)

lemma rule_index_stored:
  assumes "visits_all itg" "visits_all it" "engine_wf e"
  shows "distinct (rule_index itg it e dir)"
    and "set (rule_index itg it e dir) = {(key, n). rule_lookup e dir key n \<noteq> None}"
    and "all_rules itg it e dir = map (\<lambda>(key, n). the (rule_lookup e dir key n)) (rule_index itg it e dir)"
proof -
  let ?c = "chain (tree_chain (engine_tree e dir))"
  have wf: "hm_wf ?c" "\<And>key g. hm_get ?c key = Some g \<Longrightarrow> hm_wf (rules g)"
    using chain_of [OF assms(3), of dir] by (auto simp: chain_wf_def)
  have look: "rule_lookup e dir key n = (case hm_get ?c key of None \<Rightarrow> None | Some g \<Rightarrow> hm_get (rules g) n)" for key n
    by (simp add: rule_lookup_def tree_lookup_def chain_lookup_def)
  have group: "(key, g) \<in> set (itg ?c) \<longleftrightarrow> hm_get ?c key = Some g" for key g
    by (simp add: visits_all_set [OF assms(1)] hm_in_set [OF wf(1)])
  have rule: "(n, r) \<in> set (it (rules g)) \<longleftrightarrow> hm_get (rules g) n = Some r" if "hm_get ?c key = Some g" for key g n r
    by (simp add: visits_all_set [OF assms(2)] hm_in_set [OF wf(2) [OF that]])
  show "distinct (rule_index itg it e dir)"
    unfolding rule_index_def
    by (rule distinct_index)
       (use wf in \<open>auto simp: visits_all_distinct assms group hm_wf_def\<close>)
  show "set (rule_index itg it e dir) = {(key, n). rule_lookup e dir key n \<noteq> None}"
    by (force simp: rule_index_def look group rule split: option.splits)
  have "r = the (rule_lookup e dir key n)" if "(key, g) \<in> set (itg ?c)" "(n, r) \<in> set (it (rules g))" for key g n r
    using that by (simp add: group rule look)
  then show "all_rules itg it e dir = map (\<lambda>(key, n). the (rule_lookup e dir key n)) (rule_index itg it e dir)"
    unfolding all_rules_def rule_index_def map_concat map_map
    by (intro arg_cong [where f = concat] map_cong) auto
qed

text \<open>The entries list the rules stored in a direction, of one policy or of all, each exactly once.\<close>

definition lists_stored_rules ::
  "(string \<Rightarrow> string) \<Rightarrow> RustPolicyEngine \<Rightarrow> FlowDir \<Rightarrow> string \<Rightarrow> PolicyRuleConfigEntry list \<Rightarrow> bool" where
  "lists_stored_rules lossy e dir name entries \<longleftrightarrow>
     (\<exists>idx. distinct idx
        \<and> set idx = {(key, n). rule_lookup e dir key n \<noteq> None \<and> (name = [] \<or> n = name)}
        \<and> entries = map (\<lambda>(key, n). entry_of lossy (the (rule_lookup e dir key n))) idx)"

text \<open>The numbers of a state that a double holds exactly and the fields of a reply can carry.\<close>

definition dumpable :: "MicroSegEngine \<Rightarrow> nat \<Rightarrow> bool" where
  "dumpable ms n \<longleftrightarrow>
     (\<forall>dir key name rd. rule_lookup (ms_engine ms) dir key name = Some rd \<longrightarrow> in_i32 (priority rd))
     \<and> (\<forall>pod res. hm_get (res_data ms) pod = Some res \<longrightarrow> in_i32 (nr_pid res) \<and> uint (nr_pod_id res) < 10 ^ 15)
     \<and> int n < 10 ^ 15"

lemma shown_rules_stored:
  assumes "visits_all itg" "visits_all it" "engine_wf e"
  shows "lists_stored_rules lossy e dir name
    (map (entry_of lossy) (filter (\<lambda>rd. name = [] \<or> policy_key rd = name) (all_rules itg it e dir)))"
proof -
  let ?idx = "rule_index itg it e dir" and ?f = "\<lambda>(key, n). the (rule_lookup e dir key n)"
  let ?p = "\<lambda>rd. name = [] \<or> policy_key rd = name"
  note idx = rule_index_stored [OF assms, of dir]
  have key: "policy_key (?f kn) = snd kn" if "kn \<in> set ?idx" for kn
    using that rule_lookup_key [OF assms(3)] by (auto simp: idx(2))
  have "set (filter (?p \<circ> ?f) ?idx) = {(key, n). rule_lookup e dir key n \<noteq> None \<and> (name = [] \<or> n = name)}"
    using key idx(2) by force
  moreover have "map (entry_of lossy) (filter ?p (all_rules itg it e dir))
      = map (\<lambda>(key, n). entry_of lossy (the (rule_lookup e dir key n))) (filter (?p \<circ> ?f) ?idx)"
    by (simp add: idx(3) filter_map comp_def case_prod_unfold)
  ultimately show ?thesis
    using idx(1) unfolding lists_stored_rules_def by (intro exI [of _ "filter (?p \<circ> ?f) ?idx"]) simp
qed

lemma dumpable_ok:
  assumes "visits_all itg" "visits_all it" "visits_all itp" "microseg_wf ms" "dumpable ms n"
  shows "dump_ok itg it itp ms n"
proof -
  have "engine_wf (ms_engine ms)" "hm_wf (res_data ms)"
    using assms(4) by (simp_all add: microseg_wf_def)
  then show ?thesis
    using assms(5) rule_index_stored(2,3) [OF assms(1,2)]
    by (force simp: dump_ok_def dumpable_def list_all_iff visits_all_set [OF assms(3)] hm_in_set)
qed

text \<open>C32: The configuration dump shows exactly what is stored. Whatever the orders in which the maps are
  walked, as long as each visits every entry once: the inbound and the outbound list hold each stored
  rule of the direction exactly once, of the asked policy or of all policies when no name is given, with
  its values unchanged by the JSON tree. Without a name the dump also shows every pod that is up and the
  number of tracked connections; with a name it shows no pods and the number 0. The state is well
  formed, its priorities and process ids have 32 bits, its pod ids and the number of connections are
  below \<open>10 ^ 15\<close>.\<close>

theorem dump_config_is_exact:
  assumes "visits_all itg" "visits_all it" "visits_all itp" "microseg_wf ms" "dumpable ms (stat cm)"
  shows "\<exists>r. GrpcDispatchDumpConfig lossy itg it itp ms cm name = Some r
    \<and> lists_stored_rules lossy (ms_engine ms) kIngress name (dc_inbound_rules r)
    \<and> lists_stored_rules lossy (ms_engine ms) kEgress name (dc_outbound_rules r)
    \<and> mset (dc_containers r) =
        (if name = [] then image_mset (\<lambda>(_, res). \<lparr> ci_pid = nr_pid res, ci_pod_id = nr_pod_id res \<rparr>) (mset (res_data ms))
         else {#})
    \<and> dc_tcp_connections r = (if name = [] then int (stat cm) else 0)"
proof -
  have wf: "engine_wf (ms_engine ms)" using assms(4) by (simp add: microseg_wf_def)
  have pods: "mset (itp (res_data ms)) = mset (res_data ms)"
    using assms(3) by (simp add: visits_all_def)
  show ?thesis
    using shown_rules_stored [OF assms(1,2) wf]
    by (simp add: dump_config_eq [OF dumpable_ok [OF assms]] pods)
qed

definition dumped_pod :: NFQ_RES_INFO where
  "dumped_pod = \<lparr> nr_pid = 40, nr_poll_fd = 3, nr_input_queue = Some 7, nr_output_queue = Some 8,
     nr_input_cb = Some 1, nr_output_cb = Some 2, nr_conntrack = True, nr_pod_id = 11 \<rparr>"

theorem dump_config_is_exact_witness:
  "\<exists>r. GrpcDispatchDumpConfig id rev rev id ((sample_microseg 0)\<lparr> res_data := [(11, dumped_pod)] \<rparr>)
      (new_connection_manager :: (unit, unit, unit) ConnectionManager) [] = Some r
     \<and> dc_inbound_rules r \<noteq> [] \<and> dc_containers r = [\<lparr> ci_pid = 40, ci_pod_id = 11 \<rparr>]"
proof -
  let ?ms = "(sample_microseg 0)\<lparr> res_data := [(11, dumped_pod)] \<rparr>"
  let ?cm = "new_connection_manager :: (unit, unit, unit) ConnectionManager"
  have wf: "microseg_wf ?ms"
    using sample_microseg_wf [of 0] by (simp add: microseg_wf_def hm_wf_def)
  have nums: "dumpable ?ms (stat ?cm)"
    by (auto simp: dumpable_def dumped_pod_def stat_def new_connection_manager_def live_connection_count_def
        new_flow_engine_def in_i32_def i32_min_def i32_max_def dest!: sample_microseg_rules split: if_splits)
  have "rule_lookup (ms_engine (sample_microseg 0)) kIngress ''10-17-10.0.0.0/24-10.0.0.2'' ''dns'' \<noteq> None"
    by code_simp
  then have ne: "lists_stored_rules lossy (ms_engine ?ms) kIngress [] rs \<Longrightarrow> rs \<noteq> []" for lossy rs
    by (force simp: lists_stored_rules_def)
  have all: "visits_all id" by (simp add: visits_all_def)
  from dump_config_is_exact [OF visits_all_rev visits_all_rev all wf nums, of id "[]"]
  show ?thesis
    using ne by (force simp: dumped_pod_def)
qed

section \<open>Requests as text\<close>

lemma parse_one_member:
  assumes "plain v" "nesting v = 0" "nul \<notin> set k"
    and "txt = ''{'' @ compact_string (Some k) @ '':'' @ compact_value v @ ''}''"
  shows "cJSON_Parse (Some txt) = Some (object [(k, v)])"
proof -
  let ?it = "object [(k, v)]"
  have "nesting ?it \<le> Suc 0"
    using assms by (simp add: nesting_object)
  then have "nesting ?it \<le> CJSON_NESTING_LIMIT"
    by (simp add: CJSON_NESTING_LIMIT_def)
  moreover have "plain ?it"
    using assms by (simp add: plain_object)
  moreover have "compact_value ?it = txt"
    unfolding assms(4) by (cases v) (simp add: object_def list_item_def)
  ultimately show ?thesis
    using parse_printed [of ?it] by (simp add: cJSON_Parse_def)
qed

lemma limit_request:
  assumes "in_i32 n"
  shows \<open>cJSON_Parse (Some (''{"limit":'' @ dec_int n @ ''}'')) = Some (object [(''limit'', number_item (int_to_double n))])\<close>
proof (rule parse_one_member)
  show "plain (number_item (int_to_double n))"
    by (rule plain_number [OF small_int [OF assms]])
qed (use small_int [OF assms] in \<open>simp_all add: number_item_def exact_number number_text_whole
      compact_string_def escaped_def code_def\<close>)

lemma enable_request:
  \<open>cJSON_Parse (Some (''{"enable":"'' @ (if b then ''y'' else ''n'') @ ''"}'')) =
     Some (object [(''enable'', string_item (if b then ''y'' else ''n''))])\<close>
  by (intro parse_one_member)
     (simp_all add: plain_text string_item_def compact_string_def escaped_def code_def text_ok_def)

lemma heap_profile_eq:
  "GrpcDispatchDumpHeapProfile enable running = Some (enable, if enable = running then 1 else 0)"
  by (cases enable; cases running;
      simp add: GrpcDispatchDumpHeapProfile_def handleHeapProfile_def
        enable_request [of True, simplified] enable_request [of False, simplified] admin_get del: list.map)

text \<open>The heap profiler call starts a stopped profiler and stops a running one with status 0; asking
  for the state it is already in leaves it and reports 1.\<close>

theorem heap_profile_call_toggles:
  "GrpcDispatchDumpHeapProfile enable running = Some (enable, if enable = running then 1 else 0)"
  by (rule heap_profile_eq)

lemma count_exact: "n < 2 ^ 31 \<Longrightarrow> sint (word_of_nat n :: u32) = int n"
  by (simp add: signed_of_nat signed_take_bit_int_eq_self)

lemma connection_text: "nul \<notin> set (connection_string c)"
proof -
  have "nul \<notin> set (dec_nat n)" for n
    by (rule not_digit_notin_dec_nat) (simp add: is_digit_def)
  then show ?thesis
    by (simp add: connection_string_def ipv4ToString_def dotted_def)
qed

lemma dumpConnectons_limit:
  assumes "in_i32 n" "nat n \<le> length conns"
  shows \<open>dumpConnectons (''{"limit":'' @ dec_int n @ ''}'') k conns =
    Some (object [(''total'', number_item (int_to_double (int k))),
                  (''items'', list_item cJSON_Array (map (\<lambda>c. string_item (c_string c)) (take (nat n) conns)))])\<close>
proof -
  have "double_to_signed 32 (int_to_double n) = Some n"
    using assms(1) small_int [OF assms(1)]
    by (auto simp: exact_number double_to_signed_def Let_def in_i32_def i32_min_def i32_max_def)
  moreover have "fold (\<lambda>c arr. cJSON_AddItemToArray arr (cJSON_CreateString (Some c))) cs cJSON_CreateArray
      = list_item cJSON_Array (map (\<lambda>c. string_item (c_string c)) cs)" for cs
    using node_array [of cs "[]"] by (simp add: cJSON_CreateArray_def kind_item_def list_item_def)
  ultimately show ?thesis
    using assms(2) unfolding dumpConnectons_def limit_request [OF assms(1)]
    by (simp add: admin_get json_build literal_text del: list.map)
qed

lemma read_reply:
  fixes k cs
  defines "r \<equiv> object [(''total'', number_item (int_to_double (int k))),
      (''items'', list_item cJSON_Array (map (\<lambda>c. string_item (c_string c)) cs))]"
  shows "cJSON_GetObjectItem (Some r) ''total'' = Some (with_string (Some ''total'') False (number_item (int_to_double (int k))))"
    and "List.map_filter (\<lambda>e. map_option lossy (valuestring e)) (array_items (cJSON_GetObjectItem (Some r) ''items''))
      = map (\<lambda>c. lossy (c_string c)) cs"
proof -
  have "cJSON_GetObjectItem (Some r) ''items'' = Some (with_string (Some ''items'') False
      (list_item cJSON_Array (map (\<lambda>c. string_item (c_string c)) cs)))"
    by (simp add: r_def admin_get del: list.map)
  then show "List.map_filter (\<lambda>e. map_option lossy (valuestring e)) (array_items (cJSON_GetObjectItem (Some r) ''items''))
      = map (\<lambda>c. lossy (c_string c)) cs"
    by (simp add: List.map_filter_def comp_def filter_map)
qed (simp add: r_def admin_get del: list.map)

lemma dump_connections_eq:
  assumes "length (connections it cm) < 2 ^ 31" "int (stat cm) < 10 ^ 15" "in_i32 limit"
  shows "GrpcDispatchDumpConnections lossy it cm limit =
    Some \<lparr> dr_total = int (stat cm), dr_items = map lossy (take (nat limit) (connections it cm)) \<rparr>"
proof -
  define conns where "conns = connections it cm"
  define n where "n = (if min limit (int (length conns)) < 0 then 0 else min limit (int (length conns)))"
  have n: "in_i32 n" "nat n \<le> length conns" "take (nat n) conns = take (nat limit) conns"
    using assms by (auto simp: n_def conns_def in_i32_def i32_min_def i32_max_def min_def)
  have texts: "map (\<lambda>c. lossy (c_string c)) (take k conns) = map lossy (take k conns)" for k
    unfolding conns_def connections_def connection_strings_def
    by (rule map_cong [OF refl]) (auto dest!: in_set_takeD simp: c_string_id connection_text)
  have "sint (word_of_nat (length conns) :: u32) = int (length conns)"
    using assms(1) by (simp add: conns_def count_exact)
  then show ?thesis
    unfolding GrpcDispatchDumpConnections_def conns_def [symmetric] Let_def
    by (simp only: n_def [symmetric] dumpConnectons_limit [OF n(1,2)] option.case read_reply n(3) texts)
       (use assms(2) in \<open>simp add: read_signed\<close>)
qed

text \<open>The connection dump reports the number of tracked connections and the first \<open>limit\<close> of them
  (all when there are fewer, none for a negative limit), whatever the limit: the request it builds
  never makes the handler read past the list.\<close>

theorem dump_connections_lists_first:
  assumes "length (connections it cm) < 2 ^ 31" "int (stat cm) < 10 ^ 15" "in_i32 limit"
  shows "GrpcDispatchDumpConnections lossy it cm limit =
    Some \<lparr> dr_total = int (stat cm), dr_items = map lossy (take (nat limit) (connections it cm)) \<rparr>"
  using assms by (rule dump_connections_eq)

section \<open>Examples\<close>

theorem dump_connections_lists_first_witness:
  "\<exists>cm :: (unit, unit, unit) ConnectionManager. length (connections id cm) = 1 \<and>
     GrpcDispatchDumpConnections id id cm 5 = Some \<lparr> dr_total = int (stat cm), dr_items = connections id cm \<rparr>"
proof -
  let ?c = "\<lparr> local_ip = 1, foreign_ip = 2, local_port = 3, foreign_port = 4 \<rparr>"
  let ?cm = "new_connection_manager\<lparr> cm_engine := new_flow_engine\<lparr> tcbs := [(?c, \<lparr> fs_seq = 0, fs_server_side = False, fs_last_seen = 0 \<rparr>)] \<rparr> \<rparr>
     :: (unit, unit, unit) ConnectionManager"
  have "length (connections id ?cm) = 1" "int (stat ?cm) < 10 ^ 15" "in_i32 5"
    by (simp_all add: connections_def connection_strings_def stat_def live_connection_count_def in_i32_def i32_min_def i32_max_def)
  with dump_connections_lists_first [of id ?cm 5 id] show ?thesis
    by (intro exI [of _ ?cm]) simp
qed

end
