(* ===== verification/Dispatch_Queue.thy ===== *)
theory Dispatch_Queue
  imports NP_Prelude Transition "HOL-Library.Sublist"
begin

text \<open>
  The queue that carries control calls from the server threads to the epoll thread
  (grpc/control_dispatch.h, grpc/control_dispatch.cc, DispatchGrpcRustQueueEvent of net-policy.cpp):
  first the operations as each thread runs them, then all interleavings of any number of calling
  threads with the epoll thread. \<open>'s\<close> is the state the closures work on and \<open>'r\<close> the result of a
  call.
\<close>

section \<open>Items and the queue\<close>

text \<open>A closure gives the new state and the result it stores, or no result when it throws before it
  stores one; \<open>initial\<close> is the value the result variable starts with.\<close>

record ('s, 'r) GrpcDispatchItem =
  item_id :: nat
  work :: "'s \<Rightarrow> 's \<times> 'r option"
  initial :: 'r

text \<open>\<open>counter\<close> is the counter of the non-blocking eventfd behind \<^verbatim>\<open>wake_fd_\<close>.\<close>

record ('s, 'r) GrpcDispatchQueue =
  counter :: u64
  queue :: "('s, 'r) GrpcDispatchItem list"

definition eventfd_write :: "u64 \<Rightarrow> u64 option" where
  "eventfd_write c = (if c \<ge> 0xFFFFFFFFFFFFFFFE then None else Some (c + 1))"

definition eventfd_read :: "u64 \<Rightarrow> (u64 \<times> u64) option" where
  "eventfd_read c = (if c = 0 then None else Some (c, 0))"

definition push_back :: "('s, 'r) GrpcDispatchQueue \<Rightarrow> ('s, 'r) GrpcDispatchItem \<Rightarrow> ('s, 'r) GrpcDispatchQueue" where
  "push_back q item = q\<lparr> queue := queue q @ [item] \<rparr>"

text \<open>Writing 8 bytes to an open eventfd fails only when the counter is saturated; the code logs a failure
  and goes on, with the item queued.\<close>

definition push_wake :: "('s, 'r) GrpcDispatchQueue \<Rightarrow> ('s, 'r) GrpcDispatchQueue" where
  "push_wake q = (case eventfd_write (counter q) of None \<Rightarrow> q | Some c \<Rightarrow> q\<lparr> counter := c \<rparr>)"

definition Push :: "('s, 'r) GrpcDispatchQueue \<Rightarrow> ('s, 'r) GrpcDispatchItem \<Rightarrow> ('s, 'r) GrpcDispatchQueue" where
  "Push q item = push_wake (push_back q item)"

definition DrainAll ::
  "('s, 'r) GrpcDispatchQueue \<Rightarrow> ('s, 'r) GrpcDispatchQueue \<times> ('s, 'r) GrpcDispatchItem list" where
  "DrainAll q = (q\<lparr> queue := [] \<rparr>, queue q)"

section \<open>The wake-up handler\<close>

function read_loop :: "u64 \<Rightarrow> u64" where
  "read_loop c = (case eventfd_read c of None \<Rightarrow> c | Some (_, c') \<Rightarrow> read_loop c')"
  by auto
termination
  by (relation "measure unat") (auto simp: eventfd_read_def unat_gt_0 split: if_splits)

declare read_loop.simps [simp del]

text \<open>The result a caller finds: the one its closure stored, or the initial one.\<close>

definition result_of :: "('s, 'r) GrpcDispatchItem \<Rightarrow> 's \<Rightarrow> 'r" where
  "result_of item s = (case snd (work item s) of None \<Rightarrow> initial item | Some r \<Rightarrow> r)"

fun run_items :: "'s \<Rightarrow> ('s, 'r) GrpcDispatchItem list \<Rightarrow> 's \<times> (nat \<times> 'r) list" where
  "run_items s [] = (s, [])"
| "run_items s (item # items) =
     (let (s', fulfilled) = run_items (fst (work item s)) items
      in (s', (item_id item, result_of item s) # fulfilled))"

definition DispatchGrpcRustQueueEvent ::
  "('s, 'r) GrpcDispatchQueue \<Rightarrow> 's \<Rightarrow> ('s, 'r) GrpcDispatchQueue \<times> 's \<times> (nat \<times> 'r) list \<times> i32" where
  "DispatchGrpcRustQueueEvent q s =
     (let q1 = q\<lparr> counter := read_loop (counter q) \<rparr>;
          (q2, items) = DrainAll q1;
          (s', fulfilled) = run_items s items
      in (q2, s', fulfilled, 0))"

section \<open>Interleavings\<close>

text \<open>Where the epoll thread is: blocked in \<^verbatim>\<open>epoll_wait\<close>, in the read loop, before the drain,
  before the next item, or between a closure and its \<^verbatim>\<open>set_value\<close>.\<close>

datatype ('s, 'r) epoll_pc =
    Waiting
  | Reading
  | Draining
  | Running "('s, 'r) GrpcDispatchItem list"
  | Settling "('s, 'r) GrpcDispatchItem" 'r "('s, 'r) GrpcDispatchItem list"

text \<open>
  The callers are named by their items: those between the two halves of a push, those blocked on
  their future, and those that have returned. \<open>pushed\<close> and \<open>ran\<close> record the history: the items in
  the order they entered the queue and the runs with the state they started in.
\<close>

record ('s, 'r) conf =
  shared :: "('s, 'r) GrpcDispatchQueue"
  pc :: "('s, 'r) epoll_pc"
  daemon :: 's
  pushing :: "nat set"
  blocked :: "nat set"
  promises :: "nat \<rightharpoonup> 'r"
  returned :: "nat \<rightharpoonup> 'r"
  pushed :: "('s, 'r) GrpcDispatchItem list"
  ran :: "(('s, 'r) GrpcDispatchItem \<times> 's) list"

definition start_conf :: "'s \<Rightarrow> ('s, 'r) conf" where
  "start_conf s =
     \<lparr> shared = \<lparr> counter = 0, queue = [] \<rparr>, pc = Waiting, daemon = s, pushing = {}, blocked = {},
       promises = Map.empty, returned = Map.empty, pushed = [], ran = [] \<rparr>"

definition epoll_step :: "('s, 'r) conf \<Rightarrow> ('s, 'r) conf option" where
  "epoll_step c =
     (case pc c of
        Waiting \<Rightarrow> if counter (shared c) = 0 then None else Some (c\<lparr> pc := Reading \<rparr>)
      | Reading \<Rightarrow>
          (case eventfd_read (counter (shared c)) of
             None \<Rightarrow> Some (c\<lparr> pc := Draining \<rparr>)
           | Some (_, n) \<Rightarrow> Some (c\<lparr> shared := (shared c)\<lparr> counter := n \<rparr> \<rparr>))
      | Draining \<Rightarrow> (let (q, items) = DrainAll (shared c) in Some (c\<lparr> shared := q, pc := Running items \<rparr>))
      | Running [] \<Rightarrow> Some (c\<lparr> pc := Waiting \<rparr>)
      | Running (item # items) \<Rightarrow>
          Some (c\<lparr> daemon := fst (work item (daemon c)),
                  pc := Settling item (result_of item (daemon c)) items,
                  ran := ran c @ [(item, daemon c)] \<rparr>)
      | Settling item r items \<Rightarrow>
          Some (c\<lparr> promises := (promises c)(item_id item \<mapsto> r), pc := Running items \<rparr>))"

text \<open>A step of a caller or of the epoll thread; between two calls of the handler another event may
  change the state.\<close>

inductive disp_step :: "('s, 'r) conf \<Rightarrow> ('s, 'r) conf \<Rightarrow> bool" where
  enqueue: "item_id item \<notin> item_id ` set (pushed c) \<Longrightarrow>
     disp_step c (c\<lparr> shared := push_back (shared c) item, pushing := insert (item_id item) (pushing c),
                    pushed := pushed c @ [item] \<rparr>)"
| wake: "n \<in> pushing c \<Longrightarrow>
     disp_step c (c\<lparr> shared := push_wake (shared c), pushing := pushing c - {n}, blocked := insert n (blocked c) \<rparr>)"
| resume: "n \<in> blocked c \<Longrightarrow> promises c n = Some r \<Longrightarrow>
     disp_step c (c\<lparr> blocked := blocked c - {n}, returned := (returned c)(n \<mapsto> r) \<rparr>)"
| epoll: "epoll_step c = Some c' \<Longrightarrow> disp_step c c'"
| other: "pc c = Waiting \<Longrightarrow> disp_step c (c\<lparr> daemon := s \<rparr>)"

abbreviation reachable :: "('s, 'r) conf \<Rightarrow> bool" where
  "reachable c \<equiv> \<exists>s. disp_step\<^sup>*\<^sup>* (start_conf s) c"

section \<open>The invariant\<close>

fun in_flight :: "('s, 'r) epoll_pc \<Rightarrow> ('s, 'r) GrpcDispatchItem list" where
  "in_flight (Running items) = items"
| "in_flight (Settling item r items) = items"
| "in_flight _ = []"

text \<open>The runs whose promise is fulfilled.\<close>

definition settled :: "('s, 'r) conf \<Rightarrow> (('s, 'r) GrpcDispatchItem \<times> 's) list" where
  "settled c = (case pc c of Settling _ _ _ \<Rightarrow> butlast (ran c) | _ \<Rightarrow> ran c)"

definition results :: "(('s, 'r) GrpcDispatchItem \<times> 's) list \<Rightarrow> nat \<rightharpoonup> 'r" where
  "results rs = map_of (rev (map (\<lambda>(item, s). (item_id item, result_of item s)) rs))"

text \<open>An item in the queue will be seen: the counter is up, the handler has not drained yet, or its
  caller is still about to raise the counter.\<close>

definition noticed :: "('s, 'r) conf \<Rightarrow> ('s, 'r) GrpcDispatchItem \<Rightarrow> bool" where
  "noticed c item \<longleftrightarrow>
     counter (shared c) \<noteq> 0 \<or> pc c = Reading \<or> pc c = Draining \<or> item_id item \<in> pushing c"

definition disp_inv :: "('s, 'r) conf \<Rightarrow> bool" where
  "disp_inv c \<longleftrightarrow>
     map fst (ran c) @ in_flight (pc c) @ queue (shared c) = pushed c
     \<and> distinct (map item_id (pushed c))
     \<and> item_id ` set (pushed c) = pushing c \<union> blocked c \<union> dom (returned c)
     \<and> results (settled c) = promises c
     \<and> returned c \<subseteq>\<^sub>m promises c
     \<and> (\<forall>item r items. pc c = Settling item r items \<longrightarrow>
          (\<exists>rs s. ran c = rs @ [(item, s)] \<and> r = result_of item s))
     \<and> (\<forall>item\<in>set (queue (shared c)). noticed c item)"

lemma results_snoc [simp]:
  "results (rs @ [(item, s)]) = (results rs)(item_id item \<mapsto> result_of item s)"
  by (simp add: results_def)

lemma results_Nil [simp]: "results [] = Map.empty"
  by (simp add: results_def)

lemma push_wake_counter [simp]: "counter (push_wake q) \<noteq> 0" "queue (push_wake q) = queue q"
proof -
  have "c + 1 \<noteq> 0" if "\<not> 0xFFFFFFFFFFFFFFFE \<le> c" for c :: u64
    using that by (metis add.commute add_cancel_right_left eq_neg_iff_add_eq_0 word_order.extremum
        add.inverse_inverse linorder_le_cases max_word_max)
  then show "counter (push_wake q) \<noteq> 0"
    by (auto simp: push_wake_def eventfd_write_def)
qed (simp add: push_wake_def split: option.splits)

lemma push_back_simps [simp]:
  "counter (push_back q item) = counter q" "queue (push_back q item) = queue q @ [item]"
  by (simp_all add: push_back_def)

lemma start_inv: "disp_inv (start_conf s)"
  by (simp add: disp_inv_def start_conf_def settled_def)

lemma settled_simps:
  "pc c = Waiting \<Longrightarrow> settled c = ran c" "pc c = Reading \<Longrightarrow> settled c = ran c"
  "pc c = Draining \<Longrightarrow> settled c = ran c" "pc c = Running items \<Longrightarrow> settled c = ran c"
  "pc c = Settling item r items \<Longrightarrow> settled c = butlast (ran c)"
  by (simp_all add: settled_def)

text \<open>The epoll thread, place by place.\<close>

inductive_cases epoll_stepE: "disp_step c c'"

lemma epoll_step_cases:
  assumes "epoll_step c = Some c'"
  obtains
    (wait) "pc c = Waiting" "counter (shared c) \<noteq> 0" "c' = c\<lparr> pc := Reading \<rparr>"
  | (read) "pc c = Reading" "counter (shared c) \<noteq> 0" "c' = c\<lparr> shared := (shared c)\<lparr> counter := 0 \<rparr> \<rparr>"
  | (empty) "pc c = Reading" "counter (shared c) = 0" "c' = c\<lparr> pc := Draining \<rparr>"
  | (drain) "pc c = Draining"
      "c' = c\<lparr> shared := (shared c)\<lparr> queue := [] \<rparr>, pc := Running (queue (shared c)) \<rparr>"
  | (finish) "pc c = Running []" "c' = c\<lparr> pc := Waiting \<rparr>"
  | (run) item items where "pc c = Running (item # items)"
      "c' = c\<lparr> daemon := fst (work item (daemon c)),
              pc := Settling item (result_of item (daemon c)) items,
              ran := ran c @ [(item, daemon c)] \<rparr>"
  | (settle) item r items where "pc c = Settling item r items"
      "c' = c\<lparr> promises := (promises c)(item_id item \<mapsto> r), pc := Running items \<rparr>"
  using assms
  by (auto simp: epoll_step_def eventfd_read_def DrainAll_def split: epoll_pc.splits list.splits if_splits)

lemma settled_frame [simp]:
  "settled (c\<lparr> shared := q \<rparr>) = settled c" "settled (c\<lparr> daemon := x \<rparr>) = settled c"
  "settled (c\<lparr> pushing := a \<rparr>) = settled c" "settled (c\<lparr> blocked := a \<rparr>) = settled c"
  "settled (c\<lparr> returned := m \<rparr>) = settled c" "settled (c\<lparr> pushed := p \<rparr>) = settled c"
  by (simp_all add: settled_def split: epoll_pc.split)

lemma results_dom: "dom (results rs) = item_id ` fst ` set rs"
  by (force simp: results_def dom_map_of_conv_image_fst)

lemma epoll_step_inv:
  assumes "epoll_step c = Some c'" "disp_inv c"
  shows "disp_inv c'"
  using assms(1)
proof (cases rule: epoll_step_cases)
  case (run item items)
  with assms(2) show ?thesis
    by (simp add: disp_inv_def settled_def noticed_def)
next
  case (settle item r items)
  then obtain rs s where rs: "ran c = rs @ [(item, s)]" "r = result_of item s"
    using assms(2) by (auto simp: disp_inv_def)
  have "distinct (map item_id (map fst (ran c) @ in_flight (pc c) @ queue (shared c)))"
    using assms(2) by (simp only: disp_inv_def)
  then have "item_id item \<notin> dom (results rs)"
    by (auto simp: rs results_dom)
  then have "results rs \<subseteq>\<^sub>m (results rs)(item_id item \<mapsto> r)"
    by (auto simp: map_le_def)
  with settle rs assms(2) show ?thesis
    by (simp add: disp_inv_def settled_def noticed_def) (metis map_le_trans)
qed (use assms(2) in \<open>simp add: disp_inv_def settled_def noticed_def\<close>)+

lemma disp_step_inv:
  assumes "disp_step c c'" "disp_inv c"
  shows "disp_inv c'"
  using assms
proof (cases rule: disp_step.cases)
  case (enqueue item)
  then show ?thesis
    using assms(2) by (auto simp: disp_inv_def noticed_def)
next
  case (wake n)
  then show ?thesis
    using assms(2) by (auto simp: disp_inv_def noticed_def)
next
  case (resume n r)
  then show ?thesis
    using assms(2) by (auto simp: disp_inv_def noticed_def map_le_def)
next
  case (other s)
  then show ?thesis
    using assms(2) by (simp add: disp_inv_def noticed_def)
qed (rule epoll_step_inv)

interpretation dispatch: transition_system "\<lambda>c. \<exists>s. c = start_conf s" disp_step disp_inv
  by unfold_locales (auto intro: start_inv disp_step_inv)

lemma reachable_inv: "reachable c \<Longrightarrow> disp_inv c"
  by (elim exE, rule dispatch.inv_reachable) (rule exI, rule refl)

section \<open>The epoll thread alone\<close>

fun epoll_run :: "nat \<Rightarrow> ('s, 'r) conf \<Rightarrow> ('s, 'r) conf option" where
  "epoll_run 0 c = Some c"
| "epoll_run (Suc k) c = (case epoll_step c of None \<Rightarrow> None | Some c' \<Rightarrow> epoll_run k c')"

text \<open>What a stretch of the epoll thread leaves alone.\<close>

definition callers_kept :: "('s, 'r) conf \<Rightarrow> ('s, 'r) conf \<Rightarrow> bool" where
  "callers_kept c c' \<longleftrightarrow>
     pushed c' = pushed c \<and> pushing c' = pushing c \<and> blocked c' = blocked c \<and> returned c' = returned c"

lemma epoll_run_add:
  "epoll_run (j + k) c = (case epoll_run j c of None \<Rightarrow> None | Some c' \<Rightarrow> epoll_run k c')"
  by (induction j arbitrary: c) (auto split: option.splits)

lemma epoll_run_trans:
  "epoll_run j c = Some c' \<Longrightarrow> epoll_run k c' = Some c'' \<Longrightarrow> epoll_run (j + k) c = Some c''"
  by (simp add: epoll_run_add)

lemma epoll_run_steps: "epoll_run k c = Some c' \<Longrightarrow> disp_step\<^sup>*\<^sup>* c c'"
  by (induction k arbitrary: c) (auto split: option.splits intro: converse_rtranclp_into_rtranclp disp_step.epoll)

lemma callers_kept_refl [simp]: "callers_kept c c"
  by (simp add: callers_kept_def)

lemma callers_kept_trans: "callers_kept c c' \<Longrightarrow> callers_kept c' c'' \<Longrightarrow> callers_kept c c''"
  by (simp add: callers_kept_def)

lemma running_finishes:
  assumes "pc c = Running items"
  shows "\<exists>c'. epoll_run (Suc (2 * length items)) c = Some c' \<and> pc c' = Waiting \<and> shared c' = shared c
    \<and> daemon c' = fst (run_items (daemon c) items)
    \<and> promises c' = promises c ++ map_of (rev (snd (run_items (daemon c) items)))
    \<and> callers_kept c c'"
  using assms
proof (induction items arbitrary: c)
  case Nil
  then show ?case by (simp add: epoll_step_def callers_kept_def)
next
  case (Cons item items)
  let ?r = "result_of item (daemon c)"
  let ?c1 = "c\<lparr> daemon := fst (work item (daemon c)), pc := Settling item ?r items,
                ran := ran c @ [(item, daemon c)] \<rparr>"
  let ?c2 = "?c1\<lparr> promises := (promises c)(item_id item \<mapsto> ?r), pc := Running items \<rparr>"
  have two: "epoll_run 2 c = Some ?c2"
    using Cons.prems by (simp add: epoll_step_def numeral_2_eq_2)
  have "pc ?c2 = Running items" by simp
  from Cons.IH [OF this] obtain c' where c': "epoll_run (Suc (2 * length items)) ?c2 = Some c'"
      "pc c' = Waiting" "shared c' = shared ?c2" "daemon c' = fst (run_items (daemon ?c2) items)"
      "promises c' = promises ?c2 ++ map_of (rev (snd (run_items (daemon ?c2) items)))"
      "callers_kept ?c2 c'"
    by blast
  have "epoll_run (Suc (2 * length (item # items))) c = Some c'"
    using epoll_run_trans [OF two c'(1)] by simp
  moreover have "callers_kept c c'"
    using c'(6) by (simp add: callers_kept_def)
  ultimately show ?case
    using c'(2-5) by (simp add: case_prod_beta)
qed

lemma read_loop_zero [simp]: "read_loop c = 0"
proof -
  have "read_loop 0 = 0"
    by (subst read_loop.simps) (simp add: eventfd_read_def)
  then show ?thesis
    by (subst read_loop.simps) (simp add: eventfd_read_def)
qed

lemma handler_is_epoll_thread:
  assumes "pc c = Waiting" "counter (shared c) \<noteq> 0"
    and "DispatchGrpcRustQueueEvent (shared c) (daemon c) = (q, s, fulfilled, r)"
  shows "\<exists>c'. epoll_run (5 + 2 * length (queue (shared c))) c = Some c' \<and> pc c' = Waiting
    \<and> shared c' = q \<and> daemon c' = s \<and> promises c' = promises c ++ map_of (rev fulfilled)
    \<and> callers_kept c c'"
proof -
  let ?c1 = "c\<lparr> pc := Running (queue (shared c)), shared := \<lparr> counter = 0, queue = [] \<rparr> \<rparr>"
  have four: "epoll_run 4 c = Some ?c1"
    using assms(1,2) by (cases "shared c") (simp add: epoll_step_def eventfd_read_def DrainAll_def eval_nat_numeral)
  have "pc ?c1 = Running (queue (shared c))" by simp
  from running_finishes [OF this] obtain c' where
    c': "epoll_run (Suc (2 * length (queue (shared c)))) ?c1 = Some c'" "pc c' = Waiting" "shared c' = shared ?c1"
      "daemon c' = fst (run_items (daemon ?c1) (queue (shared c)))"
      "promises c' = promises ?c1 ++ map_of (rev (snd (run_items (daemon ?c1) (queue (shared c)))))"
      "callers_kept ?c1 c'"
    by blast
  have "q = \<lparr> counter = 0, queue = [] \<rparr>" "s = fst (run_items (daemon c) (queue (shared c)))"
    "fulfilled = snd (run_items (daemon c) (queue (shared c)))"
    using assms(3) by (auto simp: DispatchGrpcRustQueueEvent_def DrainAll_def split: prod.splits)
  moreover have "callers_kept c c'"
    using c'(6) by (simp add: callers_kept_def)
  ultimately show ?thesis
    using epoll_run_trans [OF four c'(1)] c'(2-5) by (simp add: eval_nat_numeral)
qed

definition settles :: "('s, 'r) conf \<Rightarrow> bool" where
  "settles c \<longleftrightarrow> (\<exists>k c'. epoll_run k c = Some c' \<and> pc c' = Waiting \<and> callers_kept c c')"

lemma settles_step:
  assumes "case epoll_step c of None \<Rightarrow> False | Some c1 \<Rightarrow> callers_kept c c1 \<and> settles c1"
  shows "settles c"
proof -
  from assms obtain c1 k c' where "epoll_step c = Some c1" "callers_kept c c1"
    "epoll_run k c1 = Some c'" "pc c' = Waiting" "callers_kept c1 c'"
    by (auto simp: settles_def split: option.splits)
  then have "epoll_run (Suc k) c = Some c' \<and> pc c' = Waiting \<and> callers_kept c c'"
    by (auto intro: callers_kept_trans)
  then show ?thesis unfolding settles_def by blast
qed

lemma settles_running: "pc c = Running items \<Longrightarrow> settles c"
  using running_finishes [of c items] unfolding settles_def by blast

lemma settles_draining: "pc c = Draining \<Longrightarrow> settles c"
  by (rule settles_step) (auto simp: epoll_step_def DrainAll_def callers_kept_def intro: settles_running)

lemma settles_read: "pc c = Reading \<Longrightarrow> counter (shared c) = 0 \<Longrightarrow> settles c"
  by (rule settles_step) (auto simp: epoll_step_def eventfd_read_def callers_kept_def intro: settles_draining)

lemma settles_reading: "pc c = Reading \<Longrightarrow> settles c"
  by (cases "counter (shared c) = 0", rule settles_read, assumption, assumption, rule settles_step)
     (auto simp: epoll_step_def eventfd_read_def callers_kept_def intro: settles_read)

lemma settles_always: "settles c"
proof (cases "pc c")
  case Waiting
  then have "epoll_run 0 c = Some c \<and> pc c = Waiting \<and> callers_kept c c" by simp
  then show ?thesis unfolding settles_def by blast
next
  case (Settling item r items)
  then show ?thesis
    by (intro settles_step) (auto simp: epoll_step_def callers_kept_def intro: settles_running)
qed (auto intro: settles_running settles_draining settles_reading)

lemma waiting_serves_queue:
  assumes "pc c = Waiting" "disp_inv c" "pushing c = {}"
  shows "\<exists>k c'. epoll_run k c = Some c' \<and> pc c' = Waiting \<and> queue (shared c') = [] \<and> callers_kept c c'"
proof (cases "queue (shared c) = []")
  case True
  then have "epoll_run 0 c = Some c \<and> pc c = Waiting \<and> queue (shared c) = [] \<and> callers_kept c c"
    using assms by simp
  then show ?thesis by blast
next
  case False
  then have "counter (shared c) \<noteq> 0"
    using assms by (cases "queue (shared c)") (auto simp: disp_inv_def noticed_def)
  with handler_is_epoll_thread [OF assms(1)] obtain k c' q s fulfilled r where
    "DispatchGrpcRustQueueEvent (shared c) (daemon c) = (q, s, fulfilled, r)"
    "epoll_run k c = Some c'" "pc c' = Waiting" "shared c' = q" "callers_kept c c'"
    by (metis prod_cases4)
  moreover from this(1) have "queue q = []"
    by (auto simp: DispatchGrpcRustQueueEvent_def DrainAll_def split: prod.splits)
  ultimately show ?thesis by blast
qed

section \<open>What callers can rely on\<close>

text \<open>C9: In every interleaving of the calling threads with the epoll thread the closures run in the
  order in which they entered the queue, none twice; a call returns only after its closure has run,
  with the value that run gave; and an item the epoll thread may still touch belongs to a call that
  has not returned.\<close>

theorem calls_run_once_in_order:
  assumes "reachable c"
  shows "prefix (map fst (ran c)) (pushed c) \<and> distinct (map item_id (pushed c))
    \<and> (\<forall>n r. returned c n = Some r \<longrightarrow>
         (\<exists>item s. (item, s) \<in> set (ran c) \<and> item_id item = n \<and> r = result_of item s))
    \<and> (\<forall>item\<in>set (in_flight (pc c) @ queue (shared c)). item_id item \<notin> dom (returned c))"
proof -
  have inv: "disp_inv c"
    by (rule reachable_inv [OF assms])
  have sub: "set (settled c) \<subseteq> set (ran c)"
    by (auto simp: settled_def dest: in_set_butlastD split: epoll_pc.splits)
  have val: "\<exists>item s. (item, s) \<in> set (ran c) \<and> item_id item = n \<and> r = result_of item s"
    if "returned c n = Some r" for n r
  proof -
    have "results (settled c) n = Some r"
      using inv that by (metis disp_inv_def domI map_le_def)
    then obtain item s where "(item, s) \<in> set (settled c)" "item_id item = n" "r = result_of item s"
      by (auto simp: results_def dest!: map_of_SomeD)
    then show ?thesis using sub by blast
  qed
  have split: "map fst (ran c) @ in_flight (pc c) @ queue (shared c) = pushed c"
    "distinct (map item_id (pushed c))"
    using inv by (simp_all only: disp_inv_def)
  then have "distinct (map item_id (map fst (ran c)) @ map item_id (in_flight (pc c) @ queue (shared c)))"
    by (metis map_append)
  then have apart: "item_id ` set (map fst (ran c)) \<inter> item_id ` set (in_flight (pc c) @ queue (shared c)) = {}"
    by (simp only: distinct_append set_map)
  have "item_id item \<notin> dom (returned c)" if "item \<in> set (in_flight (pc c) @ queue (shared c))" for item
  proof
    assume "item_id item \<in> dom (returned c)"
    then obtain i s where "(i, s) \<in> set (ran c)" "item_id i = item_id item"
      using val by blast
    then have "item_id item \<in> item_id ` set (map fst (ran c))"
      by (metis fst_conv image_eqI set_map)
    then show False
      using that apart by blast
  qed
  moreover have "prefix (map fst (ran c)) (pushed c)"
    using split(1) by (metis prefixI)
  ultimately show ?thesis
    using val split(2) by blast
qed

text \<open>C10: No wake-up is lost. In every interleaving, once no caller is in the middle of a push, the
  epoll thread by itself comes back to \<^verbatim>\<open>epoll_wait\<close> with the queue empty and the promise of every
  call fulfilled, so that every blocked call can return.\<close>

theorem every_call_is_served:
  assumes "reachable c" "pushing c = {}"
  shows "\<exists>k c'. epoll_run k c = Some c' \<and> pc c' = Waiting \<and> queue (shared c') = []
    \<and> blocked c' = blocked c \<and> (\<forall>item\<in>set (pushed c). promises c' (item_id item) \<noteq> None)"
proof -
  have inv: "disp_inv c"
    by (rule reachable_inv [OF assms(1)])
  from settles_always [of c] obtain j c1 where c1: "epoll_run j c = Some c1" "pc c1 = Waiting" "callers_kept c c1"
    unfolding settles_def by blast
  have "disp_inv c1"
    using dispatch.inv_steps [OF epoll_run_steps [OF c1(1)] inv] .
  moreover have "pushing c1 = {}"
    using c1(3) assms(2) by (simp add: callers_kept_def)
  ultimately obtain k c2 where c2: "epoll_run k c1 = Some c2" "pc c2 = Waiting" "queue (shared c2) = []" "callers_kept c1 c2"
    using waiting_serves_queue [OF c1(2)] by blast
  have run: "epoll_run (j + k) c = Some c2"
    by (rule epoll_run_trans [OF c1(1) c2(1)])
  have inv2: "disp_inv c2"
    using dispatch.inv_steps [OF epoll_run_steps [OF run] inv] .
  have kept: "callers_kept c c2"
    using c1(3) c2(4) by (rule callers_kept_trans)
  have "map fst (ran c2) = pushed c" "promises c2 = results (ran c2)"
    using inv2 c2 kept by (auto simp: disp_inv_def callers_kept_def settled_def)
  then have "dom (promises c2) = item_id ` set (pushed c)"
    by (metis results_dom set_map)
  then have "\<forall>item\<in>set (pushed c). promises c2 (item_id item) \<noteq> None"
    by blast
  moreover have "blocked c2 = blocked c"
    using kept by (simp add: callers_kept_def)
  ultimately show ?thesis
    using run c2(2,3) by blast
qed

text \<open>Two calls on a number: the second enters the queue while the handler is in its read loop, and
  its wake-up comes before the drain.\<close>

definition add_item :: "nat \<Rightarrow> nat \<Rightarrow> (nat, nat) GrpcDispatchItem" where
  "add_item n k = \<lparr> item_id = n, work = (\<lambda>s. (s + k, Some (s + k))), initial = 0 \<rparr>"

definition raced_conf :: "(nat, nat) conf" where
  "raced_conf =
     \<lparr> shared = \<lparr> counter = 1, queue = [add_item 1 5, add_item 2 7] \<rparr>, pc = Draining, daemon = 10,
       pushing = {}, blocked = {1, 2}, promises = Map.empty, returned = Map.empty,
       pushed = [add_item 1 5, add_item 2 7], ran = [] \<rparr>"

lemma raced_reachable: "disp_step\<^sup>*\<^sup>* (start_conf 10) raced_conf"
proof -
  let ?a = "add_item 1 5" and ?b = "add_item 2 7"
  let ?c1 = "(start_conf 10)\<lparr> shared := \<lparr> counter = 0, queue = [?a] \<rparr>, pushing := {1}, pushed := [?a] \<rparr>"
  let ?c2 = "?c1\<lparr> shared := \<lparr> counter = 1, queue = [?a] \<rparr>, pushing := {}, blocked := {1} \<rparr>"
  let ?c3 = "?c2\<lparr> pc := Reading \<rparr>"
  let ?c4 = "?c3\<lparr> shared := \<lparr> counter = 0, queue = [?a] \<rparr> \<rparr>"
  let ?c5 = "?c4\<lparr> shared := \<lparr> counter = 0, queue = [?a, ?b] \<rparr>, pushing := {2}, pushed := [?a, ?b] \<rparr>"
  let ?c6 = "?c5\<lparr> pc := Draining \<rparr>"
  note defs = start_conf_def push_back_def push_wake_def eventfd_write_def eventfd_read_def epoll_step_def
    add_item_def raced_conf_def
  have s1: "disp_step (start_conf 10) ?c1"
    using disp_step.enqueue [of ?a "start_conf 10"] by (simp add: defs)
  have s2: "disp_step ?c1 ?c2"
    using disp_step.wake [of 1 ?c1] by (simp add: defs)
  have s3: "disp_step ?c2 ?c3" and s4: "disp_step ?c3 ?c4"
    by (rule disp_step.epoll, simp add: defs)+
  have s5: "disp_step ?c4 ?c5"
    using disp_step.enqueue [of ?b ?c4] by (simp add: defs)
  have s6: "disp_step ?c5 ?c6"
    by (rule disp_step.epoll) (simp add: defs)
  have s7: "disp_step ?c6 raced_conf"
    using disp_step.wake [of 2 ?c6] by (simp add: defs insert_commute)
  show ?thesis
    by (rule converse_rtranclp_into_rtranclp, rule s1, rule converse_rtranclp_into_rtranclp, rule s2,
        rule converse_rtranclp_into_rtranclp, rule s3, rule converse_rtranclp_into_rtranclp, rule s4,
        rule converse_rtranclp_into_rtranclp, rule s5, rule converse_rtranclp_into_rtranclp, rule s6,
        rule r_into_rtranclp, rule s7)
qed

theorem calls_run_once_in_order_witness:
  "disp_step\<^sup>*\<^sup>* (start_conf 10) raced_conf \<and> 2 \<notin> dom (returned raced_conf)"
proof -
  have "\<forall>item\<in>set (in_flight (pc raced_conf) @ queue (shared raced_conf)). item_id item \<notin> dom (returned raced_conf)"
    using calls_run_once_in_order [of raced_conf] raced_reachable by blast
  then show ?thesis
    using raced_reachable by (simp add: raced_conf_def add_item_def)
qed

theorem every_call_is_served_witness:
  "\<exists>k c'. epoll_run k raced_conf = Some c' \<and> pc c' = Waiting \<and> promises c' 2 \<noteq> None"
proof -
  have "pushing raced_conf = {}" "add_item 2 7 \<in> set (pushed raced_conf)" "item_id (add_item 2 7) = 2"
    by (simp_all add: raced_conf_def add_item_def)
  with every_call_is_served [of raced_conf] raced_reachable show ?thesis
    by metis
qed

end
