(* ===== verification/Daemon_Loop.thy ===== *)
theory Daemon_Loop
  imports Packet_Path Control_Safety Pod_Lifecycle Admin_Calls Dispatch_Queue
begin

text \<open>
  The daemon as a whole (RunNetPolicyDaemon of net-policy.cpp): its start, the control calls as the
  closures the epoll thread runs, the event handlers, and the loop over the events of one
  \<^verbatim>\<open>epoll_wait\<close>. \<open>None\<close> is undefined behaviour, such as following a pointer to a callback or a
  resource that has been deleted.
\<close>

section \<open>State\<close>

datatype 'k call =
    PodUp "'k pod_env" i32 u64
  | PodDown u64
  | AddPolicyRule string "PolicyRuleSpec list"
  | DeletePolicyRule string
  | ResetConfig
  | UpdateNodeConfig bool "string list"
  | DumpConfig string
  | DumpConnections i32
  | DumpHeapProfile bool
  | SetLogLevel i32

datatype reply = StatusReply i32 | ConfigReply DumpConfigResult | ConnectionsReply DumpConnectionsResult

text \<open>\<open>sockets\<close> are the queue objects by descriptor, \<open>calls\<close> the dispatch queue with the closures named
  by their calls, \<open>wake\<close> its counter; \<open>verdicts\<close> and \<open>replies\<close> record what has been given out.\<close>

record ('l, 's, 'f, 'k) daemon =
  ctx :: "('l, 's, 'f) DaemonContext"
  epoll :: epoll_state
  epoll_fd :: i32
  thread_netns :: netns
  filters :: "netns \<Rightarrow> 'k"
  sockets :: "i32 \<Rightarrow> NfqQueue"
  calls :: "(nat \<times> 'k call) list"
  wake :: u64
  profiling :: bool
  g_log_level :: i32
  verdicts :: "issued list"
  replies :: "(nat \<times> reply) list"

text \<open>What the daemon runs on: the packet environment, memory, hash map orders and \<^verbatim>\<open>lossy\<close>.\<close>

record ('l, 's, 'f) loop_env =
  packet_env :: "('l, 's, 'f) nfq_env"
  memory :: heap
  pod_walk :: "pod_set \<Rightarrow> u64 list"
  group_walk :: group_order
  rule_walk :: rule_order
  res_walk :: pod_order
  flow_walk :: "(ConnectionId \<times> FlowState) list \<Rightarrow> (ConnectionId \<times> FlowState) list"
  lossy_text :: "string \<Rightarrow> string"

section \<open>The closures\<close>

definition pods_of :: "('l, 's, 'f, 'k) daemon \<Rightarrow> 'k pods" where
  "pods_of d = \<lparr> engine_of = microseg (ctx d), epoll_of = epoll d, thread_ns = thread_netns d, tables = filters d \<rparr>"

definition with_microseg :: "('l, 's, 'f, 'k) daemon \<Rightarrow> MicroSegEngine \<Rightarrow> ('l, 's, 'f, 'k) daemon" where
  "with_microseg d ms = d\<lparr> ctx := (ctx d)\<lparr> microseg := ms \<rparr> \<rparr>"

definition with_pods :: "('l, 's, 'f, 'k) daemon \<Rightarrow> 'k pods \<Rightarrow> ('l, 's, 'f, 'k) daemon" where
  "with_pods d st = (with_microseg d (engine_of st))\<lparr> epoll := epoll_of st, thread_netns := thread_ns st, filters := tables st \<rparr>"

definition status_outcome ::
  "('l, 's, 'f, 'k) daemon \<Rightarrow> i32 outcome \<Rightarrow> ('l, 's, 'f, 'k) daemon option \<times> reply option" where
  "status_outcome d r =
     (case r of
        Done ms n \<Rightarrow> (Some (with_microseg d ms), Some (StatusReply n))
      | Threw ms \<Rightarrow> (Some (with_microseg d ms), None)
      | Undefined \<Rightarrow> (None, None))"

text \<open>Opening the queues of a pod gives them empty.\<close>

definition open_sockets :: "'k pod_env \<Rightarrow> i32 \<Rightarrow> (i32 \<Rightarrow> NfqQueue) \<Rightarrow> i32 \<Rightarrow> NfqQueue" where
  "open_sockets env pid s =
     (\<lambda>fd. if open_queue env (ProcessNs pid) 0 = Some fd \<or> open_queue env (ProcessNs pid) 1 = Some fd
           then \<lparr> socket = [], send_ok = (\<lambda>_. True), pending = [] \<rparr> else s fd)"

fun run_call ::
  "('l, 's, 'f) loop_env \<Rightarrow> 'k call \<Rightarrow> ('l, 's, 'f, 'k) daemon \<Rightarrow> ('l, 's, 'f, 'k) daemon option \<times> reply option" where
  "run_call env (PodUp penv pid pod) d =
     (case GrpcDispatchPodUp penv (ipt_ver (ctx d)) (epoll_fd d) pid pod (pods_of d) of
        None \<Rightarrow> (None, None)
      | Some (st, ret) \<Rightarrow>
          (Some ((with_pods d st)\<lparr> sockets :=
              (if ret = 0 \<and> GetNfqRes (microseg (ctx d)) pod = None then open_sockets penv pid (sockets d) else sockets d) \<rparr>),
           Some (StatusReply ret)))"
| "run_call env (PodDown pod) d =
     (let (st, ret) = GrpcDispatchPodDown pod (pods_of d) in (Some (with_pods d st), Some (StatusReply ret)))"
| "run_call env (AddPolicyRule name rs) d =
     status_outcome d (and_then (GrpcDispatchAddPolicyRule (pod_walk env) (microseg (ctx d)) name rs)
       (\<lambda>ms (n, marked_pods). Done ms n))"
| "run_call env (DeletePolicyRule name) d = status_outcome d (GrpcDispatchDeletePolicyRule (microseg (ctx d)) name)"
| "run_call env ResetConfig d = status_outcome d (GrpcDispatchResetConfig (microseg (ctx d)))"
| "run_call env (UpdateNodeConfig is_delete ips) d =
     status_outcome d (GrpcDispatchUpdateNodeConfig (microseg (ctx d)) is_delete ips)"
| "run_call env (DumpConfig name) d =
     (case GrpcDispatchDumpConfig (lossy_text env) (group_walk env) (rule_walk env) (res_walk env)
             (microseg (ctx d)) (connection_manager (ctx d)) name of
        None \<Rightarrow> (None, None)
      | Some r \<Rightarrow> (Some d, Some (ConfigReply r)))"
| "run_call env (DumpConnections limit) d =
     (case GrpcDispatchDumpConnections (lossy_text env) (flow_walk env) (connection_manager (ctx d)) limit of
        None \<Rightarrow> (None, None)
      | Some r \<Rightarrow> (Some d, Some (ConnectionsReply r)))"
| "run_call env (DumpHeapProfile enable) d =
     (case GrpcDispatchDumpHeapProfile enable (profiling d) of
        None \<Rightarrow> (None, None)
      | Some (running, ret) \<Rightarrow> (Some (d\<lparr> profiling := running \<rparr>), Some (StatusReply ret)))"
| "run_call env (SetLogLevel level) d =
     (let (l, ret) = GrpcDispatchSetLogLevel level (g_log_level d) in (Some (d\<lparr> g_log_level := l \<rparr>), Some (StatusReply ret)))"

text \<open>The value a call returns when its closure stores none.\<close>

definition empty_config :: DumpConfigResult where
  "empty_config = \<lparr> dc_inbound_rules = [], dc_outbound_rules = [], dc_containers = [], dc_tcp_connections = 0 \<rparr>"

fun default_reply :: "'k call \<Rightarrow> reply" where
  "default_reply (DumpConfig name) = ConfigReply empty_config"
| "default_reply (DumpConnections limit) = ConnectionsReply \<lparr> dr_total = 0, dr_items = [] \<rparr>"
| "default_reply (SetLogLevel level) = StatusReply 0"
| "default_reply _ = StatusReply 1"

definition call_item ::
  "('l, 's, 'f) loop_env \<Rightarrow> nat \<times> 'k call \<Rightarrow> (('l, 's, 'f, 'k) daemon option, reply) GrpcDispatchItem" where
  "call_item env c =
     \<lparr> item_id = fst c,
       work = (\<lambda>s. case s of None \<Rightarrow> (None, None) | Some d \<Rightarrow> run_call env (snd c) d),
       initial = default_reply (snd c) \<rparr>"

section \<open>The event handlers\<close>

text \<open>An event with what the calls of its handler find: the accepted descriptor, whether the timer
  could be read, and the clock.\<close>

record event =
  ev_ptr :: nat
  ev_epollin :: bool
  ev_accept :: i32
  ev_timer_read :: bool
  ev_clock :: "NfqMessage \<Rightarrow> clock"
  ev_now :: instant
  ev_now_engine :: instant

definition ProcAcceptPostLinkEvent :: "event \<Rightarrow> ('l, 's, 'f, 'k) daemon \<Rightarrow> ('l, 's, 'f, 'k) daemon" where
  "ProcAcceptPostLinkEvent ev d =
     (if ev_accept ev \<le> 0 then d else d\<lparr> ctx := fst (PostServer_Accept (ctx d) (ev_accept ev)) \<rparr>)"

definition ReaperTimerEvent :: "event \<Rightarrow> ('l, 's, 'f, 'k) daemon \<Rightarrow> ('l, 's, 'f, 'k) daemon" where
  "ReaperTimerEvent ev d =
     (if \<not> ev_timer_read ev then d
      else d\<lparr> ctx := (ctx d)\<lparr> connection_manager :=
             EvictStale_default (connection_manager (ctx d)) (ev_now ev) (ev_now_engine ev) \<rparr> \<rparr>)"

text \<open>A connection whose protocol is not known yet keeps the data it was given as pointers into the
  payloads of their messages, and hands it to the codec once the protocol is known (onData of
  connection.cc). The payloads are freed with the batch, so data kept from an earlier batch is gone:
  the event is undefined if a callback of this batch makes a connection hand over such data, that is,
  if an entry that held data before the batch is still there and holds none any more.\<close>

definition kept_length :: "('l, 's, 'f) MicrosegEntry \<Rightarrow> nat" where
  "kept_length entry = sum_list (map snd (conn_packet (me_conn entry)))"

definition holding :: "('l, 's, 'f) ConnectionManager \<Rightarrow> ConnectionId list" where
  "holding cm = map fst (filter (\<lambda>(c, entry). kept_length entry > 0) (microseg_conns cm))"

definition handed_over :: "('l, 's, 'f) ConnectionManager \<Rightarrow> ConnectionId \<Rightarrow> bool" where
  "handed_over cm c =
     (case hm_get (microseg_conns cm) c of None \<Rightarrow> False | Some entry \<Rightarrow> conn_packet (me_conn entry) = [])"

fun reads_freed ::
  "(clock \<Rightarrow> ('l, 's, 'f) DaemonContext \<Rightarrow> NfqMessage \<Rightarrow> (('l, 's, 'f) DaemonContext \<times> effect list) option)
     \<Rightarrow> (NfqMessage \<Rightarrow> clock) \<Rightarrow> ConnectionId list \<Rightarrow> ('l, 's, 'f) DaemonContext \<Rightarrow> NfqMessage list \<Rightarrow> bool" where
  "reads_freed cb ck old dm [] = False"
| "reads_freed cb ck old dm (msg # batch) =
     (case cb (ck msg) dm msg of
        None \<Rightarrow> False
      | Some (dm1, _) \<Rightarrow>
          list_ex (handed_over (connection_manager dm1)) old
          \<or> reads_freed cb ck (filter (hm_has (microseg_conns (connection_manager dm1))) old) dm1 batch)"

definition batch_reads_freed ::
  "('l, 's, 'f) nfq_env \<Rightarrow> heap \<Rightarrow> (NfqMessage \<Rightarrow> clock) \<Rightarrow> bool \<Rightarrow> ('l, 's, 'f) DaemonContext \<Rightarrow> NfqQueue \<Rightarrow> bool" where
  "batch_reads_freed env mem ck is_input dm q =
     (case recv_batch q of
        (_, None) \<Rightarrow> False
      | (_, Some batch) \<Rightarrow>
          reads_freed (if is_input then input_nfq_cb env mem else output_nfq_cb env mem) ck
            (holding (connection_manager dm)) dm batch)"

definition nfqueue_event ::
  "('l, 's, 'f) loop_env \<Rightarrow> RcvEpollCb \<Rightarrow> event \<Rightarrow> ('l, 's, 'f, 'k) daemon \<Rightarrow> ('l, 's, 'f, 'k) daemon option" where
  "nfqueue_event env cb ev d =
     (case Option.bind (cb_nfq_res cb) (GetNfqRes (microseg (ctx d))) of
        None \<Rightarrow> None
      | Some res \<Rightarrow>
          (case (nr_input_queue res, nr_output_queue res) of
             (Some i, Some q) \<Rightarrow>
               (let is_input = (cb_fd cb = i); fd = (if is_input then i else q) in
                if batch_reads_freed (packet_env env) (memory env) (ev_clock ev) is_input (ctx d) (sockets d fd) then None
                else case NfqueueRcvData (packet_env env) (memory env) (ev_clock ev) is_input (ctx d) (sockets d fd) of
                  None \<Rightarrow> None
                | Some (dm, sock, ks) \<Rightarrow>
                    Some (d\<lparr> ctx := dm, sockets := (sockets d)(fd := sock), verdicts := verdicts d @ ks \<rparr>))
           | _ \<Rightarrow> None))"

definition dispatch_event ::
  "('l, 's, 'f) loop_env \<Rightarrow> ('l, 's, 'f, 'k) daemon \<Rightarrow> ('l, 's, 'f, 'k) daemon option" where
  "dispatch_event env d =
     (case DispatchGrpcRustQueueEvent \<lparr> counter = wake d, queue = map (call_item env) (calls d) \<rparr> (Some d) of
        (q, None, fulfilled, _) \<Rightarrow> None
      | (q, Some d', fulfilled, _) \<Rightarrow> Some (d'\<lparr> calls := [], wake := counter q, replies := replies d' @ fulfilled \<rparr>))"

definition handle_event ::
  "('l, 's, 'f) loop_env \<Rightarrow> RcvEpollCb \<Rightarrow> event \<Rightarrow> ('l, 's, 'f, 'k) daemon \<Rightarrow> ('l, 's, 'f, 'k) daemon option" where
  "handle_event env cb ev d =
     (if \<not> ev_epollin ev then Some d
      else case epoll_in_func cb of
             None \<Rightarrow> Some d
           | Some CbNfqueueRcvData \<Rightarrow> nfqueue_event env cb ev d
           | Some CbProcAcceptPostLinkEvent \<Rightarrow> Some (ProcAcceptPostLinkEvent ev d)
           | Some CbDispatchGrpcRustQueueEvent \<Rightarrow> dispatch_event env d
           | Some CbReaperTimerEvent \<Rightarrow> Some (ReaperTimerEvent ev d))"

section \<open>The loop over the events of one wait\<close>

fun event_loop ::
  "('l, 's, 'f) loop_env \<Rightarrow> event list \<Rightarrow> ('l, 's, 'f, 'k) daemon \<Rightarrow> ('l, 's, 'f, 'k) daemon option" where
  "event_loop env [] d = Some d"
| "event_loop env (ev # evs) d =
     (if ev_ptr ev = 0 then event_loop env evs d
      else case hm_get (callbacks (epoll d)) (ev_ptr ev) of
             None \<Rightarrow> None
           | Some cb \<Rightarrow>
               (case handle_event env cb ev d of
                  None \<Rightarrow> None
                | Some d' \<Rightarrow> event_loop env evs d'))"

section \<open>The invariant\<close>

text \<open>Policy names are short enough for the notification buffer wherever they are kept.\<close>

definition engine_names :: "MicroSegEngine \<Rightarrow> bool" where
  "engine_names ms \<longleftrightarrow>
     (\<forall>dir key name r. rule_lookup (ms_engine ms) dir key name = Some r \<longrightarrow> length (policy_key r) \<le> 800)
     \<and> (\<forall>dir name rs. hm_get (http_policy ms dir) name = Some rs \<longrightarrow> length name \<le> 800)"

definition flow_names :: "('l, 's, 'f) ConnectionManager \<Rightarrow> bool" where
  "flow_names cm \<longleftrightarrow> (\<forall>c k. bound_key cm c = Some k \<longrightarrow> length k \<le> 800)"

definition engine_ok :: "MicroSegEngine \<Rightarrow> epoll_state \<Rightarrow> bool" where
  "engine_ok ms ep \<longleftrightarrow> microseg_wf ms \<and> engine_names ms \<and> links_ok ms ep"

text \<open>What waits in a queue: whole packets with different ids.\<close>

definition arrivals :: "recv_result list \<Rightarrow> NfqMessage list" where
  "arrivals src = List.map_filter (\<lambda>r. case r of Received m \<Rightarrow> Some m | _ \<Rightarrow> None) src"

definition socket_ok :: "heap \<Rightarrow> NfqQueue \<Rightarrow> bool" where
  "socket_ok mem q \<longleftrightarrow>
     (\<forall>m\<in>set (arrivals (socket q)). Packet_Path.complete mem m) \<and> distinct (map msg_id (arrivals (socket q)))"

definition daemon_inv :: "('l, 's, 'f) loop_env \<Rightarrow> ('s \<Rightarrow> int set) \<Rightarrow> ('l, 's, 'f, 'k) daemon \<Rightarrow> bool" where
  "daemon_inv env opn d \<longleftrightarrow>
     manager_ok opn (connection_manager (ctx d)) \<and> flow_names (connection_manager (ctx d))
     \<and> engine_ok (microseg (ctx d)) (epoll d) \<and> (\<forall>fd. socket_ok (memory env) (sockets d fd))"

lemma daemon_inv_ok: "daemon_inv env opn d \<Longrightarrow> daemon_ok opn (ctx d)"
  by (auto simp: daemon_inv_def daemon_ok_def names_fit_def engine_ok_def engine_names_def flow_names_def)

section \<open>Engine changes\<close>

lemma only_policy_names:
  assumes "only_policy (Some key) ms ms'" "microseg_wf ms" "engine_names ms" "length key \<le> 800"
  shows "engine_names ms'"
proof -
  have ms': "microseg_wf ms'" and same: "\<And>name. name \<noteq> key \<Longrightarrow> same_for name ms ms'"
    using assms(1,2) by (auto simp: only_policy_def)
  have "length (policy_key r) \<le> 800" if "rule_lookup (ms_engine ms') dir k name = Some r" for dir k name r
  proof (cases "name = key")
    case True
    then show ?thesis
      using rule_lookup_key [OF wf_engine [OF ms'] that] assms(4) by simp
  next
    case False
    then have "rule_lookup (ms_engine ms) dir k name = Some r"
      using same that by (simp add: same_for_def)
    then show ?thesis
      using assms(3) unfolding engine_names_def by blast
  qed
  moreover have "length name \<le> 800" if "hm_get (http_policy ms' dir) name = Some rs" for dir name rs
  proof (cases "name = key")
    case False
    then have "hm_get (http_policy ms dir) name = Some rs"
      using same that by (simp add: same_for_def)
    then show ?thesis
      using assms(3) unfolding engine_names_def by blast
  qed (use assms(4) in simp)
  ultimately show ?thesis
    unfolding engine_names_def by blast
qed

lemma only_policy_engine_ok:
  assumes "only_policy (Some key) ms ms'" "engine_ok ms ep" "length key \<le> 800"
  shows "engine_ok ms' ep"
proof -
  have "microseg_wf ms'" "res_data ms' = res_data ms"
    using assms by (auto simp: only_policy_def engine_ok_def)
  then show ?thesis
    using assms only_policy_names policy_keeps_ok unfolding engine_ok_def by blast
qed

lemma engine_names_frame:
  "engine_names ms \<Longrightarrow> ms_engine ms' = ms_engine ms \<Longrightarrow> (\<And>dir. http_policy ms' dir = http_policy ms dir) \<Longrightarrow> engine_names ms'"
  by (simp add: engine_names_def)

lemma http_policy_res [simp]: "http_policy (ms\<lparr> res_data := m \<rparr>) dir = http_policy ms dir"
  "http_policy (ms\<lparr> nodes_ip := n \<rparr>) dir = http_policy ms dir" "http_policy (ms\<lparr> ms_engine := e \<rparr>) dir = http_policy ms dir"
  by (simp_all add: http_policy_def split: FlowDir.split)

lemma nodes_engine_ok:
  "engine_ok ms ep \<Longrightarrow> engine_ok ((if del then RemoveNodeIp else AddNodeIp) ms ip) ep"
  using policy_keeps_ok [of ms ep "(if del then RemoveNodeIp else AddNodeIp) ms ip"]
    engine_names_frame [of ms "(if del then RemoveNodeIp else AddNodeIp) ms ip"]
    microseg_wf_res(3,4) [of ms ip]
  by (simp add: engine_ok_def AddNodeIp_def RemoveNodeIp_def split: if_splits)

lemma nodes_fold_ok:
  "engine_ok ms ep \<Longrightarrow> engine_ok (fold (\<lambda>ip ms. (if del then RemoveNodeIp else AddNodeIp) ms (ipv4StringToInt ip)) ips ms) ep"
  by (rule fold_keeps [where P = "\<lambda>ms. engine_ok ms ep"]) (rule nodes_engine_ok)

lemma clear_engine_ok: "engine_ok ms ep \<Longrightarrow> engine_ok (fst (PolicyRule_ClearCfg ms)) ep"
  using microseg_wf_clear [of ms] policy_keeps_ok [of ms ep "fst (PolicyRule_ClearCfg ms)"]
  by (simp add: engine_ok_def engine_names_def PolicyRule_ClearCfg_def)

lemma delete_only_removes:
  assumes "engine_wf (ms_engine ms)" "rule_lookup (ms_engine (MicroSeg_DeletePolicy ms name)) dir k n = Some r"
  shows "rule_lookup (ms_engine ms) dir k n = Some r"
  using assms
  by (cases "IsValidUtf8 name") (auto simp: microseg_delete_lookup microseg_delete_frame split: if_splits)

lemma delete_engine_ok:
  assumes "engine_ok ms ep"
  shows "engine_ok (fst (control_DeletePolicy ms name)) ep"
proof -
  let ?ms = "MicroSeg_DeletePolicy ms name"
  have "microseg_wf ?ms" "links_ok ?ms ep"
    using assms by (auto simp: engine_ok_def microseg_wf_delete microseg_delete_frame intro: policy_keeps_ok)
  moreover have "engine_names ?ms"
    unfolding engine_names_def
  proof (intro conjI allI impI)
    fix dir k n r
    assume "rule_lookup (ms_engine ?ms) dir k n = Some r"
    then have "rule_lookup (ms_engine ms) dir k n = Some r"
      using assms by (auto simp: engine_ok_def intro: delete_only_removes wf_engine)
    then show "length (policy_key r) \<le> 800"
      using assms unfolding engine_ok_def engine_names_def by blast
  next
    fix dir n rs
    assume "hm_get (http_policy ?ms dir) n = Some rs"
    then have "hm_get (http_policy ms dir) n = Some rs"
      by (simp add: microseg_delete_http split: if_splits)
    then show "length n \<le> 800"
      using assms unfolding engine_ok_def engine_names_def by blast
  qed
  ultimately show ?thesis
    using assms by (simp add: control_DeletePolicy_def engine_ok_def)
qed

text \<open>A policy call whose address ranges do not end at the largest integer is defined.\<close>

definition bounded_ranges :: "PolicyRuleSpec \<Rightarrow> bool" where
  "bounded_ranges r \<longleftrightarrow>
     list_all (\<lambda>ep. ParseIpString (ae_ip ep) [] \<noteq> AddrOverflow) (ps_from_addresses r @ ps_to_addresses r)"

lemma expand_overflow: "expand_all ret segs = AddrOverflow \<longleftrightarrow> expand_all [] segs = AddrOverflow"
proof (induction segs arbitrary: ret)
  case (Cons seg segs)
  show ?case
    by (cases "expand_segment seg") (simp_all, metis Cons.IH)
qed simp

lemma spec_addresses_defined:
  "list_all (\<lambda>ep. ParseIpString (ae_ip ep) [] \<noteq> AddrOverflow) eps \<Longrightarrow> spec_addresses ms l ips pods eps \<noteq> Undefined"
proof (induction eps arbitrary: ips pods)
  case (Cons ep eps)
  then have "ParseIpString (ae_ip ep) ips \<noteq> AddrOverflow"
    using expand_overflow [of ips] by (simp add: ParseIpString_def)
  then show ?case
    using Cons by (cases l) (simp_all split: addresses.split)
qed simp

lemma and_then_defined:
  "m \<noteq> Undefined \<Longrightarrow> (\<And>ms a. f ms a \<noteq> Undefined) \<Longrightarrow> and_then m f \<noteq> Undefined"
  by (cases m) auto

lemma install_rules_defined:
  "list_all bounded_ranges rs \<Longrightarrow> install_rules key ms pods rs \<noteq> Undefined"
proof (induction rs arbitrary: ms pods)
  case (Cons r rs)
  then have "list_all (\<lambda>ep. ParseIpString (ae_ip ep) [] \<noteq> AddrOverflow) (ps_from_addresses r)"
    "list_all (\<lambda>ep. ParseIpString (ae_ip ep) [] \<noteq> AddrOverflow) (ps_to_addresses r)"
    by (simp_all add: bounded_ranges_def)
  then have "install_rule key ms pods r \<noteq> Undefined" for ms pods
    unfolding install_rule_def
    by (intro and_then_defined spec_addresses_defined)
       (assumption | simp only: split_beta, intro and_then_defined spec_addresses_defined, assumption, simp add: split_beta)+
  then show ?case
    using Cons by (simp add: and_then_defined)
qed simp

lemma policy_document:
  assumes "list_all spec_ok rs" "nul \<notin> set name" "length (compact_value (policy_json name rs)) + 1 < INT_MAX"
  obtains t where "GrpcDispatchAddPolicyRule walk ms name rs = ParseNetPolicy walk ms (Some t)" "named_policy (Some t) = Some name"
proof -
  obtain t where "cJSON_PrintUnformatted (policy_json name rs) = Some t"
    "cJSON_Parse (Some t) = Some (policy_json name rs)"
    using plain_policy [OF assms(1), of name] assms(3) by (auto intro: json_detour simp: policy_json_eq)
  with that [of t] show ?thesis
    using assms(2) by (simp add: GrpcDispatchAddPolicyRule_def named_policy_def policy_get c_string_id)
qed

lemma add_policy_engine_ok:
  assumes "list_all spec_ok rs" "nul \<notin> set name" "length (compact_value (policy_json name rs)) + 1 < INT_MAX"
    "list_all bounded_ranges rs" "length name \<le> 800" "engine_ok ms ep"
  shows "(\<exists>ms' r. GrpcDispatchAddPolicyRule walk ms name rs = Done ms' r \<and> engine_ok ms' ep)
    \<or> (\<exists>ms'. GrpcDispatchAddPolicyRule walk ms name rs = Threw ms' \<and> engine_ok ms' ep)"
proof -
  obtain t where t: "GrpcDispatchAddPolicyRule walk ms name rs = ParseNetPolicy walk ms (Some t)"
    "named_policy (Some t) = Some name"
    using policy_document [OF assms(1-3)] by blast
  have "GrpcDispatchAddPolicyRule walk ms name rs \<noteq> Undefined"
    unfolding add_policy_installs [OF assms(1-3)] install_policy_def
    by (intro and_then_defined install_rules_defined assms(4)) simp
  moreover have "leads (only_policy (Some name)) ms (GrpcDispatchAddPolicyRule walk ms name rs)"
    unfolding t(1) by (rule one_policy.install_steps [OF t(2)])
  ultimately show ?thesis
    using only_policy_engine_ok [OF _ assms(6,5)]
    by (cases "GrpcDispatchAddPolicyRule walk ms name rs") auto
qed

section \<open>The calls keep the invariant\<close>

text \<open>Calls the daemon handles without undefined behaviour in a state.\<close>

fun call_ok :: "('l, 's, 'f) loop_env \<Rightarrow> ('l, 's, 'f, 'k) daemon \<Rightarrow> 'k call \<Rightarrow> bool" where
  "call_ok env d (PodUp penv pid pod) = fresh_env penv (pods_of d)"
| "call_ok env d (AddPolicyRule name rs) =
     (list_all spec_ok rs \<and> nul \<notin> set name \<and> length (compact_value (policy_json name rs)) + 1 < INT_MAX
      \<and> list_all bounded_ranges rs \<and> length name \<le> 800)"
| "call_ok env d (UpdateNodeConfig is_delete ips) = (length (compact_value (node_json is_delete ips)) + 1 < INT_MAX)"
| "call_ok env d (DumpConfig name) =
     dump_ok (group_walk env) (rule_walk env) (res_walk env) (microseg (ctx d)) (stat (connection_manager (ctx d)))"
| "call_ok env d (DumpConnections limit) =
     (length (connections (flow_walk env) (connection_manager (ctx d))) < 2 ^ 31
      \<and> int (stat (connection_manager (ctx d))) < 10 ^ 15 \<and> in_i32 limit)"
| "call_ok env d _ = True"

text \<open>Descriptors that are registered stay so.\<close>

definition live_kept :: "epoll_state \<Rightarrow> epoll_state \<Rightarrow> bool" where
  "live_kept ep ep' \<longleftrightarrow> (\<forall>fd a. hm_get (interest ep) fd = Some a \<longrightarrow> hm_get (interest ep') fd = Some a)"

lemma live_kept_refl [simp]: "live_kept ep ep"
  by (simp add: live_kept_def)

lemma live_kept_trans: "live_kept a b \<Longrightarrow> live_kept b c \<Longrightarrow> live_kept a c"
  by (simp add: live_kept_def)

fun takes_pod_down :: "'k call \<Rightarrow> bool" where
  "takes_pod_down (PodDown pod) = True"
| "takes_pod_down _ = False"

definition call_good ::
  "('l, 's, 'f) loop_env \<Rightarrow> ('s \<Rightarrow> int set) \<Rightarrow> 'k call \<Rightarrow> ('l, 's, 'f, 'k) daemon
     \<Rightarrow> ('l, 's, 'f, 'k) daemon option \<times> reply option \<Rightarrow> bool" where
  "call_good env opn c d res \<longleftrightarrow>
     (case fst res of
        None \<Rightarrow> False
      | Some d' \<Rightarrow> daemon_inv env opn d' \<and> calls d' = calls d \<and> replies d' = replies d \<and> verdicts d' = verdicts d
          \<and> (\<not> takes_pod_down c \<longrightarrow> live_kept (epoll d) (epoll d')))"

lemma status_good:
  assumes "daemon_inv env opn d"
    and "\<And>ms n. r = Done ms n \<Longrightarrow> engine_ok ms (epoll d)" "\<And>ms. r = Threw ms \<Longrightarrow> engine_ok ms (epoll d)" "r \<noteq> Undefined"
  shows "call_good env opn c d (status_outcome d r)"
  using assms by (cases r) (auto simp: call_good_def status_outcome_def with_microseg_def daemon_inv_def)

lemma pod_engine_ok:
  "engine_ok ms ep \<Longrightarrow> links_ok (ms\<lparr> res_data := hm_put pod res (res_data ms) \<rparr>) ep' \<Longrightarrow> engine_ok (ms\<lparr> res_data := hm_put pod res (res_data ms) \<rparr>) ep'"
  "engine_ok ms ep \<Longrightarrow> links_ok (ms\<lparr> res_data := hm_del pod (res_data ms) \<rparr>) ep' \<Longrightarrow> engine_ok (ms\<lparr> res_data := hm_del pod (res_data ms) \<rparr>) ep'"
  using engine_names_frame [of ms "ms\<lparr> res_data := hm_put pod res (res_data ms) \<rparr>"]
    engine_names_frame [of ms "ms\<lparr> res_data := hm_del pod (res_data ms) \<rparr>"]
  by (auto simp: engine_ok_def microseg_wf_def hmap_simps)

lemma pod_up_good:
  assumes inv: "daemon_inv env opn d" and fresh: "fresh_env penv (pods_of d)"
  shows "call_good env opn (PodUp penv pid pod) d (run_call env (PodUp penv pid pod) d)"
proof -
  have ok: "engine_ok (microseg (ctx d)) (epoll d)" and links: "pods_ok (pods_of d)"
    using inv by (simp_all add: daemon_inv_def engine_ok_def pods_of_def)
  have socks: "socket_ok (memory env) (open_sockets penv pid (sockets d) fd)" "socket_ok (memory env) (sockets d fd)" for fd
    using inv by (simp_all add: open_sockets_def daemon_inv_def socket_ok_def arrivals_def)
  show ?thesis
    using fresh
  proof (cases rule: PodUp_cases [where v = "ipt_ver (ctx d)" and efd = "epoll_fd d" and pid = pid and pod = pod])
    case (fresh i q)
    have "pods_ok (opened penv (epoll_fd d) pid pod i q (pods_of d))"
      by (rule opened_keeps_ok [OF links assms(2) fresh(1-3)])
    moreover have "\<not> hm_has (interest (epoll d)) i" "\<not> hm_has (interest (epoll d)) q"
      using assms(2) fresh(2,3) by (auto simp: fresh_env_def pods_of_def)
    then have "live_kept (epoll d) (epoll_of (opened penv (epoll_fd d) pid pod i q (pods_of d)))"
      by (auto simp: live_kept_def opened_def pods_of_def hm_has_def hmap_simps)
    ultimately show ?thesis
      using fresh inv socks pod_engine_ok(1) [OF ok]
      by (auto simp: call_good_def with_pods_def with_microseg_def daemon_inv_def opened_def pods_of_def ruled_def)
  qed (use inv socks in \<open>auto simp: call_good_def with_pods_def with_microseg_def daemon_inv_def pods_of_def ruled_def\<close>)
qed

lemma pod_down_good:
  assumes inv: "daemon_inv env opn d"
  shows "call_good env opn (PodDown pod) d (run_call env (PodDown pod) d)"
proof -
  have ok: "engine_ok (microseg (ctx d)) (epoll d)"
    using inv by (simp add: daemon_inv_def)
  have "pods_ok (fst (GrpcDispatchPodDown pod (pods_of d)))"
    using ok by (intro down_keeps_ok) (simp add: engine_ok_def pods_of_def)
  then show ?thesis
    using inv ok pod_engine_ok(2) [OF ok]
    by (auto simp: call_good_def with_pods_def with_microseg_def daemon_inv_def pods_of_def GrpcDispatchPodDown_def
        DeleteNfQueRes_def split: option.splits prod.splits)
qed

lemma run_call_good:
  assumes "daemon_inv env opn d" "call_ok env d c"
  shows "call_good env opn c d (run_call env c d)"
proof -
  have ok: "engine_ok (microseg (ctx d)) (epoll d)"
    using assms(1) by (simp add: daemon_inv_def)
  show ?thesis
  proof (cases c)
    case (AddPolicyRule name rs)
    then have "list_all spec_ok rs" "nul \<notin> set name" "length (compact_value (policy_json name rs)) + 1 < INT_MAX"
      "list_all bounded_ranges rs" "length name \<le> 800"
      using assms(2) by simp_all
    from add_policy_engine_ok [OF this ok, of "pod_walk env"] show ?thesis
      unfolding AddPolicyRule run_call.simps
      by (intro status_good [OF assms(1)]) (auto split: prod.splits)
  next
    case (DeletePolicyRule name)
    then show ?thesis
      using delete_engine_ok [OF ok, of name]
      by (auto intro!: status_good [OF assms(1)] simp: GrpcDispatchDeletePolicyRule_def split: prod.splits)
  next
    case ResetConfig
    then show ?thesis
      using clear_engine_ok [OF ok]
      by (auto intro!: status_good [OF assms(1)] simp: GrpcDispatchResetConfig_def split: prod.splits)
  next
    case (UpdateNodeConfig is_delete ips)
    then show ?thesis
      using nodes_fold_ok [OF ok, of is_delete ips] assms(2)
      by (auto intro!: status_good [OF assms(1)] simp: update_node_config_eq)
  next
    case (DumpHeapProfile enable)
    then show ?thesis
      using assms(1) by (simp add: call_good_def daemon_inv_def heap_profile_eq)
  next
    case (DumpConfig name)
    then show ?thesis
      using assms by (simp add: call_good_def dump_config_eq)
  next
    case (DumpConnections limit)
    then show ?thesis
      using assms by (simp add: call_good_def dump_connections_eq)
  next
    case (SetLogLevel level)
    then show ?thesis
      using assms(1) by (simp add: call_good_def daemon_inv_def GrpcDispatchSetLogLevel_def)
  qed (use assms pod_up_good pod_down_good in simp_all)
qed

section \<open>The handlers keep the invariant\<close>

text \<open>Calls that are handled one after the other.\<close>

fun calls_ok :: "('l, 's, 'f) loop_env \<Rightarrow> ('l, 's, 'f, 'k) daemon \<Rightarrow> (nat \<times> 'k call) list \<Rightarrow> bool" where
  "calls_ok env d [] = True"
| "calls_ok env d (c # cs) =
     (call_ok env d (snd c) \<and>
      (case fst (run_call env (snd c) d) of None \<Rightarrow> True | Some d' \<Rightarrow> calls_ok env d' cs))"

definition no_pod_down :: "(nat \<times> 'k call) list \<Rightarrow> bool" where
  "no_pod_down cs = list_all (\<lambda>c. \<not> takes_pod_down (snd c)) cs"

lemma call_item_sel [simp]:
  "item_id (call_item env c) = fst c" "work (call_item env c) (Some d) = run_call env (snd c) d"
  by (simp_all add: call_item_def)

lemma run_items_good:
  assumes "daemon_inv env opn d" "calls_ok env d cs"
  shows "\<exists>d' f. run_items (Some d) (map (call_item env) cs) = (Some d', f) \<and> daemon_inv env opn d'
    \<and> replies d' = replies d \<and> verdicts d' = verdicts d \<and> map fst f = map fst cs
    \<and> (no_pod_down cs \<longrightarrow> live_kept (epoll d) (epoll d'))"
  using assms
proof (induction cs arbitrary: d)
  case (Cons c cs)
  have "call_good env opn (snd c) d (run_call env (snd c) d)"
    using Cons.prems by (intro run_call_good) simp_all
  then obtain d1 where d1: "fst (run_call env (snd c) d) = Some d1" "daemon_inv env opn d1"
    "replies d1 = replies d" "verdicts d1 = verdicts d" "\<not> takes_pod_down (snd c) \<longrightarrow> live_kept (epoll d) (epoll d1)"
    by (auto simp: call_good_def split: option.splits)
  with Cons.prems have "calls_ok env d1 cs" by simp
  from Cons.IH [OF d1(2) this] obtain d' f where d':
    "run_items (Some d1) (map (call_item env) cs) = (Some d', f)" "daemon_inv env opn d'"
    "replies d' = replies d1" "verdicts d' = verdicts d1" "map fst f = map fst cs"
    "no_pod_down cs \<longrightarrow> live_kept (epoll d1) (epoll d')"
    by blast
  have "no_pod_down (c # cs) \<longrightarrow> live_kept (epoll d) (epoll d')"
    using d1(5) d'(6) live_kept_trans by (auto simp: no_pod_down_def)
  then show ?case
    using d1 d' by simp
qed (simp add: no_pod_down_def)

text \<open>One verdict for every packet, and a reply for every call.\<close>

definition event_good ::
  "('l, 's, 'f) loop_env \<Rightarrow> ('s \<Rightarrow> int set) \<Rightarrow> ('l, 's, 'f, 'k) daemon \<Rightarrow> ('l, 's, 'f, 'k) daemon \<Rightarrow> bool" where
  "event_good env opn d d' \<longleftrightarrow>
     daemon_inv env opn d' \<and> (no_pod_down (calls d) \<longrightarrow> live_kept (epoll d) (epoll d'))
     \<and> (calls d' = calls d \<and> replies d' = replies d
        \<or> calls d' = [] \<and> map fst (replies d') = map fst (replies d) @ map fst (calls d))"

lemma dispatch_good:
  assumes "daemon_inv env opn d" "calls_ok env d (calls d)"
  shows "\<exists>d'. dispatch_event env d = Some d' \<and> event_good env opn d d'"
proof -
  obtain d' f where "run_items (Some d) (map (call_item env) (calls d)) = (Some d', f)" "daemon_inv env opn d'"
    "replies d' = replies d" "map fst f = map fst (calls d)"
    "no_pod_down (calls d) \<longrightarrow> live_kept (epoll d) (epoll d')"
    using run_items_good [OF assms] by blast
  then show ?thesis
    by (simp add: dispatch_event_def DispatchGrpcRustQueueEvent_def DrainAll_def event_good_def daemon_inv_def)
qed

lemma accept_good: "daemon_inv env opn d \<Longrightarrow> event_good env opn d (ProcAcceptPostLinkEvent ev d)"
  by (simp add: ProcAcceptPostLinkEvent_def event_good_def daemon_inv_def PostServer_Accept_def)

lemma reaper_good:
  assumes "daemon_inv env opn d"
  shows "event_good env opn d (ReaperTimerEvent ev d)"
proof -
  let ?cm = "connection_manager (ctx d)"
  have ok: "manager_ok opn ?cm" and names: "flow_names ?cm"
    using assms by (simp_all add: daemon_inv_def)
  have "flow_names (EvictStale ?cm te t timeout)" for te t timeout
    using names by (auto simp: flow_names_def bound_key_def evict_lookup [OF ok] split: if_splits option.splits)
  then show ?thesis
    using assms evict_ok [OF ok] by (simp add: ReaperTimerEvent_def event_good_def daemon_inv_def EvictStale_default_def)
qed

text \<open>Packets: the callbacks bind flows to policies with HTTP rules only, and a batch leaves the rest
  of the socket.\<close>

lemma rcv_loop_binds:
  assumes env: "env_ok env opn" and "daemon_ok opn dm" "\<forall>m\<in>set batch. Packet_Path.complete mem m"
    "rcv_loop (nfq_cb dir env mem) ck dm q batch = Some (dm', q', ks)"
    "bound_key (connection_manager dm') c = Some k"
  shows "bound_key (connection_manager dm) c = Some k \<or> (\<exists>rs. hm_get (http_policy (microseg dm) dir) k = Some rs)"
  using assms(2-)
proof (induction batch arbitrary: dm q ks)
  case (Cons m batch)
  have "answers opn dir dm m (nfq_cb dir env mem (ck m) dm m)"
    using nfq_cb_answers [OF env] Cons.prems by simp
  then obtain dm1 eff where cb: "nfq_cb dir env mem (ck m) dm m = Some (dm1, eff)"
    and dm1: "daemon_ok opn dm1" "microseg dm1 = microseg dm"
    and keys: "\<And>c k. bound_key (connection_manager dm1) c = Some k \<Longrightarrow> bound_key (connection_manager dm) c = Some k
             \<or> (\<exists>rs. rs \<noteq> [] \<and> hm_get (http_policy (microseg dm) dir) k = Some rs)"
    unfolding answers_def by blast
  obtain q1 ks1 where q1: "apply_verdicts q eff = (q1, ks1)"
    by (cases "apply_verdicts q eff")
  obtain ks2 where rest: "rcv_loop (nfq_cb dir env mem) ck dm1 q1 batch = Some (dm', q', ks2)"
    using Cons.prems(3) cb q1 by (auto split: option.splits)
  then have "bound_key (connection_manager dm1) c = Some k \<or> (\<exists>rs. hm_get (http_policy (microseg dm1) dir) k = Some rs)"
    using Cons.IH [OF dm1(1) _ rest Cons.prems(4)] Cons.prems(2) by simp
  then show ?case
    using keys dm1(2) by auto
qed simp

lemma apply_verdicts_socket: "socket (fst (apply_verdicts q es)) = socket q"
  by (induction q es rule: apply_verdicts.induct)
     (auto simp: verdict_impl_def split: prod.splits option.splits if_splits)

lemma rcv_loop_socket:
  "rcv_loop cb ck dm q batch = Some (dm', q', ks) \<Longrightarrow> socket q' = socket q"
proof (induction batch arbitrary: dm q ks)
  case (Cons m batch)
  from Cons.prems obtain dm1 eff q1 ks1 ks2 where
    "apply_verdicts q eff = (q1, ks1)" "rcv_loop cb ck dm1 q1 batch = Some (dm', q', ks2)"
    by (auto split: option.splits prod.splits)
  then show ?case
    using Cons.IH apply_verdicts_socket [of q eff] by simp
qed simp

lemma drain_suffix: "drain_loop room p src out = (p', src', res) \<Longrightarrow> suffix src' src"
  by (induction room p src out rule: drain_loop.induct) (auto simp: suffix_ConsI)

lemma batch_arrivals: "prefix (batch_of room src) (arrivals src)"
proof (induction room src rule: batch_of.induct)
  case (1 room m src)
  then show ?case by (simp add: arrivals_def List.map_filter_simps)
qed auto

lemma socket_ok_suffix:
  assumes "socket_ok mem q" "suffix (socket q') (socket q)"
  shows "socket_ok mem q'"
proof -
  obtain pre where "socket q = pre @ socket q'"
    using assms(2) by (auto simp: suffix_def)
  then have "arrivals (socket q) = arrivals pre @ arrivals (socket q')"
    by (simp add: arrivals_def List.map_filter_def)
  then show ?thesis
    using assms(1) by (simp add: socket_ok_def)
qed

lemma recv_batch_socket: "recv_batch q = (q', res) \<Longrightarrow> suffix (socket q') (socket q)"
  by (auto simp: recv_batch_def drain_batch_def dest: drain_suffix split: prod.splits)

lemma reads_freed_nothing_kept: "\<not> reads_freed cb ck [] dm batch"
  by (induction batch arbitrary: dm) (simp_all split: option.split)

lemma batch_nothing_kept: "holding (connection_manager dm) = [] \<Longrightarrow> \<not> batch_reads_freed env mem ck is_input dm q"
  by (simp add: batch_reads_freed_def reads_freed_nothing_kept split: prod.split option.split)

lemma receive_good:
  assumes env: "env_ok env opn" and dm: "daemon_ok opn dm" and q: "socket_ok mem q"
  shows "\<exists>dm' q' ks. NfqueueRcvData env mem ck is_input dm q = Some (dm', q', ks)
    \<and> daemon_ok opn dm' \<and> microseg dm' = microseg dm \<and> socket_ok mem q'
    \<and> (ks = [] \<or> map iss_id ks = filter (send_ok q) (map msg_id (batch_of MAX_BATCH (socket q))))
    \<and> (\<forall>c k. bound_key (connection_manager dm') c = Some k \<longrightarrow> bound_key (connection_manager dm) c = Some k
         \<or> (\<exists>dir rs. hm_get (http_policy (microseg dm) dir) k = Some rs))"
proof -
  let ?dir = "if is_input then kIngress else kEgress" and ?batch = "batch_of MAX_BATCH (socket q)"
  obtain q1 res where r: "recv_batch q = (q1, res)" by (cases "recv_batch q")
  have pend: "pending q1 = fold (\<lambda>m. hm_put (msg_id m) m) ?batch []" and send: "send_ok q1 = send_ok q" and res: "res = None \<or> res = Some ?batch"
    using recv_batch_result [OF r] by auto
  have rest: "socket_ok mem q1" by (rule socket_ok_suffix [OF q recv_batch_socket [OF r]])
  obtain more where "arrivals (socket q) = ?batch @ more"
    using batch_arrivals [of MAX_BATCH "socket q"] by (auto simp: prefix_def)
  then have batch: "\<forall>m\<in>set ?batch. Packet_Path.complete mem m" "distinct (map msg_id ?batch)"
    using q by (simp_all add: socket_ok_def)
  have "hm_has (pending q1) i \<longleftrightarrow> i \<in> msg_id ` set ?batch" for i
    by (simp add: pend has_fold_put) (simp add: hm_has_def)
  from rcv_loop_answers [OF env dm batch this, of ?dir ck]
  obtain dm' q' ks where run: "rcv_loop (nfq_cb ?dir env mem) ck dm q1 ?batch = Some (dm', q', ks)"
    and dm': "daemon_ok opn dm'" "microseg dm' = microseg dm" "map iss_id ks = filter (send_ok q) (map msg_id ?batch)"
    unfolding send by blast
  have "socket_ok mem q'"
    using rest rcv_loop_socket [OF run] by (simp add: socket_ok_def)
  then have "res = Some ?batch \<Longrightarrow> ?thesis"
    using run dm' rcv_loop_binds [OF env dm batch(1) run] r
    by (cases is_input) (auto simp: NfqueueRcvData_def input_cb output_cb)
  moreover have "res = None \<Longrightarrow> ?thesis"
    using r rest dm by (simp add: NfqueueRcvData_def)
  ultimately show ?thesis using res by blast
qed

lemma nfqueue_good:
  assumes env: "env_ok (packet_env env) opn" and inv: "daemon_inv env opn d"
    and reg: "hm_get (interest (epoll d)) fd = Some a" "hm_get (callbacks (epoll d)) a = Some cb"
      "epoll_in_func cb = Some CbNfqueueRcvData"
    and kept: "holding (connection_manager (ctx d)) = []"
  shows "\<exists>d'. nfqueue_event env cb ev d = Some d' \<and> event_good env opn d d'
    \<and> (verdicts d' = verdicts d
       \<or> map iss_id (verdicts d') = map iss_id (verdicts d)
           @ filter (send_ok (sockets d fd)) (map msg_id (batch_of MAX_BATCH (socket (sockets d fd)))))"
proof -
  have links: "links_ok (microseg (ctx d)) (epoll d)" and names: "engine_names (microseg (ctx d))"
    "flow_names (connection_manager (ctx d))" and sock: "socket_ok (memory env) (sockets d fd)"
    using inv by (simp_all add: daemon_inv_def engine_ok_def)
  have "registered_ok (microseg (ctx d)) (epoll d) fd a"
    using links reg(1) by (simp add: links_ok_def)
  then obtain pod res where res: "cb_nfq_res cb = Some pod" "cb_fd cb = fd" "GetNfqRes (microseg (ctx d)) pod = Some res"
    "nr_input_queue res = Some fd \<or> nr_output_queue res = Some fd"
    using reg by (auto simp: registered_ok_def owns_def)
  obtain i q where iq: "nr_input_queue res = Some i" "nr_output_queue res = Some q"
    by (rule queue_readyE [OF links res(3)])
  then have fd: "(if cb_fd cb = i then i else q) = fd"
    using res by auto
  obtain dm' q' ks where r: "NfqueueRcvData (packet_env env) (memory env) (ev_clock ev) (fd = i) (ctx d) (sockets d fd) = Some (dm', q', ks)"
    and dm': "daemon_ok opn dm'" "microseg dm' = microseg (ctx d)" "socket_ok (memory env) q'"
    and ks: "ks = [] \<or> map iss_id ks = filter (send_ok (sockets d fd)) (map msg_id (batch_of MAX_BATCH (socket (sockets d fd))))"
    and keys: "\<And>c k. bound_key (connection_manager dm') c = Some k \<Longrightarrow> bound_key (connection_manager (ctx d)) c = Some k
         \<or> (\<exists>dir rs. hm_get (http_policy (microseg (ctx d)) dir) k = Some rs)"
    using receive_good [OF env daemon_inv_ok [OF inv] sock] by metis
  have "flow_names (connection_manager dm')"
    using keys names unfolding flow_names_def engine_names_def by blast
  then show ?thesis
    using r dm' ks fd res iq inv batch_nothing_kept [OF kept]
    by (auto simp: nfqueue_event_def event_good_def daemon_inv_def daemon_ok_def Let_def)
qed

end
