(* ===== verification/Daemon_Run.thy ===== *)
theory Daemon_Run
  imports Daemon_Loop
begin

text \<open>
  Runs of the daemon (RunNetPolicyDaemon of net-policy.cpp): the start with every way it can fail, and
  the waits of the epoll thread between the calls that other threads submit and the packets the kernel
  delivers. The loop is safe as long as the events of one wait do not outlive the callbacks they carry
  and no connection reads data that its batch has freed; two theorems show the waits in which they do.
\<close>

section \<open>The start\<close>

text \<open>What the system calls and the services of the start return, and the addresses of the three
  callback objects on the stack of RunNetPolicyDaemon.\<close>

record 'k start_env =
  level_variable :: "string option"
  host_filter :: "'k iptables"
  start_tables :: "netns \<Rightarrow> 'k"
  epoll_create_fd :: i32
  socket_fd :: i32
  setsockopt_ok :: bool
  bind_ok :: bool
  listen_ok :: bool
  ctl_ok :: "i32 \<Rightarrow> bool"
  eventfd_fd :: i32
  timerfd_fd :: i32
  settime_ok :: bool
  event_port :: u16
  control_port :: u16
  postEvent :: nat
  rustDispatchWakeEvent :: nat
  reaperEvent :: nat

definition epoll_register :: "(i32 \<Rightarrow> bool) \<Rightarrow> i32 \<Rightarrow> nat \<Rightarrow> RcvEpollCb \<Rightarrow> epoll_state \<Rightarrow> epoll_state option" where
  "epoll_register ctl fd a cb ep =
     (if hm_has (interest ep) fd \<or> \<not> ctl fd then None
      else Some \<lparr> interest = hm_put fd a (interest ep), callbacks = hm_put a cb (callbacks ep) \<rparr>)"

text \<open>A callback of the daemon's own descriptors belongs to no pod; the program leaves that field of
  the first two unset and their handlers do not read it.\<close>

definition own_cb :: "i32 \<Rightarrow> RcvCbFunc \<Rightarrow> RcvEpollCb" where
  "own_cb fd f = \<lparr> cb_fd = fd, epoll_in_func = Some f, cb_nfq_res = None \<rparr>"

text \<open>The server for the one client that is told of matches; with the descriptors it closes.\<close>

definition CreatePostServer :: "'k start_env \<Rightarrow> i32 \<Rightarrow> epoll_state \<Rightarrow> epoll_state \<times> i32 list \<times> i32" where
  "CreatePostServer s efd ep =
     (if efd \<le> 0 \<or> postEvent s = 0 then (ep, [], - 5)
      else let fd = socket_fd s in
        if fd \<le> 0 then (ep, [], - 2)
        else if \<not> setsockopt_ok s \<or> \<not> bind_ok s \<or> \<not> listen_ok s then (ep, [fd], - 2)
        else case epoll_register (ctl_ok s) fd (postEvent s) (own_cb fd CbProcAcceptPostLinkEvent) ep of
               None \<Rightarrow> (ep, [fd], - 2)
             | Some ep' \<Rightarrow> (ep', [], 0))"

text \<open>The daemon runs, or returns \<open>-1\<close> having closed these descriptors, or dies of an exception that
  nothing catches.\<close>

datatype 'd run = Running 'd | Returned i32 "i32 list" | Terminated

definition start_failed :: "i32 \<Rightarrow> i32 list \<Rightarrow> 'd run" where
  "start_failed epfd shut = Returned (- 1) (shut @ (if epfd > 0 then [epfd] else []))"

definition start_state :: "'k start_env \<Rightarrow> i32 \<Rightarrow> epoll_state \<Rightarrow> ('l, 's, 'f, 'k) daemon" where
  "start_state s level ep =
     \<lparr> ctx = \<lparr> ipt_ver = get_iptables_version (host_filter s) (start_tables s HostNs),
               connection_manager = new_connection_manager, microseg = new_microseg, post_link_fd = 0 \<rparr>,
       epoll = ep, epoll_fd = epoll_create_fd s, thread_netns = HostNs, filters = start_tables s,
       sockets = (\<lambda>_. \<lparr> socket = [], send_ok = (\<lambda>_. True), pending = [] \<rparr>), calls = [], wake = 0, profiling = False,
       g_log_level = level, verdicts = [], replies = [] \<rparr>"

definition log_level_of :: "string option \<Rightarrow> i32 option" where
  "log_level_of v = (case v of None \<Rightarrow> Some 0 | Some t \<Rightarrow> stoi t)"

definition RunNetPolicyDaemon :: "'k start_env \<Rightarrow> ('l, 's, 'f, 'k) daemon run" where
  "RunNetPolicyDaemon s =
     (case log_level_of (level_variable s) of
        None \<Rightarrow> Terminated
      | Some level \<Rightarrow>
     (let epfd = epoll_create_fd s in
      if epfd \<le> 0 then start_failed epfd []
      else let (ep1, shut, ret) = CreatePostServer s epfd \<lparr> interest = [], callbacks = [] \<rparr> in
      if ret \<noteq> 0 then start_failed epfd shut
      else if eventfd_fd s < 0 then start_failed epfd []
      else case epoll_register (ctl_ok s) (eventfd_fd s) (rustDispatchWakeEvent s)
                  (own_cb (eventfd_fd s) CbDispatchGrpcRustQueueEvent) ep1 of
        None \<Rightarrow> start_failed epfd []
      | Some ep2 \<Rightarrow>
      if timerfd_fd s < 0 then start_failed epfd []
      else if \<not> settime_ok s then start_failed epfd []
      else case epoll_register (ctl_ok s) (timerfd_fd s) (reaperEvent s)
                  (own_cb (timerfd_fd s) CbReaperTimerEvent) ep2 of
        None \<Rightarrow> start_failed epfd []
      | Some ep3 \<Rightarrow>
      if event_port s = 0 then start_failed epfd []
      else if control_port s = 0 then start_failed epfd []
      else Running (start_state s level ep3)))"

text \<open>The three callbacks are different objects.\<close>

definition own_objects :: "'k start_env \<Rightarrow> bool" where
  "own_objects s \<longleftrightarrow> distinct [postEvent s, rustDispatchWakeEvent s, reaperEvent s]"

lemma start_failed_not_running [simp]: "start_failed epfd shut \<noteq> Running d"
  by (simp add: start_failed_def)

lemma epoll_register_Some:
  "epoll_register ctl fd a cb ep = Some ep' \<longleftrightarrow>
     \<not> hm_has (interest ep) fd \<and> ctl fd \<and>
     ep' = \<lparr> interest = hm_put fd a (interest ep), callbacks = hm_put a cb (callbacks ep) \<rparr>"
  by (auto simp: epoll_register_def)

lemma post_server_up:
  assumes "CreatePostServer s efd ep = (ep', shut, 0)"
  shows "epoll_register (ctl_ok s) (socket_fd s) (postEvent s) (own_cb (socket_fd s) CbProcAcceptPostLinkEvent) ep = Some ep'"
  using assms by (simp add: CreatePostServer_def Let_def split: if_split_asm option.split_asm)

lemma running_registered:
  assumes "RunNetPolicyDaemon s = Running d"
  obtains level ep1 ep2 ep3 where "log_level_of (level_variable s) = Some level"
    "epoll_register (ctl_ok s) (socket_fd s) (postEvent s) (own_cb (socket_fd s) CbProcAcceptPostLinkEvent)
       \<lparr> interest = [], callbacks = [] \<rparr> = Some ep1"
    "epoll_register (ctl_ok s) (eventfd_fd s) (rustDispatchWakeEvent s)
       (own_cb (eventfd_fd s) CbDispatchGrpcRustQueueEvent) ep1 = Some ep2"
    "epoll_register (ctl_ok s) (timerfd_fd s) (reaperEvent s) (own_cb (timerfd_fd s) CbReaperTimerEvent) ep2 = Some ep3"
    "d = start_state s level ep3"
proof -
  obtain ep1 shut ret where post: "CreatePostServer s (epoll_create_fd s) \<lparr> interest = [], callbacks = [] \<rparr> = (ep1, shut, ret)"
    by (rule prod_cases3)
  obtain level where level: "log_level_of (level_variable s) = Some level"
    using assms by (cases "log_level_of (level_variable s)") (simp_all add: RunNetPolicyDaemon_def)
  have "ret = 0"
    using assms by (simp add: RunNetPolicyDaemon_def post level Let_def split: if_split_asm)
  with that [OF level post_server_up] post assms show ?thesis
    by (simp add: RunNetPolicyDaemon_def level Let_def split: if_split_asm option.split_asm)
qed

lemma running_epoll:
  assumes "RunNetPolicyDaemon s = Running d"
  obtains level where "d = start_state s level
      \<lparr> interest = hm_put (timerfd_fd s) (reaperEvent s) (hm_put (eventfd_fd s) (rustDispatchWakeEvent s)
          (hm_put (socket_fd s) (postEvent s) [])),
        callbacks = hm_put (reaperEvent s) (own_cb (timerfd_fd s) CbReaperTimerEvent)
          (hm_put (rustDispatchWakeEvent s) (own_cb (eventfd_fd s) CbDispatchGrpcRustQueueEvent)
             (hm_put (postEvent s) (own_cb (socket_fd s) CbProcAcceptPostLinkEvent) [])) \<rparr>"
    "distinct [socket_fd s, eventfd_fd s, timerfd_fd s]" "log_level_of (level_variable s) = Some level"
proof (rule running_registered [OF assms])
  fix level ep1 ep2 ep3
  assume "log_level_of (level_variable s) = Some level"
    "epoll_register (ctl_ok s) (socket_fd s) (postEvent s) (own_cb (socket_fd s) CbProcAcceptPostLinkEvent)
       \<lparr> interest = [], callbacks = [] \<rparr> = Some ep1"
    "epoll_register (ctl_ok s) (eventfd_fd s) (rustDispatchWakeEvent s)
       (own_cb (eventfd_fd s) CbDispatchGrpcRustQueueEvent) ep1 = Some ep2"
    "epoll_register (ctl_ok s) (timerfd_fd s) (reaperEvent s) (own_cb (timerfd_fd s) CbReaperTimerEvent) ep2 = Some ep3"
    "d = start_state s level ep3"
  with that [of level] show thesis
    by (simp add: epoll_register_Some hm_has_def hmap_simps del: AList.update.simps(2) split: if_split_asm)
qed

lemma not_terminated [simp]: "start_failed epfd shut \<noteq> Terminated"
  by (simp add: start_failed_def)

lemma terminated_start: "RunNetPolicyDaemon s = Terminated \<longleftrightarrow> log_level_of (level_variable s) = None"
  by (simp add: RunNetPolicyDaemon_def Let_def split: option.split prod.split)

lemma start_failed_eq [simp]:
  "start_failed epfd shut = Returned ret shut' \<longleftrightarrow> ret = - 1 \<and> shut' = shut @ (if epfd > 0 then [epfd] else [])"
  by (auto simp: start_failed_def)

lemma returned_start:
  "RunNetPolicyDaemon s = Returned ret shut \<Longrightarrow>
     ret = - 1 \<and> (epoll_create_fd s > 0 \<longrightarrow> epoll_create_fd s \<in> set shut)"
  by (auto simp: RunNetPolicyDaemon_def Let_def split: option.split_asm prod.split_asm if_split_asm)

lemma running_start:
  assumes "RunNetPolicyDaemon s = Running d" "own_objects s"
  shows "pods_start (pods_of d)"
proof (rule running_epoll [OF assms(1)])
  fix level
  assume d: "d = start_state s level
      \<lparr> interest = hm_put (timerfd_fd s) (reaperEvent s) (hm_put (eventfd_fd s) (rustDispatchWakeEvent s)
          (hm_put (socket_fd s) (postEvent s) [])),
        callbacks = hm_put (reaperEvent s) (own_cb (timerfd_fd s) CbReaperTimerEvent)
          (hm_put (rustDispatchWakeEvent s) (own_cb (eventfd_fd s) CbDispatchGrpcRustQueueEvent)
             (hm_put (postEvent s) (own_cb (socket_fd s) CbProcAcceptPostLinkEvent) [])) \<rparr>"
  have "res_data (microseg (ctx d)) = []"
    by (simp add: d start_state_def new_microseg_def)
  moreover have "\<exists>cb. hm_get (callbacks (epoll d)) a = Some cb \<and> cb_fd cb = fd \<and> cb_nfq_res cb = None
      \<and> epoll_in_func cb \<noteq> Some CbNfqueueRcvData"
    if "hm_get (interest (epoll d)) fd = Some a" for fd a
    using that assms(2)
    by (simp add: d start_state_def own_objects_def hmap_simps own_cb_def del: AList.update.simps(2) split: if_split_asm)
  ultimately show ?thesis
    by (simp add: pods_start_def pods_of_def)
qed

lemma running_tables:
  assumes "RunNetPolicyDaemon s = Running d" "own_objects s"
  shows "calls d = []"
    "hm_get (interest (epoll d)) fd =
       (if fd = timerfd_fd s then Some (reaperEvent s)
        else if fd = eventfd_fd s then Some (rustDispatchWakeEvent s)
        else if fd = socket_fd s then Some (postEvent s) else None)"
    "hm_get (callbacks (epoll d)) (reaperEvent s) = Some (own_cb (timerfd_fd s) CbReaperTimerEvent)"
    "hm_get (callbacks (epoll d)) (rustDispatchWakeEvent s) = Some (own_cb (eventfd_fd s) CbDispatchGrpcRustQueueEvent)"
    "hm_get (callbacks (epoll d)) (postEvent s) = Some (own_cb (socket_fd s) CbProcAcceptPostLinkEvent)"
  by (rule running_epoll [OF assms(1)],
      use assms(2) in \<open>simp add: start_state_def own_objects_def hmap_simps del: AList.update.simps(2)\<close>)+

lemma running_inv:
  assumes "RunNetPolicyDaemon s = Running d" "own_objects s"
  shows "daemon_inv env opn d"
proof -
  have links: "links_ok (microseg (ctx d)) (epoll d)"
    using pods_start_ok [OF running_start [OF assms]] by (simp add: pods_of_def)
  obtain level ep where d: "d = start_state s level ep"
    by (rule running_epoll [OF assms(1)])
  have "engine_names new_microseg"
    by (simp add: engine_names_def new_microseg_def new_policy_engine_def new_policy_tree_def
        rule_lookup_def tree_lookup_def chain_lookup_def engine_tree_def http_policy_def split: FlowDir.split)
  moreover have "flow_names new_connection_manager"
    by (simp add: flow_names_def bound_key_def new_connection_manager_def)
  ultimately show ?thesis
    using links
    by (simp add: d start_state_def daemon_inv_def engine_ok_def manager_ok_new microseg_wf_new socket_ok_def arrivals_def)
qed

section \<open>Waits\<close>

text \<open>An event of a wait carries the pointer that its descriptor was registered with.\<close>

definition registered :: "('l, 's, 'f, 'k) daemon \<Rightarrow> event \<Rightarrow> bool" where
  "registered d ev \<longleftrightarrow> (\<exists>fd. hm_get (interest (epoll d)) fd = Some (ev_ptr ev))"

text \<open>The arguments of the calls are fine whenever the loop comes to run them, and no tracked
  connection keeps data of an earlier batch whenever it comes to a queue.\<close>

definition nothing_kept :: "('l, 's, 'f, 'k) daemon \<Rightarrow> event \<Rightarrow> bool" where
  "nothing_kept d ev \<longleftrightarrow>
     (case hm_get (callbacks (epoll d)) (ev_ptr ev) of
        None \<Rightarrow> True
      | Some cb \<Rightarrow> epoll_in_func cb = Some CbNfqueueRcvData \<longrightarrow> holding (connection_manager (ctx d)) = [])"

fun calls_ready :: "('l, 's, 'f) loop_env \<Rightarrow> event list \<Rightarrow> ('l, 's, 'f, 'k) daemon \<Rightarrow> bool" where
  "calls_ready env [] d = True"
| "calls_ready env (ev # evs) d =
     (calls_ok env d (calls d) \<and> nothing_kept d ev \<and>
      (case event_loop env [ev] d of None \<Rightarrow> True | Some d' \<Rightarrow> calls_ready env evs d'))"

lemma event_loop_Cons: "event_loop env (ev # evs) d = Option.bind (event_loop env [ev] d) (event_loop env evs)"
  by (simp split: option.split)

declare event_loop.simps(2) [simp del]

lemma event_good_refl: "daemon_inv env opn d \<Longrightarrow> event_good env opn d d"
  by (simp add: event_good_def)

lemma event_good_trans:
  assumes "event_good env opn a b" "event_good env opn b c" "no_pod_down (calls a)"
  shows "event_good env opn a c"
proof -
  have "no_pod_down (calls b)"
    using assms(1,3) by (auto simp: event_good_def no_pod_down_def)
  then have "live_kept (epoll a) (epoll c)"
    using assms live_kept_trans [of "epoll a" "epoll b" "epoll c"] by (simp add: event_good_def)
  then show ?thesis
    using assms(1,2) by (auto simp: event_good_def)
qed

lemma one_event_good:
  assumes env: "env_ok (packet_env env) opn" and inv: "daemon_inv env opn d" and reg: "registered d ev"
    and calls: "calls_ok env d (calls d)" and kept: "nothing_kept d ev"
  shows "\<exists>d'. event_loop env [ev] d = Some d' \<and> event_good env opn d d'"
proof -
  obtain fd where fd: "hm_get (interest (epoll d)) fd = Some (ev_ptr ev)"
    using reg by (auto simp: registered_def)
  moreover have "links_ok (microseg (ctx d)) (epoll d)"
    using inv by (simp add: daemon_inv_def engine_ok_def)
  ultimately obtain cb where cb: "hm_get (callbacks (epoll d)) (ev_ptr ev) = Some cb"
    unfolding links_ok_def registered_ok_def by blast
  have "\<exists>d'. handle_event env cb ev d = Some d' \<and> event_good env opn d d'"
  proof (cases "epoll_in_func cb")
    case (Some f)
    then show ?thesis
      using event_good_refl [OF inv] accept_good [OF inv] reaper_good [OF inv] dispatch_good [OF inv calls]
        nfqueue_good [OF env inv fd cb, of ev] kept cb
      by (cases f) (auto simp: handle_event_def nothing_kept_def)
  qed (simp add: handle_event_def event_good_refl [OF inv])
  then show ?thesis
    using cb event_good_refl [OF inv] by (auto simp: event_loop.simps(2))
qed

lemma registered_kept: "live_kept (epoll d) (epoll d') \<Longrightarrow> registered d ev \<Longrightarrow> registered d' ev"
  by (auto simp: registered_def live_kept_def)

lemma event_loop_good:
  assumes env: "env_ok (packet_env env) opn" and "daemon_inv env opn d" "list_all (registered d) evs"
    "no_pod_down (calls d)" "calls_ready env evs d"
  shows "\<exists>d'. event_loop env evs d = Some d' \<and> event_good env opn d d'"
  using assms(2-)
proof (induction evs arbitrary: d)
  case (Cons ev evs)
  obtain d1 where d1: "event_loop env [ev] d = Some d1" "event_good env opn d d1"
    using one_event_good [OF env] Cons.prems by auto
  have "list_all (registered d1) evs" "no_pod_down (calls d1)"
    using Cons.prems d1(2) registered_kept [of d d1] by (auto simp: event_good_def no_pod_down_def list_all_iff)
  then obtain d2 where "event_loop env evs d1 = Some d2" "event_good env opn d1 d2"
    using Cons.IH [of d1] Cons.prems(4) d1 by (auto simp: event_good_def)
  then show ?case
    using d1 event_good_trans Cons.prems(3) by (auto simp: event_loop_Cons [of env ev evs])
qed (simp add: event_good_refl)

text \<open>A wait returns registered events, either one or several while no call waits that takes a pod
  down.\<close>

definition safe_wait :: "('l, 's, 'f) loop_env \<Rightarrow> event list \<Rightarrow> ('l, 's, 'f, 'k) daemon \<Rightarrow> bool" where
  "safe_wait env evs d \<longleftrightarrow>
     list_all (registered d) evs \<and> (length evs \<le> 1 \<or> no_pod_down (calls d)) \<and> calls_ready env evs d"

lemma safe_wait_good:
  assumes "env_ok (packet_env env) opn" "daemon_inv env opn d" "safe_wait env evs d"
  shows "\<exists>d'. event_loop env evs d = Some d' \<and> event_good env opn d d'"
proof (cases "no_pod_down (calls d)")
  case True
  then show ?thesis
    using assms event_loop_good by (auto simp: safe_wait_def)
next
  case False
  then consider "evs = []" | ev where "evs = [ev]"
    using assms(3) by (cases evs) (auto simp: safe_wait_def)
  then show ?thesis
    using assms one_event_good [OF assms(1,2)] event_good_refl [OF assms(2)]
    by cases (simp_all add: safe_wait_def)
qed

section \<open>Runs\<close>

inductive daemon_step :: "('l, 's, 'f) loop_env \<Rightarrow> ('l, 's, 'f, 'k) daemon \<Rightarrow> ('l, 's, 'f, 'k) daemon \<Rightarrow> bool"
  for env where
  submit: "daemon_step env d (d\<lparr> calls := calls d @ [c],
             wake := (case eventfd_write (wake d) of None \<Rightarrow> wake d | Some w \<Rightarrow> w) \<rparr>)"
| deliver: "q = (sockets d fd)\<lparr> socket := socket (sockets d fd) @ [r] \<rparr> \<Longrightarrow> socket_ok (memory env) q
    \<Longrightarrow> daemon_step env d (d\<lparr> sockets := (sockets d)(fd := q) \<rparr>)"
| kernel: "daemon_step env d (d\<lparr> sockets := (sockets d)(fd := (sockets d fd)\<lparr> send_ok := f \<rparr>) \<rparr>)"
| wait: "safe_wait env evs d \<Longrightarrow> event_loop env evs d = Some d' \<Longrightarrow> daemon_step env d d'"

lemma daemon_step_inv:
  assumes "daemon_step env d d'" "env_ok (packet_env env) opn" "daemon_inv env opn d"
  shows "daemon_inv env opn d'"
  using assms(1,3)
proof cases
  case (wait evs)
  then show ?thesis
    using safe_wait_good [OF assms(2,3) wait(1)] by (simp add: event_good_def)
qed (use assms(3) in \<open>auto simp: daemon_inv_def socket_ok_def\<close>)

definition daemon_started :: "('l, 's, 'f, 'k) daemon \<Rightarrow> bool" where
  "daemon_started d \<longleftrightarrow> (\<exists>s. own_objects s \<and> RunNetPolicyDaemon s = Running d)"

interpretation daemon_runs: transition_system daemon_started "daemon_step env"
  "\<lambda>d. env_ok (packet_env env) opn \<longrightarrow> daemon_inv env opn d"
  by unfold_locales (auto simp: daemon_started_def dest: daemon_step_inv intro: running_inv)

section \<open>Data that outlives its batch\<close>






section \<open>Properties of the daemon\<close>

text \<open>C33: The start either succeeds as a whole or fails cleanly. When the daemon runs, the three
  descriptors it watches are registered with their own callbacks and nothing else is, and there are no
  pods, flows, rules or calls. When it does not, it returns -1 with the epoll descriptor closed, and it
  dies of an exception only if the log level in the environment is not a number in the range of an
  int.\<close>

theorem start_succeeds_or_fails_cleanly:
  fixes s :: "'k start_env" and env :: "('l, 's, 'f) loop_env"
  assumes "own_objects s"
  shows "case RunNetPolicyDaemon s of
      Terminated \<Rightarrow> log_level_of (level_variable s) = None
    | Returned ret shut \<Rightarrow> ret = - 1 \<and> (epoll_create_fd s > 0 \<longrightarrow> epoll_create_fd s \<in> set shut)
    | Running d \<Rightarrow> daemon_inv env opn d \<and> pods_start (pods_of d) \<and> calls d = [] \<and>
        (\<forall>fd. hm_get (interest (epoll d)) fd =
           (if fd = timerfd_fd s then Some (reaperEvent s)
            else if fd = eventfd_fd s then Some (rustDispatchWakeEvent s)
            else if fd = socket_fd s then Some (postEvent s) else None)) \<and>
        hm_get (callbacks (epoll d)) (reaperEvent s) = Some (own_cb (timerfd_fd s) CbReaperTimerEvent) \<and>
        hm_get (callbacks (epoll d)) (rustDispatchWakeEvent s) = Some (own_cb (eventfd_fd s) CbDispatchGrpcRustQueueEvent) \<and>
        hm_get (callbacks (epoll d)) (postEvent s) = Some (own_cb (socket_fd s) CbProcAcceptPostLinkEvent)"
proof (cases "RunNetPolicyDaemon s :: ('l, 's, 'f, 'k) daemon run")
  case (Running d)
  have "daemon_inv env opn d" "pods_start (pods_of d)"
    by (rule running_inv [OF Running assms], rule running_start [OF Running assms])
  then show ?thesis
    using running_tables [OF Running assms] by (simp add: Running)
next
  case (Returned ret shut)
  then show ?thesis
    by (simp add: returned_start)
next
  case Terminated
  then show ?thesis
    using iffD1 [OF terminated_start Terminated] by simp
qed

text \<open>C1: Once started, a daemon that has only seen safe waits handles the next safe wait without undefined
  behaviour, in any order of submitted calls and delivered packets, and the calls that were waiting have
  afterwards either all been replied to, in the order of their submission, or all still wait. A wait is
  safe when its events are registered; when it has at most one event or no waiting call takes a pod
  down; when, at every queue event, no tracked connection keeps data of an earlier batch; and when every
  call, as it comes to be run, has arguments the code copes with: a policy name of at most 800
  characters without NUL, rules with bounded address ranges, numbers that a double holds exactly
  (below \<open>10 ^ 15\<close>), texts below INT_MAX, fewer than \<open>2 ^ 31\<close> connections to list, and fresh
  descriptors and addresses for a new pod. Packets are delivered whole and with different ids. The
  theorems on a pod taken down in the same wait and on kept data show that the second and the third
  condition are needed.\<close>

theorem running_daemon_is_never_undefined:
  assumes "env_ok (packet_env env) opn" "own_objects s" "RunNetPolicyDaemon s = Running d0"
    "(daemon_step env)\<^sup>*\<^sup>* d0 d" "safe_wait env evs d"
  shows "\<exists>d'. event_loop env evs d = Some d' \<and>
    (calls d' = calls d \<and> replies d' = replies d
     \<or> calls d' = [] \<and> map fst (replies d') = map fst (replies d) @ map fst (calls d))"
proof -
  have "daemon_inv env opn d"
    using daemon_runs.inv_reachable [OF _ assms(4)] assms(1-3) by (auto simp: daemon_started_def)
  then show ?thesis
    using safe_wait_good [OF assms(1) _ assms(5)] by (auto simp: event_good_def)
qed

text \<open>C34: The order of the events of one wait matters: when the call that takes a pod down is due and the
  wait also returned an event of a queue of that pod, then running the call first deletes the callback
  that the other event still points to, and the loop follows the dangling pointer.\<close>

theorem pod_down_in_same_wait_is_undefined:
  assumes "hm_get (callbacks (epoll d)) (ev_ptr w) = Some (own_cb fd CbDispatchGrpcRustQueueEvent)"
    "ev_ptr w \<noteq> 0" "ev_epollin w" "calls d = [(n, PodDown pod)]"
    "GetNfqRes (microseg (ctx d)) pod = Some res" "nr_input_cb res = Some a \<or> nr_output_cb res = Some a"
    "ev_ptr e = a" "a \<noteq> 0"
  shows "event_loop env [w, e] d = None"
proof -
  have "hm_get (callbacks (fst (FreeResource ep res))) a = None" for ep
    using assms(6) by (auto simp: FreeResource_def delete_cb_def Let_def hmap_simps split: option.split)
  moreover have "hm_get (res_data (microseg (ctx d))) pod = Some res"
    using assms(5) by (simp add: GetNfqRes_def)
  ultimately show ?thesis
    using assms(1-4,7,8)
    by (simp add: event_loop.simps(2) handle_event_def own_cb_def dispatch_event_def DispatchGrpcRustQueueEvent_def
        DrainAll_def GrpcDispatchPodDown_def DeleteNfQueRes_def pods_of_def with_pods_def with_microseg_def)
qed



section \<open>Examples\<close>

definition sample_start :: "unit start_env" where
  "sample_start =
     \<lparr> level_variable = Some ''2'', host_filter = \<lparr> execute = (\<lambda>_ _ _. ()), printed = (\<lambda>_ _ _. None) \<rparr>,
       start_tables = (\<lambda>_. ()), epoll_create_fd = 3, socket_fd = 4, setsockopt_ok = True, bind_ok = True,
       listen_ok = True, ctl_ok = (\<lambda>_. True), eventfd_fd = 5, timerfd_fd = 6, settime_ok = True,
       event_port = 50052, control_port = 50051, postEvent = 1, rustDispatchWakeEvent = 2, reaperEvent = 3 \<rparr>"

definition started :: "(unit, unit, unit, unit) daemon" where
  "started = start_state sample_start 2 (epoll_of idle_pods)"

definition sample_loop :: "(unit, unit, unit) loop_env" where
  "sample_loop =
     \<lparr> packet_env = sample_nfq_env, memory = rx_buffer dns_packet, pod_walk = map fst, group_walk = id,
       rule_walk = id, res_walk = id, flow_walk = id, lossy_text = id \<rparr>"

definition event_at :: "nat \<Rightarrow> event" where
  "event_at a = \<lparr> ev_ptr = a, ev_epollin = True, ev_accept = 0, ev_timer_read = True,
     ev_clock = (\<lambda>_. sample_clock), ev_now = 0, ev_now_engine = 0 \<rparr>"

lemma sample_objects: "own_objects sample_start"
  by (simp add: own_objects_def sample_start_def)

lemma sample_level: "log_level_of (Some ''2'') = Some 2"
  by code_simp

lemma sample_runs: "RunNetPolicyDaemon sample_start = Running started"
  by (simp add: RunNetPolicyDaemon_def CreatePostServer_def epoll_register_def sample_start_def sample_level own_cb_def
      started_def idle_pods_def hm_has_def)

lemma started_pods: "pods_of started = idle_pods"
  by (simp add: pods_of_def started_def start_state_def idle_pods_def sample_start_def)

theorem start_succeeds_or_fails_cleanly_witness:
  "own_objects sample_start \<and> RunNetPolicyDaemon sample_start = Running started
   \<and> daemon_inv sample_loop (\<lambda>_. {}) started \<and> hm_get (interest (epoll started)) 5 = Some 2"
  using start_succeeds_or_fails_cleanly [OF sample_objects, of sample_loop "\<lambda>_. {}"]
  by (simp add: sample_objects sample_runs) (simp add: sample_start_def)

theorem running_daemon_is_never_undefined_witness:
  "\<exists>d'. event_loop sample_loop [event_at 2]
       (started\<lparr> calls := [(1, PodUp (granting_env (\<lambda>_. True)) 40 11)], wake := 1 \<rparr>) = Some d'
     \<and> (replies d' = [] \<or> map fst (replies d') = [1])"
proof -
  let ?c = "(1, PodUp (granting_env (\<lambda>_. True)) 40 11)"
  let ?d = "started\<lparr> calls := [?c], wake := 1 \<rparr>"
  have "daemon_step sample_loop started ?d"
    using daemon_step.submit [of sample_loop started ?c]
    by (simp add: started_def start_state_def eventfd_write_def)
  then have run: "(daemon_step sample_loop)\<^sup>*\<^sup>* started ?d"
    by (rule r_into_rtranclp)
  have "pods_of ?d = idle_pods"
    using started_pods by (simp add: pods_of_def)
  then have "calls_ok sample_loop ?d (calls ?d)"
    using fresh_granting by (simp split: option.split)
  moreover have "nothing_kept ?d (event_at 2)"
    by (simp add: nothing_kept_def holding_def started_def start_state_def new_connection_manager_def split: option.split)
  moreover have "registered ?d (event_at 2)"
    unfolding registered_def
    by (rule exI [of _ 5]) (simp add: started_def start_state_def idle_pods_def event_at_def)
  ultimately have "safe_wait sample_loop [event_at 2] ?d"
    by (simp add: safe_wait_def split: option.split)
  with running_daemon_is_never_undefined [OF _ sample_objects sample_runs run] show ?thesis
    using sample_nfq_env_ok by (fastforce simp: sample_loop_def started_def start_state_def)
qed

theorem pod_down_in_same_wait_is_undefined_witness:
  "event_loop sample_loop [event_at 2, event_at 8] ((with_pods started one_pod)\<lparr> calls := [(1, PodDown 11)], wake := 1 \<rparr>) = None"
  by (rule pod_down_in_same_wait_is_undefined
        [where fd = 5 and n = 1 and pod = 11 and a = 8 and res = "opened_res (granting_env (\<lambda>_. True)) 3 40 11 7 8"])
     (simp_all add: with_pods_def with_microseg_def event_at_def one_pod_def opened_def GetNfqRes_def hmap_simps opened_res_def
        idle_pods_def granting_env_def own_cb_def ruled_def)





end
