(* ===== verification/Event_Stream.thy ===== *)
theory Event_Stream
  imports Nfq_Callbacks Control_Rpc Transition
begin

text \<open>
  The stream of policy events (crates/net_policy_events): the bounded queue the packet path publishes
  to, and the subscriber loops that compete for its events, each with a bounded channel to its client.
  All interleavings of publishing, subscribing, receiving and disconnecting are steps of one relation.
\<close>

section \<open>Events\<close>

record PolicyMatchEvent =
  ev_protocol :: i32
  ev_action :: i32
  ev_direction :: i32
  ev_src_port :: u32
  ev_dst_port :: u32
  ev_src_ip :: string
  ev_dst_ip :: string
  ev_policy_name :: string

definition protocol_to_l4protocol :: "u8 \<Rightarrow> i32" where
  "protocol_to_l4protocol p = (if p = 6 then 1 else if p = 17 then 2 else if p = 1 then 3 else 0)"

definition net_policy_rule_to_proto :: "i32 \<Rightarrow> i32" where
  "net_policy_rule_to_proto a = (if a = 1 then 2 else if a = 2 then 3 else if a = 0 then 1 else 0)"

definition flow_dir_to_proto :: "i32 \<Rightarrow> i32" where
  "flow_dir_to_proto d = (if d = 0 then 1 else 2)"

definition match_event ::
  "u8 \<Rightarrow> i32 \<Rightarrow> i32 \<Rightarrow> u16 \<Rightarrow> u16 \<Rightarrow> string \<Rightarrow> string \<Rightarrow> string \<Rightarrow> PolicyMatchEvent" where
  "match_event p a d sp dp src dst name =
     \<lparr> ev_protocol = protocol_to_l4protocol p, ev_action = net_policy_rule_to_proto a,
       ev_direction = flow_dir_to_proto d, ev_src_port = ucast sp, ev_dst_port = ucast dp,
       ev_src_ip = src, ev_dst_ip = dst, ev_policy_name = name \<rparr>"

section \<open>The queue\<close>

definition EVENT_QUEUE_CAPACITY :: nat where "EVENT_QUEUE_CAPACITY = 256"

definition push :: "'e list \<Rightarrow> 'e \<Rightarrow> 'e list" where
  "push q event = (if length q \<ge> EVENT_QUEUE_CAPACITY then tl q else q) @ [event]"

text \<open>The wait ends with a timeout exactly when the queue is still empty.\<close>

definition wait_and_pop :: "'e list \<Rightarrow> 'e list \<times> 'e option" where
  "wait_and_pop q = (case q of [] \<Rightarrow> ([], None) | e # q' \<Rightarrow> (q', Some e))"

definition publish_policy_match ::
  "PolicyMatchEvent list \<Rightarrow> u8 \<Rightarrow> i32 \<Rightarrow> i32 \<Rightarrow> u16 \<Rightarrow> u16 \<Rightarrow> string \<Rightarrow> string \<Rightarrow> string \<Rightarrow> PolicyMatchEvent list" where
  "publish_policy_match q p a d sp dp src dst name = push q (match_event p a d sp dp src dst name)"

section \<open>Subscribers\<close>

text \<open>Where a subscriber loop is: before the check of its channel, before taking an event, sending
  one, or over. \<open>CHANNEL_CAPACITY\<close> is the bound given to \<^verbatim>\<open>mpsc::channel\<close>.\<close>

definition CHANNEL_CAPACITY :: nat where "CHANNEL_CAPACITY = 16"

datatype 'e sub_pc = AtCheck | AtPop | AtSend 'e | Ended

record 'e subscriber =
  sub_pc :: "'e sub_pc"
  channel :: "'e list"
  received :: "'e list"
  disconnected :: bool

definition new_subscriber :: "'e subscriber" where
  "new_subscriber = \<lparr> sub_pc = AtCheck, channel = [], received = [], disconnected = False \<rparr>"

text \<open>One iteration step of the loop; \<open>None\<close> when it has ended or waits for room in the channel.\<close>

definition subscribe_events_step :: "'e list \<Rightarrow> 'e subscriber \<Rightarrow> ('e list \<times> 'e subscriber) option" where
  "subscribe_events_step q s =
     (case sub_pc s of
        AtCheck \<Rightarrow> Some (q, s\<lparr> sub_pc := if disconnected s then Ended else AtPop \<rparr>)
      | AtPop \<Rightarrow>
          (case wait_and_pop q of
             (q', None) \<Rightarrow> Some (q', s\<lparr> sub_pc := AtCheck \<rparr>)
           | (q', Some e) \<Rightarrow> Some (q', s\<lparr> sub_pc := AtSend e \<rparr>))
      | AtSend e \<Rightarrow>
          if disconnected s then Some (q, s\<lparr> sub_pc := Ended \<rparr>)
          else if length (channel s) < CHANNEL_CAPACITY
          then Some (q, s\<lparr> channel := channel s @ [e], sub_pc := AtCheck \<rparr>)
          else None
      | Ended \<Rightarrow> None)"

section \<open>Interleavings\<close>

text \<open>Events carry the number of their publication; \<open>history\<close> records what was published.\<close>

record stream_state =
  events :: "(nat \<times> PolicyMatchEvent) list"
  subscribers :: "nat \<rightharpoonup> (nat \<times> PolicyMatchEvent) subscriber"
  history :: "PolicyMatchEvent list"

definition empty_stream :: stream_state where
  "empty_stream = \<lparr> events = [], subscribers = Map.empty, history = [] \<rparr>"

inductive stream_step :: "stream_state \<Rightarrow> stream_state \<Rightarrow> bool" where
  publish: "stream_step st (st\<lparr> events := push (events st) (length (history st), e), history := history st @ [e] \<rparr>)"
| subscribe: "subscribers st n = None \<Longrightarrow>
     stream_step st (st\<lparr> subscribers := (subscribers st)(n \<mapsto> new_subscriber) \<rparr>)"
| loop: "subscribers st n = Some s \<Longrightarrow> subscribe_events_step (events st) s = Some (q, s') \<Longrightarrow>
     stream_step st (st\<lparr> events := q, subscribers := (subscribers st)(n \<mapsto> s') \<rparr>)"
| receive: "subscribers st n = Some s \<Longrightarrow> channel s = e # c \<Longrightarrow> \<not> disconnected s \<Longrightarrow>
     stream_step st (st\<lparr> subscribers := (subscribers st)(n \<mapsto> s\<lparr> channel := c, received := received s @ [e] \<rparr>) \<rparr>)"
| disconnect: "subscribers st n = Some s \<Longrightarrow>
     stream_step st (st\<lparr> subscribers := (subscribers st)(n \<mapsto> s\<lparr> disconnected := True \<rparr>) \<rparr>)"

section \<open>The invariant\<close>

fun held :: "'e sub_pc \<Rightarrow> 'e list" where
  "held (AtSend e) = [e]"
| "held _ = []"

text \<open>Everything a subscriber has taken and not lost.\<close>

definition taken :: "'e subscriber \<Rightarrow> 'e list" where
  "taken s = received s @ channel s @ held (sub_pc s)"

definition numbered :: "PolicyMatchEvent list \<Rightarrow> nat list \<Rightarrow> (nat \<times> PolicyMatchEvent) list" where
  "numbered h = map (\<lambda>i. (i, h ! i))"

definition waiting_from :: "stream_state \<Rightarrow> nat \<Rightarrow> bool" where
  "waiting_from st k \<longleftrightarrow>
     k \<le> length (history st) \<and> length (history st) - k \<le> EVENT_QUEUE_CAPACITY
     \<and> events st = numbered (history st) [k..<length (history st)]"

definition sub_ok :: "PolicyMatchEvent list \<Rightarrow> nat \<Rightarrow> (nat \<times> PolicyMatchEvent) subscriber \<Rightarrow> bool" where
  "sub_ok h k s \<longleftrightarrow>
     sorted_wrt (<) (map fst (taken s)) \<and> (\<forall>(i, e)\<in>set (taken s). i < k \<and> e = h ! i)
     \<and> length (channel s) \<le> CHANNEL_CAPACITY"

definition stream_inv :: "stream_state \<Rightarrow> bool" where
  "stream_inv st \<longleftrightarrow>
     (\<exists>k. waiting_from st k \<and> (\<forall>n s. subscribers st n = Some s \<longrightarrow> sub_ok (history st) k s))
     \<and> (\<forall>n m s t. n \<noteq> m \<longrightarrow> subscribers st n = Some s \<longrightarrow> subscribers st m = Some t \<longrightarrow>
          fst ` set (taken s) \<inter> fst ` set (taken t) = {})"

lemma numbered_snoc: "\<forall>i\<in>set is. i < length h \<Longrightarrow> numbered (h @ [e]) is = numbered h is"
  by (simp add: numbered_def nth_append)

lemma push_waiting:
  assumes "waiting_from st k"
  shows "waiting_from (st\<lparr> events := push (events st) (length (history st), e), history := history st @ [e] \<rparr>)
     (if length (events st) \<ge> EVENT_QUEUE_CAPACITY then Suc k else k)"
proof -
  let ?h = "history st"
  have k: "k \<le> length ?h" "length ?h - k \<le> EVENT_QUEUE_CAPACITY" "events st = numbered ?h [k..<length ?h]"
    using assms by (simp_all add: waiting_from_def)
  have len: "length (events st) = length ?h - k"
    by (simp add: k(3) numbered_def)
  have old: "numbered (?h @ [e]) [j..<length ?h] = numbered ?h [j..<length ?h]" for j
    by (rule numbered_snoc) simp
  have new: "numbered (?h @ [e]) [j..<Suc (length ?h)] = numbered ?h [j..<length ?h] @ [(length ?h, e)]" if "j \<le> length ?h" for j
    using that old [of j] by (simp add: numbered_def)
  have "tl (numbered ?h [k..<length ?h]) = numbered ?h [Suc k..<length ?h]"
    by (simp add: numbered_def tl_upt flip: map_tl)
  then show ?thesis
    using k len new [of k] new [of "Suc k"] by (auto simp: waiting_from_def push_def EVENT_QUEUE_CAPACITY_def)
qed

lemma pop_waiting:
  assumes "waiting_from st k" "events st = e # q"
  shows "e = (k, history st ! k)" "waiting_from (st\<lparr> events := q \<rparr>) (Suc k)"
proof -
  have k: "k < length (history st)"
    using assms by (cases "k < length (history st)") (auto simp: waiting_from_def numbered_def)
  then have "events st = (k, history st ! k) # numbered (history st) [Suc k..<length (history st)]"
    using assms(1) by (simp add: waiting_from_def numbered_def upt_conv_Cons)
  with assms(2) k assms(1) show "e = (k, history st ! k)" "waiting_from (st\<lparr> events := q \<rparr>) (Suc k)"
    by (auto simp: waiting_from_def)
qed

lemma sub_ok_later: "sub_ok h k s \<Longrightarrow> k \<le> length h \<Longrightarrow> k \<le> k' \<Longrightarrow> sub_ok (h @ h') k' s"
  by (fastforce simp: sub_ok_def nth_append)

lemma sub_ok_less: "sub_ok h k s \<Longrightarrow> i \<in> fst ` set (taken s) \<Longrightarrow> i < k"
  by (auto simp: sub_ok_def)

text \<open>A step of a subscriber loop keeps what it had, loses what it was sending, or takes the event at
  the front.\<close>

lemma loop_cases:
  assumes "subscribe_events_step q s = Some (q', s')"
  obtains (keep) "q' = q" "taken s' = taken s" "length (channel s') \<le> max CHANNEL_CAPACITY (length (channel s))"
  | (lose) e where "q' = q" "taken s = taken s' @ [e]" "channel s' = channel s"
  | (take) e where "q = e # q'" "taken s' = taken s @ [e]" "channel s' = channel s"
  using assms
  by (auto simp: subscribe_events_step_def wait_and_pop_def taken_def split: sub_pc.splits list.splits if_splits)

lemma stream_invI:
  assumes "waiting_from st k" "\<And>n s. subscribers st n = Some s \<Longrightarrow> sub_ok (history st) k s"
    and "\<And>n m s t. n \<noteq> m \<Longrightarrow> subscribers st n = Some s \<Longrightarrow> subscribers st m = Some t \<Longrightarrow>
      fst ` set (taken s) \<inter> fst ` set (taken t) = {}"
  shows "stream_inv st"
  using assms unfolding stream_inv_def by blast

text \<open>Replacing one subscriber.\<close>

lemma stream_inv_update:
  assumes inv: "stream_inv st" and k: "waiting_from st' k" "history st' = history st"
    and s': "subscribers st' = (subscribers st)(n \<mapsto> s')" "sub_ok (history st) k s'"
    and others: "\<And>m t. m \<noteq> n \<Longrightarrow> subscribers st m = Some t \<Longrightarrow>
      sub_ok (history st) k t \<and> fst ` set (taken s') \<inter> fst ` set (taken t) = {}"
  shows "stream_inv st'"
proof (rule stream_invI [OF k(1)])
  show "sub_ok (history st') k t" if "subscribers st' m = Some t" for m t
    using that s' others k(2) by (auto split: if_splits)
  show "fst ` set (taken s1) \<inter> fst ` set (taken s2) = {}"
    if two: "m \<noteq> m'" "subscribers st' m = Some s1" "subscribers st' m' = Some s2" for m m' s1 s2
  proof -
    have old: "subscribers st j = Some t" if "subscribers st' j = Some t" "j \<noteq> n" for j t
      using that s'(1) by simp
    have new: "t = s'" if "subscribers st' n = Some t" for t
      using that s'(1) by simp
    show ?thesis
    proof (cases "m = n")
      case True
      then show ?thesis
        using two new others [of m' s2] old by blast
    next
      case False
      then show ?thesis
      proof (cases "m' = n")
        case True
        then show ?thesis
          using two new others [of m s1] old by blast
      next
        case m': False
        have "subscribers st m = Some s1" "subscribers st m' = Some s2"
          using old two False m' by blast+
        then show ?thesis
          using inv two(1) unfolding stream_inv_def by blast
      qed
    qed
  qed
qed

lemma stream_inv_shrink:
  assumes inv: "stream_inv st" and s: "subscribers st n = Some s" "set (taken s') \<subseteq> set (taken s)"
    and ok: "\<And>k. sub_ok (history st) k s \<Longrightarrow> sub_ok (history st) k s'"
  shows "stream_inv (st\<lparr> subscribers := (subscribers st)(n \<mapsto> s') \<rparr>)"
proof -
  from inv obtain k where k: "waiting_from st k" "\<And>n s. subscribers st n = Some s \<Longrightarrow> sub_ok (history st) k s"
    unfolding stream_inv_def by blast
  show ?thesis
  proof (rule stream_inv_update [OF inv, where k = k and n = n and s' = s'])
    show "sub_ok (history st) k t \<and> fst ` set (taken s') \<inter> fst ` set (taken t) = {}"
      if "m \<noteq> n" "subscribers st m = Some t" for m t
    proof -
      have "fst ` set (taken s) \<inter> fst ` set (taken t) = {}"
        using inv s(1) that unfolding stream_inv_def by blast
      then show ?thesis
        using s(2) k(2) [OF that(2)] by blast
    qed
  qed (use k s ok in \<open>simp_all add: waiting_from_def\<close>)
qed

lemma stream_step_inv:
  assumes "stream_step st st'" "stream_inv st"
  shows "stream_inv st'"
proof -
  from assms(2) obtain k where k: "waiting_from st k" "\<And>n s. subscribers st n = Some s \<Longrightarrow> sub_ok (history st) k s"
    unfolding stream_inv_def by blast
  have len: "k \<le> length (history st)"
    using k(1) by (simp add: waiting_from_def)
  have apart: "fst ` set (taken s) \<inter> fst ` set (taken t) = {}"
    if "n \<noteq> m" "subscribers st n = Some s" "subscribers st m = Some t" for n m s t
    using assms(2) that unfolding stream_inv_def by blast
  from assms(1) show ?thesis
  proof (cases rule: stream_step.cases)
    case (publish e)
    let ?k = "if length (events st) \<ge> EVENT_QUEUE_CAPACITY then Suc k else k"
    have "waiting_from st' ?k"
      unfolding publish by (rule push_waiting [OF k(1)])
    moreover have "sub_ok (history st') ?k s" if "subscribers st' n = Some s" for n s
      using that sub_ok_later [OF k(2) len, of n s ?k "[e]"] unfolding publish by simp
    ultimately show ?thesis
      by (rule stream_invI) (auto simp: publish apart)
  next
    case (subscribe n)
    show ?thesis
      by (rule stream_inv_update [OF assms(2), where k = k and n = n and s' = new_subscriber])
         (use k in \<open>auto simp: subscribe waiting_from_def sub_ok_def taken_def new_subscriber_def\<close>)
  next
    case (receive n s e c)
    show ?thesis
      unfolding receive(1)
      by (rule stream_inv_shrink [OF assms(2) receive(2)]) (auto simp: receive(3) sub_ok_def taken_def)
  next
    case (disconnect n s)
    show ?thesis
      unfolding disconnect(1)
      by (rule stream_inv_shrink [OF assms(2) disconnect(2)]) (auto simp: sub_ok_def taken_def)
  next
    case (loop n s q s')
    note ok = k(2) [OF loop(2)]
    from loop(3) show ?thesis
    proof (cases rule: loop_cases)
      case keep
      have "sub_ok (history st) k s'" if "sub_ok (history st) k s" for k
        using that keep by (auto simp: sub_ok_def max_def split: if_splits)
      then show ?thesis
        using stream_inv_shrink [OF assms(2) loop(2), of s'] keep by (simp add: loop(1))
    next
      case (lose e)
      have "sub_ok (history st) k s'" if "sub_ok (history st) k s" for k
        using that lose by (simp add: sub_ok_def sorted_wrt_append)
      then show ?thesis
        using stream_inv_shrink [OF assms(2) loop(2), of s'] lose by (simp add: loop(1) subset_insertI)
    next
      case (take e)
      have e: "e = (k, history st ! k)" and k': "waiting_from (st\<lparr> events := q \<rparr>) (Suc k)"
        using pop_waiting [OF k(1) take(1)] by blast+
      have "sub_ok (history st) (Suc k) s'"
        using ok take(2,3) e by (auto simp: sub_ok_def sorted_wrt_append intro: less_SucI)
      moreover have "sub_ok (history st) (Suc k) t \<and> fst ` set (taken s') \<inter> fst ` set (taken t) = {}"
        if "m \<noteq> n" "subscribers st m = Some t" for m t
      proof -
        have "k \<notin> fst ` set (taken t)"
          using sub_ok_less [OF k(2) [OF that(2)]] by blast
        then show ?thesis
          using apart [OF that(1,2) loop(2)] take(2) e sub_ok_later [OF k(2) [OF that(2)] len, of "Suc k" "[]"] by auto
      qed
      ultimately show ?thesis
        by (intro stream_inv_update [OF assms(2), where k = "Suc k" and n = n and s' = s'])
           (use k' in \<open>auto simp: loop waiting_from_def\<close>)
    qed
  qed
qed

interpretation event_stream: transition_system "\<lambda>st. st = empty_stream" stream_step stream_inv
proof unfold_locales
  show "stream_inv st" if "st = empty_stream" for st
    using that by (simp add: stream_inv_def waiting_from_def empty_stream_def numbered_def)
qed (rule stream_step_inv)

section \<open>Properties\<close>

text \<open>C12: In every interleaving, what a subscriber receives are published events in the order of their
  publication, none twice, and no event reaches two subscribers. The queue never holds more than its
  capacity and always holds the newest events that nobody has taken, so that a full queue loses the
  oldest ones only.\<close>

theorem stream_delivers_in_order_at_most_once:
  assumes "stream_step\<^sup>*\<^sup>* empty_stream st" "subscribers st n = Some s"
  shows "sorted_wrt (<) (map fst (received s)) \<and> (\<forall>(i, e)\<in>set (received s). i < length (history st) \<and> e = history st ! i)
    \<and> (\<forall>m t. m \<noteq> n \<longrightarrow> subscribers st m = Some t \<longrightarrow> fst ` set (received s) \<inter> fst ` set (received t) = {})
    \<and> length (channel s) \<le> CHANNEL_CAPACITY
    \<and> (\<exists>k. length (events st) \<le> EVENT_QUEUE_CAPACITY \<and> k \<le> length (history st)
         \<and> events st = map (\<lambda>i. (i, history st ! i)) [k..<length (history st)])"
proof -
  have inv: "stream_inv st"
    by (rule event_stream.inv_reachable [OF refl assms(1)])
  then obtain k where k: "waiting_from st k" "sub_ok (history st) k s"
    using assms(2) unfolding stream_inv_def by blast
  have sub: "set (received u) \<subseteq> set (taken u)" for u :: "(nat \<times> PolicyMatchEvent) subscriber"
    by (simp add: taken_def)
  have "fst ` set (received s) \<inter> fst ` set (received t) = {}" if "m \<noteq> n" "subscribers st m = Some t" for m t
  proof -
    have "fst ` set (taken s) \<inter> fst ` set (taken t) = {}"
      using inv assms(2) that unfolding stream_inv_def by blast
    then show ?thesis
      using sub [of s] sub [of t] by blast
  qed
  moreover have "length (events st) \<le> EVENT_QUEUE_CAPACITY \<and> k \<le> length (history st)
      \<and> events st = map (\<lambda>i. (i, history st ! i)) [k..<length (history st)]"
    using k(1) by (simp add: waiting_from_def numbered_def)
  moreover have "sorted_wrt (<) (map fst (received s))" "length (channel s) \<le> CHANNEL_CAPACITY"
    using k(2) by (simp_all add: sub_ok_def taken_def sorted_wrt_append)
  moreover have "i < length (history st) \<and> e = history st ! i" if "(i, e) \<in> set (received s)" for i e
  proof -
    have "i < k \<and> e = history st ! i"
      using k(2) that sub [of s] unfolding sub_ok_def by blast
    then show ?thesis
      using k(1) by (auto simp: waiting_from_def)
  qed
  ultimately show ?thesis
    by blast
qed

text \<open>Events speak the vocabulary of the requests. A rule that was requested with an action, a
  direction and a protocol of the interface is stored with codes that a match event turns back into
  the same action, direction and protocol.\<close>

theorem event_codes_match_request:
  assumes "ps_action r \<in> {1, 2, 3}" "ps_direction r \<in> {1, 2}" "ps_protocol r \<in> {1, 2, 3}"
  shows "net_policy_rule_to_proto (int (unat (rule_code (ConvertRuleAction (PolicyActionToStr (ps_action r)))))) = ps_action r
    \<and> flow_dir_to_proto (dir_code (if FlowDirectionToStr (ps_direction r) = ''ingress'' then kIngress else kEgress)) = ps_direction r
    \<and> protocol_to_l4protocol (word_of_int (NetProtoConvert (L4ProtocolToStr (ps_protocol r)))) = ps_protocol r"
  using assms
  by (auto simp: net_policy_rule_to_proto_def ConvertRuleAction_def PolicyActionToStr_def flow_dir_to_proto_def
      FlowDirectionToStr_def protocol_to_l4protocol_def NetProtoConvert_def L4ProtocolToStr_def)

section \<open>Examples\<close>

definition tls_event :: PolicyMatchEvent where
  "tls_event = match_event 6 0 0 4000 443 ''10.0.0.1'' ''10.0.0.2'' ''web''"

definition one_delivered :: stream_state where
  "one_delivered =
     \<lparr> events = [], subscribers = [7 \<mapsto> \<lparr> sub_pc = AtCheck, channel = [], received = [(0, tls_event)], disconnected = False \<rparr>],
       history = [tls_event] \<rparr>"

lemma one_delivered_reachable: "stream_step\<^sup>*\<^sup>* empty_stream one_delivered"
proof -
  let ?s = "\<lparr> sub_pc = AtPop, channel = [], received = [], disconnected = False \<rparr> :: (nat \<times> PolicyMatchEvent) subscriber"
  let ?c1 = "\<lparr> events = [(0, tls_event)], subscribers = Map.empty, history = [tls_event] \<rparr>"
  let ?c2 = "?c1\<lparr> subscribers := [7 \<mapsto> new_subscriber] \<rparr>"
  let ?c3 = "?c1\<lparr> subscribers := [7 \<mapsto> ?s] \<rparr>"
  let ?c4 = "?c1\<lparr> events := [], subscribers := [7 \<mapsto> ?s\<lparr> sub_pc := AtSend (0, tls_event) \<rparr>] \<rparr>"
  let ?c5 = "?c1\<lparr> events := [], subscribers := [7 \<mapsto> ?s\<lparr> sub_pc := AtCheck, channel := [(0, tls_event)] \<rparr>] \<rparr>"
  note defs = empty_stream_def push_def EVENT_QUEUE_CAPACITY_def new_subscriber_def subscribe_events_step_def
    wait_and_pop_def CHANNEL_CAPACITY_def one_delivered_def
  have s1: "stream_step empty_stream ?c1"
    using stream_step.publish [of empty_stream tls_event] by (simp add: defs)
  have s2: "stream_step ?c1 ?c2"
    using stream_step.subscribe [of ?c1 7] by simp
  have s3: "stream_step ?c2 ?c3"
    using stream_step.loop [of ?c2 7 new_subscriber "events ?c2" ?s] by (simp add: defs)
  have s4: "stream_step ?c3 ?c4"
    using stream_step.loop [of ?c3 7 ?s "[]" "?s\<lparr> sub_pc := AtSend (0, tls_event) \<rparr>"] by (simp add: defs)
  have s5: "stream_step ?c4 ?c5"
    using stream_step.loop [of ?c4 7 "?s\<lparr> sub_pc := AtSend (0, tls_event) \<rparr>" "[]"
        "?s\<lparr> sub_pc := AtCheck, channel := [(0, tls_event)] \<rparr>"] by (simp add: defs)
  have s6: "stream_step ?c5 one_delivered"
    using stream_step.receive [of ?c5 7 "?s\<lparr> sub_pc := AtCheck, channel := [(0, tls_event)] \<rparr>" "(0, tls_event)" "[]"]
    by (simp add: defs)
  show ?thesis
    by (rule converse_rtranclp_into_rtranclp, rule s1, rule converse_rtranclp_into_rtranclp, rule s2,
        rule converse_rtranclp_into_rtranclp, rule s3, rule converse_rtranclp_into_rtranclp, rule s4,
        rule converse_rtranclp_into_rtranclp, rule s5, rule r_into_rtranclp, rule s6)
qed

theorem stream_delivers_in_order_at_most_once_witness:
  "\<exists>s. subscribers one_delivered 7 = Some s \<and> received s = [(0, tls_event)] \<and> history one_delivered ! 0 = tls_event"
proof -
  let ?s = "\<lparr> sub_pc = AtCheck, channel = [], received = [(0, tls_event)], disconnected = False \<rparr>"
  have s: "subscribers one_delivered 7 = Some ?s"
    by (simp add: one_delivered_def)
  with stream_delivers_in_order_at_most_once [OF one_delivered_reachable s] show ?thesis
    by simp
qed

theorem event_codes_match_request_witness:
  "\<exists>r :: PolicyRuleSpec. ps_action r = 3 \<and> net_policy_rule_to_proto (int (unat (rule_code (ConvertRuleAction (PolicyActionToStr (ps_action r)))))) = 3"
proof -
  let ?r = "\<lparr> ps_action = 3, ps_direction = 1, ps_protocol = 2, ps_http_rules = [], ps_from_addresses = [],
     ps_to_addresses = [], ps_ports = [], ps_priority = 1 \<rparr>"
  have "ps_action ?r = 3 \<and> net_policy_rule_to_proto (int (unat (rule_code (ConvertRuleAction (PolicyActionToStr (ps_action ?r)))))) = 3"
    using event_codes_match_request [of ?r] by simp
  then show ?thesis by (rule exI)
qed

end
