(* ===== verification/Mnl_Message.thy ===== *)
theory Mnl_Message
  imports NP_Prelude
begin

text \<open>
  Netlink messages (libmnl/mnlmsg.c, netlink.h). A buffer is a list of bytes and a pointer a position
  in it; an access outside the buffer is \<open>None\<close>. Integers are kept at their width, so the roundings
  and casts of the library wrap as they do in C, on a little-endian machine.
\<close>

unbundle bit_operations_syntax

section \<open>Memory\<close>

fun of_le :: "bytes \<Rightarrow> nat" where
  "of_le [] = 0"
| "of_le (b # bs) = unat b + 256 * of_le bs"

fun to_le :: "nat \<Rightarrow> nat \<Rightarrow> bytes" where
  "to_le 0 n = []"
| "to_le (Suc k) n = word_of_nat (n mod 256) # to_le k (n div 256)"

definition load :: "bytes \<Rightarrow> nat \<Rightarrow> nat \<Rightarrow> bytes option" where
  "load m p k = (if p + k \<le> length m then Some (take k (drop p m)) else None)"

definition store :: "bytes \<Rightarrow> nat \<Rightarrow> bytes \<Rightarrow> bytes option" where
  "store m p bs = (if p + length bs \<le> length m then Some (take p m @ bs @ drop (p + length bs) m) else None)"

definition load_u16 :: "bytes \<Rightarrow> nat \<Rightarrow> u16 option" where
  "load_u16 m p = map_option (word_of_nat \<circ> of_le) (load m p 2)"

definition load_u32 :: "bytes \<Rightarrow> nat \<Rightarrow> u32 option" where
  "load_u32 m p = map_option (word_of_nat \<circ> of_le) (load m p 4)"

definition store_u16 :: "bytes \<Rightarrow> nat \<Rightarrow> u16 \<Rightarrow> bytes option" where
  "store_u16 m p w = store m p (to_le 2 (unat w))"

definition store_u32 :: "bytes \<Rightarrow> nat \<Rightarrow> u32 \<Rightarrow> bytes option" where
  "store_u32 m p w = store m p (to_le 4 (unat w))"

section \<open>Messages\<close>

definition MNL_ALIGN :: "'a::len word \<Rightarrow> 'a word" where
  "MNL_ALIGN len = (len + 3) AND NOT 3"

definition MNL_NLMSG_HDRLEN :: nat where "MNL_NLMSG_HDRLEN = 16"

definition nlmsg_len :: "bytes \<Rightarrow> nat \<Rightarrow> u32 option" where "nlmsg_len m nlh = load_u32 m nlh"
definition nlmsg_type :: "bytes \<Rightarrow> nat \<Rightarrow> u16 option" where "nlmsg_type m nlh = load_u16 m (nlh + 4)"
definition nlmsg_flags :: "bytes \<Rightarrow> nat \<Rightarrow> u16 option" where "nlmsg_flags m nlh = load_u16 m (nlh + 6)"
definition nlmsg_seq :: "bytes \<Rightarrow> nat \<Rightarrow> u32 option" where "nlmsg_seq m nlh = load_u32 m (nlh + 8)"
definition nlmsg_pid :: "bytes \<Rightarrow> nat \<Rightarrow> u32 option" where "nlmsg_pid m nlh = load_u32 m (nlh + 12)"

definition mnl_nlmsg_size :: "u64 \<Rightarrow> u64" where
  "mnl_nlmsg_size len = len + word_of_nat MNL_NLMSG_HDRLEN"

definition mnl_nlmsg_get_payload_len :: "bytes \<Rightarrow> nat \<Rightarrow> u64 option" where
  "mnl_nlmsg_get_payload_len m nlh = map_option (\<lambda>len. ucast len - word_of_nat MNL_NLMSG_HDRLEN) (nlmsg_len m nlh)"

definition mnl_nlmsg_put_header :: "bytes \<Rightarrow> nat \<Rightarrow> bytes option" where
  "mnl_nlmsg_put_header m buf =
     (case store m buf (replicate MNL_NLMSG_HDRLEN 0) of
        None \<Rightarrow> None
      | Some m1 \<Rightarrow> store_u32 m1 buf (word_of_nat MNL_NLMSG_HDRLEN))"

definition mnl_nlmsg_put_extra_header :: "bytes \<Rightarrow> nat \<Rightarrow> u64 \<Rightarrow> (bytes \<times> nat) option" where
  "mnl_nlmsg_put_extra_header m nlh sz =
     (case nlmsg_len m nlh of
        None \<Rightarrow> None
      | Some n \<Rightarrow>
          (let ptr = nlh + unat n; len = MNL_ALIGN sz in
           case store_u32 m nlh (n + ucast len) of
             None \<Rightarrow> None
           | Some m1 \<Rightarrow> map_option (\<lambda>m2. (m2, ptr)) (store m1 ptr (replicate (unat len) 0))))"

definition mnl_nlmsg_get_payload :: "nat \<Rightarrow> nat" where
  "mnl_nlmsg_get_payload nlh = nlh + MNL_NLMSG_HDRLEN"

definition mnl_nlmsg_get_payload_offset :: "nat \<Rightarrow> u64 \<Rightarrow> nat" where
  "mnl_nlmsg_get_payload_offset nlh offset = nlh + MNL_NLMSG_HDRLEN + unat (MNL_ALIGN offset)"

text \<open>The length of the message is cast to \<^verbatim>\<open>int\<close> in the last comparison only.\<close>

definition mnl_nlmsg_ok :: "bytes \<Rightarrow> nat \<Rightarrow> i32 \<Rightarrow> bool option" where
  "mnl_nlmsg_ok m nlh len =
     (if len < 16 then Some False
      else map_option (\<lambda>n. 16 \<le> n \<and> sint n \<le> len) (nlmsg_len m nlh))"

definition mnl_nlmsg_next :: "bytes \<Rightarrow> nat \<Rightarrow> i32 \<Rightarrow> (nat \<times> i32) option" where
  "mnl_nlmsg_next m nlh len =
     map_option (\<lambda>n. (nlh + unat (MNL_ALIGN n), sint (word_of_int len - MNL_ALIGN n :: u32))) (nlmsg_len m nlh)"

definition mnl_nlmsg_get_payload_tail :: "bytes \<Rightarrow> nat \<Rightarrow> nat option" where
  "mnl_nlmsg_get_payload_tail m nlh = map_option (\<lambda>n. nlh + unat (MNL_ALIGN n)) (nlmsg_len m nlh)"

definition mnl_nlmsg_seq_ok :: "u32 \<Rightarrow> u32 \<Rightarrow> bool" where
  "mnl_nlmsg_seq_ok nseq seq = (if nseq \<noteq> 0 \<and> seq \<noteq> 0 then nseq = seq else True)"

definition mnl_nlmsg_portid_ok :: "u32 \<Rightarrow> u32 \<Rightarrow> bool" where
  "mnl_nlmsg_portid_ok pid portid = (if pid \<noteq> 0 \<and> portid \<noteq> 0 then pid = portid else True)"

section \<open>Batches of messages\<close>

record mnl_nlmsg_batch =
  b_buf :: nat
  b_limit :: nat
  b_buflen :: nat
  b_cur :: nat
  b_overflow :: bool

definition mnl_nlmsg_batch_start :: "nat \<Rightarrow> nat \<Rightarrow> mnl_nlmsg_batch" where
  "mnl_nlmsg_batch_start buf limit =
     \<lparr> b_buf = buf, b_limit = limit, b_buflen = 0, b_cur = buf, b_overflow = False \<rparr>"

definition mnl_nlmsg_batch_next :: "bytes \<Rightarrow> mnl_nlmsg_batch \<Rightarrow> (mnl_nlmsg_batch \<times> bool) option" where
  "mnl_nlmsg_batch_next m b =
     map_option (\<lambda>n.
        if b_buflen b + unat n > b_limit b then (b\<lparr> b_overflow := True \<rparr>, False)
        else (b\<lparr> b_cur := b_buf b + b_buflen b + unat n, b_buflen := b_buflen b + unat n \<rparr>, True))
       (nlmsg_len m (b_cur b))"

text \<open>\<^verbatim>\<open>memcpy\<close> between overlapping areas is undefined.\<close>

definition mnl_nlmsg_batch_reset :: "bytes \<Rightarrow> mnl_nlmsg_batch \<Rightarrow> (bytes \<times> mnl_nlmsg_batch) option" where
  "mnl_nlmsg_batch_reset m b =
     (if b_overflow b then
        (case nlmsg_len m (b_cur b) of
           None \<Rightarrow> None
         | Some n \<Rightarrow>
             if b_cur b < b_buf b + unat n \<and> b_buf b < b_cur b + unat n then None
             else case load m (b_cur b) (unat n) of
                    None \<Rightarrow> None
                  | Some bs \<Rightarrow>
                      map_option (\<lambda>m1. (m1, b\<lparr> b_buflen := unat n, b_cur := b_buf b + unat n, b_overflow := False \<rparr>))
                        (store m (b_buf b) bs))
      else Some (m, b\<lparr> b_buflen := 0, b_cur := b_buf b \<rparr>))"

definition mnl_nlmsg_batch_size :: "mnl_nlmsg_batch \<Rightarrow> nat" where "mnl_nlmsg_batch_size b = b_buflen b"
definition mnl_nlmsg_batch_head :: "mnl_nlmsg_batch \<Rightarrow> nat" where "mnl_nlmsg_batch_head b = b_buf b"
definition mnl_nlmsg_batch_current :: "mnl_nlmsg_batch \<Rightarrow> nat" where "mnl_nlmsg_batch_current b = b_cur b"
definition mnl_nlmsg_batch_is_empty :: "mnl_nlmsg_batch \<Rightarrow> bool" where
  "mnl_nlmsg_batch_is_empty b = (b_buflen b = 0)"

section \<open>Laws of the memory\<close>

lemma length_to_le [simp]: "length (to_le k n) = k"
  by (induction k arbitrary: n) simp_all

lemma of_to_le: "of_le (to_le k n) = n mod 256 ^ k"
proof (induction k arbitrary: n)
  case (Suc k)
  have "n mod (256 * 256 ^ k) = 256 * (n div 256 mod 256 ^ k) + n mod 256"
    by (rule mod_mult2_eq)
  then show ?case
    using Suc by (simp add: unat_of_nat)
qed simp

lemma length_store: "store m p bs = Some m' \<Longrightarrow> length m' = length m"
  by (auto simp: store_def split: if_splits)

lemma store_Some_iff: "(\<exists>m'. store m p bs = Some m') \<longleftrightarrow> p + length bs \<le> length m"
  by (simp add: store_def)

lemma load_store_same: "store m p bs = Some m' \<Longrightarrow> load m' p (length bs) = Some bs"
  by (auto simp: store_def load_def split: if_splits)

lemma load_store_other:
  assumes "store m p bs = Some m'" "q + k \<le> p \<or> p + length bs \<le> q"
  shows "load m' q k = load m q k"
proof -
  have m': "m' = take p m @ bs @ drop (p + length bs) m" "p + length bs \<le> length m"
    using assms(1) by (auto simp: store_def split: if_splits)
  have len: "length m' = length m"
    using assms(1) by (rule length_store)
  have "take k (drop q m') = take k (drop q m)" if "q + k \<le> length m"
  proof (rule nth_equalityI)
    show "length (take k (drop q m')) = length (take k (drop q m))"
      using len by simp
  next
    fix i
    assume i: "i < length (take k (drop q m'))"
    have at: "m' ! (q + i) = m ! (q + i)"
      using assms(2) m' i that len
      by (auto simp: nth_append)
    show "take k (drop q m') ! i = take k (drop q m) ! i"
      using i that len at by simp
  qed
  then show ?thesis
    using len by (simp add: load_def)
qed

lemma load_length: "load m p k = Some bs \<Longrightarrow> length bs = k"
  by (auto simp: load_def split: if_splits)

lemma load_u16_Some [simp]: "p + 2 \<le> length m \<Longrightarrow> \<exists>w. load_u16 m p = Some w"
  by (simp add: load_u16_def load_def)

lemma load_u32_Some [simp]: "p + 4 \<le> length m \<Longrightarrow> \<exists>w. load_u32 m p = Some w"
  by (simp add: load_u32_def load_def)

lemma load_u16_None: "load_u16 m p = None \<longleftrightarrow> \<not> p + 2 \<le> length m"
  by (simp add: load_u16_def load_def)

lemma load_u32_None: "load_u32 m p = None \<longleftrightarrow> \<not> p + 4 \<le> length m"
  by (simp add: load_u32_def load_def)

lemma unat_bound: "unat (w :: 'a::len word) < 2 ^ LENGTH('a)"
  by (rule unsigned_less)

lemma load_store_u16: "store_u16 m p w = Some m' \<Longrightarrow> load_u16 m' p = Some w"
  using load_store_same [of m p "to_le 2 (unat w)" m'] unat_bound [of w]
  by (simp add: store_u16_def load_u16_def of_to_le)

lemma load_store_u32: "store_u32 m p w = Some m' \<Longrightarrow> load_u32 m' p = Some w"
  using load_store_same [of m p "to_le 4 (unat w)" m'] unat_bound [of w]
  by (simp add: store_u32_def load_u32_def of_to_le)

lemma load_word_other:
  assumes "store m p bs = Some m'"
  shows "q + 2 \<le> p \<or> p + length bs \<le> q \<Longrightarrow> load_u16 m' q = load_u16 m q"
    "q + 4 \<le> p \<or> p + length bs \<le> q \<Longrightarrow> load_u32 m' q = load_u32 m q"
  using load_store_other [OF assms] by (simp_all add: load_u16_def load_u32_def)

lemma store_split:
  "store_u16 m p w = store m p (to_le 2 (unat w))" "store_u32 m p v = store m p (to_le 4 (unat v))"
  by (simp_all add: store_u16_def store_u32_def)

section \<open>Rounding\<close>

lemma unat_ucast_up:
  assumes "LENGTH('a::len) \<le> LENGTH('b::len)"
  shows "unat (ucast (w :: 'a word) :: 'b word) = unat w"
proof -
  have "unat w < 2 ^ LENGTH('b)"
    by (rule less_le_trans [OF unat_bound power_increasing [OF assms]]) simp
  then show ?thesis
    by (simp add: unsigned_ucast_eq take_bit_nat_eq_self)
qed

lemma and_not_3: "(x :: 'a::len word) AND NOT 3 = push_bit 2 (drop_bit 2 x)"
proof -
  have 3: "(3 :: 'a word) = mask 2"
    by (simp add: mask_eq_exp_minus_1)
  have "bit (x AND NOT (mask 2)) n \<longleftrightarrow> bit (push_bit 2 (drop_bit 2 x)) n" if "n < LENGTH('a)" for n
  proof (cases "2 \<le> n")
    case True
    then obtain k where "n = k + 2"
      using le_Suc_ex by (metis add.commute)
    then show ?thesis
      using that by (simp add: bit_simps)
  qed (use that in \<open>simp add: bit_simps\<close>)
  then show ?thesis
    unfolding 3 by (rule bit_word_eqI)
qed

lemma unat_MNL_ALIGN:
  fixes w :: "'a::len word"
  assumes "unat w + 3 < 2 ^ LENGTH('a)" "3 \<le> LENGTH('a)"
  shows "unat (MNL_ALIGN w) = (unat w + 3) div 4 * 4"
proof -
  have "unat (3 :: 'a word) = 3"
  proof -
    have "(2::nat) ^ 3 \<le> 2 ^ LENGTH('a)"
      using assms(2) by (rule power_increasing) simp
    then show ?thesis
      by (simp add: unsigned_numeral take_bit_nat_eq_self)
  qed
  then have sum: "unat (w + 3) = unat w + 3"
    using assms(1) by (simp add: unat_word_ariths)
  have small: "(unat w + 3) div 4 * 4 < 2 ^ LENGTH('a)"
    using assms(1) div_times_less_eq_dividend [of "unat w + 3" 4] by linarith
  show ?thesis
    unfolding MNL_ALIGN_def and_not_3 unsigned_push_bit_eq unsigned_drop_bit_eq sum
    using small assms(1) by (simp add: push_bit_eq_mult drop_bit_eq_div take_bit_nat_eq_self)
qed

lemma align_u32: "unat (w :: u32) + 3 < 4294967296 \<Longrightarrow> unat (MNL_ALIGN w) = (unat w + 3) div 4 * 4"
  using unat_MNL_ALIGN [of w] by simp

end
