(* ===== verification/Mnl_Attr.thy ===== *)
theory Mnl_Attr
  imports Mnl_Message "HOL-Library.Monad_Syntax"
begin

text \<open>
  Netlink attributes (libmnl/attr.c and the iterators of libmnl.h): access, validation, parsing with a
  callback, and adding attributes and nests to a message. \<open>None\<close> is an access outside the buffer.
\<close>

section \<open>Access\<close>

definition MNL_ATTR_HDRLEN :: nat where "MNL_ATTR_HDRLEN = 4"

definition nla_len :: "bytes \<Rightarrow> nat \<Rightarrow> u16 option" where "nla_len m attr = load_u16 m attr"
definition nla_type :: "bytes \<Rightarrow> nat \<Rightarrow> u16 option" where "nla_type m attr = load_u16 m (attr + 2)"

definition NLA_F_NESTED :: u16 where "NLA_F_NESTED = 0x8000"
definition NLA_TYPE_MASK :: u16 where "NLA_TYPE_MASK = 0x3FFF"

definition mnl_attr_get_type :: "bytes \<Rightarrow> nat \<Rightarrow> u16 option" where
  "mnl_attr_get_type m attr = map_option (\<lambda>t. t AND NLA_TYPE_MASK) (nla_type m attr)"

definition mnl_attr_get_len :: "bytes \<Rightarrow> nat \<Rightarrow> u16 option" where
  "mnl_attr_get_len m attr = nla_len m attr"

definition mnl_attr_get_payload_len :: "bytes \<Rightarrow> nat \<Rightarrow> u16 option" where
  "mnl_attr_get_payload_len m attr = map_option (\<lambda>l. l - word_of_nat MNL_ATTR_HDRLEN) (nla_len m attr)"

definition mnl_attr_get_payload :: "nat \<Rightarrow> nat" where
  "mnl_attr_get_payload attr = attr + MNL_ATTR_HDRLEN"

definition mnl_attr_ok :: "bytes \<Rightarrow> nat \<Rightarrow> i32 \<Rightarrow> bool option" where
  "mnl_attr_ok m attr len =
     (if len < 4 then Some False
      else map_option (\<lambda>l. 4 \<le> l \<and> uint l \<le> len) (nla_len m attr))"

definition mnl_attr_next :: "bytes \<Rightarrow> nat \<Rightarrow> nat option" where
  "mnl_attr_next m attr = map_option (\<lambda>l. attr + unat (MNL_ALIGN (ucast l :: u32))) (nla_len m attr)"

definition mnl_attr_get_u8 :: "bytes \<Rightarrow> nat \<Rightarrow> u8 option" where
  "mnl_attr_get_u8 m attr = map_option hd (load m (mnl_attr_get_payload attr) 1)"

definition mnl_attr_get_u16 :: "bytes \<Rightarrow> nat \<Rightarrow> u16 option" where
  "mnl_attr_get_u16 m attr = load_u16 m (mnl_attr_get_payload attr)"

definition mnl_attr_get_u32 :: "bytes \<Rightarrow> nat \<Rightarrow> u32 option" where
  "mnl_attr_get_u32 m attr = load_u32 m (mnl_attr_get_payload attr)"

definition mnl_attr_get_u64 :: "bytes \<Rightarrow> nat \<Rightarrow> u64 option" where
  "mnl_attr_get_u64 m attr = map_option (word_of_nat \<circ> of_le) (load m (mnl_attr_get_payload attr) 8)"

definition mnl_attr_get_str :: "nat \<Rightarrow> nat" where
  "mnl_attr_get_str attr = mnl_attr_get_payload attr"

section \<open>Validation\<close>

datatype errno = EOPNOTSUPP | ERANGE | EINVAL | ESRCH | EPROTO | EINTR | EBADMSG | Errno i32

datatype mnl_attr_data_type =
    MNL_TYPE_UNSPEC | MNL_TYPE_U8 | MNL_TYPE_U16 | MNL_TYPE_U32 | MNL_TYPE_U64 | MNL_TYPE_STRING
  | MNL_TYPE_FLAG | MNL_TYPE_MSECS | MNL_TYPE_NESTED | MNL_TYPE_NESTED_COMPAT | MNL_TYPE_NUL_STRING
  | MNL_TYPE_BINARY | MNL_TYPE_MAX

definition mnl_attr_type_valid :: "bytes \<Rightarrow> nat \<Rightarrow> u16 \<Rightarrow> (errno + unit) option" where
  "mnl_attr_type_valid m attr maxtype =
     map_option (\<lambda>t. if t > maxtype then Inl EOPNOTSUPP else Inr ()) (mnl_attr_get_type m attr)"

text \<open>The payload length is below the 16 bits of the header, the expected one is a \<^verbatim>\<open>size_t\<close>.\<close>

definition validate_type :: "bytes \<Rightarrow> nat \<Rightarrow> nat \<Rightarrow> mnl_attr_data_type \<Rightarrow> (errno + unit) option" where
  "validate_type m attr attr_len type =
     (case type of
        MNL_TYPE_FLAG \<Rightarrow> Some (if attr_len > 0 then Inl ERANGE else Inr ())
      | MNL_TYPE_NUL_STRING \<Rightarrow>
          if attr_len = 0 then Some (Inl ERANGE)
          else map_option (\<lambda>bs. if bs \<noteq> [0] then Inl EINVAL else Inr ())
                 (load m (mnl_attr_get_payload attr + attr_len - 1) 1)
      | MNL_TYPE_STRING \<Rightarrow> Some (if attr_len = 0 then Inl ERANGE else Inr ())
      | MNL_TYPE_NESTED \<Rightarrow> Some (if attr_len \<noteq> 0 \<and> attr_len < MNL_ATTR_HDRLEN then Inl ERANGE else Inr ())
      | _ \<Rightarrow> Some (Inr ()))"

definition attr_validate :: "bytes \<Rightarrow> nat \<Rightarrow> mnl_attr_data_type \<Rightarrow> nat \<Rightarrow> (errno + unit) option" where
  "attr_validate m attr type exp_len = do {
     l \<leftarrow> mnl_attr_get_payload_len m attr;
     let attr_len = unat l;
     if attr_len < exp_len then Some (Inl ERANGE) else do {
       r \<leftarrow> validate_type m attr attr_len type;
       Some (if r = Inr () \<and> exp_len \<noteq> 0 \<and> attr_len > exp_len then Inl ERANGE else r) } }"

definition mnl_attr_data_type_len :: "mnl_attr_data_type \<Rightarrow> nat" where
  "mnl_attr_data_type_len type =
     (case type of MNL_TYPE_U8 \<Rightarrow> 1 | MNL_TYPE_U16 \<Rightarrow> 2 | MNL_TYPE_U32 \<Rightarrow> 4 | MNL_TYPE_U64 \<Rightarrow> 8 | MNL_TYPE_MSECS \<Rightarrow> 8
      | _ \<Rightarrow> 0)"

definition mnl_attr_validate :: "bytes \<Rightarrow> nat \<Rightarrow> mnl_attr_data_type \<Rightarrow> (errno + unit) option" where
  "mnl_attr_validate m attr type =
     (if type = MNL_TYPE_MAX then Some (Inl EINVAL) else attr_validate m attr type (mnl_attr_data_type_len type))"

definition mnl_attr_validate2 :: "bytes \<Rightarrow> nat \<Rightarrow> mnl_attr_data_type \<Rightarrow> nat \<Rightarrow> (errno + unit) option" where
  "mnl_attr_validate2 m attr type exp_len =
     (if type = MNL_TYPE_MAX then Some (Inl EINVAL) else attr_validate m attr type exp_len)"

section \<open>Parsing\<close>

text \<open>The difference of two pointers is passed as an \<^verbatim>\<open>int\<close>.\<close>

definition int_of_diff :: "nat \<Rightarrow> nat \<Rightarrow> i32" where
  "int_of_diff p q = sint (word_of_int (int p - int q) :: u32)"

type_synonym 's attr_cb = "nat \<Rightarrow> 's \<Rightarrow> (i32 \<times> 's) option"

lemma align_u16: "unat (MNL_ALIGN (ucast (l :: u16) :: u32)) = (unat l + 3) div 4 * 4"
proof -
  have l: "unat (ucast l :: u32) = unat l"
    by (simp add: unat_ucast_up)
  have "unat l < 65536"
    using unat_bound [of l] by simp
  then have "unat (ucast l :: u32) + 3 < 4294967296"
    unfolding l by linarith
  then show ?thesis
    by (simp only: align_u32 l)
qed

lemma attr_progress:
  assumes "mnl_attr_ok m attr len = Some True" "mnl_attr_next m attr = Some nxt"
  shows "attr + 4 \<le> nxt" "attr + 2 \<le> length m"
proof -
  obtain l where l: "load_u16 m attr = Some l" "4 \<le> l" "nxt = attr + (unat l + 3) div 4 * 4"
    using assms by (auto simp: mnl_attr_ok_def mnl_attr_next_def nla_len_def align_u16 split: if_splits)
  have "4 \<le> unat l"
    using l(2) by (simp add: word_le_nat_alt)
  then show "attr + 4 \<le> nxt"
    using l(3) by simp
  show "attr + 2 \<le> length m"
    using l(1) load_u16_None [of m attr] by auto
qed

lemma attr_measure:
  assumes "mnl_attr_ok m attr len = Some True" "mnl_attr_next m attr = Some nxt"
  shows "length m - nxt < length m - attr"
  using attr_progress [OF assms] by linarith

function (sequential) attr_loop :: "bytes \<Rightarrow> nat \<Rightarrow> 's attr_cb \<Rightarrow> nat \<Rightarrow> 's \<Rightarrow> i32 \<Rightarrow> (i32 \<times> 's) option" where
  "attr_loop m stop cb attr st ret =
     (case mnl_attr_ok m attr (int_of_diff stop attr) of
        None \<Rightarrow> None
      | Some False \<Rightarrow> Some (ret, st)
      | Some True \<Rightarrow>
          (case cb attr st of
             None \<Rightarrow> None
           | Some (r, st') \<Rightarrow>
               if r \<le> 0 then Some (r, st')
               else (case mnl_attr_next m attr of None \<Rightarrow> None | Some nxt \<Rightarrow> attr_loop m stop cb nxt st' r)))"
  by pat_completeness auto
termination
  by (relation "measure (\<lambda>(m, stop, cb, attr, st, ret). length m - attr)")
     (auto intro: attr_measure)

declare attr_loop.simps [simp del]

definition mnl_attr_parse :: "bytes \<Rightarrow> nat \<Rightarrow> u32 \<Rightarrow> 's attr_cb \<Rightarrow> 's \<Rightarrow> (i32 \<times> 's) option" where
  "mnl_attr_parse m nlh offset cb st = do {
     stop \<leftarrow> mnl_nlmsg_get_payload_tail m nlh;
     attr_loop m stop cb (mnl_nlmsg_get_payload_offset nlh (ucast offset)) st 1 }"

definition mnl_attr_parse_nested :: "bytes \<Rightarrow> nat \<Rightarrow> 's attr_cb \<Rightarrow> 's \<Rightarrow> (i32 \<times> 's) option" where
  "mnl_attr_parse_nested m nested cb st = do {
     l \<leftarrow> mnl_attr_get_payload_len m nested;
     attr_loop m (mnl_attr_get_payload nested + unat l) cb (mnl_attr_get_payload nested) st 1 }"

definition mnl_attr_parse_payload :: "bytes \<Rightarrow> nat \<Rightarrow> nat \<Rightarrow> 's attr_cb \<Rightarrow> 's \<Rightarrow> (i32 \<times> 's) option" where
  "mnl_attr_parse_payload m payload payload_len cb st = attr_loop m (payload + payload_len) cb payload st 1"

section \<open>Adding attributes\<close>

text \<open>The length in the header is cut to 16 bits, the copy is not; the padding keeps what it holds.\<close>

definition mnl_attr_put :: "bytes \<Rightarrow> nat \<Rightarrow> u16 \<Rightarrow> bytes \<Rightarrow> bytes option" where
  "mnl_attr_put m nlh type data = do {
     attr \<leftarrow> mnl_nlmsg_get_payload_tail m nlh;
     let payload_len = (word_of_nat (4 + length data) :: u16);
     m1 \<leftarrow> store_u16 m (attr + 2) type;
     m2 \<leftarrow> store_u16 m1 attr payload_len;
     m3 \<leftarrow> store m2 (mnl_attr_get_payload attr) data;
     n \<leftarrow> nlmsg_len m3 nlh;
     store_u32 m3 nlh (n + MNL_ALIGN (ucast payload_len)) }"

definition mnl_attr_put_u8 :: "bytes \<Rightarrow> nat \<Rightarrow> u16 \<Rightarrow> u8 \<Rightarrow> bytes option" where
  "mnl_attr_put_u8 m nlh type w = mnl_attr_put m nlh type [w]"
definition mnl_attr_put_u16 :: "bytes \<Rightarrow> nat \<Rightarrow> u16 \<Rightarrow> u16 \<Rightarrow> bytes option" where
  "mnl_attr_put_u16 m nlh type w = mnl_attr_put m nlh type (to_le 2 (unat w))"
definition mnl_attr_put_u32 :: "bytes \<Rightarrow> nat \<Rightarrow> u16 \<Rightarrow> u32 \<Rightarrow> bytes option" where
  "mnl_attr_put_u32 m nlh type w = mnl_attr_put m nlh type (to_le 4 (unat w))"
definition mnl_attr_put_u64 :: "bytes \<Rightarrow> nat \<Rightarrow> u16 \<Rightarrow> u64 \<Rightarrow> bytes option" where
  "mnl_attr_put_u64 m nlh type w = mnl_attr_put m nlh type (to_le 8 (unat w))"

text \<open>Strings are given without their terminator.\<close>

definition mnl_attr_put_str :: "bytes \<Rightarrow> nat \<Rightarrow> u16 \<Rightarrow> bytes \<Rightarrow> bytes option" where
  "mnl_attr_put_str m nlh type str = mnl_attr_put m nlh type str"
definition mnl_attr_put_strz :: "bytes \<Rightarrow> nat \<Rightarrow> u16 \<Rightarrow> bytes \<Rightarrow> bytes option" where
  "mnl_attr_put_strz m nlh type str = mnl_attr_put m nlh type (str @ [0])"

definition mnl_attr_put_check :: "bytes \<Rightarrow> nat \<Rightarrow> u64 \<Rightarrow> u16 \<Rightarrow> bytes \<Rightarrow> (bytes \<times> bool) option" where
  "mnl_attr_put_check m nlh buflen type data = do {
     n \<leftarrow> nlmsg_len m nlh;
     if ucast n + word_of_nat MNL_ATTR_HDRLEN + MNL_ALIGN (word_of_nat (length data)) > buflen then Some (m, False)
     else do { m' \<leftarrow> mnl_attr_put m nlh type data; Some (m', True) } }"

definition mnl_attr_put_u8_check :: "bytes \<Rightarrow> nat \<Rightarrow> u64 \<Rightarrow> u16 \<Rightarrow> u8 \<Rightarrow> (bytes \<times> bool) option" where
  "mnl_attr_put_u8_check m nlh buflen type w = mnl_attr_put_check m nlh buflen type [w]"
definition mnl_attr_put_u16_check :: "bytes \<Rightarrow> nat \<Rightarrow> u64 \<Rightarrow> u16 \<Rightarrow> u16 \<Rightarrow> (bytes \<times> bool) option" where
  "mnl_attr_put_u16_check m nlh buflen type w = mnl_attr_put_check m nlh buflen type (to_le 2 (unat w))"
definition mnl_attr_put_u32_check :: "bytes \<Rightarrow> nat \<Rightarrow> u64 \<Rightarrow> u16 \<Rightarrow> u32 \<Rightarrow> (bytes \<times> bool) option" where
  "mnl_attr_put_u32_check m nlh buflen type w = mnl_attr_put_check m nlh buflen type (to_le 4 (unat w))"
definition mnl_attr_put_u64_check :: "bytes \<Rightarrow> nat \<Rightarrow> u64 \<Rightarrow> u16 \<Rightarrow> u64 \<Rightarrow> (bytes \<times> bool) option" where
  "mnl_attr_put_u64_check m nlh buflen type w = mnl_attr_put_check m nlh buflen type (to_le 8 (unat w))"
definition mnl_attr_put_str_check :: "bytes \<Rightarrow> nat \<Rightarrow> u64 \<Rightarrow> u16 \<Rightarrow> bytes \<Rightarrow> (bytes \<times> bool) option" where
  "mnl_attr_put_str_check m nlh buflen type str = mnl_attr_put_check m nlh buflen type str"
definition mnl_attr_put_strz_check :: "bytes \<Rightarrow> nat \<Rightarrow> u64 \<Rightarrow> u16 \<Rightarrow> bytes \<Rightarrow> (bytes \<times> bool) option" where
  "mnl_attr_put_strz_check m nlh buflen type str = mnl_attr_put_check m nlh buflen type (str @ [0])"

section \<open>Nests\<close>

definition mnl_attr_nest_start :: "bytes \<Rightarrow> nat \<Rightarrow> u16 \<Rightarrow> (bytes \<times> nat) option" where
  "mnl_attr_nest_start m nlh type = do {
     start \<leftarrow> mnl_nlmsg_get_payload_tail m nlh;
     m1 \<leftarrow> store_u16 m (start + 2) (NLA_F_NESTED OR type);
     n \<leftarrow> nlmsg_len m1 nlh;
     m2 \<leftarrow> store_u32 m1 nlh (n + 4);
     Some (m2, start) }"

definition mnl_attr_nest_start_check :: "bytes \<Rightarrow> nat \<Rightarrow> u64 \<Rightarrow> u16 \<Rightarrow> (bytes \<times> nat option) option" where
  "mnl_attr_nest_start_check m nlh buflen type = do {
     n \<leftarrow> nlmsg_len m nlh;
     if ucast n + word_of_nat MNL_ATTR_HDRLEN > buflen then Some (m, None)
     else do { (m', start) \<leftarrow> mnl_attr_nest_start m nlh type; Some (m', Some start) } }"

definition mnl_attr_nest_end :: "bytes \<Rightarrow> nat \<Rightarrow> nat \<Rightarrow> bytes option" where
  "mnl_attr_nest_end m nlh start = do {
     stop \<leftarrow> mnl_nlmsg_get_payload_tail m nlh;
     store_u16 m start (word_of_int (int stop - int start)) }"

definition mnl_attr_nest_cancel :: "bytes \<Rightarrow> nat \<Rightarrow> nat \<Rightarrow> bytes option" where
  "mnl_attr_nest_cancel m nlh start = do {
     n \<leftarrow> nlmsg_len m nlh;
     stop \<leftarrow> mnl_nlmsg_get_payload_tail m nlh;
     store_u32 m nlh (n - word_of_int (int stop - int start)) }"

section \<open>Attributes in a buffer\<close>

abbreviation rounded :: "nat \<Rightarrow> nat" where
  "rounded k \<equiv> (k + 3) div 4 * 4"

definition attr_len :: "bytes \<Rightarrow> u16" where
  "attr_len d = word_of_nat (4 + length d)"

lemma unat_attr_len: "length d \<le> 65531 \<Longrightarrow> unat (attr_len d) = 4 + length d"
  unfolding attr_len_def unat_of_nat by simp

text \<open>A sequence of attributes, types with their flags and payloads, from one position to another.\<close>

fun attrs_at :: "bytes \<Rightarrow> nat \<Rightarrow> (u16 \<times> bytes) list \<Rightarrow> nat \<Rightarrow> bool" where
  "attrs_at m p [] q \<longleftrightarrow> p = q"
| "attrs_at m p ((t, d) # as) q \<longleftrightarrow>
     length d \<le> 65531 \<and> load_u16 m p = Some (attr_len d) \<and> load_u16 m (p + 2) = Some t
     \<and> load m (p + 4) (length d) = Some d \<and> attrs_at m (p + rounded (4 + length d)) as q"

lemma attrs_at_le: "attrs_at m p as q \<Longrightarrow> p \<le> q"
  by (induction m p as q rule: attrs_at.induct) auto

lemma attrs_at_append:
  "attrs_at m p (as @ bs) q \<longleftrightarrow> (\<exists>r. attrs_at m p as r \<and> attrs_at m r bs q)"
  by (induction m p as q rule: attrs_at.induct) auto

lemma attrs_at_frame:
  assumes "attrs_at m p as q" "\<And>i k. p \<le> i \<Longrightarrow> i + k \<le> q \<Longrightarrow> load m' i k = load m i k"
  shows "attrs_at m' p as q"
  using assms
proof (induction m p as q rule: attrs_at.induct)
  case (2 m p t d as q)
  have le: "p + rounded (4 + length d) \<le> q"
    using 2(2) attrs_at_le by auto
  have "load m' p 2 = load m p 2" "load m' (p + 2) 2 = load m (p + 2) 2" "load m' (p + 4) (length d) = load m (p + 4) (length d)"
    by (rule 2(3), use le in linarith, use le in linarith)+
  moreover have "attrs_at m' (p + rounded (4 + length d)) as q"
    by (rule 2(1)) (use 2(2,3) le in auto)
  ultimately show ?case
    using 2(2) by (simp add: load_u16_def)
qed simp

section \<open>Parsing what was put\<close>

definition collect :: "bytes \<Rightarrow> (u16 \<times> bytes) list attr_cb" where
  "collect m attr st = do {
     t \<leftarrow> mnl_attr_get_type m attr;
     l \<leftarrow> mnl_attr_get_payload_len m attr;
     d \<leftarrow> load m (mnl_attr_get_payload attr) (unat l);
     Some (1, st @ [(t, d)]) }"

lemma int_of_diff_small:
  "p < 2 ^ 31 \<Longrightarrow> q < 2 ^ 31 \<Longrightarrow> int_of_diff p q = int p - int q"
  unfolding int_of_diff_def signed_of_int of_int_eq_id id_apply by (rule signed_take_bit_int_eq_self) simp_all

lemma parse_collects:
  assumes "attrs_at m p as q" "q < 2 ^ 31"
  shows "attr_loop m q (collect m) p st ret =
    Some (if as = [] then ret else 1, st @ map (\<lambda>(t, d). (t AND NLA_TYPE_MASK, d)) as)"
  using assms
proof (induction m p as q arbitrary: st ret rule: attrs_at.induct)
  case (1 m p q)
  then show ?case
    by (simp add: attr_loop.simps [of m] mnl_attr_ok_def int_of_diff_small)
next
  case (2 m p t d as q)
  let ?l = "attr_len d"
  have l: "unat ?l = 4 + length d" and len: "nla_len m p = Some ?l"
    using 2(2) by (simp_all add: unat_attr_len nla_len_def)
  have le: "p + rounded (4 + length d) \<le> q"
    using 2(2) attrs_at_le by auto
  have "mnl_attr_ok m p (int_of_diff q p) = Some True"
  proof -
    have "4 \<le> ?l" "uint ?l = int (4 + length d)"
      using l by (simp_all add: word_le_nat_alt flip: uint_nat) (simp add: uint_nat)
    moreover have "p + 4 + length d \<le> q"
      using le by linarith
    ultimately show ?thesis
      using 2(3) by (simp add: mnl_attr_ok_def len int_of_diff_small)
  qed
  moreover have "collect m p st = Some (1, st @ [(t AND NLA_TYPE_MASK, d)])"
  proof -
    have "unat (?l - 4) = length d"
      using l by (simp add: unat_sub word_le_nat_alt)
    then show ?thesis
      using 2(2) by (simp add: collect_def mnl_attr_get_type_def nla_type_def mnl_attr_get_payload_len_def len
          MNL_ATTR_HDRLEN_def mnl_attr_get_payload_def)
  qed
  moreover have "mnl_attr_next m p = Some (p + rounded (4 + length d))"
    using l by (simp add: mnl_attr_next_def len align_u16)
  ultimately show ?case
    using 2(1) [of "st @ [(t AND NLA_TYPE_MASK, d)]" 1] 2(2,3) by (simp add: attr_loop.simps [of m q _ p])
qed

end
