(* ===== verification/Mnl_Build.thy ===== *)
theory Mnl_Build
  imports Mnl_Attr
begin

text \<open>
  Messages that are built with libmnl: what an added attribute or nest leaves in the buffer, that
  parsing gives back what was put, and that the checked variants stay in their buffer.
\<close>

section \<open>The effect of adding an attribute\<close>

lemma tail_aligned:
  assumes "nlmsg_len m nlh = Some n" "4 dvd unat n"
  shows "mnl_nlmsg_get_payload_tail m nlh = Some (nlh + unat n)"
proof -
  have "unat n < 4294967296"
    using unat_bound [of n] by simp
  then have "unat n + 3 < 4294967296"
    using assms(2) by presburger
  moreover have "rounded (unat n) = unat n"
    using assms(2) by (auto elim!: dvdE)
  ultimately show ?thesis
    using assms(1) by (simp add: mnl_nlmsg_get_payload_tail_def align_u32)
qed

lemma put_stores:
  assumes "mnl_attr_put m nlh t d = Some m'" "mnl_nlmsg_get_payload_tail m nlh = Some a"
  obtains m1 m2 m3 n where "store m (a + 2) (to_le 2 (unat t)) = Some m1"
    "store m1 a (to_le 2 (unat (attr_len d))) = Some m2" "store m2 (a + 4) d = Some m3"
    "load_u32 m3 nlh = Some n" "store m3 nlh (to_le 4 (unat (n + MNL_ALIGN (ucast (attr_len d))))) = Some m'"
  using assms
  unfolding mnl_attr_put_def attr_len_def [symmetric]
  by (auto simp: Let_def bind_eq_Some_conv store_split nlmsg_len_def mnl_attr_get_payload_def MNL_ATTR_HDRLEN_def)

lemma stored_u16: "store m p (to_le 2 (unat (w :: u16))) = Some m' \<Longrightarrow> load_u16 m' p = Some w"
  by (rule load_store_u16) (simp add: store_u16_def)

lemma stored_u32: "store m p (to_le 4 (unat (w :: u32))) = Some m' \<Longrightarrow> load_u32 m' p = Some w"
  by (rule load_store_u32) (simp add: store_u32_def)

text \<open>A message whose attributes begin at \<open>p\<close>.\<close>

definition message_at :: "bytes \<Rightarrow> nat \<Rightarrow> nat \<Rightarrow> (u16 \<times> bytes) list \<Rightarrow> nat \<Rightarrow> bool" where
  "message_at m nlh p as k \<longleftrightarrow>
     (\<exists>n. nlmsg_len m nlh = Some n \<and> unat n = k) \<and> 4 dvd k \<and> nlh + 4 \<le> p \<and> attrs_at m p as (nlh + k)"

text \<open>Everything outside the length field and the new attribute is as before.\<close>

definition kept_outside :: "bytes \<Rightarrow> bytes \<Rightarrow> nat \<Rightarrow> nat \<Rightarrow> nat \<Rightarrow> bool" where
  "kept_outside m m' nlh p q \<longleftrightarrow>
     length m' = length m \<and>
     (\<forall>i k. (i + k \<le> nlh \<or> nlh + 4 \<le> i) \<and> (i + k \<le> p \<or> q \<le> i) \<longrightarrow> load m' i k = load m i k)"

lemma put_effect:
  assumes msg: "message_at m nlh p as k" and put: "mnl_attr_put m nlh t d = Some m'"
    and small: "length d \<le> 65531" "length m < 2 ^ 31"
  shows "message_at m' nlh p (as @ [(t, d)]) (k + rounded (4 + length d))"
    "kept_outside m m' nlh (nlh + k) (nlh + k + 4 + length d)"
proof -
  obtain n where n: "nlmsg_len m nlh = Some n" "unat n = k" "4 dvd k" "nlh + 4 \<le> p" "attrs_at m p as (nlh + k)"
    using msg by (auto simp: message_at_def)
  let ?a = "nlh + k"
  have pa: "p \<le> ?a"
    using n(5) attrs_at_le by blast
  have "mnl_nlmsg_get_payload_tail m nlh = Some ?a"
    using tail_aligned [OF n(1)] n(2,3) by simp
  then obtain m1 m2 m3 n3 where st: "store m (?a + 2) (to_le 2 (unat t)) = Some m1"
    "store m1 ?a (to_le 2 (unat (attr_len d))) = Some m2" "store m2 (?a + 4) d = Some m3" "load_u32 m3 nlh = Some n3"
    "store m3 nlh (to_le 4 (unat (n3 + MNL_ALIGN (ucast (attr_len d))))) = Some m'"
    using put_stores [OF put] by blast
  have lens: "length m1 = length m" "length m2 = length m" "length m3 = length m" "length m' = length m"
    using length_store [OF st(1)] length_store [OF st(2)] length_store [OF st(3)] length_store [OF st(5)] by simp_all
  have cap: "?a + 4 + length d \<le> length m"
    using st(3) lens store_Some_iff [of m2 "?a + 4" d] by auto
  have keep: "load m' i j = load m i j" if "i + j \<le> nlh \<or> nlh + 4 \<le> i" "i + j \<le> ?a \<or> ?a + 4 + length d \<le> i" for i j
  proof -
    have "load m' i j = load m3 i j"
      by (rule load_store_other [OF st(5)]) (use that in auto)
    also have "\<dots> = load m2 i j"
      by (rule load_store_other [OF st(3)]) (use that in auto)
    also have "\<dots> = load m1 i j"
      by (rule load_store_other [OF st(2)]) (use that in auto)
    also have "\<dots> = load m i j"
      by (rule load_store_other [OF st(1)]) (use that in auto)
    finally show ?thesis .
  qed
  then show "kept_outside m m' nlh (nlh + k) (nlh + k + 4 + length d)"
    using lens by (simp add: kept_outside_def)
  have "load_u32 m3 nlh = load_u32 m nlh"
    using load_word_other(2) [OF st(3)] load_word_other(2) [OF st(2)] load_word_other(2) [OF st(1)] pa n(4) by auto
  then have n3: "n3 = n"
    using st(4) n(1) by (simp add: nlmsg_len_def)
  have new: "load_u16 m' ?a = Some (attr_len d)" "load_u16 m' (?a + 2) = Some t" "load m' (?a + 4) (length d) = Some d"
  proof -
    have "load_u16 m' ?a = load_u16 m3 ?a" "load_u16 m' (?a + 2) = load_u16 m3 (?a + 2)"
      "load m' (?a + 4) (length d) = load m3 (?a + 4) (length d)"
      using load_word_other(1) [OF st(5)] load_store_other [OF st(5)] pa n(4) by auto
    moreover have "load_u16 m3 ?a = load_u16 m2 ?a" "load_u16 m3 (?a + 2) = load_u16 m2 (?a + 2)"
      "load_u16 m2 (?a + 2) = load_u16 m1 (?a + 2)"
      using load_word_other(1) [OF st(3)] load_word_other(1) [OF st(2)] by auto
    ultimately show "load_u16 m' ?a = Some (attr_len d)" "load_u16 m' (?a + 2) = Some t" "load m' (?a + 4) (length d) = Some d"
      using stored_u16 [OF st(2)] stored_u16 [OF st(1)] load_store_same [OF st(3)] by simp_all
  qed
  have align: "unat (MNL_ALIGN (ucast (attr_len d)) :: u32) = rounded (4 + length d)"
    by (simp add: align_u16 unat_attr_len small(1))
  have "k + rounded (4 + length d) < 4294967296"
    using cap small by simp
  then have "unat (n + MNL_ALIGN (ucast (attr_len d))) = k + rounded (4 + length d)"
    using n(2) align by (simp add: unat_word_ariths)
  moreover have "nlmsg_len m' nlh = Some (n + MNL_ALIGN (ucast (attr_len d)))"
    using stored_u32 [OF st(5)] n3 by (simp add: nlmsg_len_def)
  moreover have "attrs_at m' p as ?a"
    by (rule attrs_at_frame [OF n(5)]) (use keep n(4) in auto)
  ultimately show "message_at m' nlh p (as @ [(t, d)]) (k + rounded (4 + length d))"
    using n(3,4) new small(1) by (auto simp: message_at_def attrs_at_append add.assoc)
qed

lemma put_defined:
  assumes "message_at m nlh p as k" "nlh + k + 4 + length d \<le> length m"
  shows "\<exists>m'. mnl_attr_put m nlh t d = Some m'"
proof -
  obtain n where n: "nlmsg_len m nlh = Some n" "unat n = k" "4 dvd k" "nlh + 4 \<le> p" "attrs_at m p as (nlh + k)"
    using assms(1) by (auto simp: message_at_def)
  let ?a = "nlh + k"
  have room: "nlh + 4 \<le> ?a"
    using n(4,5) attrs_at_le le_trans by blast
  have tail: "mnl_nlmsg_get_payload_tail m nlh = Some ?a"
    using tail_aligned [OF n(1)] n(2,3) by simp
  obtain m1 where m1: "store_u16 m (?a + 2) t = Some m1"
    using assms(2) store_Some_iff [of m "?a + 2" "to_le 2 (unat t)"] by (auto simp: store_u16_def)
  obtain m2 where m2: "store_u16 m1 ?a (attr_len d) = Some m2"
    using assms(2) store_Some_iff [of m1 ?a "to_le 2 (unat (attr_len d))"] length_store m1
    by (auto simp: store_u16_def)
  obtain m3 where m3: "store m2 (?a + 4) d = Some m3"
    using assms(2) store_Some_iff [of m2 "?a + 4" d] length_store m1 m2 by (auto simp: store_u16_def)
  have len: "length m3 = length m"
    using length_store m1 m2 m3 by (metis store_u16_def)
  then obtain n3 where n3: "nlmsg_len m3 nlh = Some n3"
    using room assms(2) by (cases "nlmsg_len m3 nlh") (auto simp: nlmsg_len_def load_u32_None)
  have "\<exists>m'. store_u32 m3 nlh w = Some m'" for w
    using room assms(2) len store_Some_iff [of m3 nlh "to_le 4 (unat w)"] by (simp add: store_u32_def)
  then show ?thesis
    using tail m1 m2 m3 n3
    unfolding mnl_attr_put_def attr_len_def [symmetric]
    by (simp add: Let_def mnl_attr_get_payload_def MNL_ATTR_HDRLEN_def)
qed

section \<open>Adding several attributes\<close>

fun put_all :: "bytes \<Rightarrow> nat \<Rightarrow> (u16 \<times> bytes) list \<Rightarrow> bytes option" where
  "put_all m nlh [] = Some m"
| "put_all m nlh ((t, d) # as) = Option.bind (mnl_attr_put m nlh t d) (\<lambda>m'. put_all m' nlh as)"

fun attrs_size :: "(u16 \<times> bytes) list \<Rightarrow> nat" where
  "attrs_size [] = 0"
| "attrs_size ((t, d) # as) = rounded (4 + length d) + attrs_size as"

abbreviation short_attrs :: "(u16 \<times> bytes) list \<Rightarrow> bool" where
  "short_attrs \<equiv> list_all (\<lambda>(t, d). length d \<le> 65531)"

lemma kept_outside_trans:
  assumes "kept_outside m m1 nlh a b" "kept_outside m1 m2 nlh c e" "a \<le> c" "b \<le> e"
  shows "kept_outside m m2 nlh a e"
  using assms unfolding kept_outside_def by auto

lemma put_all_effect:
  assumes "message_at m nlh p as k" "short_attrs attrs" "nlh + k + attrs_size attrs \<le> length m" "length m < 2 ^ 31"
  shows "\<exists>m'. put_all m nlh attrs = Some m' \<and> message_at m' nlh p (as @ attrs) (k + attrs_size attrs)
    \<and> kept_outside m m' nlh (nlh + k) (nlh + k + attrs_size attrs)"
  using assms
proof (induction attrs arbitrary: m as k)
  case Nil
  then show ?case by (simp add: kept_outside_def)
next
  case (Cons td attrs)
  obtain t d where td: "td = (t, d)" by (cases td)
  have d: "length d \<le> 65531" and room: "nlh + k + rounded (4 + length d) + attrs_size attrs \<le> length m"
    using Cons.prems td by simp_all
  have "nlh + k + 4 + length d \<le> length m"
    using room by linarith
  from put_defined [OF Cons.prems(1) this]
  obtain m1 where m1: "mnl_attr_put m nlh t d = Some m1" by blast
  note e = put_effect [OF Cons.prems(1) m1 d Cons.prems(4)]
  have "length m1 = length m"
    using e(2) by (simp add: kept_outside_def)
  then have "nlh + (k + rounded (4 + length d)) + attrs_size attrs \<le> length m1" "length m1 < 2 ^ 31"
    using room Cons.prems(4) by (simp_all only: add.assoc)
  with Cons.IH [OF e(1)] Cons.prems(2) td obtain m' where m': "put_all m1 nlh attrs = Some m'"
    "message_at m' nlh p ((as @ [(t, d)]) @ attrs) (k + rounded (4 + length d) + attrs_size attrs)"
    "kept_outside m1 m' nlh (nlh + (k + rounded (4 + length d))) (nlh + (k + rounded (4 + length d)) + attrs_size attrs)"
    by auto
  have "kept_outside m m' nlh (nlh + k) (nlh + (k + rounded (4 + length d)) + attrs_size attrs)"
    by (rule kept_outside_trans [OF e(2) m'(3)]) (simp, linarith)
  then show ?case
    using m1 m' td by (simp add: add.assoc)
qed

section \<open>Headers\<close>

lemma header_effect:
  assumes "nlh + 16 \<le> length m"
  shows "\<exists>m'. mnl_nlmsg_put_header m nlh = Some m' \<and> message_at m' nlh (nlh + 16) [] 16 \<and> length m' = length m"
proof -
  obtain m1 where m1: "store m nlh (replicate 16 0) = Some m1"
    using assms store_Some_iff [of m nlh "replicate 16 0"] by auto
  then have len: "length m1 = length m"
    by (rule length_store)
  then obtain m' where m': "store_u32 m1 nlh 16 = Some m'"
    using assms store_Some_iff [of m1 nlh "to_le 4 (unat (16 :: u32))"] by (auto simp: store_u32_def)
  have "nlmsg_len m' nlh = Some 16"
    using load_store_u32 [OF m'] by (simp add: nlmsg_len_def)
  moreover have "length m' = length m"
    using m' len length_store by (auto simp: store_u32_def)
  ultimately show ?thesis
    using m1 m' by (simp add: mnl_nlmsg_put_header_def MNL_NLMSG_HDRLEN_def message_at_def)
qed

lemma align_u64:
  assumes "unat (w :: u32) < 2 ^ 31"
  shows "unat (MNL_ALIGN (ucast w :: u64)) = rounded (unat w)" "ucast (MNL_ALIGN (ucast w :: u64)) = (word_of_nat (rounded (unat w)) :: u32)"
proof -
  have w: "unat (ucast w :: u64) = unat w"
    by (simp add: unat_ucast_up)
  have "unat (ucast w :: u64) + 3 < 2 ^ LENGTH(64)"
    unfolding w using assms by simp
  then show a: "unat (MNL_ALIGN (ucast w :: u64)) = rounded (unat w)"
    using unat_MNL_ALIGN [of "ucast w :: u64"] w by simp
  show "ucast (MNL_ALIGN (ucast w :: u64)) = (word_of_nat (rounded (unat w)) :: u32)"
    unfolding a [symmetric] by simp
qed

lemma extra_header_effect:
  assumes msg: "message_at m nlh (nlh + k) [] k" and room: "nlh + k + rounded (unat sz) \<le> length m" "length m < 2 ^ 31"
  shows "\<exists>m'. mnl_nlmsg_put_extra_header m nlh (ucast (sz :: u32)) = Some (m', nlh + k)
    \<and> message_at m' nlh (nlh + k + rounded (unat sz)) [] (k + rounded (unat sz)) \<and> length m' = length m"
proof -
  let ?r = "rounded (unat sz)"
  obtain n where n: "nlmsg_len m nlh = Some n" "unat n = k" "4 dvd k" "nlh + 4 \<le> nlh + k"
    using msg by (auto simp: message_at_def)
  have sz: "unat sz < 2 ^ 31"
    using room by simp
  have sum: "unat (n + word_of_nat ?r) = k + ?r"
    using room n(2) by (simp add: unat_word_ariths unat_of_nat)
  have "\<exists>m1. store_u32 m nlh (n + word_of_nat ?r) = Some m1"
    using room n(4) store_Some_iff [of m nlh "to_le 4 (unat (n + word_of_nat ?r))"] by (simp add: store_u32_def)
  then obtain m1 where m1: "store_u32 m nlh (n + word_of_nat ?r) = Some m1" by blast
  have len: "length m1 = length m"
    using m1 length_store by (auto simp: store_u32_def)
  have "\<exists>m2. store m1 (nlh + k) (replicate ?r 0) = Some m2"
    using room len store_Some_iff [of m1 "nlh + k" "replicate ?r 0"] by simp
  then obtain m2 where m2: "store m1 (nlh + k) (replicate ?r 0) = Some m2" by blast
  have "nlmsg_len m2 nlh = Some (n + word_of_nat ?r)"
    using load_word_other(2) [OF m2] load_store_u32 [OF m1] n(4) by (simp add: nlmsg_len_def)
  then have "message_at m2 nlh (nlh + k + ?r) [] (k + ?r)"
    using sum n(3,4) by (auto simp: message_at_def)
  moreover have "mnl_nlmsg_put_extra_header m nlh (ucast sz) = Some (m2, nlh + k)"
    using n m1 m2 align_u64 [OF sz] by (simp add: mnl_nlmsg_put_extra_header_def Let_def)
  ultimately show ?thesis
    using length_store [OF m2] len by simp
qed

section \<open>Parsing what was built\<close>

lemma payload_offset:
  "unat (sz :: u32) < 2 ^ 31 \<Longrightarrow> mnl_nlmsg_get_payload_offset nlh (ucast sz) = nlh + 16 + rounded (unat sz)"
  by (simp add: mnl_nlmsg_get_payload_offset_def MNL_NLMSG_HDRLEN_def align_u64)

lemma parse_message:
  assumes "message_at m nlh (nlh + 16 + rounded (unat sz)) as k" "nlh + k < 2 ^ 31" "unat sz < 2 ^ 31"
  shows "mnl_attr_parse m nlh sz (collect m) [] = Some (1, map (\<lambda>(t, d). (t AND NLA_TYPE_MASK, d)) as)"
proof -
  obtain n where n: "nlmsg_len m nlh = Some n" "unat n = k" "4 dvd k" "attrs_at m (nlh + 16 + rounded (unat sz)) as (nlh + k)"
    using assms(1) by (auto simp: message_at_def)
  have "mnl_nlmsg_get_payload_tail m nlh = Some (nlh + k)"
    using tail_aligned [OF n(1)] n(2,3) by simp
  then show ?thesis
    using parse_collects [OF n(4) assms(2)] by (simp add: mnl_attr_parse_def payload_offset [OF assms(3)])
qed

text \<open>C35: A message that is built in a buffer with enough room, from its header, an extra header of any
  size and any attributes with payloads of at most 65531 bytes, parses to exactly these attributes, in
  order and with their payloads, whatever the buffer held before.\<close>

theorem parse_returns_what_was_put:
  assumes "short_attrs attrs" "nlh + 16 + rounded (unat sz) + attrs_size attrs \<le> length m" "length m < 2 ^ 31"
  shows "\<exists>m1 m2 m3. mnl_nlmsg_put_header m nlh = Some m1
    \<and> mnl_nlmsg_put_extra_header m1 nlh (ucast (sz :: u32)) = Some (m2, nlh + 16)
    \<and> put_all m2 nlh attrs = Some m3
    \<and> mnl_attr_parse m3 nlh sz (collect m3) [] = Some (1, map (\<lambda>(t, d). (t AND NLA_TYPE_MASK, d)) attrs)"
proof -
  obtain m1 where m1: "mnl_nlmsg_put_header m nlh = Some m1" "message_at m1 nlh (nlh + 16) [] 16" "length m1 = length m"
    using header_effect [of nlh m] assms(2) by auto
  obtain m2 where m2: "mnl_nlmsg_put_extra_header m1 nlh (ucast sz) = Some (m2, nlh + 16)"
    "message_at m2 nlh (nlh + 16 + rounded (unat sz)) [] (16 + rounded (unat sz))" "length m2 = length m"
    using extra_header_effect [OF m1(2), of sz] m1(3) assms(2,3) by auto
  obtain m3 where m3: "put_all m2 nlh attrs = Some m3"
    "message_at m3 nlh (nlh + 16 + rounded (unat sz)) attrs (16 + rounded (unat sz) + attrs_size attrs)"
    using put_all_effect [OF m2(2) assms(1)] m2(3) assms(2,3) by (auto simp: add.assoc)
  have "mnl_attr_parse m3 nlh sz (collect m3) [] = Some (1, map (\<lambda>(t, d). (t AND NLA_TYPE_MASK, d)) attrs)"
    by (rule parse_message [OF m3(2)]) (use assms(2,3) in simp_all)
  then show ?thesis
    using m1(1) m2(1) m3(1) by blast
qed

section \<open>Nests\<close>

lemma nest_start_effect:
  assumes msg: "message_at m nlh p as k" and room: "nlh + k + 4 \<le> length m" "length m < 2 ^ 31"
  shows "\<exists>m'. mnl_attr_nest_start m nlh t = Some (m', nlh + k) \<and> message_at m' nlh (nlh + k + 4) [] (k + 4)
    \<and> load_u16 m' (nlh + k + 2) = Some (NLA_F_NESTED OR t) \<and> kept_outside m m' nlh (nlh + k) (nlh + k + 4)"
proof -
  obtain n where n: "nlmsg_len m nlh = Some n" "unat n = k" "4 dvd k" "nlh + 4 \<le> p" "attrs_at m p as (nlh + k)"
    using msg by (auto simp: message_at_def)
  have below: "nlh + 4 \<le> nlh + k"
    using n(4,5) attrs_at_le le_trans by blast
  obtain m1 where m1: "store m (nlh + k + 2) (to_le 2 (unat (NLA_F_NESTED OR t))) = Some m1"
    using room store_Some_iff [of m "nlh + k + 2" "to_le 2 (unat (NLA_F_NESTED OR t))"] by auto
  have n1: "load_u32 m1 nlh = Some n"
    using load_word_other(2) [OF m1, of nlh] below n(1) by (simp add: nlmsg_len_def)
  have sum: "unat (n + 4) = k + 4"
    using n(2) room by (simp add: unat_word_ariths)
  obtain m2 where m2: "store m1 nlh (to_le 4 (unat (n + 4))) = Some m2"
    using room below length_store [OF m1] store_Some_iff [of m1 nlh "to_le 4 (unat (n + 4))"] by auto
  have "mnl_attr_nest_start m nlh t = Some (m2, nlh + k)"
    using tail_aligned [OF n(1)] n(2,3) m1 m2 n1
    by (simp add: mnl_attr_nest_start_def store_split nlmsg_len_def)
  moreover have "message_at m2 nlh (nlh + k + 4) [] (k + 4)"
    using stored_u32 [OF m2] sum n(3) below by (auto simp: message_at_def nlmsg_len_def)
  moreover have "load_u16 m2 (nlh + k + 2) = Some (NLA_F_NESTED OR t)"
    using load_word_other(1) [OF m2, of "nlh + k + 2"] stored_u16 [OF m1] below by simp
  moreover have "kept_outside m m2 nlh (nlh + k) (nlh + k + 4)"
    using load_store_other [OF m2] load_store_other [OF m1] length_store [OF m1] length_store [OF m2]
    by (auto simp: kept_outside_def)
  ultimately show ?thesis by blast
qed

text \<open>The three steps of a nest.\<close>

definition put_nest :: "bytes \<Rightarrow> nat \<Rightarrow> u16 \<Rightarrow> (u16 \<times> bytes) list \<Rightarrow> (bytes \<times> nat) option" where
  "put_nest m nlh t attrs = do {
     (m1, start) \<leftarrow> mnl_attr_nest_start m nlh t;
     m2 \<leftarrow> put_all m1 nlh attrs;
     m3 \<leftarrow> mnl_attr_nest_end m2 nlh start;
     Some (m3, start) }"

lemma nest_built:
  assumes msg: "message_at m nlh p as k" and short: "short_attrs attrs"
    and room: "nlh + k + 4 + attrs_size attrs \<le> length m" "length m < 2 ^ 31" "4 + attrs_size attrs \<le> 65535"
  shows "\<exists>m'. put_nest m nlh t attrs = Some (m', nlh + k) \<and> attrs_at m' (nlh + k + 4) attrs (nlh + k + 4 + attrs_size attrs)
    \<and> nla_len m' (nlh + k) = Some (word_of_nat (4 + attrs_size attrs)) \<and> nla_type m' (nlh + k) = Some (NLA_F_NESTED OR t)
    \<and> kept_outside m m' nlh (nlh + k) (nlh + k + 4 + attrs_size attrs)"
proof -
  let ?s = "attrs_size attrs"
  obtain m1 where m1: "mnl_attr_nest_start m nlh t = Some (m1, nlh + k)" "message_at m1 nlh (nlh + k + 4) [] (k + 4)"
    "load_u16 m1 (nlh + k + 2) = Some (NLA_F_NESTED OR t)" "kept_outside m m1 nlh (nlh + k) (nlh + k + 4)"
    using nest_start_effect [OF msg] room by auto
  obtain m2 where m2: "put_all m1 nlh attrs = Some m2" "message_at m2 nlh (nlh + k + 4) attrs (k + 4 + ?s)"
    "kept_outside m1 m2 nlh (nlh + (k + 4)) (nlh + (k + 4) + ?s)"
    using put_all_effect [OF m1(2) short] m1(4) room by (auto simp: kept_outside_def)
  obtain n2 where n2: "nlmsg_len m2 nlh = Some n2" "unat n2 = k + 4 + ?s" "4 dvd (k + 4 + ?s)"
    "attrs_at m2 (nlh + k + 4) attrs (nlh + (k + 4 + ?s))"
    using m2(2) by (auto simp: message_at_def)
  have tail: "mnl_nlmsg_get_payload_tail m2 nlh = Some (nlh + (k + 4 + ?s))"
    using tail_aligned [OF n2(1)] n2(2,3) by simp
  have len: "length m2 = length m"
    using m1(4) m2(3) by (simp add: kept_outside_def)
  have below: "nlh + 4 \<le> nlh + k"
    using msg attrs_at_le le_trans unfolding message_at_def by blast
  let ?w = "word_of_nat (4 + ?s) :: u16"
  have w: "word_of_int (int (nlh + (k + 4 + ?s)) - int (nlh + k)) = ?w"
  proof -
    have "int (nlh + (k + 4 + ?s)) - int (nlh + k) = int (4 + ?s)" by simp
    then show ?thesis by (simp only: of_int_of_nat_eq)
  qed
  obtain m3 where m3: "store m2 (nlh + k) (to_le 2 (unat ?w)) = Some m3"
    using room len store_Some_iff [of m2 "nlh + k" "to_le 2 (unat ?w)"] by auto
  have put: "put_nest m nlh t attrs = Some (m3, nlh + k)"
    using m1(1) m2(1) tail m3 by (simp only: put_nest_def mnl_attr_nest_end_def store_split w bind.simps split_conv)
  have "attrs_at m3 (nlh + k + 4) attrs (nlh + (k + 4 + ?s))"
    by (rule attrs_at_frame [OF n2(4)], rule load_store_other [OF m3]) simp
  moreover have "nla_len m3 (nlh + k) = Some ?w"
    using stored_u16 [OF m3] by (simp only: nla_len_def)
  moreover have "nla_type m3 (nlh + k) = Some (NLA_F_NESTED OR t)"
  proof -
    have "load_u16 m2 (nlh + k + 2) = load_u16 m1 (nlh + k + 2)"
      using m2(3) below by (simp add: kept_outside_def load_u16_def)
    then show ?thesis
      using load_word_other(1) [OF m3, of "nlh + k + 2"] m1(3) by (simp add: nla_type_def)
  qed
  moreover have "kept_outside m m3 nlh (nlh + k) (nlh + k + 4 + ?s)"
  proof -
    have "kept_outside m m2 nlh (nlh + k) (nlh + k + 4 + ?s)"
      by (rule kept_outside_trans [OF m1(4), of m2 "nlh + (k + 4)"]) (use m2(3) in \<open>simp_all add: add.assoc\<close>)
    then show ?thesis
      using load_store_other [OF m3] length_store [OF m3] by (auto simp: kept_outside_def)
  qed
  ultimately show ?thesis
    using put by (auto simp: add.assoc)
qed

text \<open>A nest that is started, filled and ended parses to the attributes it was filled with, and what
  the message held before is unchanged.\<close>

theorem nest_returns_what_was_put:
  assumes "message_at m nlh p as k" "short_attrs attrs" "nlh + k + 4 + attrs_size attrs \<le> length m" "length m < 2 ^ 31"
    "4 + attrs_size attrs \<le> 65535"
  shows "\<exists>m' start. put_nest m nlh t attrs = Some (m', start) \<and> attrs_at m' p as start
    \<and> mnl_attr_get_type m' start = Some (t AND NLA_TYPE_MASK)
    \<and> mnl_attr_parse_nested m' start (collect m') [] = Some (1, map (\<lambda>(t, d). (t AND NLA_TYPE_MASK, d)) attrs)"
proof -
  let ?s = "attrs_size attrs"
  obtain m' where m': "put_nest m nlh t attrs = Some (m', nlh + k)" "attrs_at m' (nlh + k + 4) attrs (nlh + k + 4 + ?s)"
    "nla_len m' (nlh + k) = Some (word_of_nat (4 + ?s))" "nla_type m' (nlh + k) = Some (NLA_F_NESTED OR t)"
    "kept_outside m m' nlh (nlh + k) (nlh + k + 4 + ?s)"
    using nest_built [OF assms] by blast
  have old: "attrs_at m p as (nlh + k)" "nlh + 4 \<le> p"
    using assms(1) by (auto simp: message_at_def)
  have "attrs_at m' p as (nlh + k)"
    by (rule attrs_at_frame [OF old(1)]) (use m'(5) old(2) in \<open>auto simp: kept_outside_def\<close>)
  moreover have "mnl_attr_get_type m' (nlh + k) = Some (t AND NLA_TYPE_MASK)"
  proof -
    have "(NLA_F_NESTED OR t) AND NLA_TYPE_MASK = t AND NLA_TYPE_MASK"
      by (simp add: NLA_F_NESTED_def NLA_TYPE_MASK_def bit.conj_disj_distrib2)
    then show ?thesis
      using m'(4) by (simp add: mnl_attr_get_type_def)
  qed
  moreover have "unat (word_of_nat ?s :: u16) = ?s"
    unfolding unat_of_nat using assms(5) by simp
  then have "mnl_attr_parse_nested m' (nlh + k) (collect m') [] =
      attr_loop m' (nlh + k + 4 + ?s) (collect m') (nlh + k + 4) [] 1"
    using m'(3) by (simp add: mnl_attr_parse_nested_def mnl_attr_get_payload_len_def mnl_attr_get_payload_def MNL_ATTR_HDRLEN_def)
  then have "mnl_attr_parse_nested m' (nlh + k) (collect m') [] = Some (1, map (\<lambda>(t, d). (t AND NLA_TYPE_MASK, d)) attrs)"
    using parse_collects [OF m'(2), of "[]" 1] assms(3,4) by simp
  ultimately show ?thesis
    using m'(1) by blast
qed

section \<open>The checked variant\<close>

lemma put_check_room:
  assumes "nlmsg_len m nlh = Some n" "unat n < 2 ^ 31" "length d < 2 ^ 31"
  shows "unat (ucast n + word_of_nat MNL_ATTR_HDRLEN + MNL_ALIGN (word_of_nat (length d)) :: u64) = unat n + rounded (4 + length d)"
proof -
  have d: "unat (word_of_nat (length d) :: u64) = length d"
    unfolding unat_of_nat using assms(3) by simp
  have "unat (word_of_nat (length d) :: u64) + 3 < 2 ^ LENGTH(64)"
    unfolding d using assms(3) by simp
  then have align: "unat (MNL_ALIGN (word_of_nat (length d)) :: u64) = rounded (length d)"
    using unat_MNL_ALIGN [of "word_of_nat (length d) :: u64"] d by simp
  have "unat (ucast n :: u64) = unat n"
    by (simp add: unat_ucast_up)
  moreover have "rounded (4 + length d) = 4 + rounded (length d)"
    by presburger
  ultimately show ?thesis
    using assms align by (simp add: unat_word_ariths MNL_ATTR_HDRLEN_def)
qed

text \<open>Adding an attribute with the size check either refuses and changes nothing or adds it: it refuses
  exactly when the message with the attribute and its padding would exceed the size given, and nothing
  outside that many bytes is touched.\<close>

theorem checked_put_stays_in_buffer:
  assumes "message_at m nlh p as k" "nlh + unat buflen \<le> length m" "length m < 2 ^ 31" "k < 2 ^ 31" "length d \<le> 65531"
  shows "\<exists>m' ok. mnl_attr_put_check m nlh buflen t d = Some (m', ok)
    \<and> (ok \<longleftrightarrow> k + rounded (4 + length d) \<le> unat buflen)
    \<and> (ok \<longrightarrow> message_at m' nlh p (as @ [(t, d)]) (k + rounded (4 + length d)))
    \<and> (\<not> ok \<longrightarrow> m' = m)
    \<and> (\<forall>i j. i + j \<le> nlh \<or> nlh + unat buflen \<le> i \<longrightarrow> load m' i j = load m i j)"
proof -
  obtain n where n: "nlmsg_len m nlh = Some n" "unat n = k"
    using assms(1) by (auto simp: message_at_def)
  have below: "nlh + 4 \<le> nlh + k"
    using assms(1) attrs_at_le le_trans unfolding message_at_def by blast
  have size: "unat (ucast n + word_of_nat MNL_ATTR_HDRLEN + MNL_ALIGN (word_of_nat (length d)) :: u64) = k + rounded (4 + length d)"
    using put_check_room [OF n(1), of d] n(2) assms(4,5) by simp
  show ?thesis
  proof (cases "k + rounded (4 + length d) \<le> unat buflen")
    case True
    then have "nlh + k + 4 + length d \<le> length m"
      using assms(2) by linarith
    from put_defined [OF assms(1) this, of t] obtain m' where m': "mnl_attr_put m nlh t d = Some m'" by blast
    note e = put_effect [OF assms(1) m' assms(5,3)]
    have "load m' i j = load m i j" if "i + j \<le> nlh \<or> nlh + unat buflen \<le> i" for i j
    proof -
      have "i + j \<le> nlh + k \<or> nlh + k + 4 + length d \<le> i" "i + j \<le> nlh \<or> nlh + 4 \<le> i"
        using that True below by linarith+
      then show ?thesis
        using e(2) unfolding kept_outside_def by blast
    qed
    moreover have "mnl_attr_put_check m nlh buflen t d = Some (m', True)"
      using n m' size True by (simp add: mnl_attr_put_check_def word_less_nat_alt)
    ultimately show ?thesis
      using True e(1) by blast
  next
    case False
    then have "mnl_attr_put_check m nlh buflen t d = Some (m, False)"
      using n size by (simp add: mnl_attr_put_check_def word_less_nat_alt)
    then show ?thesis
      using False by blast
  qed
qed

section \<open>Parsing any bytes\<close>

lemma attr_loop_defined:
  assumes "stop \<le> length m" "length m + 65540 < 2 ^ 31"
    and cb: "\<And>a st l. start \<le> a \<Longrightarrow> nla_len m a = Some l \<Longrightarrow> 4 \<le> unat l \<Longrightarrow> a + unat l \<le> stop \<Longrightarrow> \<exists>r st'. cb a st = Some (r, st')"
    and "start \<le> attr" "attr < 2 ^ 31"
  shows "\<exists>r st'. attr_loop m stop cb attr st ret = Some (r, st')"
  using assms(1-2) cb assms(4-)
proof (induction m stop cb attr st ret rule: attr_loop.induct)
  case (1 m stop cb attr st ret)
  have diff: "int_of_diff stop attr = int stop - int attr"
    using "1.prems"(1,2,5) by (intro int_of_diff_small) simp_all
  have ok: "mnl_attr_ok m attr (int_of_diff stop attr) \<noteq> None"
    using "1.prems"(1) by (auto simp: mnl_attr_ok_def nla_len_def load_u16_None diff)
  show ?case
  proof (cases "mnl_attr_ok m attr (int_of_diff stop attr) = Some True")
    case False
    then have "mnl_attr_ok m attr (int_of_diff stop attr) = Some False"
      using ok by auto
    then show ?thesis
      by (simp add: attr_loop.simps [of m stop cb attr])
  next
    case True
    then obtain l where l: "nla_len m attr = Some l" "4 \<le> l" "uint l \<le> int stop - int attr"
      by (auto simp: mnl_attr_ok_def diff split: if_splits)
    have "4 \<le> unat l"
      using l(2) by (simp add: word_le_nat_alt)
    moreover have "attr + unat l \<le> stop"
      using l(3) unfolding uint_nat by linarith
    ultimately have l4: "4 \<le> unat l" "attr + unat l \<le> stop" .
    obtain r st' where cb: "cb attr st = Some (r, st')"
      using "1.prems"(3) [OF "1.prems"(4) l(1) l4] by blast
    have nxt: "mnl_attr_next m attr = Some (attr + rounded (unat l))"
      using l(1) by (simp add: mnl_attr_next_def align_u16)
    have "unat l < 65536"
      using unat_bound [of l] by simp
    then have small: "attr + rounded (unat l) < 2 ^ 31"
      using l4(2) "1.prems"(1,2) by simp
    show ?thesis
    proof (cases "r \<le> 0")
      case True
      then show ?thesis
        using \<open>mnl_attr_ok m attr (int_of_diff stop attr) = Some True\<close> cb by (simp add: attr_loop.simps [of m stop cb attr])
    next
      case False
      have "\<exists>r' st''. attr_loop m stop cb (attr + rounded (unat l)) st' r = Some (r', st'')"
        by (rule "1.IH" [OF True _ cb _ False nxt "1.prems"(1,2) "1.prems"(3)]) (use "1.prems"(4) small in simp_all)
      then show ?thesis
        using True cb nxt False by (simp add: attr_loop.simps [of m stop cb attr])
    qed
  qed
qed

text \<open>C36: Parsing the attributes of any message never reads outside it and always ends, whatever bytes it
  holds, as long as its length, rounded up, lies in the buffer: the callback is given only attributes
  whose header and payload are inside the message, and if it is defined on those the parser returns.\<close>

theorem parser_stays_in_message:
  assumes "nlmsg_len m nlh = Some n" "nlh + unat (MNL_ALIGN n) \<le> length m" "length m + 65540 < 2 ^ 31"
    "unat off < 2 ^ 29" "nlh < 2 ^ 30"
    and "\<And>a st l. nlh + 16 \<le> a \<Longrightarrow> nla_len m a = Some l \<Longrightarrow> 4 \<le> unat l \<Longrightarrow> a + unat l \<le> nlh + unat (MNL_ALIGN n)
           \<Longrightarrow> \<exists>r st'. cb a st = Some (r, st')"
  shows "\<exists>r st'. mnl_attr_parse m nlh off cb st = Some (r, st')"
proof -
  have off: "mnl_nlmsg_get_payload_offset nlh (ucast off) = nlh + 16 + rounded (unat off)"
    by (rule payload_offset) (use assms(4) in simp)
  have "nlh + 16 + rounded (unat off) < 2 ^ 31"
    using assms(4,5) by simp
  then have "\<exists>r st'. attr_loop m (nlh + unat (MNL_ALIGN n)) cb (nlh + 16 + rounded (unat off)) st 1 = Some (r, st')"
    by (intro attr_loop_defined [where start = "nlh + 16"] assms) simp_all
  then show ?thesis
    using assms(1) by (simp add: mnl_attr_parse_def mnl_nlmsg_get_payload_tail_def off)
qed

section \<open>Examples\<close>

theorem parse_returns_what_was_put_witness:
  "\<exists>m1 m2 m3. mnl_nlmsg_put_header (replicate 64 0) 0 = Some m1
    \<and> mnl_nlmsg_put_extra_header m1 0 (ucast (4 :: u32)) = Some (m2, 0 + 16)
    \<and> put_all m2 0 [(1, [7]), (2, [8, 9])] = Some m3
    \<and> mnl_attr_parse m3 0 4 (collect m3) [] = Some (1, map (\<lambda>(t, d). (t AND NLA_TYPE_MASK, d)) [(1, [7]), (2, [8, 9])])"
  by (rule parse_returns_what_was_put) simp_all

text \<open>An empty message in a buffer of 64 bytes.\<close>

definition empty_message :: bytes where
  "empty_message = 16 # replicate 63 0"

lemma empty_message_len: "nlmsg_len empty_message 0 = Some 16"
  by code_simp

lemma empty_message_at: "message_at empty_message 0 16 [] 16"
  by (simp add: message_at_def empty_message_len)

lemma length_empty_message: "length empty_message = 64"
  by (simp add: empty_message_def)

theorem nest_returns_what_was_put_witness:
  "\<exists>m' start. put_nest empty_message 0 3 [(1, [7])] = Some (m', start) \<and> attrs_at m' 16 [] start
    \<and> mnl_attr_get_type m' start = Some (3 AND NLA_TYPE_MASK)
    \<and> mnl_attr_parse_nested m' start (collect m') [] = Some (1, map (\<lambda>(t, d). (t AND NLA_TYPE_MASK, d)) [(1, [7])])"
  by (rule nest_returns_what_was_put [OF empty_message_at]) (simp_all add: length_empty_message)

theorem checked_put_stays_in_buffer_witness:
  "\<exists>m' ok. mnl_attr_put_check empty_message 0 20 1 [7] = Some (m', ok) \<and> \<not> ok \<and> m' = empty_message"
  using checked_put_stays_in_buffer [OF empty_message_at, of 20 "[7]" 1] by (auto simp: length_empty_message)

theorem parser_stays_in_message_witness:
  "\<exists>r st'. mnl_attr_parse empty_message 0 0 (\<lambda>a st. Some (1, st + 1)) (0 :: nat) = Some (r, st')"
  by (rule parser_stays_in_message [OF empty_message_len]) (simp_all add: length_empty_message MNL_ALIGN_def)

end
