(* ===== verification/Mnl_Run.thy ===== *)
theory Mnl_Run
  imports Mnl_Attr
begin

text \<open>
  The run of callbacks over the messages of a buffer (libmnl/callback.c). The loop need not end, so it
  is a partial function: \<open>None\<close> is a run that goes on for ever, \<open>Fault\<close> undefined behaviour.
\<close>

section \<open>Callbacks\<close>

text \<open>A callback gets the position of a message and the user data; it may set \<^verbatim>\<open>errno\<close>.\<close>

type_synonym 's mnl_cb = "nat \<Rightarrow> 's \<Rightarrow> (i32 \<times> errno option \<times> 's) option"

definition MNL_CB_ERROR :: i32 where "MNL_CB_ERROR = - 1"
definition MNL_CB_STOP :: i32 where "MNL_CB_STOP = 0"
definition MNL_CB_OK :: i32 where "MNL_CB_OK = 1"

definition mnl_cb_noop :: "'s mnl_cb" where
  "mnl_cb_noop nlh st = Some (MNL_CB_OK, None, st)"

definition mnl_cb_stop :: "'s mnl_cb" where
  "mnl_cb_stop nlh st = Some (MNL_CB_STOP, None, st)"

definition mnl_cb_error :: "bytes \<Rightarrow> 's mnl_cb" where
  "mnl_cb_error m nlh st = do {
     n \<leftarrow> nlmsg_len m nlh;
     if ucast n < mnl_nlmsg_size 20 then Some (MNL_CB_ERROR, Some EBADMSG, st)
     else do {
       w \<leftarrow> load_u32 m (mnl_nlmsg_get_payload nlh);
       let error = sint w;
       if error = - (2 ^ 31) then None
       else Some (if error = 0 then MNL_CB_STOP else MNL_CB_ERROR, Some (Errno \<bar>error\<bar>), st) } }"

definition default_cb_array :: "bytes \<Rightarrow> u16 \<Rightarrow> 's mnl_cb option" where
  "default_cb_array m type =
     (if type = 1 then Some mnl_cb_noop else if type = 2 then Some (mnl_cb_error m)
      else if type = 3 then Some mnl_cb_stop else if type = 4 then Some mnl_cb_noop else None)"

section \<open>The run\<close>

datatype 's cb_run = Ret i32 "errno option" 's | Fault

definition NLMSG_MIN_TYPE :: u16 where "NLMSG_MIN_TYPE = 0x10"
definition NLM_F_DUMP_INTR :: u16 where "NLM_F_DUMP_INTR = 16"

text \<open>The callback a message goes to: the outer \<open>None\<close> is a read past the array of control callbacks,
  the inner one that there is no callback.\<close>

definition pick_cb ::
  "bytes \<Rightarrow> 's mnl_cb option \<Rightarrow> ('s mnl_cb option) list option \<Rightarrow> nat \<Rightarrow> u16 \<Rightarrow> 's mnl_cb option option" where
  "pick_cb m cb_data ctl ctl_len type =
     (if type \<ge> NLMSG_MIN_TYPE then Some cb_data
      else if unat type < ctl_len then
        (case ctl of
           None \<Rightarrow> Some None
         | Some cbs \<Rightarrow> if unat type < length cbs then Some (cbs ! unat type) else None)
      else Some (default_cb_array m type))"

definition check_message :: "u32 \<Rightarrow> u32 \<Rightarrow> u32 \<Rightarrow> u32 \<Rightarrow> u16 \<Rightarrow> errno option" where
  "check_message portid seq pid nseq flags =
     (if \<not> mnl_nlmsg_portid_ok pid portid then Some ESRCH
      else if \<not> mnl_nlmsg_seq_ok nseq seq then Some EPROTO
      else if flags AND NLM_F_DUMP_INTR \<noteq> 0 then Some EINTR else None)"

text \<open>The body of the loop for one message: \<open>Inl\<close> ends the run, \<open>Inr\<close> goes on.\<close>

definition handle_message ::
  "bytes \<Rightarrow> u32 \<Rightarrow> u32 \<Rightarrow> (u16 \<Rightarrow> 's mnl_cb option option) \<Rightarrow> nat \<Rightarrow> i32 \<times> errno option \<times> 's
     \<Rightarrow> 's cb_run + i32 \<times> errno option \<times> 's" where
  "handle_message m seq portid pick nlh rs =
     (case (nlmsg_type m nlh, nlmsg_flags m nlh, nlmsg_seq m nlh, nlmsg_pid m nlh, rs) of
        (Some type, Some flags, Some nseq, Some pid, (ret, en, st)) \<Rightarrow>
          (case check_message portid seq pid nseq flags of
             Some e \<Rightarrow> Inl (Ret (- 1) (Some e) st)
           | None \<Rightarrow>
               (case pick type of
                  None \<Rightarrow> Inl Fault
                | Some None \<Rightarrow> Inr (ret, en, st)
                | Some (Some cb) \<Rightarrow>
                    (case cb nlh st of
                       None \<Rightarrow> Inl Fault
                     | Some (r, e, st') \<Rightarrow>
                         let en' = (if e = None then en else e) in
                         if r \<le> MNL_CB_STOP then Inl (Ret r en' st') else Inr (r, en', st'))))
      | _ \<Rightarrow> Inl Fault)"

partial_function (option) cb_loop ::
  "bytes \<Rightarrow> u32 \<Rightarrow> u32 \<Rightarrow> (u16 \<Rightarrow> 's mnl_cb option option) \<Rightarrow> nat \<Rightarrow> i32 \<Rightarrow> i32 \<times> errno option \<times> 's
     \<Rightarrow> 's cb_run option" where
  "cb_loop m seq portid pick nlh len rs =
     (case mnl_nlmsg_ok m nlh len of
        None \<Rightarrow> Some Fault
      | Some ok \<Rightarrow>
          if \<not> ok then Some (case rs of (ret, en, st) \<Rightarrow> Ret ret en st)
          else (case handle_message m seq portid pick nlh rs of
                  Inl r \<Rightarrow> Some r
                | Inr rs' \<Rightarrow>
                    (case mnl_nlmsg_next m nlh len of
                       None \<Rightarrow> Some Fault
                     | Some (nlh', len') \<Rightarrow> cb_loop m seq portid pick nlh' len' rs')))"

definition mnl_cb_run2 ::
  "bytes \<Rightarrow> nat \<Rightarrow> u64 \<Rightarrow> u32 \<Rightarrow> u32 \<Rightarrow> 's mnl_cb option \<Rightarrow> ('s mnl_cb option) list option \<Rightarrow> nat \<Rightarrow> 's \<Rightarrow> 's cb_run option" where
  "mnl_cb_run2 m buf numbytes seq portid cb_data ctl ctl_len st =
     cb_loop m seq portid (pick_cb m cb_data ctl ctl_len) buf (sint (ucast numbytes :: u32)) (MNL_CB_OK, None, st)"

definition mnl_cb_run ::
  "bytes \<Rightarrow> nat \<Rightarrow> u64 \<Rightarrow> u32 \<Rightarrow> u32 \<Rightarrow> 's mnl_cb option \<Rightarrow> 's \<Rightarrow> 's cb_run option" where
  "mnl_cb_run m buf numbytes seq portid cb_data st = mnl_cb_run2 m buf numbytes seq portid cb_data None 0 st"

section \<open>The walk over the messages\<close>

lemma sint_of_int: "- 2147483648 \<le> i \<Longrightarrow> i < 2147483648 \<Longrightarrow> sint (word_of_int i :: u32) = i"
  unfolding signed_of_int of_int_eq_id id_apply by (rule signed_take_bit_int_eq_self) simp_all

lemma sint_small:
  assumes "unat (w :: u32) < 2147483648"
  shows "sint w = int (unat w)"
proof -
  have "sint (word_of_int (int (unat w)) :: u32) = int (unat w)"
    by (rule sint_of_int) (use assms in linarith)+
  then show ?thesis
    by simp
qed

lemma next_message:
  assumes "nlmsg_len m nlh = Some n" "unat n < 2147483648" "16 \<le> len" "int (unat n) \<le> len" "len < 2147483648"
  shows "mnl_nlmsg_next m nlh len = Some (nlh + rounded (unat n), len - int (rounded (unat n)))"
proof -
  have a: "unat (MNL_ALIGN n) = rounded (unat n)"
    by (rule align_u32) (use assms(2) in linarith)
  have b: "rounded (unat n) \<le> unat n + 3" "rounded (unat n) < 2147483652"
    using assms(2) by presburger+
  have "sint (word_of_int len - MNL_ALIGN n) = len - int (rounded (unat n))"
  proof -
    have "MNL_ALIGN n = word_of_int (int (rounded (unat n)))"
      using a by (metis word_of_int_uint uint_nat)
    then have "word_of_int len - MNL_ALIGN n = (word_of_int (len - int (rounded (unat n))) :: u32)"
      by simp
    moreover have "- 2147483648 \<le> len - int (rounded (unat n))" "len - int (rounded (unat n)) < 2147483648"
      using assms(3-5) b by linarith+
    ultimately show ?thesis
      by (simp only: sint_of_int)
  qed
  then show ?thesis
    using assms(1) a by (simp add: mnl_nlmsg_next_def)
qed

lemma message_ok:
  assumes "nlmsg_len m nlh = Some n" "unat n < 2147483648" "16 \<le> len"
  shows "mnl_nlmsg_ok m nlh len = Some (16 \<le> unat n \<and> int (unat n) \<le> len)"
proof -
  have "sint n = int (unat n)"
    by (rule sint_small) (rule assms(2))
  then show ?thesis
    using assms by (simp add: mnl_nlmsg_ok_def word_le_nat_alt)
qed

text \<open>The buffer holds the messages at the positions of the list, one after the other, up to \<open>e\<close>.\<close>

fun messages_at :: "bytes \<Rightarrow> nat \<Rightarrow> nat list \<Rightarrow> nat \<Rightarrow> bool" where
  "messages_at m p [] e \<longleftrightarrow> p = e"
| "messages_at m p (q # qs) e \<longleftrightarrow>
     q = p \<and>
     (case nlmsg_len m p of
        None \<Rightarrow> False
      | Some n \<Rightarrow> 16 \<le> unat n \<and> unat n < 2147483648 \<and> messages_at m (p + rounded (unat n)) qs e)"

text \<open>What the run promises: the messages are handled in order, each once, until one of them ends it.\<close>

fun handle_all ::
  "(nat \<Rightarrow> i32 \<times> errno option \<times> 's \<Rightarrow> 's cb_run + i32 \<times> errno option \<times> 's) \<Rightarrow> nat list
     \<Rightarrow> i32 \<times> errno option \<times> 's \<Rightarrow> 's cb_run" where
  "handle_all h [] (ret, en, st) = Ret ret en st"
| "handle_all h (q # qs) rs = (case h q rs of Inl r \<Rightarrow> r | Inr rs' \<Rightarrow> handle_all h qs rs')"

lemma messages_at_le: "messages_at m p qs e \<Longrightarrow> p \<le> e"
  by (induction m p qs e rule: messages_at.induct) (fastforce split: option.splits)+

lemma cb_loop_end: "len < 16 \<Longrightarrow> cb_loop m seq portid pick nlh len rs = Some (case rs of (ret, en, st) \<Rightarrow> Ret ret en st)"
  by (simp add: cb_loop.simps mnl_nlmsg_ok_def)

lemma cb_loop_handles:
  assumes "messages_at m p qs e" "e < 2147483648"
  shows "cb_loop m seq portid pick p (int e - int p) rs = Some (handle_all (handle_message m seq portid pick) qs rs)"
  using assms
proof (induction m p qs e arbitrary: rs rule: messages_at.induct)
  case (1 m p e)
  then show ?case
    by (cases rs) (simp add: cb_loop_end)
next
  case (2 m p q qs e)
  then obtain n where n: "q = p" "nlmsg_len m p = Some n" "16 \<le> unat n" "unat n < 2147483648"
    "messages_at m (p + rounded (unat n)) qs e"
    by (auto split: option.splits)
  have le: "p + rounded (unat n) \<le> e"
    using n(5) by (rule messages_at_le)
  have len: "16 \<le> int e - int p" "int (unat n) \<le> int e - int p" "int e - int p < 2147483648"
    using le n(3) "2.prems"(2) by presburger+
  have IH: "cb_loop m seq portid pick (p + rounded (unat n)) (int e - int (p + rounded (unat n))) rs'
      = Some (handle_all (handle_message m seq portid pick) qs rs')" for rs'
    using "2.IH" [OF n(2)] n(5) "2.prems"(2) by blast
  have "mnl_nlmsg_ok m p (int e - int p) = Some True"
    using message_ok [OF n(2,4) len(1)] n(3) len(2) by simp
  moreover have "mnl_nlmsg_next m p (int e - int p) = Some (p + rounded (unat n), int e - int (p + rounded (unat n)))"
    using next_message [OF n(2,4) len] by (simp only: of_nat_add) (simp add: algebra_simps)
  ultimately show ?case
    using IH n(1) by (subst cb_loop.simps) (simp split: sum.splits)
qed

section \<open>Every run ends\<close>

lemma not_fault: "r \<noteq> Fault \<Longrightarrow> \<exists>ret en st. r = Ret ret en st"
  by (cases r) simp_all

text \<open>The positions a run from \<open>buf\<close> over the bytes up to \<open>e\<close> comes to: each message that lies
  inside leads to the one behind it.\<close>

inductive comes_to :: "bytes \<Rightarrow> nat \<Rightarrow> nat \<Rightarrow> nat \<Rightarrow> bool" for m e buf where
  first: "comes_to m e buf buf"
| behind: "comes_to m e buf (q + rounded (unat n))"
    if "comes_to m e buf q" "nlmsg_len m q = Some n" "16 \<le> unat n" "q + unat n \<le> e"

lemma cb_loop_returns:
  assumes plain: "\<And>q n. comes_to m e buf q \<Longrightarrow> q + 16 \<le> e \<Longrightarrow> nlmsg_len m q = Some n \<Longrightarrow> unat n < 2147483648"
    and handled: "\<And>q n rs. comes_to m e buf q \<Longrightarrow> nlmsg_len m q = Some n \<Longrightarrow> 16 \<le> unat n \<Longrightarrow> q + unat n \<le> e
      \<Longrightarrow> handle_message m seq portid pick q rs \<noteq> Inl Fault"
    and e: "e \<le> length m" "e < 2147483648"
    and p: "comes_to m e buf p"
  shows "\<exists>ret en st'. cb_loop m seq portid pick p (int e - int p) rs = Some (Ret ret en st')"
  using p
proof (induction "nat (int e - int p)" arbitrary: p rs rule: less_induct)
  case less
  show ?case
  proof (cases "int e - int p < 16")
    case True
    then show ?thesis
      by (cases rs) (simp add: cb_loop_end)
  next
    case False
    then have "p + 4 \<le> length m" and room: "p + 16 \<le> e"
      using e(1) by linarith+
    then obtain n where n: "nlmsg_len m p = Some n"
      unfolding nlmsg_len_def using load_u32_Some by blast
    have small: "unat n < 2147483648"
      using plain [OF less.prems room n] .
    have ok: "mnl_nlmsg_ok m p (int e - int p) = Some (16 \<le> unat n \<and> int (unat n) \<le> int e - int p)"
      by (rule message_ok [OF n small]) (use False in linarith)
    show ?thesis
    proof (cases "16 \<le> unat n \<and> int (unat n) \<le> int e - int p")
      case False
      then show ?thesis
        using ok by (cases rs) (simp add: cb_loop.simps)
    next
      case True
      then have inside: "16 \<le> unat n" "p + unat n \<le> e"
        by linarith+
      have nx: "mnl_nlmsg_next m p (int e - int p) = Some (p + rounded (unat n), int e - int p - int (rounded (unat n)))"
        by (rule next_message [OF n small]) (use False True e(2) in linarith)+
      have h: "handle_message m seq portid pick p rs \<noteq> Inl Fault"
        by (rule handled [OF less.prems n inside])
      have "\<exists>ret en st'. cb_loop m seq portid pick (p + rounded (unat n)) (int e - int (p + rounded (unat n))) rs'
          = Some (Ret ret en st')" for rs'
      proof (rule less.hyps)
        have "16 \<le> rounded (unat n)"
          using inside(1) by presburger
        then show "nat (int e - int (p + rounded (unat n))) < nat (int e - int p)"
          using False by linarith
        show "comes_to m e buf (p + rounded (unat n))"
          by (rule comes_to.behind [OF less.prems n inside])
      qed
      then have "\<exists>ret en st'. cb_loop m seq portid pick (p + rounded (unat n)) (int e - int p - int (rounded (unat n))) rs'
          = Some (Ret ret en st')" for rs'
        by (simp add: algebra_simps)
      then show ?thesis
        using ok True nx h by (subst cb_loop.simps) (auto split: sum.splits intro: not_fault)
    qed
  qed
qed

lemma default_cb_defined:
  assumes "default_cb_array m t = Some cb" "nlmsg_type m q = Some t" "nlmsg_len m q = Some n" "q + unat n \<le> length m"
    "nlmsg_type m q = Some 2 \<Longrightarrow> 36 \<le> unat n \<Longrightarrow> load_u32 m (q + 16) \<noteq> Some 0x80000000"
  shows "cb q st \<noteq> None"
proof (cases "t = 2")
  case False
  then show ?thesis
    using assms(1) by (auto simp: default_cb_array_def mnl_cb_noop_def mnl_cb_stop_def split: if_splits)
next
  case True
  then have cb: "cb = mnl_cb_error m"
    using assms(1) by (simp add: default_cb_array_def)
  show ?thesis
  proof (cases "(ucast n :: u64) < mnl_nlmsg_size 20")
    case True
    then show ?thesis
      using assms(3) by (simp add: cb mnl_cb_error_def)
  next
    case False
    then have big: "36 \<le> unat n"
      by (simp add: mnl_nlmsg_size_def MNL_NLMSG_HDRLEN_def word_less_nat_alt unat_ucast_up)
    then have "q + 16 + 4 \<le> length m"
      using assms(4) by linarith
    then obtain w where w: "load_u32 m (q + 16) = Some w"
      using load_u32_Some by blast
    have "sint w \<noteq> - (2 ^ 31)"
    proof
      assume "sint w = - (2 ^ 31)"
      moreover have "w = word_of_int (sint w)"
        by simp
      ultimately have "w = word_of_int (- (2 ^ 31))"
        by (simp only:)
      then show False
        using w assms(2,5) big \<open>t = 2\<close> by simp
    qed
    then show ?thesis
      using w assms(3) False by (simp add: cb mnl_cb_error_def mnl_nlmsg_get_payload_def MNL_NLMSG_HDRLEN_def Let_def)
  qed
qed

lemma handle_message_defined:
  assumes "nlmsg_len m q = Some n" "16 \<le> unat n" "q + unat n \<le> length m"
    and data: "\<And>cb st. cb_data = Some cb \<Longrightarrow> cb q st \<noteq> None"
    and err: "nlmsg_type m q = Some 2 \<Longrightarrow> 36 \<le> unat n \<Longrightarrow> load_u32 m (q + 16) \<noteq> Some 0x80000000"
  shows "handle_message m seq portid (pick_cb m cb_data None 0) q rs \<noteq> Inl Fault"
proof -
  have q: "q + 16 \<le> length m"
    using assms(2,3) by linarith
  obtain t where t: "nlmsg_type m q = Some t"
    using q by (cases "nlmsg_type m q") (auto simp: nlmsg_type_def load_u16_None)
  obtain fl where fl: "nlmsg_flags m q = Some fl"
    using q by (cases "nlmsg_flags m q") (auto simp: nlmsg_flags_def load_u16_None)
  obtain sq where sq: "nlmsg_seq m q = Some sq"
    using q by (cases "nlmsg_seq m q") (auto simp: nlmsg_seq_def load_u32_None)
  obtain pd where pd: "nlmsg_pid m q = Some pd"
    using q by (cases "nlmsg_pid m q") (auto simp: nlmsg_pid_def load_u32_None)
  obtain c where c: "pick_cb m cb_data None 0 t = Some c" "\<And>cb st. c = Some cb \<Longrightarrow> cb q st \<noteq> None"
  proof (cases "t \<ge> NLMSG_MIN_TYPE")
    case True
    then show ?thesis
      using that [of cb_data] data by (simp add: pick_cb_def)
  next
    case False
    show ?thesis
    proof (rule that)
      show "pick_cb m cb_data None 0 t = Some (default_cb_array m t)"
        using False by (simp add: pick_cb_def)
      show "cb q st \<noteq> None" if "default_cb_array m t = Some cb" for cb st
        using that t assms(1,3) err by (rule default_cb_defined)
    qed
  qed
  obtain ret en st where rs: "rs = (ret, en, st)"
    by (cases rs)
  show ?thesis
  proof (cases c)
    case None
    then show ?thesis
      by (simp add: handle_message_def t fl sq pd c(1) rs split: option.splits)
  next
    case (Some cb)
    then obtain r e st' where "cb q st = Some (r, e, st')"
      using c(2) by (metis option.exhaust prod_cases3)
    then show ?thesis
      using Some by (simp add: handle_message_def t fl sq pd c(1) rs Let_def split: option.splits)
  qed
qed

lemma int_of_numbytes:
  assumes "unat (numbytes :: u64) < 2147483648"
  shows "sint (ucast numbytes :: u32) = int (unat numbytes)"
proof -
  have "unat (ucast numbytes :: u32) = unat numbytes"
    using assms by (simp add: unsigned_ucast_eq unsigned_take_bit_eq take_bit_nat_eq_self)
  then show ?thesis
    using sint_small [of "ucast numbytes"] assms by (simp only:)
qed

lemma mnl_cb_run_loop:
  "unat numbytes < 2147483648 \<Longrightarrow> mnl_cb_run m buf numbytes seq portid cb_data st =
     cb_loop m seq portid (pick_cb m cb_data None 0) buf (int (buf + unat numbytes) - int buf) (MNL_CB_OK, None, st)"
  by (simp only: mnl_cb_run_def mnl_cb_run2_def int_of_numbytes of_nat_add add_diff_cancel_left')

section \<open>A length that never ends the run\<close>

lemma cb_loop_stuck:
  assumes "mnl_nlmsg_ok m nlh len = Some True" "mnl_nlmsg_next m nlh len = Some (nlh, len)"
    and goes_on: "\<And>rs. \<exists>rs'. handle_message m seq portid pick nlh rs = Inr rs'"
  shows "cb_loop m seq portid pick nlh len rs = None"
proof (rule ccontr)
  assume "cb_loop m seq portid pick nlh len rs \<noteq> None"
  then obtain r where "cb_loop m seq portid pick nlh len rs = Some r"
    by blast
  then have "\<not> (m = m \<and> seq = seq \<and> portid = portid \<and> pick = pick \<and> nlh = nlh \<and> len = len)"
  proof (rule cb_loop.raw_induct [where P = "\<lambda>m' seq' portid' pick' nlh' len' rs r.
      \<not> (m' = m \<and> seq' = seq \<and> portid' = portid \<and> pick' = pick \<and> nlh' = nlh \<and> len' = len)", rotated])
    fix f m' seq' portid' pick' nlh' len' rs r
    assume IH: "\<And>m' seq' portid' pick' nlh' len' rs r. f m' seq' portid' pick' nlh' len' rs = Some r
        \<Longrightarrow> \<not> (m' = m \<and> seq' = seq \<and> portid' = portid \<and> pick' = pick \<and> nlh' = nlh \<and> len' = len)"
      and "(case mnl_nlmsg_ok m' nlh' len' of
        None \<Rightarrow> Some Fault
      | Some ok \<Rightarrow>
          if \<not> ok then Some (case rs of (ret, en, st) \<Rightarrow> Ret ret en st)
          else (case handle_message m' seq' portid' pick' nlh' rs of
                  Inl r \<Rightarrow> Some r
                | Inr rs' \<Rightarrow>
                    (case mnl_nlmsg_next m' nlh' len' of
                       None \<Rightarrow> Some Fault
                     | Some (nlh1, len1) \<Rightarrow> f m' seq' portid' pick' nlh1 len1 rs'))) = Some r"
    moreover have "f m seq portid pick nlh len rs' \<noteq> Some r" for rs'
      using IH by blast
    ultimately show "\<not> (m' = m \<and> seq' = seq \<and> portid' = portid \<and> pick' = pick \<and> nlh' = nlh \<and> len' = len)"
      using goes_on [of rs] assms(1,2) by auto
  qed
  then show False
    by simp
qed

lemma huge_length:
  assumes "nlmsg_len m nlh = Some 0xFFFFFFFF" "16 \<le> len" "len < 2147483648"
  shows "mnl_nlmsg_ok m nlh len = Some True" "mnl_nlmsg_next m nlh len = Some (nlh, len)"
proof -
  have "sint (0xFFFFFFFF :: u32) = - 1"
    by simp
  then show "mnl_nlmsg_ok m nlh len = Some True"
    using assms by (simp add: mnl_nlmsg_ok_def)
  have "MNL_ALIGN (0xFFFFFFFF :: u32) = 0"
    by (simp add: MNL_ALIGN_def)
  moreover have "sint (word_of_int len :: u32) = len"
    by (rule sint_of_int) (use assms(2,3) in linarith)+
  ultimately show "mnl_nlmsg_next m nlh len = Some (nlh, len)"
    using assms(1) by (simp add: mnl_nlmsg_next_def)
qed

section \<open>Properties\<close>

text \<open>A run over a buffer of complete messages hands each of them once and in order to the callback its
  type selects, until one is refused or a callback ends the run, and returns what that gave.\<close>

theorem run_handles_each_message_once:
  assumes "messages_at m buf qs (buf + unat numbytes)" "buf + unat numbytes < 2147483648"
  shows "mnl_cb_run m buf numbytes seq portid cb_data st =
    Some (handle_all (handle_message m seq portid (pick_cb m cb_data None 0)) qs (MNL_CB_OK, None, st))"
proof -
  have "unat numbytes < 2147483648"
    using assms(2) by linarith
  then show ?thesis
    by (simp only: mnl_cb_run_loop cb_loop_handles [OF assms])
qed

text \<open>C37: A run over any bytes ends with a return value and reads nothing outside the bytes it is given, under
  conditions on the messages it comes to only: no length field there has its highest bit set, no error
  message that lies inside and is long enough to be read carries the one code \<open>0x80000000\<close> that cannot
  be negated, and the data callback is defined on the messages that lie inside.\<close>

theorem run_ends_on_any_bytes:
  assumes "buf + unat numbytes \<le> length m" "buf + unat numbytes < 2147483648"
    "\<And>q n. comes_to m (buf + unat numbytes) buf q \<Longrightarrow> q + 16 \<le> buf + unat numbytes \<Longrightarrow> nlmsg_len m q = Some n
       \<Longrightarrow> unat n < 2147483648"
    "\<And>q n. comes_to m (buf + unat numbytes) buf q \<Longrightarrow> nlmsg_len m q = Some n \<Longrightarrow> 36 \<le> unat n
       \<Longrightarrow> q + unat n \<le> buf + unat numbytes \<Longrightarrow> nlmsg_type m q = Some 2 \<Longrightarrow> load_u32 m (q + 16) \<noteq> Some 0x80000000"
    "\<And>cb q n st. cb_data = Some cb \<Longrightarrow> comes_to m (buf + unat numbytes) buf q \<Longrightarrow> nlmsg_len m q = Some n
       \<Longrightarrow> 16 \<le> unat n \<Longrightarrow> q + unat n \<le> buf + unat numbytes \<Longrightarrow> cb q st \<noteq> None"
  shows "\<exists>ret en st'. mnl_cb_run m buf numbytes seq portid cb_data st = Some (Ret ret en st')"
proof -
  have defined: "handle_message m seq portid (pick_cb m cb_data None 0) q rs \<noteq> Inl Fault"
    if q: "comes_to m (buf + unat numbytes) buf q" "nlmsg_len m q = Some n" "16 \<le> unat n" "q + unat n \<le> buf + unat numbytes"
    for q n rs
  proof (rule handle_message_defined [OF q(2,3)])
    show "q + unat n \<le> length m"
      using q(4) assms(1) by linarith
    show "cb q st \<noteq> None" if "cb_data = Some cb" for cb st
      by (rule assms(5) [OF that q])
    show "load_u32 m (q + 16) \<noteq> Some 0x80000000" if "nlmsg_type m q = Some 2" "36 \<le> unat n"
      by (rule assms(4) [OF q(1,2) that(2) q(4) that(1)])
  qed
  have "\<exists>ret en st'. cb_loop m seq portid (pick_cb m cb_data None 0) buf (int (buf + unat numbytes) - int buf)
      (MNL_CB_OK, None, st) = Some (Ret ret en st')"
    by (rule cb_loop_returns [OF assms(3) defined assms(1,2) comes_to.first])
  moreover have "unat numbytes < 2147483648"
    using assms(2) by linarith
  ultimately show ?thesis
    by (simp only: mnl_cb_run_loop)
qed

text \<open>C38: A message whose length field is 0xFFFFFFFF passes the length check, because it is compared as a
  negative number, and is handled again and again, because its length rounds up to 0: the run does not
  return as long as the callback accepts it.\<close>

theorem run_never_ends_on_huge_length:
  assumes "nlmsg_len m buf = Some 0xFFFFFFFF" "nlmsg_type m buf = Some t" "NLMSG_MIN_TYPE \<le> t"
    "nlmsg_flags m buf = Some fl" "fl AND NLM_F_DUMP_INTR = 0" "nlmsg_seq m buf = Some sq" "nlmsg_pid m buf = Some pd"
    "16 \<le> unat numbytes" "unat numbytes < 2147483648" "\<And>st. \<exists>r e st'. cb buf st = Some (r, e, st') \<and> MNL_CB_STOP < r"
  shows "mnl_cb_run m buf numbytes 0 0 (Some cb) st = None"
proof -
  have "\<exists>rs'. handle_message m 0 0 (pick_cb m (Some cb) None 0) buf rs = Inr rs'" for rs
  proof -
    obtain ret en st0 where rs: "rs = (ret, en, st0)"
      by (cases rs)
    obtain r e st' where "cb buf st0 = Some (r, e, st')" "MNL_CB_STOP < r"
      using assms(10) by blast
    then show ?thesis
      using assms(2-7) by (simp add: handle_message_def check_message_def mnl_nlmsg_seq_ok_def mnl_nlmsg_portid_ok_def
          pick_cb_def rs Let_def)
  qed
  moreover have "16 \<le> int (buf + unat numbytes) - int buf" "int (buf + unat numbytes) - int buf < 2147483648"
    using assms(8,9) by linarith+
  ultimately show ?thesis
    using huge_length [OF assms(1)] assms(9) by (simp only: mnl_cb_run_loop cb_loop_stuck)
qed

section \<open>Examples\<close>

text \<open>Two data messages without payload, and one whose length field is 0xFFFFFFFF.\<close>

definition two_messages :: bytes where
  "two_messages = [16, 0, 0, 0, 16, 0, 0, 0, 0, 0, 0, 0, 0, 0, 0, 0, 16, 0, 0, 0, 17, 0, 0, 0, 0, 0, 0, 0, 0, 0, 0, 0]"

definition huge_message :: bytes where
  "huge_message = [255, 255, 255, 255, 16, 0, 0, 0, 0, 0, 0, 0, 0, 0, 0, 0]"

definition count_cb :: "nat list mnl_cb" where
  "count_cb q st = Some (MNL_CB_OK, None, st @ [q])"

lemmas header_simps = nlmsg_len_def nlmsg_type_def nlmsg_flags_def nlmsg_seq_def nlmsg_pid_def load_u32_def load_u16_def
  load_def

lemma two_messages_fields:
  "nlmsg_len two_messages 0 = Some 16" "nlmsg_type two_messages 0 = Some 16" "nlmsg_flags two_messages 0 = Some 0"
  "nlmsg_seq two_messages 0 = Some 0" "nlmsg_pid two_messages 0 = Some 0"
  "nlmsg_len two_messages 16 = Some 16" "nlmsg_type two_messages 16 = Some 17" "nlmsg_flags two_messages 16 = Some 0"
  "nlmsg_seq two_messages 16 = Some 0" "nlmsg_pid two_messages 16 = Some 0"
  by (simp_all add: two_messages_def header_simps)

lemma huge_message_fields:
  "nlmsg_len huge_message 0 = Some 0xFFFFFFFF" "nlmsg_type huge_message 0 = Some 16" "nlmsg_flags huge_message 0 = Some 0"
  "nlmsg_seq huge_message 0 = Some 0" "nlmsg_pid huge_message 0 = Some 0"
  by (simp_all add: huge_message_def header_simps)

theorem run_handles_each_message_once_witness:
  "mnl_cb_run two_messages 0 32 0 0 (Some count_cb) [] = Some (Ret 1 None [0, 16])"
proof -
  have "messages_at two_messages 0 [0, 16] (0 + unat (32 :: u64))"
    by (simp add: two_messages_fields)
  moreover have "handle_all (handle_message two_messages 0 0 (pick_cb two_messages (Some count_cb) None 0)) [0, 16]
      (MNL_CB_OK, None, []) = Ret 1 None [0, 16]"
    by (simp add: handle_message_def two_messages_fields check_message_def mnl_nlmsg_portid_ok_def mnl_nlmsg_seq_ok_def
        pick_cb_def NLMSG_MIN_TYPE_def count_cb_def MNL_CB_OK_def MNL_CB_STOP_def)
  ultimately show ?thesis
    using run_handles_each_message_once [of two_messages 0 "[0, 16]" 32 0 0 "Some count_cb" "[]"] by simp
qed

text \<open>A data message and an error message with the code -2 behind it.\<close>

definition error_message :: bytes where
  "error_message = [16, 0, 0, 0, 16, 0, 0, 0, 0, 0, 0, 0, 0, 0, 0, 0,
     36, 0, 0, 0, 2, 0, 0, 0, 0, 0, 0, 0, 0, 0, 0, 0, 254, 255, 255, 255,
     16, 0, 0, 0, 16, 0, 0, 0, 0, 0, 0, 0, 0, 0, 0, 0]"

lemma error_message_fields:
  "nlmsg_len error_message 0 = Some 16" "nlmsg_type error_message 0 = Some 16"
  "nlmsg_len error_message 16 = Some 36" "load_u32 error_message 32 = Some 0xFFFFFFFE" "length error_message = 52"
  by (simp_all add: error_message_def header_simps)

lemma error_message_positions:
  "comes_to error_message 52 0 q \<Longrightarrow> q \<in> {0, 16, 52}"
proof (induction rule: comes_to.induct)
  case (behind q n)
  then show ?case
    by (auto simp: error_message_fields)
qed simp

theorem run_ends_on_any_bytes_witness:
  "\<exists>ret en st'. mnl_cb_run error_message 0 52 0 0 (Some count_cb) [] = Some (Ret ret en st')"
proof (rule run_ends_on_any_bytes)
  show "unat n < 2147483648"
    if "comes_to error_message (0 + unat (52 :: u64)) 0 q" "q + 16 \<le> 0 + unat (52 :: u64)" "nlmsg_len error_message q = Some n" for q n
    using error_message_positions [of q] that by (auto simp: error_message_fields)
  show "load_u32 error_message (q + 16) \<noteq> Some 0x80000000"
    if "comes_to error_message (0 + unat (52 :: u64)) 0 q" "nlmsg_len error_message q = Some n" "36 \<le> unat n"
      "q + unat n \<le> 0 + unat (52 :: u64)" for q n
    using error_message_positions [of q] that by (auto simp: error_message_fields)
  show "cb q st \<noteq> None" if "Some count_cb = Some cb" for cb q st
    using that by (auto simp: count_cb_def)
qed (simp_all add: error_message_fields)

theorem run_never_ends_on_huge_length_witness:
  "mnl_cb_run huge_message 0 16 0 0 (Some count_cb) [] = None"
  by (rule run_never_ends_on_huge_length [OF huge_message_fields(1,2) _ huge_message_fields(3) _ huge_message_fields(4,5)])
    (simp_all add: NLMSG_MIN_TYPE_def NLM_F_DUMP_INTR_def count_cb_def MNL_CB_OK_def MNL_CB_STOP_def)

end
