(* ===== verification/Ct_Object.thy ===== *)
theory Ct_Object
  imports Mnl_Message
begin

text \<open>
  Connection tracking objects (libnetfilter_conntrack: object.h, bitops.h, setter.c, getter.c, copy.c and
  the object functions of api.c). An object is the memory of the members of \<^verbatim>\<open>struct nf_conntrack\<close>, a
  union being one member that several attributes read at their own offset, with the bit set of the
  attributes that were set and the members that are allocated apart. Attributes are the numbers of
  \<^verbatim>\<open>enum nf_conntrack_attr\<close>, and the tables of functions are lists in the order of that enumeration.
  Allocation does not fail. \<open>None\<close> is an access outside an object.
\<close>

section \<open>Objects\<close>

datatype dir = DIR_ORIG | DIR_REPL | DIR_MASTER

datatype tuple_member = T_src | T_dst | T_l3protonum | T_protonum | T_zone | T_l4src | T_l4dst

datatype nat_member = N_min_ip | N_max_ip | N_l4min | N_l4max

datatype member =
    M_tuple dir tuple_member
  | M_timeout | M_mark | M_secmark | M_status | M_use | M_id | M_zone | M_helper_name | M_protoinfo
  | M_packets dir | M_bytes dir
  | M_snat nat_member | M_dnat nat_member
  | M_correction_pos dir | M_offset_before dir | M_offset_after dir
  | M_start | M_stop | M_isn | M_its | M_tsoff

definition NFCT_HELPER_NAME_MAX :: nat where "NFCT_HELPER_NAME_MAX = 16"

fun tuple_size :: "tuple_member \<Rightarrow> nat" where
  "tuple_size T_src = 16" | "tuple_size T_dst = 16" | "tuple_size T_l3protonum = 1" | "tuple_size T_protonum = 1"
| "tuple_size T_zone = 2" | "tuple_size T_l4src = 2" | "tuple_size T_l4dst = 2"

fun nat_size :: "nat_member \<Rightarrow> nat" where
  "nat_size N_min_ip = 16" | "nat_size N_max_ip = 16" | "nat_size N_l4min = 2" | "nat_size N_l4max = 2"

fun member_size :: "member \<Rightarrow> nat" where
  "member_size (M_tuple d t) = tuple_size t"
| "member_size M_zone = 2"
| "member_size M_helper_name = NFCT_HELPER_NAME_MAX"
| "member_size M_protoinfo = 16"
| "member_size (M_packets d) = 8"
| "member_size (M_bytes d) = 8"
| "member_size (M_snat n) = nat_size n"
| "member_size (M_dnat n) = nat_size n"
| "member_size M_start = 8"
| "member_size M_stop = 8"
| "member_size _ = 4"

record nf_conntrack =
  mem :: "member \<Rightarrow> bytes"
  head_set :: "u32 list"
  secctx :: "bytes option"
  helper_info :: "bytes option"
  helper_info_len :: nat
  connlabels :: "u32 list option"
  connlabels_mask :: "u32 list option"

definition nfct_new :: nf_conntrack where
  "nfct_new = \<lparr> mem = (\<lambda>m. replicate (member_size m) 0), head_set = [0, 0, 0], secctx = None, helper_info = None,
     helper_info_len = 0, connlabels = None, connlabels_mask = None \<rparr>"

subsection \<open>Bit sets\<close>

definition set_bit_in :: "nat \<Rightarrow> u32 list \<Rightarrow> u32 list" where
  "set_bit_in nr addr = addr[nr div 32 := (addr ! (nr div 32)) OR push_bit (nr mod 32) 1]"

definition test_bit :: "nat \<Rightarrow> u32 list \<Rightarrow> bool" where
  "test_bit nr addr \<longleftrightarrow> push_bit (nr mod 32) 1 AND (addr ! (nr div 32)) \<noteq> 0"

section \<open>Attributes\<close>

definition ATTR_ORIG_IPV4_SRC :: nat where "ATTR_ORIG_IPV4_SRC = 0"
definition ATTR_ORIG_IPV4_DST :: nat where "ATTR_ORIG_IPV4_DST = 1"
definition ATTR_REPL_IPV4_SRC :: nat where "ATTR_REPL_IPV4_SRC = 2"
definition ATTR_REPL_IPV4_DST :: nat where "ATTR_REPL_IPV4_DST = 3"
definition ATTR_ORIG_IPV6_SRC :: nat where "ATTR_ORIG_IPV6_SRC = 4"
definition ATTR_ORIG_IPV6_DST :: nat where "ATTR_ORIG_IPV6_DST = 5"
definition ATTR_REPL_IPV6_SRC :: nat where "ATTR_REPL_IPV6_SRC = 6"
definition ATTR_REPL_IPV6_DST :: nat where "ATTR_REPL_IPV6_DST = 7"
definition ATTR_ORIG_PORT_SRC :: nat where "ATTR_ORIG_PORT_SRC = 8"
definition ATTR_ORIG_PORT_DST :: nat where "ATTR_ORIG_PORT_DST = 9"
definition ATTR_REPL_PORT_SRC :: nat where "ATTR_REPL_PORT_SRC = 10"
definition ATTR_REPL_PORT_DST :: nat where "ATTR_REPL_PORT_DST = 11"
definition ATTR_ICMP_TYPE :: nat where "ATTR_ICMP_TYPE = 12"
definition ATTR_ICMP_CODE :: nat where "ATTR_ICMP_CODE = 13"
definition ATTR_ICMP_ID :: nat where "ATTR_ICMP_ID = 14"
definition ATTR_ORIG_L3PROTO :: nat where "ATTR_ORIG_L3PROTO = 15"
definition ATTR_REPL_L3PROTO :: nat where "ATTR_REPL_L3PROTO = 16"
definition ATTR_ORIG_L4PROTO :: nat where "ATTR_ORIG_L4PROTO = 17"
definition ATTR_REPL_L4PROTO :: nat where "ATTR_REPL_L4PROTO = 18"
definition ATTR_TCP_STATE :: nat where "ATTR_TCP_STATE = 19"
definition ATTR_TIMEOUT :: nat where "ATTR_TIMEOUT = 24"
definition ATTR_MARK :: nat where "ATTR_MARK = 25"
definition ATTR_ID :: nat where "ATTR_ID = 31"
definition ATTR_STATUS :: nat where "ATTR_STATUS = 32"
definition ATTR_SCTP_STATE :: nat where "ATTR_SCTP_STATE = 52"
definition ATTR_DCCP_STATE :: nat where "ATTR_DCCP_STATE = 56"
definition ATTR_ZONE :: nat where "ATTR_ZONE = 61"
definition ATTR_SECCTX :: nat where "ATTR_SECCTX = 62"
definition ATTR_CONNLABELS :: nat where "ATTR_CONNLABELS = 66"
definition ATTR_CONNLABELS_MASK :: nat where "ATTR_CONNLABELS_MASK = 67"
definition ATTR_ORIG_ZONE :: nat where "ATTR_ORIG_ZONE = 68"
definition ATTR_REPL_ZONE :: nat where "ATTR_REPL_ZONE = 69"
definition ATTR_MAX :: nat where "ATTR_MAX = 75"

lemmas attr_numbers = ATTR_ORIG_IPV4_SRC_def ATTR_ORIG_IPV4_DST_def ATTR_REPL_IPV4_SRC_def ATTR_REPL_IPV4_DST_def
  ATTR_ORIG_IPV6_SRC_def ATTR_ORIG_IPV6_DST_def ATTR_REPL_IPV6_SRC_def ATTR_REPL_IPV6_DST_def ATTR_ORIG_PORT_SRC_def
  ATTR_ORIG_PORT_DST_def ATTR_REPL_PORT_SRC_def ATTR_REPL_PORT_DST_def ATTR_ICMP_TYPE_def ATTR_ICMP_CODE_def
  ATTR_ICMP_ID_def ATTR_ORIG_L3PROTO_def ATTR_REPL_L3PROTO_def ATTR_ORIG_L4PROTO_def ATTR_REPL_L4PROTO_def
  ATTR_TCP_STATE_def ATTR_TIMEOUT_def ATTR_MARK_def ATTR_ID_def ATTR_STATUS_def ATTR_SCTP_STATE_def ATTR_DCCP_STATE_def
  ATTR_ZONE_def ATTR_SECCTX_def ATTR_CONNLABELS_def ATTR_CONNLABELS_MASK_def ATTR_ORIG_ZONE_def ATTR_REPL_ZONE_def
  ATTR_MAX_def

text \<open>A part of a member: where it is, its offset and its length.\<close>

type_synonym region = "member \<times> nat \<times> nat"

definition whole_member :: "member \<Rightarrow> region" where "whole_member m = (m, 0, member_size m)"

definition read_region :: "nf_conntrack \<Rightarrow> region \<Rightarrow> bytes" where
  "read_region ct r = (case r of (m, off, n) \<Rightarrow> take n (drop off (mem ct m)))"

definition write_region :: "region \<Rightarrow> bytes \<Rightarrow> nf_conntrack \<Rightarrow> nf_conntrack" where
  "write_region r bs ct = (case r of (m, off, n) \<Rightarrow>
     ct\<lparr> mem := (mem ct)(m := take off (mem ct m) @ bs @ drop (off + n) (mem ct m)) \<rparr>)"

text \<open>Values passed by pointer: memory, or a bit mask for connection labels.\<close>

datatype attr_value = Mem bytes | Mask "u32 list"

section \<open>Getters\<close>

datatype getter = At region | Secctx | Helper_info | Connlabels | Connlabels_mask

definition get_flow_attrs :: "getter list" where
  "get_flow_attrs =
    [At (M_tuple DIR_ORIG T_src, 0, 4), At (M_tuple DIR_ORIG T_dst, 0, 4),
     At (M_tuple DIR_REPL T_src, 0, 4), At (M_tuple DIR_REPL T_dst, 0, 4),
     At (M_tuple DIR_ORIG T_src, 0, 16), At (M_tuple DIR_ORIG T_dst, 0, 16),
     At (M_tuple DIR_REPL T_src, 0, 16), At (M_tuple DIR_REPL T_dst, 0, 16),
     At (whole_member (M_tuple DIR_ORIG T_l4src)), At (whole_member (M_tuple DIR_ORIG T_l4dst)),
     At (whole_member (M_tuple DIR_REPL T_l4src)), At (whole_member (M_tuple DIR_REPL T_l4dst)),
     At (M_tuple DIR_ORIG T_l4dst, 0, 1), At (M_tuple DIR_ORIG T_l4dst, 1, 1), At (whole_member (M_tuple DIR_ORIG T_l4src)),
     At (whole_member (M_tuple DIR_ORIG T_l3protonum)), At (whole_member (M_tuple DIR_REPL T_l3protonum)),
     At (whole_member (M_tuple DIR_ORIG T_protonum)), At (whole_member (M_tuple DIR_REPL T_protonum))]"

definition get_state_attrs :: "getter list" where
  "get_state_attrs =
    [At (M_protoinfo, 0, 1),
     At (M_snat N_min_ip, 0, 4), At (M_dnat N_min_ip, 0, 4), At (whole_member (M_snat N_l4min)), At (whole_member (M_dnat N_l4min)),
     At (whole_member M_timeout), At (whole_member M_mark),
     At (whole_member (M_packets DIR_ORIG)), At (whole_member (M_packets DIR_REPL)), At (whole_member (M_bytes DIR_ORIG)), At (whole_member (M_bytes DIR_REPL)),
     At (whole_member M_use), At (whole_member M_id), At (whole_member M_status),
     At (M_protoinfo, 1, 1), At (M_protoinfo, 3, 1), At (M_protoinfo, 2, 1), At (M_protoinfo, 4, 1),
     At (M_tuple DIR_MASTER T_src, 0, 4), At (M_tuple DIR_MASTER T_dst, 0, 4),
     At (M_tuple DIR_MASTER T_src, 0, 16), At (M_tuple DIR_MASTER T_dst, 0, 16),
     At (whole_member (M_tuple DIR_MASTER T_l4src)), At (whole_member (M_tuple DIR_MASTER T_l4dst)),
     At (whole_member (M_tuple DIR_MASTER T_l3protonum)), At (whole_member (M_tuple DIR_MASTER T_protonum)),
     At (whole_member M_secmark)]"

definition get_extra_attrs :: "getter list" where
  "get_extra_attrs =
    [At (whole_member (M_correction_pos DIR_ORIG)), At (whole_member (M_offset_before DIR_ORIG)), At (whole_member (M_offset_after DIR_ORIG)),
     At (whole_member (M_correction_pos DIR_REPL)), At (whole_member (M_offset_before DIR_REPL)), At (whole_member (M_offset_after DIR_REPL)),
     At (M_protoinfo, 0, 1), At (M_protoinfo, 4, 4), At (M_protoinfo, 8, 4),
     At (whole_member M_helper_name),
     At (M_protoinfo, 0, 1), At (M_protoinfo, 1, 1), At (M_protoinfo, 8, 8),
     At (M_protoinfo, 5, 1), At (M_protoinfo, 6, 1),
     At (whole_member M_zone), Secctx, At (whole_member M_start), At (whole_member M_stop), Helper_info, Connlabels, Connlabels_mask,
     At (whole_member (M_tuple DIR_ORIG T_zone)), At (whole_member (M_tuple DIR_REPL T_zone)),
     At (M_snat N_min_ip, 0, 16), At (M_dnat N_min_ip, 0, 16),
     At (whole_member M_isn), At (whole_member M_its), At (whole_member M_tsoff)]"

definition get_attr_array :: "getter list" where
  "get_attr_array = get_flow_attrs @ get_state_attrs @ get_extra_attrs"

definition run_getter :: "getter \<Rightarrow> nf_conntrack \<Rightarrow> attr_value option" where
  "run_getter g ct =
     (case g of
        At r \<Rightarrow> Some (Mem (read_region ct r))
      | Secctx \<Rightarrow> map_option Mem (secctx ct)
      | Helper_info \<Rightarrow> map_option Mem (helper_info ct)
      | Connlabels \<Rightarrow> map_option Mask (connlabels ct)
      | Connlabels_mask \<Rightarrow> map_option Mask (connlabels_mask ct))"

text \<open>The null pointer is \<open>None\<close>.\<close>

definition nfct_get_attr :: "nf_conntrack \<Rightarrow> nat \<Rightarrow> attr_value option" where
  "nfct_get_attr ct type =
     (if type \<ge> ATTR_MAX then None
      else if \<not> test_bit type (head_set ct) then None
      else run_getter (get_attr_array ! type) ct)"

definition nfct_get_attr_u8 :: "nf_conntrack \<Rightarrow> nat \<Rightarrow> u8 option" where
  "nfct_get_attr_u8 ct type =
     (case nfct_get_attr ct type of None \<Rightarrow> Some 0 | Some (Mem bs) \<Rightarrow> map_option hd (load bs 0 1) | Some (Mask ws) \<Rightarrow> None)"

definition nfct_get_attr_u16 :: "nf_conntrack \<Rightarrow> nat \<Rightarrow> u16 option" where
  "nfct_get_attr_u16 ct type =
     (case nfct_get_attr ct type of None \<Rightarrow> Some 0 | Some (Mem bs) \<Rightarrow> load_u16 bs 0 | Some (Mask ws) \<Rightarrow> None)"

definition nfct_get_attr_u32 :: "nf_conntrack \<Rightarrow> nat \<Rightarrow> u32 option" where
  "nfct_get_attr_u32 ct type =
     (case nfct_get_attr ct type of None \<Rightarrow> Some 0 | Some (Mem bs) \<Rightarrow> load_u32 bs 0 | Some (Mask ws) \<Rightarrow> None)"

section \<open>Setters\<close>

text \<open>\<open>Put\<close> stores the value in each of the regions.\<close>

datatype setter = Put "region list" | Put_icmp_type | Put_helper_name | Put_helper_info | Put_connlabels | Put_connlabels_mask
  | Do_nothing

definition set_flow_attrs :: "setter list" where
  "set_flow_attrs =
    [Put [(M_tuple DIR_ORIG T_src, 0, 4)], Put [(M_tuple DIR_ORIG T_dst, 0, 4)],
     Put [(M_tuple DIR_REPL T_src, 0, 4)], Put [(M_tuple DIR_REPL T_dst, 0, 4)],
     Put [(M_tuple DIR_ORIG T_src, 0, 16)], Put [(M_tuple DIR_ORIG T_dst, 0, 16)],
     Put [(M_tuple DIR_REPL T_src, 0, 16)], Put [(M_tuple DIR_REPL T_dst, 0, 16)],
     Put [whole_member (M_tuple DIR_ORIG T_l4src)], Put [whole_member (M_tuple DIR_ORIG T_l4dst)],
     Put [whole_member (M_tuple DIR_REPL T_l4src)], Put [whole_member (M_tuple DIR_REPL T_l4dst)],
     Put_icmp_type,
     Put [(M_tuple DIR_ORIG T_l4dst, 1, 1), (M_tuple DIR_REPL T_l4dst, 1, 1)],
     Put [whole_member (M_tuple DIR_ORIG T_l4src), whole_member (M_tuple DIR_REPL T_l4src)],
     Put [whole_member (M_tuple DIR_ORIG T_l3protonum)], Put [whole_member (M_tuple DIR_REPL T_l3protonum)],
     Put [whole_member (M_tuple DIR_ORIG T_protonum)], Put [whole_member (M_tuple DIR_REPL T_protonum)]]"

definition set_state_attrs :: "setter list" where
  "set_state_attrs =
    [Put [(M_protoinfo, 0, 1)],
     Put [(M_snat N_min_ip, 0, 4), (M_snat N_max_ip, 0, 4)], Put [(M_dnat N_min_ip, 0, 4), (M_dnat N_max_ip, 0, 4)],
     Put [whole_member (M_snat N_l4min), whole_member (M_snat N_l4max)], Put [whole_member (M_dnat N_l4min), whole_member (M_dnat N_l4max)],
     Put [whole_member M_timeout], Put [whole_member M_mark],
     Do_nothing, Do_nothing, Do_nothing, Do_nothing,
     Do_nothing, Put [whole_member M_id], Put [whole_member M_status],
     Put [(M_protoinfo, 1, 1)], Put [(M_protoinfo, 3, 1)], Put [(M_protoinfo, 2, 1)], Put [(M_protoinfo, 4, 1)],
     Put [(M_tuple DIR_MASTER T_src, 0, 4)], Put [(M_tuple DIR_MASTER T_dst, 0, 4)],
     Put [(M_tuple DIR_MASTER T_src, 0, 16)], Put [(M_tuple DIR_MASTER T_dst, 0, 16)],
     Put [whole_member (M_tuple DIR_MASTER T_l4src)], Put [whole_member (M_tuple DIR_MASTER T_l4dst)],
     Put [whole_member (M_tuple DIR_MASTER T_l3protonum)], Put [whole_member (M_tuple DIR_MASTER T_protonum)],
     Put [whole_member M_secmark]]"

definition set_extra_attrs :: "setter list" where
  "set_extra_attrs =
    [Put [whole_member (M_correction_pos DIR_ORIG)], Put [whole_member (M_offset_before DIR_ORIG)], Put [whole_member (M_offset_after DIR_ORIG)],
     Put [whole_member (M_correction_pos DIR_REPL)], Put [whole_member (M_offset_before DIR_REPL)], Put [whole_member (M_offset_after DIR_REPL)],
     Put [(M_protoinfo, 0, 1)], Put [(M_protoinfo, 4, 4)], Put [(M_protoinfo, 8, 4)],
     Put_helper_name,
     Put [(M_protoinfo, 0, 1)], Put [(M_protoinfo, 1, 1)], Put [(M_protoinfo, 8, 8)],
     Put [(M_protoinfo, 5, 1)], Put [(M_protoinfo, 6, 1)],
     Put [whole_member M_zone], Do_nothing, Do_nothing, Do_nothing, Put_helper_info, Put_connlabels, Put_connlabels_mask,
     Put [whole_member (M_tuple DIR_ORIG T_zone)], Put [whole_member (M_tuple DIR_REPL T_zone)],
     Put [(M_snat N_min_ip, 0, 16), (M_snat N_max_ip, 0, 16)], Put [(M_dnat N_min_ip, 0, 16), (M_dnat N_max_ip, 0, 16)],
     Put [whole_member M_isn], Put [whole_member M_its], Put [whole_member M_tsoff]]"

definition set_attr_array :: "setter list" where
  "set_attr_array = set_flow_attrs @ set_state_attrs @ set_extra_attrs"

definition invmap_icmp :: "u8 list" where
  "invmap_icmp = [9, 0, 0, 0, 0, 0, 0, 0, 1, 0, 0, 0, 0, 15, 14, 17, 16, 19, 18]"

definition invmap_icmpv6 :: "u8 list" where
  "invmap_icmpv6 = [130, 129, 0, 0, 0, 0, 0, 0, 0, 0, 0, 140, 141]"

definition AF_INET :: u8 where "AF_INET = 2"
definition AF_INET6 :: u8 where "AF_INET6 = 10"

text \<open>The reply type to an ICMP type, or 255 if there is none; \<open>None\<close> is a read outside the table.\<close>

definition reply_type :: "u8 \<Rightarrow> u8 \<Rightarrow> u8 option" where
  "reply_type l3 v =
     (let found = (\<lambda>t :: u8. if t \<noteq> 0 then t - 1 else 255) in
      if l3 = AF_INET then (if unat v < length invmap_icmp then Some (found (invmap_icmp ! unat v)) else None)
      else if l3 = AF_INET6 then
        (if 128 \<le> unat v \<and> unat v - 128 < length invmap_icmpv6 then Some (found (invmap_icmpv6 ! (unat v - 128))) else None)
      else Some 255)"

definition set_attr_icmp_type :: "u8 \<Rightarrow> nf_conntrack \<Rightarrow> nf_conntrack option" where
  "set_attr_icmp_type v ct =
     (let ct1 = write_region (M_tuple DIR_ORIG T_l4dst, 0, 1) [v] ct in
      map_option (\<lambda>t. write_region (M_tuple DIR_REPL T_l4dst, 0, 1) [t] ct1)
        (reply_type (hd (read_region ct1 (whole_member (M_tuple DIR_ORIG T_l3protonum)))) v))"

fun strncpy :: "nat \<Rightarrow> bytes \<Rightarrow> bytes option" where
  "strncpy 0 bs = Some []"
| "strncpy (Suc n) [] = None"
| "strncpy (Suc n) (b # bs) = (if b = 0 then Some (replicate (Suc n) 0) else map_option ((#) b) (strncpy n bs))"

definition set_attr_helper_name :: "bytes \<Rightarrow> nf_conntrack \<Rightarrow> nf_conntrack option" where
  "set_attr_helper_name bs ct =
     map_option (\<lambda>cs. write_region (whole_member M_helper_name) (cs[NFCT_HELPER_NAME_MAX - 1 := 0]) ct)
       (strncpy NFCT_HELPER_NAME_MAX bs)"

fun put_regions :: "region list \<Rightarrow> bytes \<Rightarrow> nf_conntrack \<Rightarrow> nf_conntrack option" where
  "put_regions [] bs ct = Some ct"
| "put_regions ((m, off, n) # rs) bs ct =
     (case load bs 0 n of None \<Rightarrow> None | Some v \<Rightarrow> put_regions rs bs (write_region (m, off, n) v ct))"

definition run_setter :: "setter \<Rightarrow> attr_value \<Rightarrow> nat \<Rightarrow> nf_conntrack \<Rightarrow> nf_conntrack option" where
  "run_setter s v len ct =
     (case (s, v) of
        (Put rs, Mem bs) \<Rightarrow> put_regions rs bs ct
      | (Put_icmp_type, Mem bs) \<Rightarrow> (case bs of [] \<Rightarrow> None | b # _ \<Rightarrow> set_attr_icmp_type b ct)
      | (Put_helper_name, Mem bs) \<Rightarrow> set_attr_helper_name bs ct
      | (Put_helper_info, Mem bs) \<Rightarrow> map_option (\<lambda>cs. ct\<lparr> helper_info := Some cs \<rparr>) (load bs 0 len)
      | (Put_connlabels, Mask ws) \<Rightarrow> Some (ct\<lparr> connlabels := Some ws \<rparr>)
      | (Put_connlabels_mask, Mask ws) \<Rightarrow> Some (ct\<lparr> connlabels_mask := Some ws \<rparr>)
      | (Do_nothing, _) \<Rightarrow> Some ct
      | _ \<Rightarrow> None)"

definition mark_set :: "nat \<Rightarrow> nf_conntrack \<Rightarrow> nf_conntrack" where
  "mark_set type ct = ct\<lparr> head_set := set_bit_in type (head_set ct) \<rparr>"

definition nfct_set_attr_l :: "nf_conntrack \<Rightarrow> nat \<Rightarrow> attr_value \<Rightarrow> nat \<Rightarrow> nf_conntrack option" where
  "nfct_set_attr_l ct type v len =
     (if type \<ge> ATTR_MAX then Some ct
      else map_option (mark_set type) (run_setter (set_attr_array ! type) v len ct))"

definition nfct_set_attr :: "nf_conntrack \<Rightarrow> nat \<Rightarrow> attr_value \<Rightarrow> nf_conntrack option" where
  "nfct_set_attr ct type v = nfct_set_attr_l ct type v 0"

definition nfct_set_attr_u8 :: "nf_conntrack \<Rightarrow> nat \<Rightarrow> u8 \<Rightarrow> nf_conntrack option" where
  "nfct_set_attr_u8 ct type v = nfct_set_attr_l ct type (Mem [v]) 1"

definition nfct_set_attr_u16 :: "nf_conntrack \<Rightarrow> nat \<Rightarrow> u16 \<Rightarrow> nf_conntrack option" where
  "nfct_set_attr_u16 ct type v = nfct_set_attr_l ct type (Mem (to_le 2 (unat v))) 2"

definition nfct_set_attr_u32 :: "nf_conntrack \<Rightarrow> nat \<Rightarrow> u32 \<Rightarrow> nf_conntrack option" where
  "nfct_set_attr_u32 ct type v = nfct_set_attr_l ct type (Mem (to_le 4 (unat v))) 4"

definition nfct_set_attr_u64 :: "nf_conntrack \<Rightarrow> nat \<Rightarrow> u64 \<Rightarrow> nf_conntrack option" where
  "nfct_set_attr_u64 ct type v = nfct_set_attr_l ct type (Mem (to_le 8 (unat v))) 8"

section \<open>Copies\<close>

datatype copier = Copy region | Copy_helper_name | Copy_secctx | Copy_help_info | Copy_connlabels | Copy_connlabels_mask

definition copy_flow_attrs :: "copier list" where
  "copy_flow_attrs =
    [Copy (M_tuple DIR_ORIG T_src, 0, 4), Copy (M_tuple DIR_ORIG T_dst, 0, 4),
     Copy (M_tuple DIR_REPL T_src, 0, 4), Copy (M_tuple DIR_REPL T_dst, 0, 4),
     Copy (whole_member (M_tuple DIR_ORIG T_src)), Copy (whole_member (M_tuple DIR_ORIG T_dst)),
     Copy (whole_member (M_tuple DIR_REPL T_src)), Copy (whole_member (M_tuple DIR_REPL T_dst)),
     Copy (whole_member (M_tuple DIR_ORIG T_l4src)), Copy (whole_member (M_tuple DIR_ORIG T_l4dst)),
     Copy (whole_member (M_tuple DIR_REPL T_l4src)), Copy (whole_member (M_tuple DIR_REPL T_l4dst)),
     Copy (M_tuple DIR_ORIG T_l4dst, 0, 1), Copy (M_tuple DIR_ORIG T_l4dst, 1, 1), Copy (whole_member (M_tuple DIR_ORIG T_l4src)),
     Copy (whole_member (M_tuple DIR_ORIG T_l3protonum)), Copy (whole_member (M_tuple DIR_REPL T_l3protonum)),
     Copy (whole_member (M_tuple DIR_ORIG T_protonum)), Copy (whole_member (M_tuple DIR_REPL T_protonum))]"

definition copy_state_attrs :: "copier list" where
  "copy_state_attrs =
    [Copy (M_protoinfo, 0, 1),
     Copy (M_snat N_min_ip, 0, 4), Copy (M_dnat N_min_ip, 0, 4), Copy (whole_member (M_snat N_l4min)), Copy (whole_member (M_dnat N_l4min)),
     Copy (whole_member M_timeout), Copy (whole_member M_mark),
     Copy (whole_member (M_packets DIR_ORIG)), Copy (whole_member (M_packets DIR_REPL)),
     Copy (whole_member (M_bytes DIR_ORIG)), Copy (whole_member (M_bytes DIR_REPL)),
     Copy (whole_member M_use), Copy (whole_member M_id), Copy (whole_member M_status),
     Copy (M_protoinfo, 1, 1), Copy (M_protoinfo, 3, 1), Copy (M_protoinfo, 2, 1), Copy (M_protoinfo, 4, 1),
     Copy (M_tuple DIR_MASTER T_src, 0, 4), Copy (M_tuple DIR_MASTER T_dst, 0, 4),
     Copy (whole_member (M_tuple DIR_MASTER T_src)), Copy (whole_member (M_tuple DIR_MASTER T_dst)),
     Copy (whole_member (M_tuple DIR_MASTER T_l4src)), Copy (whole_member (M_tuple DIR_MASTER T_l4dst)),
     Copy (whole_member (M_tuple DIR_MASTER T_l3protonum)), Copy (whole_member (M_tuple DIR_MASTER T_protonum)),
     Copy (whole_member M_secmark)]"

definition copy_extra_attrs :: "copier list" where
  "copy_extra_attrs =
    [Copy (whole_member (M_correction_pos DIR_ORIG)), Copy (whole_member (M_offset_before DIR_ORIG)), Copy (whole_member (M_offset_after DIR_ORIG)),
     Copy (whole_member (M_correction_pos DIR_REPL)), Copy (whole_member (M_offset_before DIR_REPL)), Copy (whole_member (M_offset_after DIR_REPL)),
     Copy (M_protoinfo, 0, 1), Copy (M_protoinfo, 4, 4), Copy (M_protoinfo, 8, 4),
     Copy_helper_name,
     Copy (M_protoinfo, 0, 1), Copy (M_protoinfo, 1, 1), Copy (M_protoinfo, 8, 8),
     Copy (M_protoinfo, 5, 1), Copy (M_protoinfo, 6, 1),
     Copy (whole_member M_zone), Copy_secctx, Copy (whole_member M_start), Copy (whole_member M_stop),
     Copy_help_info, Copy_connlabels, Copy_connlabels_mask,
     Copy (whole_member (M_tuple DIR_ORIG T_zone)), Copy (whole_member (M_tuple DIR_REPL T_zone)),
     Copy (M_snat N_min_ip, 0, 16), Copy (M_dnat N_min_ip, 0, 16),
     Copy (whole_member M_isn), Copy (whole_member M_its), Copy (whole_member M_tsoff)]"

definition copy_attr_array :: "copier list" where
  "copy_attr_array = copy_flow_attrs @ copy_state_attrs @ copy_extra_attrs"

definition copy_attr_help_info :: "nf_conntrack \<Rightarrow> nf_conntrack \<Rightarrow> nf_conntrack option" where
  "copy_attr_help_info d orig =
     (case helper_info orig of
        None \<Rightarrow> Some d
      | Some bs \<Rightarrow> map_option (\<lambda>cs. d\<lparr> helper_info := Some cs \<rparr>) (load bs 0 (helper_info_len orig)))"

definition do_copy_attr_connlabels :: "u32 list option \<Rightarrow> u32 list option \<Rightarrow> u32 list option" where
  "do_copy_attr_connlabels d orig = (case orig of None \<Rightarrow> d | Some ws \<Rightarrow> Some ws)"

definition run_copier :: "copier \<Rightarrow> nf_conntrack \<Rightarrow> nf_conntrack \<Rightarrow> nf_conntrack option" where
  "run_copier c d orig =
     (case c of
        Copy r \<Rightarrow> Some (write_region r (read_region orig r) d)
      | Copy_helper_name \<Rightarrow>
          map_option (\<lambda>cs. write_region (whole_member M_helper_name) (cs[NFCT_HELPER_NAME_MAX - 1 := 0]) d)
            (strncpy NFCT_HELPER_NAME_MAX (read_region orig (whole_member M_helper_name)))
      | Copy_secctx \<Rightarrow> Some (d\<lparr> secctx := secctx orig \<rparr>)
      | Copy_help_info \<Rightarrow> copy_attr_help_info d orig
      | Copy_connlabels \<Rightarrow> Some (d\<lparr> connlabels := do_copy_attr_connlabels (connlabels d) (connlabels orig) \<rparr>)
      | Copy_connlabels_mask \<Rightarrow>
          Some (d\<lparr> connlabels_mask := do_copy_attr_connlabels (connlabels_mask d) (connlabels_mask orig) \<rparr>))"

definition copy_fast :: "nf_conntrack \<Rightarrow> nf_conntrack option" where
  "copy_fast ct2 = copy_attr_help_info (ct2\<lparr> helper_info := None \<rparr>) ct2"

fun copy_attrs :: "nat list \<Rightarrow> nf_conntrack \<Rightarrow> nf_conntrack \<Rightarrow> nf_conntrack option" where
  "copy_attrs [] ct1 ct2 = Some ct1"
| "copy_attrs (i # is) ct1 ct2 =
     (if test_bit i (head_set ct2) then
        (case run_copier (copy_attr_array ! i) ct1 ct2 of
           None \<Rightarrow> None
         | Some ct1' \<Rightarrow> copy_attrs is (mark_set i ct1') ct2)
      else copy_attrs is ct1 ct2)"

definition cp_orig_mask :: "nat list" where
  "cp_orig_mask = [ATTR_ORIG_IPV4_SRC, ATTR_ORIG_IPV4_DST, ATTR_ORIG_IPV6_SRC, ATTR_ORIG_IPV6_DST, ATTR_ORIG_PORT_SRC,
     ATTR_ORIG_PORT_DST, ATTR_ICMP_TYPE, ATTR_ICMP_CODE, ATTR_ICMP_ID, ATTR_ORIG_L3PROTO, ATTR_ORIG_L4PROTO]"

definition cp_repl_mask :: "nat list" where
  "cp_repl_mask = [ATTR_REPL_IPV4_SRC, ATTR_REPL_IPV4_DST, ATTR_REPL_IPV6_SRC, ATTR_REPL_IPV6_DST, ATTR_REPL_PORT_SRC,
     ATTR_REPL_PORT_DST, ATTR_REPL_L3PROTO, ATTR_REPL_L4PROTO]"

definition NFCT_CP_ALL :: u32 where "NFCT_CP_ALL = 0"
definition NFCT_CP_ORIG :: u32 where "NFCT_CP_ORIG = 1"
definition NFCT_CP_REPL :: u32 where "NFCT_CP_REPL = 2"
definition NFCT_CP_META :: u32 where "NFCT_CP_META = 4"
definition NFCT_CP_OVERRIDE :: u32 where "NFCT_CP_OVERRIDE = 8"

definition nfct_copy :: "nf_conntrack \<Rightarrow> nf_conntrack \<Rightarrow> u32 \<Rightarrow> nf_conntrack option" where
  "nfct_copy ct1 ct2 flags =
     (if flags AND NFCT_CP_OVERRIDE \<noteq> 0 then copy_fast ct2
      else if flags = NFCT_CP_ALL then copy_attrs [0..<ATTR_MAX] ct1 ct2
      else
        copy_attrs
          ((if flags AND NFCT_CP_ORIG \<noteq> 0 then cp_orig_mask else [])
           @ (if flags AND NFCT_CP_REPL \<noteq> 0 then cp_repl_mask else [])
           @ (if flags AND NFCT_CP_META \<noteq> 0 then [ATTR_TCP_STATE..<ATTR_MAX] else []))
          ct1 ct2)"

definition nfct_copy_attr :: "nf_conntrack \<Rightarrow> nf_conntrack \<Rightarrow> nat \<Rightarrow> nf_conntrack option" where
  "nfct_copy_attr ct1 ct2 type = copy_attrs [type] ct1 ct2"

definition nfct_clone :: "nf_conntrack \<Rightarrow> nf_conntrack option" where
  "nfct_clone ct = nfct_copy nfct_new ct NFCT_CP_OVERRIDE"

end
