(* ===== verification/Ct_Compare.thy ===== *)
theory Ct_Compare
  imports Ct_Object
begin

text \<open>
  Comparison of connection tracking objects (libnetfilter_conntrack/compare.c). An attribute that is
  set in both objects is compared; one that is set in one only counts as different under the flags
  \<^verbatim>\<open>NFCT_CMP_MASK\<close> and \<^verbatim>\<open>NFCT_CMP_STRICT\<close>.
\<close>

section \<open>Flags\<close>

definition NFCT_CMP_ALL :: u32 where "NFCT_CMP_ALL = 0"
definition NFCT_CMP_ORIG :: u32 where "NFCT_CMP_ORIG = 1"
definition NFCT_CMP_REPL :: u32 where "NFCT_CMP_REPL = 2"
definition NFCT_CMP_TIMEOUT_EQ :: u32 where "NFCT_CMP_TIMEOUT_EQ = 4"
definition NFCT_CMP_TIMEOUT_GT :: u32 where "NFCT_CMP_TIMEOUT_GT = 8"
definition NFCT_CMP_TIMEOUT_GE :: u32 where "NFCT_CMP_TIMEOUT_GE = 12"
definition NFCT_CMP_TIMEOUT_LT :: u32 where "NFCT_CMP_TIMEOUT_LT = 16"
definition NFCT_CMP_TIMEOUT_LE :: u32 where "NFCT_CMP_TIMEOUT_LE = 20"
definition NFCT_CMP_MASK :: u32 where "NFCT_CMP_MASK = 32"
definition NFCT_CMP_STRICT :: u32 where "NFCT_CMP_STRICT = 64"

lemmas cmp_flags = NFCT_CMP_ALL_def NFCT_CMP_ORIG_def NFCT_CMP_REPL_def NFCT_CMP_TIMEOUT_EQ_def NFCT_CMP_TIMEOUT_GT_def
  NFCT_CMP_TIMEOUT_GE_def NFCT_CMP_TIMEOUT_LT_def NFCT_CMP_TIMEOUT_LE_def NFCT_CMP_MASK_def NFCT_CMP_STRICT_def

type_synonym comparison = "nf_conntrack \<Rightarrow> nf_conntrack \<Rightarrow> u32 \<Rightarrow> bool"

definition cmp_attr :: "nat \<Rightarrow> nf_conntrack \<Rightarrow> nf_conntrack \<Rightarrow> u32 \<Rightarrow> comparison \<Rightarrow> bool \<Rightarrow> bool" where
  "cmp_attr attr ct1 ct2 flags cmp strict =
     (let a = test_bit attr (head_set ct1); b = test_bit attr (head_set ct2) in
      if a \<and> b then cmp ct1 ct2 flags
      else if \<not> a \<and> \<not> b then True
      else if flags AND NFCT_CMP_MASK \<noteq> 0 \<and> a then (if strict then False else cmp ct1 ct2 flags)
      else if flags AND NFCT_CMP_STRICT \<noteq> 0 then (if strict then False else cmp ct1 ct2 flags)
      else True)"

text \<open>Two objects with equal contents of a part of their memory.\<close>

definition same :: "region \<Rightarrow> comparison" where
  "same r ct1 ct2 flags \<longleftrightarrow> read_region ct1 r = read_region ct2 r"

section \<open>Tuples\<close>

definition cmp_icmp_id :: comparison where "cmp_icmp_id = same (whole_member (M_tuple DIR_ORIG T_l4src))"
definition cmp_icmp_type :: comparison where "cmp_icmp_type = same (M_tuple DIR_ORIG T_l4dst, 0, 1)"
definition cmp_icmp_code :: comparison where "cmp_icmp_code = same (M_tuple DIR_ORIG T_l4dst, 1, 1)"

definition is_icmp :: "u8 \<Rightarrow> bool" where "is_icmp p \<longleftrightarrow> p = 1 \<or> p = 58"
definition has_ports :: "u8 \<Rightarrow> bool" where "has_ports p \<longleftrightarrow> p = 6 \<or> p = 17 \<or> p = 136 \<or> p = 33 \<or> p = 132"

definition protonum :: "dir \<Rightarrow> nf_conntrack \<Rightarrow> u8" where
  "protonum d ct = hd (read_region ct (whole_member (M_tuple d T_protonum)))"

definition cmp_icmp :: comparison where
  "cmp_icmp ct1 ct2 flags \<longleftrightarrow>
     cmp_attr ATTR_ICMP_ID ct1 ct2 flags cmp_icmp_id True \<and>
     cmp_attr ATTR_ICMP_CODE ct1 ct2 flags cmp_icmp_code True \<and>
     cmp_attr ATTR_ICMP_TYPE ct1 ct2 flags cmp_icmp_type True"

definition cmp_orig_l3proto :: comparison where "cmp_orig_l3proto = same (whole_member (M_tuple DIR_ORIG T_l3protonum))"
definition cmp_orig_port_src :: comparison where "cmp_orig_port_src = same (whole_member (M_tuple DIR_ORIG T_l4src))"
definition cmp_orig_port_dst :: comparison where "cmp_orig_port_dst = same (whole_member (M_tuple DIR_ORIG T_l4dst))"
definition cmp_orig_ipv4_src :: comparison where "cmp_orig_ipv4_src = same (M_tuple DIR_ORIG T_src, 0, 4)"
definition cmp_orig_ipv4_dst :: comparison where "cmp_orig_ipv4_dst = same (M_tuple DIR_ORIG T_dst, 0, 4)"
definition cmp_orig_ipv6_src :: comparison where "cmp_orig_ipv6_src = same (M_tuple DIR_ORIG T_src, 0, 16)"
definition cmp_orig_ipv6_dst :: comparison where "cmp_orig_ipv6_dst = same (M_tuple DIR_ORIG T_dst, 0, 16)"

definition cmp_orig_zone :: comparison where
  "cmp_orig_zone ct1 ct2 flags \<longleftrightarrow> nfct_get_attr_u16 ct1 ATTR_ORIG_ZONE = nfct_get_attr_u16 ct2 ATTR_ORIG_ZONE"

definition cmp_orig_l4proto :: comparison where
  "cmp_orig_l4proto ct1 ct2 flags =
     (if protonum DIR_ORIG ct1 \<noteq> protonum DIR_ORIG ct2 then False
      else if is_icmp (protonum DIR_ORIG ct1) then cmp_icmp ct1 ct2 flags
      else if has_ports (protonum DIR_ORIG ct1) then
        cmp_attr ATTR_ORIG_PORT_SRC ct1 ct2 flags cmp_orig_port_src True \<and>
        cmp_attr ATTR_ORIG_PORT_DST ct1 ct2 flags cmp_orig_port_dst True
      else True)"

definition cmp_orig :: comparison where
  "cmp_orig ct1 ct2 flags \<longleftrightarrow>
     cmp_attr ATTR_ORIG_L3PROTO ct1 ct2 flags cmp_orig_l3proto True \<and>
     cmp_attr ATTR_ORIG_L4PROTO ct1 ct2 flags cmp_orig_l4proto True \<and>
     cmp_attr ATTR_ORIG_IPV4_SRC ct1 ct2 flags cmp_orig_ipv4_src True \<and>
     cmp_attr ATTR_ORIG_IPV4_DST ct1 ct2 flags cmp_orig_ipv4_dst True \<and>
     cmp_attr ATTR_ORIG_IPV6_SRC ct1 ct2 flags cmp_orig_ipv6_src True \<and>
     cmp_attr ATTR_ORIG_IPV6_DST ct1 ct2 flags cmp_orig_ipv6_dst True \<and>
     cmp_attr ATTR_ORIG_ZONE ct1 ct2 flags cmp_orig_zone False"

definition cmp_repl_l3proto :: comparison where "cmp_repl_l3proto = same (whole_member (M_tuple DIR_REPL T_l3protonum))"
definition cmp_repl_port_src :: comparison where "cmp_repl_port_src = same (whole_member (M_tuple DIR_REPL T_l4src))"
definition cmp_repl_port_dst :: comparison where "cmp_repl_port_dst = same (whole_member (M_tuple DIR_REPL T_l4dst))"
definition cmp_repl_ipv4_src :: comparison where "cmp_repl_ipv4_src = same (M_tuple DIR_REPL T_src, 0, 4)"
definition cmp_repl_ipv4_dst :: comparison where "cmp_repl_ipv4_dst = same (M_tuple DIR_REPL T_dst, 0, 4)"
definition cmp_repl_ipv6_src :: comparison where "cmp_repl_ipv6_src = same (M_tuple DIR_REPL T_src, 0, 16)"
definition cmp_repl_ipv6_dst :: comparison where "cmp_repl_ipv6_dst = same (M_tuple DIR_REPL T_dst, 0, 16)"

definition cmp_repl_zone :: comparison where
  "cmp_repl_zone ct1 ct2 flags \<longleftrightarrow> nfct_get_attr_u16 ct1 ATTR_REPL_ZONE = nfct_get_attr_u16 ct2 ATTR_REPL_ZONE"

definition cmp_repl_l4proto :: comparison where
  "cmp_repl_l4proto ct1 ct2 flags =
     (if protonum DIR_REPL ct1 \<noteq> protonum DIR_REPL ct2 then False
      else if is_icmp (protonum DIR_REPL ct1) then cmp_icmp ct1 ct2 flags
      else if has_ports (protonum DIR_REPL ct1) then
        cmp_attr ATTR_REPL_PORT_SRC ct1 ct2 flags cmp_repl_port_src True \<and>
        cmp_attr ATTR_REPL_PORT_DST ct1 ct2 flags cmp_repl_port_dst True
      else True)"

definition cmp_repl :: comparison where
  "cmp_repl ct1 ct2 flags \<longleftrightarrow>
     cmp_attr ATTR_REPL_L3PROTO ct1 ct2 flags cmp_repl_l3proto True \<and>
     cmp_attr ATTR_REPL_L4PROTO ct1 ct2 flags cmp_repl_l4proto True \<and>
     cmp_attr ATTR_REPL_IPV4_SRC ct1 ct2 flags cmp_repl_ipv4_src True \<and>
     cmp_attr ATTR_REPL_IPV4_DST ct1 ct2 flags cmp_repl_ipv4_dst True \<and>
     cmp_attr ATTR_REPL_IPV6_SRC ct1 ct2 flags cmp_repl_ipv6_src True \<and>
     cmp_attr ATTR_REPL_IPV6_DST ct1 ct2 flags cmp_repl_ipv6_dst True \<and>
     cmp_attr ATTR_REPL_ZONE ct1 ct2 flags cmp_repl_zone False"

section \<open>Other attributes\<close>

definition u32_at :: "nf_conntrack \<Rightarrow> member \<Rightarrow> u32" where
  "u32_at ct m = word_of_nat (of_le (mem ct m))"

definition cmp_id :: comparison where "cmp_id = same (whole_member M_id)"

definition cmp_mark :: comparison where
  "cmp_mark ct1 ct2 flags \<longleftrightarrow> nfct_get_attr_u32 ct1 ATTR_MARK = nfct_get_attr_u32 ct2 ATTR_MARK"

definition cmp_timeout :: comparison where
  "cmp_timeout ct1 ct2 flags =
     (let t1 = u32_at ct1 M_timeout; t2 = u32_at ct2 M_timeout in
      if flags AND (NFCT_CMP_TIMEOUT_LE OR NFCT_CMP_TIMEOUT_GT) = 0 \<and> t1 = t2 then True
      else if flags AND NFCT_CMP_TIMEOUT_GT \<noteq> 0 \<and> t1 > t2 then True
      else if flags AND NFCT_CMP_TIMEOUT_LT \<noteq> 0 \<and> t1 < t2 then True
      else if flags AND NFCT_CMP_TIMEOUT_EQ \<noteq> 0 \<and> t1 = t2 then True
      else False)"

definition cmp_status :: comparison where
  "cmp_status ct1 ct2 flags \<longleftrightarrow> u32_at ct1 M_status AND u32_at ct2 M_status = u32_at ct1 M_status"

definition cmp_tcp_state :: comparison where "cmp_tcp_state = same (M_protoinfo, 0, 1)"
definition cmp_sctp_state :: comparison where "cmp_sctp_state = same (M_protoinfo, 0, 1)"
definition cmp_dccp_state :: comparison where "cmp_dccp_state = same (M_protoinfo, 0, 1)"

definition cmp_zone :: comparison where
  "cmp_zone ct1 ct2 flags \<longleftrightarrow> nfct_get_attr_u16 ct1 ATTR_ZONE = nfct_get_attr_u16 ct2 ATTR_ZONE"

definition cmp_secctx :: comparison where
  "cmp_secctx ct1 ct2 flags \<longleftrightarrow> secctx ct1 = secctx ct2"

text \<open>Label sets of different sizes are equal if the words that only one of them has are zero.\<close>

definition cmp_labels :: "u32 list option \<Rightarrow> u32 list option \<Rightarrow> bool" where
  "cmp_labels a b =
     (case (a, b) of
        (Some x, Some y) \<Rightarrow>
          (let bits = (if length x < length y then y else x); len = min (length x) (length y) in
           if list_ex (\<lambda>w. w \<noteq> 0) (drop len bits) then False else take len x = take len y)
      | (None, None) \<Rightarrow> True
      | _ \<Rightarrow> False)"

definition mask_of :: "nf_conntrack \<Rightarrow> nat \<Rightarrow> u32 list option" where
  "mask_of ct type = (case nfct_get_attr ct type of Some (Mask ws) \<Rightarrow> Some ws | _ \<Rightarrow> None)"

definition cmp_clabel :: comparison where
  "cmp_clabel ct1 ct2 flags = cmp_labels (mask_of ct1 ATTR_CONNLABELS) (mask_of ct2 ATTR_CONNLABELS)"

definition cmp_clabel_mask :: comparison where
  "cmp_clabel_mask ct1 ct2 flags = cmp_labels (mask_of ct1 ATTR_CONNLABELS_MASK) (mask_of ct2 ATTR_CONNLABELS_MASK)"

definition cmp_meta :: comparison where
  "cmp_meta ct1 ct2 flags \<longleftrightarrow>
     cmp_attr ATTR_ID ct1 ct2 flags cmp_id True \<and>
     cmp_attr ATTR_MARK ct1 ct2 flags cmp_mark False \<and>
     cmp_attr ATTR_TIMEOUT ct1 ct2 flags cmp_timeout True \<and>
     cmp_attr ATTR_STATUS ct1 ct2 flags cmp_status True \<and>
     cmp_attr ATTR_TCP_STATE ct1 ct2 flags cmp_tcp_state True \<and>
     cmp_attr ATTR_SCTP_STATE ct1 ct2 flags cmp_sctp_state True \<and>
     cmp_attr ATTR_DCCP_STATE ct1 ct2 flags cmp_dccp_state True \<and>
     cmp_attr ATTR_ZONE ct1 ct2 flags cmp_zone False \<and>
     cmp_attr ATTR_SECCTX ct1 ct2 flags cmp_secctx True \<and>
     cmp_attr ATTR_CONNLABELS ct1 ct2 flags cmp_clabel True \<and>
     cmp_attr ATTR_CONNLABELS_MASK ct1 ct2 flags cmp_clabel_mask True"

definition nfct_cmp :: "nf_conntrack \<Rightarrow> nf_conntrack \<Rightarrow> u32 \<Rightarrow> bool" where
  "nfct_cmp ct1 ct2 flags =
     (if flags AND NOT (NFCT_CMP_MASK OR NFCT_CMP_STRICT) = NFCT_CMP_ALL then
        cmp_meta ct1 ct2 flags \<and> cmp_orig ct1 ct2 flags \<and> cmp_repl ct1 ct2 flags
      else if flags AND NFCT_CMP_ORIG \<noteq> 0 \<and> \<not> cmp_orig ct1 ct2 flags then False
      else if flags AND NFCT_CMP_REPL \<noteq> 0 \<and> \<not> cmp_repl ct1 ct2 flags then False
      else True)"

end
