(* ===== verification/Ct_Laws.thy ===== *)
theory Ct_Laws
  imports Ct_Compare
begin

text \<open>
  Laws of connection tracking objects: what is read after a set, a copy or a clone, and what the
  comparison says of a copy.
\<close>

section \<open>Bit sets\<close>

lemma single_bit_and: "(push_bit n 1 AND w :: u32) \<noteq> 0 \<longleftrightarrow> n < 32 \<and> bit w n"
proof
  assume "push_bit n 1 AND w \<noteq> 0"
  then obtain k where "bit (push_bit n 1 AND w) k"
    by (metis bit_0_eq bit_eq_iff bot_apply bot_bool_def)
  then show "n < 32 \<and> bit w n"
    by (auto simp: bit_and_iff bit_exp_iff possible_bit_word)
next
  assume "n < 32 \<and> bit w n"
  then have "bit (push_bit n 1 AND w) n"
    by (simp add: bit_and_iff bit_exp_iff possible_bit_word)
  then show "push_bit n 1 AND w \<noteq> 0"
    by (metis bit_0_eq bot_apply bot_bool_def)
qed

lemma test_bit_iff: "test_bit nr addr \<longleftrightarrow> bit (addr ! (nr div 32)) (nr mod 32)"
  unfolding test_bit_def single_bit_and by simp

lemma test_set_bit:
  assumes "nr div 32 < length addr"
  shows "test_bit a (set_bit_in nr addr) \<longleftrightarrow> a = nr \<or> test_bit a addr"
proof (cases "a div 32 = nr div 32")
  case True
  have "a = nr \<longleftrightarrow> a mod 32 = nr mod 32"
    using True by (metis div_mult_mod_eq)
  then show ?thesis
    using assms True by (auto simp: test_bit_iff set_bit_in_def bit_or_iff bit_exp_iff possible_bit_word)
next
  case False
  then show ?thesis
    using assms by (auto simp: test_bit_iff set_bit_in_def)
qed

section \<open>Well-formed objects\<close>

fun region_ok :: "region \<Rightarrow> bool" where
  "region_ok (m, off, n) \<longleftrightarrow> off + n \<le> member_size m"

fun apart :: "region \<Rightarrow> region \<Rightarrow> bool" where
  "apart (m, off, n) (m', off', n') \<longleftrightarrow> m \<noteq> m' \<or> off + n \<le> off' \<or> off' + n' \<le> off"

definition zero_padded :: "bytes \<Rightarrow> bool" where
  "zero_padded bs \<longleftrightarrow> bs \<noteq> [] \<and> last bs = 0 \<and> list_all (\<lambda>b. b = 0) (dropWhile (\<lambda>b. b \<noteq> 0) bs)"

definition wf_ct :: "nf_conntrack \<Rightarrow> bool" where
  "wf_ct ct \<longleftrightarrow> (\<forall>m. length (mem ct m) = member_size m) \<and> length (head_set ct) = 3
     \<and> zero_padded (mem ct M_helper_name)"

lemma wf_member: "wf_ct ct \<Longrightarrow> length (mem ct m) = member_size m"
  by (simp add: wf_ct_def)

lemma length_read_region: "wf_ct ct \<Longrightarrow> region_ok (m, off, n) \<Longrightarrow> length (read_region ct (m, off, n)) = n"
  by (simp add: read_region_def wf_member)

lemma read_write_same:
  assumes "wf_ct ct" "region_ok (m, off, n)" "length bs = n"
  shows "read_region (write_region (m, off, n) bs ct) (m, off, n) = bs"
  using assms by (simp add: read_region_def write_region_def wf_member)

lemma read_write_apart:
  assumes "wf_ct ct" "region_ok (m, off, n)" "length bs = n" "apart (m, off, n) (m', off', n')"
  shows "read_region (write_region (m, off, n) bs ct) (m', off', n') = read_region ct (m', off', n')"
proof (cases "m = m'")
  case False
  then show ?thesis
    by (simp add: read_region_def write_region_def)
next
  case True
  have len: "length (mem ct m) = member_size m" "off + n \<le> member_size m"
    using assms(1,2) by (simp_all add: wf_member)
  show ?thesis
  proof (cases "off' + n' \<le> off")
    case True
    then show ?thesis
      using len \<open>m = m'\<close> by (auto simp: read_region_def write_region_def take_drop min_def)
  next
    case False
    then have "off + n \<le> off'"
      using assms(4) True by auto
    then show ?thesis
      using len \<open>m = m'\<close> assms(3) by (simp add: read_region_def write_region_def)
  qed
qed

lemma write_region_simps [simp]:
  "head_set (write_region r bs ct) = head_set ct" "secctx (write_region r bs ct) = secctx ct"
  "helper_info (write_region r bs ct) = helper_info ct" "helper_info_len (write_region r bs ct) = helper_info_len ct"
  "connlabels (write_region r bs ct) = connlabels ct" "connlabels_mask (write_region r bs ct) = connlabels_mask ct"
  by (simp_all add: write_region_def split: prod.splits)

lemma wf_write_region:
  assumes "wf_ct ct" "region_ok (m, off, n)" "length bs = n" "m \<noteq> M_helper_name"
  shows "wf_ct (write_region (m, off, n) bs ct)"
  using assms by (auto simp: wf_ct_def write_region_def)

lemma wf_mark_set: "wf_ct ct \<Longrightarrow> wf_ct (mark_set type ct)"
  by (simp add: wf_ct_def mark_set_def set_bit_in_def)

lemma read_mark_set [simp]: "read_region (mark_set type ct) r = read_region ct r"
  by (simp add: read_region_def mark_set_def)

lemma mark_set_simps [simp]:
  "secctx (mark_set type ct) = secctx ct" "helper_info (mark_set type ct) = helper_info ct"
  "connlabels (mark_set type ct) = connlabels ct" "connlabels_mask (mark_set type ct) = connlabels_mask ct"
  by (simp_all add: mark_set_def)

lemma run_getter_mark_set [simp]: "run_getter g (mark_set type ct) = run_getter g ct"
  by (cases g) (simp_all add: run_getter_def)

lemma test_mark_set:
  assumes "wf_ct ct" "type < ATTR_MAX"
  shows "test_bit a (head_set (mark_set type ct)) \<longleftrightarrow> a = type \<or> test_bit a (head_set ct)"
  using assms by (simp add: mark_set_def wf_ct_def test_set_bit ATTR_MAX_def)

lemma wf_nfct_new: "wf_ct nfct_new"
  by (simp add: wf_ct_def nfct_new_def zero_padded_def NFCT_HELPER_NAME_MAX_def list_all_iff)

section \<open>The tables\<close>

text \<open>The setter of an attribute stores first where the getter reads, then in other members; the copier
  copies what the getter reads.\<close>

fun setter_fits :: "getter \<Rightarrow> setter \<Rightarrow> copier \<Rightarrow> bool" where
  "setter_fits (At r) (Put []) c = False"
| "setter_fits (At r) (Put (r' # rs)) c = (r' = r \<and> region_ok r \<and> fst r \<noteq> M_helper_name
     \<and> list_all (\<lambda>q. fst q \<noteq> fst r \<and> fst q \<noteq> M_helper_name \<and> region_ok q) rs \<and> c = Copy r)"
| "setter_fits (At r) s c = (region_ok r \<and> (if s = Put_helper_name then c = Copy_helper_name \<and> r = whole_member M_helper_name
     else fst r \<noteq> M_helper_name \<and> c = Copy r))"
| "setter_fits Secctx s c = (c = Copy_secctx \<and> s = Do_nothing)"
| "setter_fits Helper_info s c = (c = Copy_help_info \<and> s = Put_helper_info)"
| "setter_fits Connlabels s c = (c = Copy_connlabels \<and> s = Put_connlabels)"
| "setter_fits Connlabels_mask s c = (c = Copy_connlabels_mask \<and> s = Put_connlabels_mask)"

lemma tables_fit:
  "length get_attr_array = ATTR_MAX \<and> length set_attr_array = ATTR_MAX \<and> length copy_attr_array = ATTR_MAX
    \<and> list_all (\<lambda>(g, s, c). setter_fits g s c) (zip get_attr_array (zip set_attr_array copy_attr_array))"
  by code_simp

lemma attr_fits: "type < ATTR_MAX \<Longrightarrow> setter_fits (get_attr_array ! type) (set_attr_array ! type) (copy_attr_array ! type)"
  using tables_fit by (simp add: list_all_length)

section \<open>Setting\<close>

definition writes :: "nat \<Rightarrow> region list" where
  "writes type = (case set_attr_array ! type of Put rs \<Rightarrow> rs | _ \<Rightarrow> [])"

definition reads :: "nat \<Rightarrow> region list" where
  "reads type = (case get_attr_array ! type of At r \<Rightarrow> [r] | _ \<Rightarrow> [])"

definition independent :: "nat \<Rightarrow> nat \<Rightarrow> bool" where
  "independent a b \<longleftrightarrow> list_all (\<lambda>r. list_all (apart r) (reads b)) (writes a)"

lemma put_regions_effect:
  assumes "put_regions rs bs ct = Some ct'" "wf_ct ct" "list_all (\<lambda>q. fst q \<noteq> M_helper_name \<and> region_ok q) rs"
  shows "wf_ct ct' \<and> nf_conntrack.truncate ct' = (nf_conntrack.truncate ct)\<lparr> mem := mem ct' \<rparr>
    \<and> (\<forall>q. list_all (\<lambda>r. apart r q) rs \<longrightarrow> read_region ct' q = read_region ct q)"
  using assms
proof (induction rs bs ct rule: put_regions.induct)
  case (1 bs ct)
  then show ?case
    by (simp add: nf_conntrack.truncate_def)
next
  case (2 m off n rs bs ct)
  then obtain v where v: "load bs 0 n = Some v" "put_regions rs bs (write_region (m, off, n) v ct) = Some ct'"
    by (auto split: option.splits)
  have ok: "region_ok (m, off, n)" "m \<noteq> M_helper_name" "length v = n"
    using 2(4) load_length [OF v(1)] by simp_all
  have wf: "wf_ct (write_region (m, off, n) v ct)"
    by (rule wf_write_region [OF 2(3) ok(1,3,2)])
  have IH: "wf_ct ct' \<and> nf_conntrack.truncate ct' = (nf_conntrack.truncate (write_region (m, off, n) v ct))\<lparr> mem := mem ct' \<rparr>
    \<and> (\<forall>q. list_all (\<lambda>r. apart r q) rs \<longrightarrow> read_region ct' q = read_region (write_region (m, off, n) v ct) q)"
    using 2(1) [OF v wf] 2(4) by simp
  moreover have "read_region (write_region (m, off, n) v ct) q = read_region ct q" if "apart (m, off, n) q" for q
    using that read_write_apart [OF 2(3) ok(1,3)] by (cases q) blast
  ultimately show ?case
    by (auto simp: nf_conntrack.truncate_def)
qed

lemma truncate_eqD:
  assumes "nf_conntrack.truncate ct' = (nf_conntrack.truncate ct)\<lparr> mem := mem ct' \<rparr>"
  shows "head_set ct' = head_set ct" "secctx ct' = secctx ct" "helper_info ct' = helper_info ct"
    "connlabels ct' = connlabels ct" "connlabels_mask ct' = connlabels_mask ct"
  using assms by (simp_all add: nf_conntrack.truncate_def)

lemma put_regions_first:
  assumes "put_regions ((m, off, n) # rs) bs ct = Some ct'" "wf_ct ct"
    "list_all (\<lambda>q. fst q \<noteq> M_helper_name \<and> region_ok q) ((m, off, n) # rs)" "list_all (\<lambda>q. fst q \<noteq> m) rs"
  shows "read_region ct' (m, off, n) = take n bs"
proof -
  obtain v where v: "load bs 0 n = Some v" "put_regions rs bs (write_region (m, off, n) v ct) = Some ct'"
    using assms(1) by (auto split: option.splits)
  have ok: "region_ok (m, off, n)" "m \<noteq> M_helper_name" "length v = n"
    using assms(3) load_length [OF v(1)] by simp_all
  have wf: "wf_ct (write_region (m, off, n) v ct)"
    by (rule wf_write_region [OF assms(2) ok(1,3,2)])
  have "list_all (\<lambda>r. apart r (m, off, n)) rs"
    using assms(4) by (auto simp: list_all_iff)
  then have "read_region ct' (m, off, n) = read_region (write_region (m, off, n) v ct) (m, off, n)"
    using put_regions_effect [OF v(2) wf] assms(3) by simp
  also have "\<dots> = take n bs"
    using read_write_same [OF assms(2) ok(1,3)] v(1) by (auto simp: load_def split: if_splits)
  finally show ?thesis .
qed

lemma settable_regions:
  assumes "type < ATTR_MAX" "writes type = (m, off, n) # rs"
  shows "set_attr_array ! type = Put ((m, off, n) # rs)" "get_attr_array ! type = At (m, off, n)"
    "list_all (\<lambda>q. fst q \<noteq> M_helper_name \<and> region_ok q) ((m, off, n) # rs)" "list_all (\<lambda>q. fst q \<noteq> m) rs"
proof -
  show s: "set_attr_array ! type = Put ((m, off, n) # rs)"
    using assms(2) by (auto simp: writes_def split: setter.splits)
  show "get_attr_array ! type = At (m, off, n)"
    "list_all (\<lambda>q. fst q \<noteq> M_helper_name \<and> region_ok q) ((m, off, n) # rs)" "list_all (\<lambda>q. fst q \<noteq> m) rs"
    using attr_fits [OF assms(1)] unfolding s by (cases "get_attr_array ! type"; auto simp: list_all_iff)+
qed

lemma set_attr_effect:
  assumes "wf_ct ct" "type < ATTR_MAX" "writes type = (m, off, n) # rs" "nfct_set_attr_l ct type (Mem bs) len = Some ct'"
  obtains ct1 where "ct' = mark_set type ct1" "wf_ct ct1" "nf_conntrack.truncate ct1 = (nf_conntrack.truncate ct)\<lparr> mem := mem ct1 \<rparr>"
    "\<forall>q. list_all (\<lambda>r. apart r q) (writes type) \<longrightarrow> read_region ct1 q = read_region ct q" "read_region ct1 (m, off, n) = take n bs"
proof -
  note regs = settable_regions [OF assms(2,3)]
  obtain ct1 where ct1: "put_regions ((m, off, n) # rs) bs ct = Some ct1" "ct' = mark_set type ct1"
    using assms(2,4) by (auto simp: nfct_set_attr_l_def regs(1) run_setter_def simp del: put_regions.simps)
  show ?thesis
    using that [OF ct1(2)] put_regions_effect [OF ct1(1) assms(1) regs(3)] put_regions_first [OF ct1(1) assms(1) regs(3,4)]
    by (simp add: assms(3))
qed

text \<open>An attribute that is stored reads back as the bytes that were stored, and setting it changes
  neither whether any other attribute is set nor the value of any other attribute that does not share
  memory with it.\<close>

theorem get_returns_what_was_set:
  assumes "wf_ct ct" "type < ATTR_MAX" "writes type = (m, off, n) # rs" "nfct_set_attr_l ct type (Mem bs) len = Some ct'"
  shows "wf_ct ct' \<and> nfct_get_attr ct' type = Some (Mem (take n bs))
    \<and> (\<forall>b. b \<noteq> type \<longrightarrow> test_bit b (head_set ct') = test_bit b (head_set ct))
    \<and> (\<forall>b. b \<noteq> type \<and> independent type b \<longrightarrow> nfct_get_attr ct' b = nfct_get_attr ct b)"
proof -
  obtain ct1 where ct1: "ct' = mark_set type ct1" "wf_ct ct1" "nf_conntrack.truncate ct1 = (nf_conntrack.truncate ct)\<lparr> mem := mem ct1 \<rparr>"
    "\<forall>q. list_all (\<lambda>r. apart r q) (writes type) \<longrightarrow> read_region ct1 q = read_region ct q" "read_region ct1 (m, off, n) = take n bs"
    by (rule set_attr_effect [OF assms])
  note eqs = truncate_eqD [OF ct1(3)]
  have bits: "test_bit b (head_set ct') \<longleftrightarrow> b = type \<or> test_bit b (head_set ct)" for b
    unfolding ct1(1) test_mark_set [OF ct1(2) assms(2)] by (simp only: eqs(1))
  have "nfct_get_attr ct' b = nfct_get_attr ct b" if "b \<noteq> type" "independent type b" for b
  proof -
    have "run_getter (get_attr_array ! b) ct' = run_getter (get_attr_array ! b) ct"
      using that(2) ct1(4) eqs by (cases "get_attr_array ! b")
        (simp_all add: ct1(1) run_getter_def independent_def reads_def del: split_paired_All)
    then show ?thesis
      using bits that(1) by (simp add: nfct_get_attr_def)
  qed
  moreover have "nfct_get_attr ct' type = Some (Mem (take n bs))"
    using bits assms(2) settable_regions(2) [OF assms(2,3)] ct1(1,5) by (simp add: nfct_get_attr_def run_getter_def)
  ultimately show ?thesis
    using wf_mark_set [OF ct1(2)] bits ct1(1) by blast
qed

section \<open>Copying\<close>

text \<open>Copying one part of a member does not disturb another part in which the objects agree already,
  however the parts overlap.\<close>

lemma splice_agrees:
  assumes "length xs = length ys" "off + n \<le> length xs" "take n' (drop off' xs) = take n' (drop off' ys)"
  shows "take n' (drop off' (take off xs @ take n (drop off ys) @ drop (off + n) xs)) = take n' (drop off' ys)"
proof -
  define zs where "zs = take off xs @ take n (drop off ys) @ drop (off + n) xs"
  have len: "length zs = length ys"
    using assms(1,2) by (simp add: zs_def)
  have "take n' (drop off' zs) = take n' (drop off' ys)"
  proof (rule nth_equalityI)
    show "length (take n' (drop off' zs)) = length (take n' (drop off' ys))"
      by (simp add: len)
    fix i assume "i < length (take n' (drop off' zs))"
    then have i: "i < n'" "off' + i < length ys"
      by (simp_all add: len less_diff_conv add.commute)
    have "take n' (drop off' xs) ! i = take n' (drop off' ys) ! i"
      by (simp only: assms(3))
    then have "xs ! (off' + i) = ys ! (off' + i)"
      using i assms(1) by simp
    then have "zs ! (off' + i) = ys ! (off' + i)"
      using i assms(1,2) by (auto simp: zs_def nth_append)
    then show "take n' (drop off' zs) ! i = take n' (drop off' ys) ! i"
      using i len by simp
  qed
  then show ?thesis
    by (simp only: zs_def)
qed

lemma copy_region_agrees:
  assumes "wf_ct d" "wf_ct s" "region_ok r" "read_region d q = read_region s q"
  shows "read_region (write_region r (read_region s r) d) q = read_region s q"
proof -
  obtain m off n where r: "r = (m, off, n)"
    by (cases r)
  obtain m' off' n' where q: "q = (m', off', n')"
    by (cases q)
  show ?thesis
  proof (cases "m = m'")
    case False
    then show ?thesis
      using assms(4) by (simp add: r q read_region_def write_region_def)
  next
    case True
    then show ?thesis
      using splice_agrees [of "mem d m" "mem s m" off n n' off'] assms by (simp add: r q read_region_def write_region_def wf_member)
  qed
qed

lemma strncpy_padded: "zero_padded bs \<Longrightarrow> strncpy (length bs) bs = Some bs"
proof (induction bs)
  case Nil
  then show ?case
    by simp
next
  case (Cons b bs)
  show ?case
  proof (cases "b = 0")
    case True
    then have "bs = replicate (length bs) 0"
      using Cons.prems by (auto simp: zero_padded_def list_all_iff intro!: replicate_eqI)
    then show ?thesis
      using True by simp
  next
    case False
    then have "zero_padded bs"
      using Cons.prems by (auto simp: zero_padded_def split: if_splits)
    then show ?thesis
      using Cons.IH False by simp
  qed
qed

lemma copied_name:
  assumes "wf_ct s"
  shows "strncpy NFCT_HELPER_NAME_MAX (read_region s (whole_member M_helper_name)) = Some (mem s M_helper_name)"
    "(mem s M_helper_name)[NFCT_HELPER_NAME_MAX - 1 := 0] = mem s M_helper_name"
proof -
  have len: "length (mem s M_helper_name) = NFCT_HELPER_NAME_MAX" and pad: "zero_padded (mem s M_helper_name)"
    using assms by (simp_all add: wf_ct_def)
  show "strncpy NFCT_HELPER_NAME_MAX (read_region s (whole_member M_helper_name)) = Some (mem s M_helper_name)"
    using strncpy_padded [OF pad] len by (simp add: read_region_def whole_member_def)
  have "mem s M_helper_name ! (NFCT_HELPER_NAME_MAX - 1) = 0"
    using pad len by (auto simp: zero_padded_def last_conv_nth)
  then show "(mem s M_helper_name)[NFCT_HELPER_NAME_MAX - 1 := 0] = mem s M_helper_name"
    using list_update_id [of "mem s M_helper_name" "NFCT_HELPER_NAME_MAX - 1"] by simp
qed

text \<open>The members that are allocated apart are there if their attributes are set.\<close>

definition sound_ct :: "nf_conntrack \<Rightarrow> bool" where
  "sound_ct ct \<longleftrightarrow> wf_ct ct
     \<and> (case helper_info ct of None \<Rightarrow> \<not> test_bit 65 (head_set ct) | Some bs \<Rightarrow> helper_info_len ct = length bs)
     \<and> (test_bit ATTR_CONNLABELS (head_set ct) \<longrightarrow> connlabels ct \<noteq> None)
     \<and> (test_bit ATTR_CONNLABELS_MASK (head_set ct) \<longrightarrow> connlabels_mask ct \<noteq> None)"

definition agree :: "nf_conntrack \<Rightarrow> nf_conntrack \<Rightarrow> nat \<Rightarrow> bool" where
  "agree d s a \<longleftrightarrow> run_getter (get_attr_array ! a) d = run_getter (get_attr_array ! a) s"

lemma wf_name_copy:
  assumes "wf_ct d" "wf_ct s"
  shows "wf_ct (write_region (whole_member M_helper_name) (mem s M_helper_name) d)"
  using assms by (auto simp: wf_ct_def write_region_def whole_member_def)

text \<open>One copier: it leaves the bit set alone, makes its attribute agree with the source and keeps what
  agreed before.\<close>

lemma allocated_attrs:
  "list_all (\<lambda>i. (get_attr_array ! i = Helper_info \<longrightarrow> i = 65) \<and> (get_attr_array ! i = Connlabels \<longrightarrow> i = ATTR_CONNLABELS)
     \<and> (get_attr_array ! i = Connlabels_mask \<longrightarrow> i = ATTR_CONNLABELS_MASK)) [0..<ATTR_MAX]"
  by code_simp

lemma allocated_attr:
  assumes "i < ATTR_MAX"
  shows "get_attr_array ! i = Helper_info \<Longrightarrow> i = 65" "get_attr_array ! i = Connlabels \<Longrightarrow> i = ATTR_CONNLABELS"
    "get_attr_array ! i = Connlabels_mask \<Longrightarrow> i = ATTR_CONNLABELS_MASK"
  using allocated_attrs assms by (auto simp: list_all_iff)

lemma heap_copy:
  assumes "wf_ct d" "head_set d' = head_set d" "mem d' = mem d"
  shows "wf_ct d'" "read_region d' r = read_region d r"
  using assms by (simp_all add: wf_ct_def read_region_def)

lemma run_copier_effect:
  assumes "wf_ct d" "sound_ct s" "i < ATTR_MAX" "test_bit i (head_set s)"
  shows "\<exists>d'. run_copier (copy_attr_array ! i) d s = Some d' \<and> wf_ct d' \<and> head_set d' = head_set d \<and> agree d' s i
    \<and> (\<forall>a. agree d s a \<longrightarrow> agree d' s a)"
proof -
  have s: "wf_ct s"
    using assms(2) by (simp add: sound_ct_def)
  note fit = attr_fits [OF assms(3)]
  show ?thesis
  proof (cases "get_attr_array ! i")
    case (At r)
    then have ok: "region_ok r"
      using fit by (cases "set_attr_array ! i"; cases r) (auto simp: neq_Nil_conv elim!: setter_fits.elims)
    show ?thesis
    proof (cases "set_attr_array ! i = Put_helper_name")
      case False
      then have c: "copy_attr_array ! i = Copy r" "fst r \<noteq> M_helper_name"
        using fit At by (auto elim!: setter_fits.elims)
      let ?d = "write_region r (read_region s r) d"
      have "wf_ct ?d"
        using assms(1) s ok c(2) by (cases r) (simp add: wf_write_region length_read_region del: region_ok.simps)
      moreover have "read_region ?d r = read_region s r"
        using assms(1) s ok by (cases r) (simp add: read_write_same length_read_region del: region_ok.simps)
      moreover have "agree ?d s a" if "agree d s a" for a
        using that copy_region_agrees [OF assms(1) s ok]
        by (cases "get_attr_array ! a") (auto simp: agree_def run_getter_def)
      ultimately show ?thesis
        by (simp add: c(1) run_copier_def agree_def At run_getter_def)
    next
      case True
      then have c: "copy_attr_array ! i = Copy_helper_name" "r = whole_member M_helper_name"
        using fit At by (auto elim!: setter_fits.elims)
      let ?d = "write_region r (read_region s r) d"
      have name: "mem s M_helper_name = read_region s r"
        using s by (simp add: c(2) read_region_def whole_member_def wf_member)
      have d: "run_copier (copy_attr_array ! i) d s = Some ?d"
        using copied_name [OF s] name by (simp add: run_copier_def c)
      have "wf_ct ?d"
        using wf_name_copy [OF assms(1) s] by (simp add: c(2) name)
      moreover have "read_region ?d r = read_region s r"
        using assms(1) s ok by (cases r) (simp add: read_write_same length_read_region del: region_ok.simps)
      moreover have "agree ?d s a" if "agree d s a" for a
        using that copy_region_agrees [OF assms(1) s ok]
        by (cases "get_attr_array ! a") (auto simp: agree_def run_getter_def)
      ultimately show ?thesis
        by (simp add: d agree_def At run_getter_def)
    qed
  next
    case Secctx
    then have "copy_attr_array ! i = Copy_secctx"
      using fit by simp
    moreover have "agree (d\<lparr> secctx := secctx s \<rparr>) s a" if "agree d s a" for a
      using that heap_copy(2) [OF assms(1), of "d\<lparr> secctx := secctx s \<rparr>"]
      by (cases "get_attr_array ! a") (auto simp: agree_def run_getter_def)
    ultimately show ?thesis
      using heap_copy(1) [OF assms(1)] Secctx by (simp add: run_copier_def agree_def run_getter_def)
  next
    case Helper_info
    then obtain bs where bs: "helper_info s = Some bs" "helper_info_len s = length bs"
      using assms(2,4) allocated_attr(1) [OF assms(3)] by (auto simp: sound_ct_def split: option.splits)
    have "agree (d\<lparr> helper_info := Some bs \<rparr>) s a" if "agree d s a" for a
      using that bs(1) heap_copy(2) [OF assms(1), of "d\<lparr> helper_info := Some bs \<rparr>"]
      by (cases "get_attr_array ! a") (auto simp: agree_def run_getter_def)
    moreover have "copy_attr_array ! i = Copy_help_info"
      using fit Helper_info by simp
    ultimately show ?thesis
      using heap_copy(1) [OF assms(1)] Helper_info bs
      by (simp add: run_copier_def agree_def run_getter_def copy_attr_help_info_def load_def)
  next
    case Connlabels
    then obtain ws where ws: "connlabels s = Some ws"
      using assms(2,4) allocated_attr(2) [OF assms(3)] by (auto simp: sound_ct_def)
    have "agree (d\<lparr> connlabels := Some ws \<rparr>) s a" if "agree d s a" for a
      using that ws heap_copy(2) [OF assms(1), of "d\<lparr> connlabels := Some ws \<rparr>"]
      by (cases "get_attr_array ! a") (auto simp: agree_def run_getter_def)
    moreover have "copy_attr_array ! i = Copy_connlabels"
      using fit Connlabels by simp
    ultimately show ?thesis
      using heap_copy(1) [OF assms(1)] Connlabels ws
      by (simp add: run_copier_def agree_def run_getter_def do_copy_attr_connlabels_def)
  next
    case Connlabels_mask
    then obtain ws where ws: "connlabels_mask s = Some ws"
      using assms(2,4) allocated_attr(3) [OF assms(3)] by (auto simp: sound_ct_def)
    have "agree (d\<lparr> connlabels_mask := Some ws \<rparr>) s a" if "agree d s a" for a
      using that ws heap_copy(2) [OF assms(1), of "d\<lparr> connlabels_mask := Some ws \<rparr>"]
      by (cases "get_attr_array ! a") (auto simp: agree_def run_getter_def)
    moreover have "copy_attr_array ! i = Copy_connlabels_mask"
      using fit Connlabels_mask by simp
    ultimately show ?thesis
      using heap_copy(1) [OF assms(1)] Connlabels_mask ws
      by (simp add: run_copier_def agree_def run_getter_def do_copy_attr_connlabels_def)
  qed
qed

lemma agree_mark_set [simp]: "agree (mark_set i d) s a \<longleftrightarrow> agree d s a"
  by (simp add: agree_def)

lemma copy_attrs_effect:
  assumes "wf_ct d" "sound_ct s" "list_all (\<lambda>i. i < ATTR_MAX) is"
  shows "\<exists>d'. copy_attrs is d s = Some d' \<and> wf_ct d'
    \<and> (\<forall>a. test_bit a (head_set d') \<longleftrightarrow> test_bit a (head_set d) \<or> a \<in> set is \<and> test_bit a (head_set s))
    \<and> (\<forall>a. agree d s a \<or> a \<in> set is \<and> test_bit a (head_set s) \<longrightarrow> agree d' s a)"
  using assms(1,3)
proof (induction "is" arbitrary: d)
  case Nil
  then show ?case
    by simp
next
  case (Cons i "is")
  show ?case
  proof (cases "test_bit i (head_set s)")
    case False
    then show ?thesis
      using Cons.IH [OF Cons.prems(1)] Cons.prems(2) by auto
  next
    case True
    have i: "i < ATTR_MAX"
      using Cons.prems(2) by simp
    obtain d1 where d1: "run_copier (copy_attr_array ! i) d s = Some d1" "wf_ct d1" "head_set d1 = head_set d" "agree d1 s i"
      "\<forall>a. agree d s a \<longrightarrow> agree d1 s a"
      using run_copier_effect [OF Cons.prems(1) assms(2) i True] by blast
    have wf: "wf_ct (mark_set i d1)"
      by (rule wf_mark_set [OF d1(2)])
    obtain d' where d': "copy_attrs is (mark_set i d1) s = Some d'" "wf_ct d'"
      "\<forall>a. test_bit a (head_set d') \<longleftrightarrow> test_bit a (head_set (mark_set i d1)) \<or> a \<in> set is \<and> test_bit a (head_set s)"
      "\<forall>a. agree (mark_set i d1) s a \<or> a \<in> set is \<and> test_bit a (head_set s) \<longrightarrow> agree d' s a"
      using Cons.IH [OF wf] Cons.prems(2) by auto
    show ?thesis
      using d1 d' True test_mark_set [OF d1(2) i] by auto
  qed
qed

text \<open>The attributes a copy is asked for.\<close>

definition asked :: "u32 \<Rightarrow> nat list" where
  "asked flags =
     (if flags = NFCT_CP_ALL then [0..<ATTR_MAX]
      else (if flags AND NFCT_CP_ORIG \<noteq> 0 then cp_orig_mask else []) @ (if flags AND NFCT_CP_REPL \<noteq> 0 then cp_repl_mask else [])
        @ (if flags AND NFCT_CP_META \<noteq> 0 then [ATTR_TCP_STATE..<ATTR_MAX] else []))"

lemma asked_attrs: "list_all (\<lambda>i. i < ATTR_MAX) (asked flags)"
  by (auto simp: asked_def list_all_iff cp_orig_mask_def cp_repl_mask_def attr_numbers)

lemma nfct_copy_asked:
  "flags AND NFCT_CP_OVERRIDE = 0 \<Longrightarrow> nfct_copy d s flags = copy_attrs (asked flags) d s"
  by (simp add: nfct_copy_def asked_def)

text \<open>After a copy every attribute that was asked for and is set in the source reads in the destination as
  it reads in the source, even where attributes share memory, and no other attribute becomes set or unset.\<close>

theorem copy_makes_attributes_agree:
  assumes "wf_ct d" "sound_ct s" "flags AND NFCT_CP_OVERRIDE = 0"
  shows "\<exists>d'. nfct_copy d s flags = Some d' \<and> wf_ct d'
    \<and> (\<forall>a. if a \<in> set (asked flags) \<and> test_bit a (head_set s) then nfct_get_attr d' a = nfct_get_attr s a
            else test_bit a (head_set d') = test_bit a (head_set d))"
proof -
  obtain d' where d': "copy_attrs (asked flags) d s = Some d'" "wf_ct d'"
    "\<forall>a. test_bit a (head_set d') \<longleftrightarrow> test_bit a (head_set d) \<or> a \<in> set (asked flags) \<and> test_bit a (head_set s)"
    "\<forall>a. agree d s a \<or> a \<in> set (asked flags) \<and> test_bit a (head_set s) \<longrightarrow> agree d' s a"
    using copy_attrs_effect [OF assms(1,2) asked_attrs] by blast
  then show ?thesis
    using nfct_copy_asked [OF assms(3)] by (auto simp: nfct_get_attr_def agree_def)
qed

section \<open>Comparing\<close>

lemma cmp_attr_refl: "cmp ct ct flags \<Longrightarrow> cmp_attr attr ct ct flags cmp strict"
  by (simp add: cmp_attr_def)

lemma same_refl: "same r ct ct flags"
  by (simp add: same_def)

lemma cmp_labels_refl: "cmp_labels a a"
  by (cases a) (simp_all add: cmp_labels_def)

lemma cmp_tuple_refl: "cmp_icmp ct ct flags" "cmp_orig ct ct flags" "cmp_repl ct ct flags"
proof -
  show icmp: "cmp_icmp ct ct flags"
    by (simp add: cmp_icmp_def cmp_attr_refl same_refl cmp_icmp_id_def cmp_icmp_code_def cmp_icmp_type_def)
  show "cmp_orig ct ct flags"
    using icmp by (simp add: cmp_orig_def cmp_attr_refl same_refl cmp_orig_l3proto_def cmp_orig_l4proto_def cmp_orig_port_src_def
        cmp_orig_port_dst_def cmp_orig_ipv4_src_def cmp_orig_ipv4_dst_def cmp_orig_ipv6_src_def cmp_orig_ipv6_dst_def
        cmp_orig_zone_def)
  show "cmp_repl ct ct flags"
    using icmp by (simp add: cmp_repl_def cmp_attr_refl same_refl cmp_repl_l3proto_def cmp_repl_l4proto_def cmp_repl_port_src_def
        cmp_repl_port_dst_def cmp_repl_ipv4_src_def cmp_repl_ipv4_dst_def cmp_repl_ipv6_src_def cmp_repl_ipv6_dst_def
        cmp_repl_zone_def)
qed

lemma cmp_meta_refl:
  "flags AND (NFCT_CMP_TIMEOUT_LE OR NFCT_CMP_TIMEOUT_GT) = 0 \<Longrightarrow> cmp_meta ct ct flags"
  by (simp add: cmp_meta_def cmp_attr_refl same_refl cmp_labels_refl cmp_id_def cmp_mark_def cmp_timeout_def cmp_status_def
      cmp_tcp_state_def cmp_sctp_state_def cmp_dccp_state_def cmp_zone_def cmp_secctx_def cmp_clabel_def cmp_clabel_mask_def)

lemma clone_same:
  assumes "sound_ct ct"
  shows "nfct_clone ct = Some ct"
  using assms by (cases "helper_info ct")
    (auto simp: nfct_clone_def nfct_copy_def NFCT_CP_OVERRIDE_def copy_fast_def copy_attr_help_info_def sound_ct_def load_def)

text \<open>A clone of an object compares equal to it under every flag but those for the timeout, strict
  comparison included.\<close>

theorem clone_compares_equal:
  assumes "sound_ct ct" "flags AND (NFCT_CMP_TIMEOUT_LE OR NFCT_CMP_TIMEOUT_GT) = 0"
  shows "\<exists>ct'. nfct_clone ct = Some ct' \<and> (\<forall>a. nfct_get_attr ct' a = nfct_get_attr ct a) \<and> nfct_cmp ct' ct flags"
  using clone_same [OF assms(1)] cmp_tuple_refl cmp_meta_refl [OF assms(2)] by (simp add: nfct_cmp_def)

text \<open>With a flag for the timeout and none for the tuples the comparison says that the objects are equal,
  whatever they are: the timeouts are compared only under flags that leave the timeout flags out.\<close>

theorem timeout_flags_compare_nothing:
  assumes "flags AND (NFCT_CMP_TIMEOUT_LE OR NFCT_CMP_TIMEOUT_GT) \<noteq> 0" "flags AND NFCT_CMP_ORIG = 0" "flags AND NFCT_CMP_REPL = 0"
  shows "nfct_cmp ct1 ct2 flags"
proof -
  have "NFCT_CMP_TIMEOUT_LE OR NFCT_CMP_TIMEOUT_GT = (NOT (NFCT_CMP_MASK OR NFCT_CMP_STRICT) AND 28 :: u32)"
    by (simp add: cmp_flags)
  then have "flags AND (NFCT_CMP_TIMEOUT_LE OR NFCT_CMP_TIMEOUT_GT) = (flags AND NOT (NFCT_CMP_MASK OR NFCT_CMP_STRICT)) AND 28"
    by (simp only: and.assoc)
  then have "flags AND NOT (NFCT_CMP_MASK OR NFCT_CMP_STRICT) \<noteq> NFCT_CMP_ALL"
    using assms(1) by (auto simp only: NFCT_CMP_ALL_def bit.conj_zero_left)
  then show ?thesis
    using assms(2,3) by (simp add: nfct_cmp_def)
qed

end
