(* ===== verification/Ct_Session.thy ===== *)
theory Ct_Session
  imports Ct_Laws NP_Text "HOL-Library.Monad_Syntax"
begin

text \<open>
  The connection tracking session of a pod (crates/net_conntrack/src/session.rs). Objects, library
  handles and the callback data live in a store of addresses, so that a freed or a foreign pointer is
  seen; \<open>None\<close> is undefined behaviour. What the kernel answers to a dump is a parameter: the entries
  that it hands to the callback and the value the query returns.
\<close>

section \<open>The store\<close>

datatype cell =
    Object nf_conntrack
  | Handle "nat option"        \<comment> \<open>the data pointer of the registered callback\<close>
  | CallbackData nat nat nat   \<comment> \<open>filter, update, update handle\<close>

record ct_store =
  cells :: "(nat, cell) hmap"
  fresh :: nat

definition alloc :: "cell \<Rightarrow> ct_store \<Rightarrow> nat \<times> ct_store" where
  "alloc c st = (fresh st, \<lparr> cells = hm_put (fresh st) c (cells st), fresh = Suc (fresh st) \<rparr>)"

definition release :: "nat \<Rightarrow> ct_store \<Rightarrow> ct_store option" where
  "release p st = (if hm_has (cells st) p then Some (st\<lparr> cells := hm_del p (cells st) \<rparr>) else None)"

definition object_at :: "ct_store \<Rightarrow> nat \<Rightarrow> nf_conntrack option" where
  "object_at st p = (case hm_get (cells st) p of Some (Object ct) \<Rightarrow> Some ct | _ \<Rightarrow> None)"

definition on_object :: "nat \<Rightarrow> (nf_conntrack \<Rightarrow> nf_conntrack option) \<Rightarrow> ct_store \<Rightarrow> ct_store option" where
  "on_object p f st = do {
     ct \<leftarrow> object_at st p;
     ct' \<leftarrow> f ct;
     Some (st\<lparr> cells := hm_put p (Object ct') (cells st) \<rparr>) }"

section \<open>The session\<close>

record ConntrackSession =
  filter_ct :: nat
  update_ct :: nat
  query_handle :: nat
  update_handle :: nat
  cb_data :: nat

text \<open>Which of the four allocations of an open succeed.\<close>

record open_env =
  new_filter_ok :: bool
  open_query_ok :: bool
  new_update_ok :: bool
  open_update_ok :: bool

text \<open>The result of an open: undefined behaviour (\<open>None\<close>), or the store and the session if it succeeded.\<close>

definition open_conntrack_session :: "open_env \<Rightarrow> ct_store \<Rightarrow> (ct_store \<times> ConntrackSession option) option" where
  "open_conntrack_session env st =
     (if \<not> new_filter_ok env then Some (st, None)
      else let (fl, st1) = alloc (Object nfct_new) st in
      if \<not> open_query_ok env then map_option (\<lambda>s. (s, None)) (release fl st1)
      else let (qh, st2) = alloc (Handle None) st1 in
      if \<not> new_update_ok env then
        map_option (\<lambda>s. (s, None)) (Option.bind (release fl st2) (release qh))
      else let (up, st3) = alloc (Object nfct_new) st2 in
      if \<not> open_update_ok env then
        map_option (\<lambda>s. (s, None)) (Option.bind (release fl st3) (\<lambda>s. Option.bind (release qh s) (release up)))
      else
        let (uh, st4) = alloc (Handle None) st3; (cb, st5) = alloc (CallbackData fl up uh) st4;
            st6 = st5\<lparr> cells := hm_put qh (Handle (Some cb)) (cells st5) \<rparr>
        in Some (st6, Some \<lparr> filter_ct = fl, update_ct = up, query_handle = qh, update_handle = uh, cb_data = cb \<rparr>))"

definition drop_session :: "ConntrackSession \<Rightarrow> ct_store \<Rightarrow> ct_store option" where
  "drop_session s st = do {
     st1 \<leftarrow> release (filter_ct s) st;
     st2 \<leftarrow> release (update_ct s) st1;
     st3 \<leftarrow> release (query_handle s) st2;
     st4 \<leftarrow> release (update_handle s) st3;
     release (cb_data s) st4 }"

section \<open>Marking\<close>

record ct_five_tuple =
  st_proto :: u8
  st_src_addr :: string
  st_dst_addr :: string
  st_src_port :: u16
  st_dst_port :: u16

definition INADDR_NONE :: u32 where "INADDR_NONE = 0xFFFFFFFF"

definition inet_addr :: "string \<Rightarrow> u32" where
  "inet_addr s = (case parse_ipv4 s of Some a \<Rightarrow> ntohl a | None \<Rightarrow> INADDR_NONE)"

definition to_be16 :: "u16 \<Rightarrow> u16" where
  "to_be16 p = push_bit 8 p OR drop_bit 8 p"

definition set_filter :: "ct_five_tuple \<Rightarrow> u32 \<Rightarrow> nf_conntrack \<Rightarrow> nf_conntrack option" where
  "set_filter tuple m ct = do {
     ct \<leftarrow> nfct_set_attr_u32 ct ATTR_MARK m;
     ct \<leftarrow> nfct_set_attr_u8 ct ATTR_ORIG_L3PROTO AF_INET;
     ct \<leftarrow> (if st_proto tuple > 0 then nfct_set_attr_u8 ct ATTR_ORIG_L4PROTO (st_proto tuple) else Some ct);
     ct \<leftarrow> (if st_src_addr tuple \<noteq> [] then nfct_set_attr_u32 ct ATTR_ORIG_IPV4_SRC (inet_addr (st_src_addr tuple)) else Some ct);
     ct \<leftarrow> (if st_dst_addr tuple \<noteq> [] then nfct_set_attr_u32 ct ATTR_ORIG_IPV4_DST (inet_addr (st_dst_addr tuple)) else Some ct);
     ct \<leftarrow> (if st_src_port tuple > 0 then nfct_set_attr_u16 ct ATTR_ORIG_PORT_SRC (to_be16 (st_src_port tuple)) else Some ct);
     (if st_dst_port tuple > 0 then nfct_set_attr_u16 ct ATTR_ORIG_PORT_DST (to_be16 (st_dst_port tuple)) else Some ct) }"

text \<open>The callback for one entry: the new store and the update request that is sent, if any.\<close>

definition update_net_session ::
  "nf_conntrack option \<Rightarrow> nat option \<Rightarrow> ct_store \<Rightarrow> (ct_store \<times> nf_conntrack option) option" where
  "update_net_session entry data st =
     (case (entry, data) of
        (Some ct, Some cb) \<Rightarrow>
          (case hm_get (cells st) cb of
             Some (CallbackData fl up uh) \<Rightarrow> do {
               filter \<leftarrow> object_at st fl;
               if \<not> nfct_cmp filter ct NFCT_CMP_ORIG then Some (st, None)
               else do {
                 m \<leftarrow> nfct_get_attr_u32 filter ATTR_MARK;
                 if m > 100 then Some (st, None)
                 else do {
                   st1 \<leftarrow> on_object up (\<lambda>u. nfct_copy u ct NFCT_CP_ORIG) st;
                   st2 \<leftarrow> on_object up (\<lambda>u. nfct_set_attr_u32 u ATTR_MARK m) st1;
                   u \<leftarrow> object_at st2 up;
                   if nfct_cmp u ct (NFCT_CMP_ALL OR NFCT_CMP_MASK) then Some (st2, None)
                   else Some (st2, Some u) } } }
           | _ \<Rightarrow> None)
      | _ \<Rightarrow> Some (st, None))"

fun dump_entries ::
  "nat option \<Rightarrow> nf_conntrack option list \<Rightarrow> ct_store \<Rightarrow> (ct_store \<times> nf_conntrack list) option" where
  "dump_entries data [] st = Some (st, [])"
| "dump_entries data (e # es) st = do {
     (st1, sent) \<leftarrow> update_net_session e data st;
     (st2, rest) \<leftarrow> dump_entries data es st1;
     Some (st2, (case sent of None \<Rightarrow> rest | Some u \<Rightarrow> u # rest)) }"

text \<open>The session after the call, the update requests in order and whether the call succeeded.\<close>

definition set_accept_mark ::
  "ConntrackSession \<Rightarrow> ct_five_tuple \<Rightarrow> u32 \<Rightarrow> nf_conntrack option list \<Rightarrow> i32 \<Rightarrow> ct_store
     \<Rightarrow> (ct_store \<times> nf_conntrack list \<times> bool) option" where
  "set_accept_mark s tuple m entries ret st = do {
     st1 \<leftarrow> on_object (filter_ct s) (set_filter tuple m) st;
     (case hm_get (cells st1) (query_handle s) of
        Some (Handle data) \<Rightarrow> do {
          (st2, sent) \<leftarrow> dump_entries data entries st1;
          Some (st2, sent, ret = 0) }
      | _ \<Rightarrow> None) }"

section \<open>Setting and reading single attributes\<close>

lemma table_regions:
  "writes ATTR_MARK = [(M_mark, 0, 4)]" "writes ATTR_ORIG_L3PROTO = [(M_tuple DIR_ORIG T_l3protonum, 0, 1)]"
  "get_attr_array ! ATTR_MARK = At (M_mark, 0, 4)"
  "get_attr_array ! ATTR_ORIG_IPV4_SRC = At (M_tuple DIR_ORIG T_src, 0, 4)"
  "get_attr_array ! ATTR_ORIG_IPV4_DST = At (M_tuple DIR_ORIG T_dst, 0, 4)"
  "get_attr_array ! ATTR_ORIG_PORT_SRC = At (M_tuple DIR_ORIG T_l4src, 0, 2)"
  "get_attr_array ! ATTR_ORIG_PORT_DST = At (M_tuple DIR_ORIG T_l4dst, 0, 2)"
  "get_attr_array ! ATTR_ICMP_TYPE = At (M_tuple DIR_ORIG T_l4dst, 0, 1)"
  "get_attr_array ! ATTR_ICMP_CODE = At (M_tuple DIR_ORIG T_l4dst, 1, 1)"
  "get_attr_array ! ATTR_ICMP_ID = At (M_tuple DIR_ORIG T_l4src, 0, 2)"
  "get_attr_array ! ATTR_ORIG_L3PROTO = At (M_tuple DIR_ORIG T_l3protonum, 0, 1)"
  "get_attr_array ! ATTR_ORIG_L4PROTO = At (M_tuple DIR_ORIG T_protonum, 0, 1)"
  by code_simp+

lemma set_single:
  assumes "wf_ct ct" "type < ATTR_MAX" "writes type = [(m, off, n)]" "length bs = n"
  obtains ct' where "nfct_set_attr_l ct type (Mem bs) len = Some ct'" "wf_ct ct'"
    "\<forall>a. test_bit a (head_set ct') \<longleftrightarrow> a = type \<or> test_bit a (head_set ct)" "read_region ct' (m, off, n) = bs"
    "\<forall>q. apart (m, off, n) q \<longrightarrow> read_region ct' q = read_region ct q"
proof -
  have "set_attr_array ! type = Put [(m, off, n)]"
    using settable_regions(1) [OF assms(2,3)] .
  then obtain ct' where ct': "nfct_set_attr_l ct type (Mem bs) len = Some ct'"
    using assms(2,4) by (simp add: nfct_set_attr_l_def run_setter_def load_def)
  obtain ct1 where ct1: "ct' = mark_set type ct1" "wf_ct ct1" "nf_conntrack.truncate ct1 = (nf_conntrack.truncate ct)\<lparr> mem := mem ct1 \<rparr>"
    "\<forall>q. list_all (\<lambda>r. apart r q) (writes type) \<longrightarrow> read_region ct1 q = read_region ct q" "read_region ct1 (m, off, n) = take n bs"
    by (rule set_attr_effect [OF assms(1-3) ct'])
  show ?thesis
  proof (rule that [OF ct'])
    show "wf_ct ct'"
      unfolding ct1(1) by (rule wf_mark_set [OF ct1(2)])
    show "\<forall>a. test_bit a (head_set ct') \<longleftrightarrow> a = type \<or> test_bit a (head_set ct)"
      unfolding ct1(1) test_mark_set [OF ct1(2) assms(2)] by (simp only: truncate_eqD(1) [OF ct1(3)] simp_thms)
    show "read_region ct' (m, off, n) = bs"
      using ct1(1,5) assms(4) by simp
    show "\<forall>q. apart (m, off, n) q \<longrightarrow> read_region ct' q = read_region ct q"
      using ct1(1,4) assms(3) by (simp del: split_paired_All apart.simps)
  qed
qed

definition mark_of :: "nf_conntrack \<Rightarrow> u32" where
  "mark_of ct = (if test_bit ATTR_MARK (head_set ct) then word_of_nat (of_le (read_region ct (M_mark, 0, 4))) else 0)"

lemma attr_less: "ATTR_MARK < ATTR_MAX" "ATTR_ORIG_L3PROTO < ATTR_MAX" "\<not> ATTR_MAX \<le> ATTR_MARK"
  by (simp_all add: attr_numbers)

lemma get_mark: "wf_ct ct \<Longrightarrow> nfct_get_attr_u32 ct ATTR_MARK = Some (mark_of ct)"
  using wf_member [of ct M_mark] by (simp add: nfct_get_attr_u32_def nfct_get_attr_def mark_of_def table_regions run_getter_def
      load_u32_def load_def read_region_def attr_less)

section \<open>Entries and objects\<close>

text \<open>What the kernel hands out for family \<^verbatim>\<open>AF_INET\<close>: both addresses, both protocols, and the ports or
  the ICMP fields where the protocol has them.\<close>

definition ipv4_entry :: "nf_conntrack \<Rightarrow> bool" where
  "ipv4_entry ct \<longleftrightarrow> sound_ct ct
     \<and> list_all (\<lambda>a. test_bit a (head_set ct)) [ATTR_ORIG_L3PROTO, ATTR_ORIG_L4PROTO, ATTR_ORIG_IPV4_SRC, ATTR_ORIG_IPV4_DST]
     \<and> list_all (\<lambda>a. \<not> test_bit a (head_set ct)) [ATTR_ORIG_IPV6_SRC, ATTR_ORIG_IPV6_DST]
     \<and> read_region ct (M_tuple DIR_ORIG T_l3protonum, 0, 1) = [AF_INET]
     \<and> (has_ports (protonum DIR_ORIG ct) \<longrightarrow> list_all (\<lambda>a. test_bit a (head_set ct)) [ATTR_ORIG_PORT_SRC, ATTR_ORIG_PORT_DST])
     \<and> (is_icmp (protonum DIR_ORIG ct) \<longrightarrow>
          list_all (\<lambda>a. test_bit a (head_set ct)) [ATTR_ICMP_ID, ATTR_ICMP_CODE, ATTR_ICMP_TYPE])"

text \<open>The filter only ever holds the mark and the family, the update object what is copied for an IPv4
  entry and the mark.\<close>

definition filter_ok :: "nf_conntrack \<Rightarrow> bool" where
  "filter_ok ct \<longleftrightarrow> wf_ct ct \<and> (\<forall>a<ATTR_MAX. test_bit a (head_set ct) \<longrightarrow> a = ATTR_MARK \<or> a = ATTR_ORIG_L3PROTO)"

definition filter_set :: "u32 \<Rightarrow> nf_conntrack \<Rightarrow> bool" where
  "filter_set m ct \<longleftrightarrow> filter_ok ct \<and> mark_of ct = m \<and> read_region ct (M_tuple DIR_ORIG T_l3protonum, 0, 1) = [AF_INET]"

definition update_ok :: "nf_conntrack \<Rightarrow> bool" where
  "update_ok ct \<longleftrightarrow> wf_ct ct \<and> (\<forall>a<ATTR_MAX. test_bit a (head_set ct) \<longrightarrow>
     (a = ATTR_MARK \<or> a \<in> set cp_orig_mask) \<and> a \<noteq> ATTR_ORIG_IPV6_SRC \<and> a \<noteq> ATTR_ORIG_IPV6_DST)"

text \<open>A request that carries the tuple of an entry and the mark.\<close>

definition request_for :: "u32 \<Rightarrow> nf_conntrack \<Rightarrow> nf_conntrack \<Rightarrow> bool" where
  "request_for m ct u \<longleftrightarrow> nfct_get_attr_u32 u ATTR_MARK = Some m
     \<and> list_all (\<lambda>a. test_bit a (head_set ct) \<longrightarrow> nfct_get_attr u a = nfct_get_attr ct a) cp_orig_mask"

definition empty_tuple :: ct_five_tuple where
  "empty_tuple = \<lparr> st_proto = 0, st_src_addr = [], st_dst_addr = [], st_src_port = 0, st_dst_port = 0 \<rparr>"

lemma set_filter_effect:
  assumes "filter_ok ct"
  shows "\<exists>ct'. set_filter empty_tuple m ct = Some ct' \<and> filter_set m ct'"
proof -
  have wf: "wf_ct ct"
    using assms by (simp add: filter_ok_def)
  obtain ct1 where ct1: "nfct_set_attr_l ct ATTR_MARK (Mem (to_le 4 (unat m))) 4 = Some ct1" "wf_ct ct1"
    "\<forall>a. test_bit a (head_set ct1) \<longleftrightarrow> a = ATTR_MARK \<or> test_bit a (head_set ct)" "read_region ct1 (M_mark, 0, 4) = to_le 4 (unat m)"
    using set_single [OF wf _ table_regions(1), where bs = "to_le 4 (unat m)" and len = 4] attr_less by (metis length_to_le)
  obtain ct2 where ct2: "nfct_set_attr_l ct1 ATTR_ORIG_L3PROTO (Mem [AF_INET]) 1 = Some ct2" "wf_ct ct2"
    "\<forall>a. test_bit a (head_set ct2) \<longleftrightarrow> a = ATTR_ORIG_L3PROTO \<or> test_bit a (head_set ct1)"
    "read_region ct2 (M_tuple DIR_ORIG T_l3protonum, 0, 1) = [AF_INET]"
    "\<forall>q. apart (M_tuple DIR_ORIG T_l3protonum, 0, 1) q \<longrightarrow> read_region ct2 q = read_region ct1 q"
    using set_single [OF ct1(2) _ table_regions(2), where bs = "[AF_INET]" and len = 1] attr_less by (metis length_Cons list.size(3) One_nat_def)
  have "read_region ct2 (M_mark, 0, 4) = to_le 4 (unat m)"
    using ct2(5) ct1(4) by simp
  moreover have "(word_of_nat (of_le (to_le 4 (unat m))) :: u32) = m"
    using unat_bound [of m] by (simp add: of_to_le)
  ultimately have "mark_of ct2 = m"
    using ct1(3) ct2(3) by (simp add: mark_of_def)
  then have "filter_set m ct2"
    using assms ct1(3) ct2(2-4) by (auto simp: filter_set_def filter_ok_def)
  then show ?thesis
    using ct1(1) ct2(1) by (simp add: set_filter_def empty_tuple_def nfct_set_attr_u32_def nfct_set_attr_u8_def)
qed

lemma filter_matches:
  assumes "filter_set m fl" "ipv4_entry ct"
  shows "nfct_cmp fl ct NFCT_CMP_ORIG"
proof -
  have out: "\<not> test_bit a (head_set fl)" if "a < ATTR_MAX" "a \<noteq> ATTR_MARK" "a \<noteq> ATTR_ORIG_L3PROTO" for a
    using that assms(1) by (auto simp: filter_set_def filter_ok_def)
  have "cmp_attr ATTR_ORIG_L3PROTO fl ct NFCT_CMP_ORIG cmp_orig_l3proto True"
    using assms by (simp add: cmp_attr_def cmp_flags cmp_orig_l3proto_def same_def filter_set_def ipv4_entry_def whole_member_def)
  then have "cmp_orig fl ct NFCT_CMP_ORIG"
    using out by (simp add: cmp_orig_def cmp_attr_def cmp_flags attr_numbers)
  then show ?thesis
    by (simp add: nfct_cmp_def cmp_flags)
qed

lemma orig_mask_attrs: "list_all (\<lambda>a. a < ATTR_MAX \<and> a \<noteq> ATTR_MARK) cp_orig_mask"
  by code_simp

lemma asked_orig: "asked NFCT_CP_ORIG = cp_orig_mask" "NFCT_CP_ORIG AND NFCT_CP_OVERRIDE = 0"
  by (simp_all add: asked_def NFCT_CP_ALL_def NFCT_CP_ORIG_def NFCT_CP_REPL_def NFCT_CP_META_def NFCT_CP_OVERRIDE_def)

lemma orig_regions_apart:
  "list_all (\<lambda>a. case get_attr_array ! a of At r \<Rightarrow> apart (M_mark, 0, 4) r | _ \<Rightarrow> False) cp_orig_mask"
  by code_simp

text \<open>The update object after the copy and the mark.\<close>

lemma updated_object:
  assumes "update_ok u" "ipv4_entry ct"
  obtains u1 u2 where "nfct_copy u ct NFCT_CP_ORIG = Some u1" "nfct_set_attr_u32 u1 ATTR_MARK m = Some u2" "update_ok u2"
    "mark_of u2 = m" "\<forall>a\<in>set cp_orig_mask. test_bit a (head_set ct) \<longrightarrow> test_bit a (head_set u2) \<and> agree u2 ct a"
    "test_bit ATTR_MARK (head_set u2)"
proof -
  have wf: "wf_ct u" and sound: "sound_ct ct"
    using assms by (simp_all add: update_ok_def ipv4_entry_def)
  obtain u1 where u1: "copy_attrs cp_orig_mask u ct = Some u1" "wf_ct u1"
    "\<forall>a. test_bit a (head_set u1) \<longleftrightarrow> test_bit a (head_set u) \<or> a \<in> set cp_orig_mask \<and> test_bit a (head_set ct)"
    "\<forall>a. agree u ct a \<or> a \<in> set cp_orig_mask \<and> test_bit a (head_set ct) \<longrightarrow> agree u1 ct a"
    using copy_attrs_effect [OF wf sound, of cp_orig_mask] orig_mask_attrs by (auto simp: list_all_iff)
  obtain u2 where u2: "nfct_set_attr_l u1 ATTR_MARK (Mem (to_le 4 (unat m))) 4 = Some u2" "wf_ct u2"
    "\<forall>a. test_bit a (head_set u2) \<longleftrightarrow> a = ATTR_MARK \<or> test_bit a (head_set u1)" "read_region u2 (M_mark, 0, 4) = to_le 4 (unat m)"
    "\<forall>q. apart (M_mark, 0, 4) q \<longrightarrow> read_region u2 q = read_region u1 q"
    using set_single [OF u1(2) attr_less(1) table_regions(1), where bs = "to_le 4 (unat m)" and len = 4] by (metis length_to_le)
  have "(word_of_nat (of_le (to_le 4 (unat m))) :: u32) = m"
    using unat_bound [of m] by (simp add: of_to_le)
  then have mark: "mark_of u2 = m"
    using u2(3,4) by (simp add: mark_of_def)
  have "agree u2 ct a" if "a \<in> set cp_orig_mask" "test_bit a (head_set ct)" for a
  proof -
    have "agree u1 ct a"
      using u1(4) that by blast
    moreover have "case get_attr_array ! a of At r \<Rightarrow> apart (M_mark, 0, 4) r | _ \<Rightarrow> False"
      using orig_regions_apart that(1) unfolding list_all_iff by blast
    then obtain r where "get_attr_array ! a = At r" "apart (M_mark, 0, 4) r"
      by (cases "get_attr_array ! a") (simp_all del: apart.simps)
    ultimately show ?thesis
      using u2(5) by (simp add: agree_def run_getter_def del: apart.simps split_paired_All)
  qed
  moreover have "update_ok u2"
    using assms u1(3) u2(2,3) by (auto simp: update_ok_def ipv4_entry_def attr_numbers)
  ultimately show ?thesis
    using that [of u1 u2] u1(1,3) u2(1,3) mark nfct_copy_asked [OF asked_orig(2)] by (simp add: asked_orig(1) nfct_set_attr_u32_def)
qed

lemma agree_region: "agree d s a \<Longrightarrow> get_attr_array ! a = At r \<Longrightarrow> read_region d r = read_region s r"
  by (simp add: agree_def run_getter_def)

lemma update_matches_iff:
  assumes "update_ok u" "ipv4_entry ct" "test_bit ATTR_MARK (head_set u)"
    "\<forall>a\<in>set cp_orig_mask. test_bit a (head_set ct) \<longrightarrow> test_bit a (head_set u) \<and> agree u ct a"
  shows "nfct_cmp u ct (NFCT_CMP_ALL OR NFCT_CMP_MASK) \<longleftrightarrow> mark_of u = mark_of ct"
proof -
  let ?f = "NFCT_CMP_ALL OR NFCT_CMP_MASK"
  have wf: "wf_ct u" "wf_ct ct"
    using assms(1,2) by (simp_all add: update_ok_def ipv4_entry_def sound_ct_def)
  have out: "cmp_attr a u ct ?f cmp strict" if "a < ATTR_MAX" "a \<noteq> ATTR_MARK" "a \<notin> set cp_orig_mask" for a cmp strict
    using that assms(1) by (auto simp: cmp_attr_def update_ok_def cmp_flags)
  have out6: "cmp_attr a u ct ?f cmp strict" if "a = ATTR_ORIG_IPV6_SRC \<or> a = ATTR_ORIG_IPV6_DST" for a cmp strict
  proof -
    have "a < ATTR_MAX"
      using that by (auto simp: attr_numbers)
    then show ?thesis
      using that assms(1) by (auto simp: cmp_attr_def update_ok_def cmp_flags)
  qed
  have both: "cmp_attr a u ct ?f (same r) strict"
    if "a \<in> set cp_orig_mask" "test_bit a (head_set ct)" "get_attr_array ! a = At r" for a r strict
    using that assms(4) agree_region [of u ct a r] by (simp add: cmp_attr_def same_def)
  have mask: "a \<in> set cp_orig_mask" if "a \<in> {ATTR_ORIG_L3PROTO, ATTR_ORIG_L4PROTO, ATTR_ORIG_IPV4_SRC, ATTR_ORIG_IPV4_DST,
      ATTR_ORIG_PORT_SRC, ATTR_ORIG_PORT_DST, ATTR_ICMP_ID, ATTR_ICMP_CODE, ATTR_ICMP_TYPE}" for a
    using that by (auto simp: cp_orig_mask_def)
  note entry = assms(2) [unfolded ipv4_entry_def list.pred_inject]
  have proto: "protonum DIR_ORIG u = protonum DIR_ORIG ct"
    using assms(4) mask entry agree_region [of u ct ATTR_ORIG_L4PROTO, OF _ table_regions(12)]
    by (simp add: protonum_def whole_member_def)
  have l4: "cmp_orig_l4proto u ct ?f"
    using entry mask proto both [of ATTR_ORIG_PORT_SRC] both [of ATTR_ORIG_PORT_DST] both [of ATTR_ICMP_ID]
      both [of ATTR_ICMP_CODE] both [of ATTR_ICMP_TYPE]
    by (simp add: cmp_orig_l4proto_def cmp_icmp_def table_regions cmp_icmp_id_def cmp_icmp_code_def cmp_icmp_type_def
        cmp_orig_port_src_def cmp_orig_port_dst_def whole_member_def)
  then have l4': "cmp_attr ATTR_ORIG_L4PROTO u ct ?f cmp_orig_l4proto True"
    using entry assms(4) mask by (simp add: cmp_attr_def)
  have "cmp_orig u ct ?f"
    using entry mask l4' out6 both [of ATTR_ORIG_L3PROTO] both [of ATTR_ORIG_IPV4_SRC] both [of ATTR_ORIG_IPV4_DST]
      out [of ATTR_ORIG_ZONE]
    by (simp add: cmp_orig_def table_regions cmp_orig_l3proto_def cmp_orig_ipv4_src_def cmp_orig_ipv4_dst_def whole_member_def)
      (simp add: cp_orig_mask_def attr_numbers)
  moreover have "cmp_repl u ct ?f"
    using out by (simp add: cmp_repl_def) (simp add: cp_orig_mask_def attr_numbers)
  moreover have "cmp_meta u ct ?f \<longleftrightarrow> mark_of u = mark_of ct"
  proof -
    have "cmp_attr ATTR_MARK u ct ?f cmp_mark False \<longleftrightarrow> mark_of u = mark_of ct"
      using assms(3) get_mark [OF wf(1)] get_mark [OF wf(2)] by (simp add: cmp_attr_def cmp_mark_def cmp_flags)
    then show ?thesis
      using out by (simp add: cmp_meta_def) (simp add: cp_orig_mask_def attr_numbers)
  qed
  ultimately show ?thesis
    by (simp add: nfct_cmp_def cmp_flags)
qed

section \<open>The session invariant\<close>

definition store_ok :: "ct_store \<Rightarrow> bool" where
  "store_ok st \<longleftrightarrow> (\<forall>p. hm_has (cells st) p \<longrightarrow> p < fresh st)"

definition session_holds :: "(nf_conntrack \<Rightarrow> bool) \<Rightarrow> ConntrackSession \<Rightarrow> ct_store \<Rightarrow> bool" where
  "session_holds P s st \<longleftrightarrow>
     distinct [filter_ct s, update_ct s, query_handle s, update_handle s, cb_data s]
     \<and> (\<exists>fl. hm_get (cells st) (filter_ct s) = Some (Object fl) \<and> P fl)
     \<and> (\<exists>u. hm_get (cells st) (update_ct s) = Some (Object u) \<and> update_ok u)
     \<and> hm_get (cells st) (query_handle s) = Some (Handle (Some (cb_data s)))
     \<and> hm_get (cells st) (update_handle s) = Some (Handle None)
     \<and> hm_get (cells st) (cb_data s) = Some (CallbackData (filter_ct s) (update_ct s) (update_handle s))"

abbreviation session_ok :: "ConntrackSession \<Rightarrow> ct_store \<Rightarrow> bool" where
  "session_ok \<equiv> session_holds filter_ok"

text \<open>Nothing but the two objects of the session changes.\<close>

definition others_kept :: "ConntrackSession \<Rightarrow> ct_store \<Rightarrow> ct_store \<Rightarrow> bool" where
  "others_kept s st st' \<longleftrightarrow>
     (\<forall>p. p \<noteq> filter_ct s \<and> p \<noteq> update_ct s \<longrightarrow> hm_get (cells st') p = hm_get (cells st) p)"

lemma on_object_eq:
  assumes "hm_get (cells st) p = Some (Object ct)" "f ct = Some ct'"
  shows "on_object p f st = Some (st\<lparr> cells := hm_put p (Object ct') (cells st) \<rparr>)"
  using assms by (simp add: on_object_def object_at_def)

lemma update_net_session_effect:
  assumes "session_holds (filter_set m) s st" "ipv4_entry ct" "m \<le> 100"
  shows "\<exists>st' sent. update_net_session (Some ct) (Some (cb_data s)) st = Some (st', sent)
    \<and> session_holds (filter_set m) s st' \<and> others_kept s st st'
    \<and> (if mark_of ct = m then sent = None else \<exists>u. sent = Some u \<and> request_for m ct u)"
proof -
  obtain fl u where cells: "distinct [filter_ct s, update_ct s, query_handle s, update_handle s, cb_data s]"
    "hm_get (cells st) (filter_ct s) = Some (Object fl)" "filter_set m fl"
    "hm_get (cells st) (update_ct s) = Some (Object u)" "update_ok u"
    "hm_get (cells st) (query_handle s) = Some (Handle (Some (cb_data s)))"
    "hm_get (cells st) (update_handle s) = Some (Handle None)"
    "hm_get (cells st) (cb_data s) = Some (CallbackData (filter_ct s) (update_ct s) (update_handle s))"
    using assms(1) unfolding session_holds_def by blast
  obtain u1 u2 where u: "nfct_copy u ct NFCT_CP_ORIG = Some u1" "nfct_set_attr_u32 u1 ATTR_MARK m = Some u2" "update_ok u2"
    "mark_of u2 = m" "\<forall>a\<in>set cp_orig_mask. test_bit a (head_set ct) \<longrightarrow> test_bit a (head_set u2) \<and> agree u2 ct a"
    "test_bit ATTR_MARK (head_set u2)"
    by (rule updated_object [OF cells(5) assms(2)])
  let ?st1 = "st\<lparr> cells := hm_put (update_ct s) (Object u1) (cells st) \<rparr>"
  let ?st2 = "?st1\<lparr> cells := hm_put (update_ct s) (Object u2) (cells ?st1) \<rparr>"
  have st1: "on_object (update_ct s) (\<lambda>u. nfct_copy u ct NFCT_CP_ORIG) st = Some ?st1"
    by (rule on_object_eq, rule cells(4), rule u(1))
  have st2: "on_object (update_ct s) (\<lambda>u. nfct_set_attr_u32 u ATTR_MARK m) ?st1 = Some ?st2"
    by (rule on_object_eq [of _ _ u1]) (simp_all add: update_conv u(2))
  have mark: "nfct_get_attr_u32 fl ATTR_MARK = Some m"
    using cells(3) get_mark by (auto simp: filter_set_def filter_ok_def)
  have cmp: "nfct_cmp u2 ct (NFCT_CMP_ALL OR NFCT_CMP_MASK) \<longleftrightarrow> mark_of ct = m"
    using update_matches_iff [OF u(3) assms(2) u(6,5)] u(4) by auto
  have run: "update_net_session (Some ct) (Some (cb_data s)) st = Some (?st2, if mark_of ct = m then None else Some u2)"
    using cells(2,8) filter_matches [OF cells(3) assms(2)] mark assms(3) st1 st2 cmp
    by (simp add: update_net_session_def object_at_def update_conv not_less)
  have "session_holds (filter_set m) s ?st2"
    using cells u(3) by (auto simp: session_holds_def update_conv)
  moreover have "others_kept s st ?st2"
    by (simp add: others_kept_def update_conv)
  moreover have "request_for m ct u2"
  proof -
    have "wf_ct u2"
      using u(3) by (simp add: update_ok_def)
    then show ?thesis
      using get_mark u(4,5) by (auto simp: request_for_def list_all_iff nfct_get_attr_def agree_def)
  qed
  ultimately show ?thesis
    using run by auto
qed

lemma others_kept_trans: "others_kept s st st1 \<Longrightarrow> others_kept s st1 st2 \<Longrightarrow> others_kept s st st2"
  by (simp add: others_kept_def)

lemma dump_entries_effect:
  assumes "session_holds (filter_set m) s st" "list_all ipv4_entry entries" "m \<le> 100"
  shows "\<exists>st' sent. dump_entries (Some (cb_data s)) (map Some entries) st = Some (st', sent)
    \<and> session_holds (filter_set m) s st' \<and> others_kept s st st'
    \<and> list_all2 (request_for m) (filter (\<lambda>ct. mark_of ct \<noteq> m) entries) sent"
  using assms(1,2)
proof (induction entries arbitrary: st)
  case Nil
  then show ?case
    by (simp add: others_kept_def)
next
  case (Cons ct entries)
  have entry: "ipv4_entry ct" and entries: "list_all ipv4_entry entries"
    using Cons.prems(2) by simp_all
  obtain st1 sent where one: "update_net_session (Some ct) (Some (cb_data s)) st = Some (st1, sent)"
    "session_holds (filter_set m) s st1" "others_kept s st st1"
    "if mark_of ct = m then sent = None else \<exists>u. sent = Some u \<and> request_for m ct u"
    using update_net_session_effect [OF Cons.prems(1) entry assms(3)] by blast
  obtain st2 rest where two: "dump_entries (Some (cb_data s)) (map Some entries) st1 = Some (st2, rest)"
    "session_holds (filter_set m) s st2" "others_kept s st1 st2"
    "list_all2 (request_for m) (filter (\<lambda>ct. mark_of ct \<noteq> m) entries) rest"
    using Cons.IH [OF one(2) entries] by blast
  have "others_kept s st st2"
    by (rule others_kept_trans [OF one(3) two(3)])
  then show ?case
    using one two by (auto split: if_splits)
qed

section \<open>Opening and dropping\<close>

lemma released:
  assumes "hm_has (cells st) p"
  obtains st' where "release p st = Some st'" "\<forall>q. hm_get (cells st') q = (if q = p then None else hm_get (cells st) q)"
  using assms by (simp add: release_def delete_conv)

lemma session_addresses:
  assumes "session_ok s st"
  shows "hm_has (cells st) (filter_ct s)" "hm_has (cells st) (update_ct s)" "hm_has (cells st) (query_handle s)"
    "hm_has (cells st) (update_handle s)" "hm_has (cells st) (cb_data s)"
  using assms by (auto simp: session_holds_def hm_has_def)

lemma drop_session_effect:
  assumes "session_ok s st"
  shows "\<exists>st'. drop_session s st = Some st'
    \<and> (\<forall>p. hm_get (cells st') p =
          (if p \<in> {filter_ct s, update_ct s, query_handle s, update_handle s, cb_data s} then None else hm_get (cells st) p))"
proof -
  have d: "distinct [filter_ct s, update_ct s, query_handle s, update_handle s, cb_data s]"
    using assms by (simp add: session_holds_def)
  obtain st1 where st1: "release (filter_ct s) st = Some st1"
    "\<forall>q. hm_get (cells st1) q = (if q = filter_ct s then None else hm_get (cells st) q)"
    by (rule released [OF session_addresses(1) [OF assms]])
  have "hm_has (cells st1) (update_ct s)"
    using session_addresses(2) [OF assms] d by (auto simp: hm_has_def st1(2))
  then obtain st2 where st2: "release (update_ct s) st1 = Some st2"
    "\<forall>q. hm_get (cells st2) q = (if q = update_ct s then None else hm_get (cells st1) q)"
    by (rule released)
  have "hm_has (cells st2) (query_handle s)"
    using session_addresses(3) [OF assms] d by (auto simp: hm_has_def st1(2) st2(2))
  then obtain st3 where st3: "release (query_handle s) st2 = Some st3"
    "\<forall>q. hm_get (cells st3) q = (if q = query_handle s then None else hm_get (cells st2) q)"
    by (rule released)
  have "hm_has (cells st3) (update_handle s)"
    using session_addresses(4) [OF assms] d by (auto simp: hm_has_def st1(2) st2(2) st3(2))
  then obtain st4 where st4: "release (update_handle s) st3 = Some st4"
    "\<forall>q. hm_get (cells st4) q = (if q = update_handle s then None else hm_get (cells st3) q)"
    by (rule released)
  have "hm_has (cells st4) (cb_data s)"
    using session_addresses(5) [OF assms] d by (auto simp: hm_has_def st1(2) st2(2) st3(2) st4(2))
  then obtain st5 where st5: "release (cb_data s) st4 = Some st5"
    "\<forall>q. hm_get (cells st5) q = (if q = cb_data s then None else hm_get (cells st4) q)"
    by (rule released)
  have "drop_session s st = Some st5"
    by (simp add: drop_session_def st1(1) st2(1) st3(1) st4(1) st5(1))
  then show ?thesis
    by (simp add: st1(2) st2(2) st3(2) st4(2) st5(2))
qed

lemma new_objects_ok: "filter_ok nfct_new" "update_ok nfct_new"
proof -
  have "\<not> test_bit a (head_set nfct_new)" if "a < ATTR_MAX" for a
  proof -
    have "a div 32 < 3"
      using that by (simp add: ATTR_MAX_def)
    then have "a div 32 = 0 \<or> a div 32 = 1 \<or> a div 32 = 2"
      by linarith
    then show ?thesis
      by (auto simp: test_bit_def nfct_new_def)
  qed
  then show "filter_ok nfct_new" "update_ok nfct_new"
    using wf_nfct_new by (auto simp: filter_ok_def update_ok_def)
qed

text \<open>The session and the store of an open in which nothing fails.\<close>

definition opened_session :: "ct_store \<Rightarrow> ConntrackSession" where
  "opened_session st = \<lparr> filter_ct = fresh st, update_ct = fresh st + 2, query_handle = fresh st + 1, update_handle = fresh st + 3,
     cb_data = fresh st + 4 \<rparr>"

lemma open_session_succeeds:
  assumes "new_filter_ok env" "open_query_ok env" "new_update_ok env" "open_update_ok env"
  shows "\<exists>st'. open_conntrack_session env st = Some (st', Some (opened_session st)) \<and> session_ok (opened_session st) st'
    \<and> (\<forall>p. p < fresh st \<or> fresh st + 4 < p \<longrightarrow> hm_get (cells st') p = hm_get (cells st) p)"
  using assms new_objects_ok
  by (auto simp: open_conntrack_session_def alloc_def opened_session_def session_holds_def update_conv)

section \<open>Properties\<close>

text \<open>Opening a session either gives a complete session, whose callback data points to its live objects
  and handle and which dropping frees completely, or, whichever of the four allocations fails, frees
  everything it allocated; nothing is freed twice and what the store held before is unchanged.\<close>

theorem open_session_is_all_or_nothing:
  assumes "store_ok st"
  shows "\<exists>st' r. open_conntrack_session env st = Some (st', r)
    \<and> (case r of
         None \<Rightarrow> \<forall>p. hm_get (cells st') p = hm_get (cells st) p
       | Some s \<Rightarrow> session_ok s st' \<and> (\<exists>st''. drop_session s st' = Some st'' \<and> (\<forall>p. hm_get (cells st'') p = hm_get (cells st) p)))"
proof -
  have free: "hm_get (cells st) (fresh st + k) = None" for k
  proof (rule ccontr)
    assume "hm_get (cells st) (fresh st + k) \<noteq> None"
    then have "fresh st + k < fresh st"
      using assms unfolding store_ok_def hm_has_def by blast
    then show False
      by simp
  qed
  have free': "hm_get (cells st) (fresh st) = None" "hm_get (cells st) (Suc (fresh st)) = None"
    "hm_get (cells st) (Suc (Suc (fresh st))) = None"
    "hm_get (cells st) (Suc (Suc (Suc (fresh st)))) = None" "hm_get (cells st) (Suc (Suc (Suc (Suc (fresh st))))) = None"
    using free [of 0] free [of 1] free [of 2] free [of 3] free [of 4] by (simp_all add: eval_nat_numeral)
  show ?thesis
  proof (cases "new_filter_ok env \<and> open_query_ok env \<and> new_update_ok env \<and> open_update_ok env")
    case False
    then show ?thesis
      using free' by (auto simp: open_conntrack_session_def alloc_def release_def update_conv delete_conv hm_has_def)
  next
    case True
    then obtain st' where st': "open_conntrack_session env st = Some (st', Some (opened_session st))" "session_ok (opened_session st) st'"
      "\<forall>p. p < fresh st \<or> fresh st + 4 < p \<longrightarrow> hm_get (cells st') p = hm_get (cells st) p"
      using open_session_succeeds by blast
    obtain st'' where st'': "drop_session (opened_session st) st' = Some st''"
      "\<forall>p. hm_get (cells st'') p =
        (if p \<in> {fresh st, fresh st + 2, fresh st + 1, fresh st + 3, fresh st + 4} then None else hm_get (cells st') p)"
      using drop_session_effect [OF st'(2)] by (auto simp: opened_session_def)
    have "hm_get (cells st'') p = hm_get (cells st) p" for p
    proof (cases "p < fresh st \<or> fresh st + 4 < p")
      case True
      then show ?thesis
        using st''(2) st'(3) by auto
    next
      case False
      then have "p \<in> {fresh st, fresh st + 2, fresh st + 1, fresh st + 3, fresh st + 4}"
        by (simp, presburger)
      then show ?thesis
        using st''(2) free [of 0] free [of 1] free [of 2] free [of 3] free [of 4] by (auto simp del: One_nat_def)
    qed
    then show ?thesis
      using st'(1,2) st''(1) by auto
  qed
qed

text \<open>C39: Setting a mark of at most 100 for the empty tuple over a dump of IPv4 entries sends one request for
  each entry that has another mark, in the order of the dump and with the tuple of the entry and the new mark,
  and none for an entry that has the mark already; the session stays intact and the call fails exactly when the
  query does.\<close>

theorem accept_mark_updates_exactly_other_marks:
  assumes "session_ok s st" "list_all ipv4_entry entries" "m \<le> 100"
  shows "\<exists>st' sent. set_accept_mark s empty_tuple m (map Some entries) ret st = Some (st', sent, ret = 0)
    \<and> session_ok s st' \<and> others_kept s st st'
    \<and> list_all2 (request_for m) (filter (\<lambda>ct. mark_of ct \<noteq> m) entries) sent"
proof -
  obtain fl where fl: "hm_get (cells st) (filter_ct s) = Some (Object fl)" "filter_ok fl"
    using assms(1) unfolding session_holds_def by blast
  obtain fl' where fl': "set_filter empty_tuple m fl = Some fl'" "filter_set m fl'"
    using set_filter_effect [OF fl(2)] by blast
  let ?st1 = "st\<lparr> cells := hm_put (filter_ct s) (Object fl') (cells st) \<rparr>"
  have st1: "on_object (filter_ct s) (set_filter empty_tuple m) st = Some ?st1"
    by (rule on_object_eq, rule fl(1), rule fl'(1))
  have holds: "session_holds (filter_set m) s ?st1"
    using assms(1) fl'(2) by (auto simp: session_holds_def update_conv)
  obtain st' sent where run: "dump_entries (Some (cb_data s)) (map Some entries) ?st1 = Some (st', sent)"
    "session_holds (filter_set m) s st'" "others_kept s ?st1 st'"
    "list_all2 (request_for m) (filter (\<lambda>ct. mark_of ct \<noteq> m) entries) sent"
    using dump_entries_effect [OF holds assms(2,3)] by blast
  have "session_ok s st'"
    using run(2) unfolding session_holds_def filter_set_def by blast
  moreover have "others_kept s st st'"
    using run(3) by (simp add: others_kept_def update_conv)
  moreover have "hm_get (cells ?st1) (query_handle s) = Some (Handle (Some (cb_data s)))"
    using holds by (simp add: session_holds_def)
  ultimately show ?thesis
    using st1 run(1,4) by (simp add: set_accept_mark_def)
qed

text \<open>A mark above 100 is never written: whatever the entries of the dump are, no request is sent.\<close>

theorem large_mark_is_never_sent:
  assumes "session_ok s st" "100 < m"
  shows "\<exists>st'. set_accept_mark s empty_tuple m entries ret st = Some (st', [], ret = 0)"
proof -
  obtain fl where fl: "hm_get (cells st) (filter_ct s) = Some (Object fl)" "filter_ok fl"
    using assms(1) unfolding session_holds_def by blast
  obtain fl' where fl': "set_filter empty_tuple m fl = Some fl'" "filter_set m fl'"
    using set_filter_effect [OF fl(2)] by blast
  let ?st1 = "st\<lparr> cells := hm_put (filter_ct s) (Object fl') (cells st) \<rparr>"
  have st1: "on_object (filter_ct s) (set_filter empty_tuple m) st = Some ?st1"
    by (rule on_object_eq, rule fl(1), rule fl'(1))
  have holds: "session_holds (filter_set m) s ?st1"
    using assms(1) fl'(2) by (auto simp: session_holds_def update_conv)
  have mark: "nfct_get_attr_u32 fl' ATTR_MARK = Some m"
    using fl'(2) get_mark by (auto simp: filter_set_def filter_ok_def)
  have at: "object_at ?st1 (filter_ct s) = Some fl'"
    by (simp add: object_at_def update_conv)
  have data: "hm_get (cells ?st1) (cb_data s) = Some (CallbackData (filter_ct s) (update_ct s) (update_handle s))"
    using holds unfolding session_holds_def by blast
  have one: "update_net_session e (Some (cb_data s)) ?st1 = Some (?st1, None)" for e
    by (cases e) (simp_all only: update_net_session_def at data mark assms(2) prod.case option.case cell.case bind.bind_lunit if_True if_cancel)
  have "dump_entries (Some (cb_data s)) entries ?st1 = Some (?st1, [])"
    using one by (induction entries) simp_all
  moreover have "hm_get (cells ?st1) (query_handle s) = Some (Handle (Some (cb_data s)))"
    using holds by (simp add: session_holds_def)
  ultimately show ?thesis
    using st1 by (simp add: set_accept_mark_def)
qed

section \<open>Examples\<close>

definition empty_store :: ct_store where "empty_store = \<lparr> cells = [], fresh = 0 \<rparr>"

text \<open>A store with one open session, and a TCP entry with the mark 7.\<close>

definition one_session :: "ct_store" where
  "one_session = \<lparr> cells = [(0, Object nfct_new), (1, Handle (Some 4)), (2, Object nfct_new), (3, Handle None),
     (4, CallbackData 0 2 3)], fresh = 5 \<rparr>"

definition tcp_entry :: nf_conntrack where
  "tcp_entry = nfct_new\<lparr> mem := (mem nfct_new)(M_tuple DIR_ORIG T_l3protonum := [2], M_tuple DIR_ORIG T_protonum := [6],
     M_mark := [7, 0, 0, 0]), head_set := [0x2028303, 0, 0] \<rparr>"

lemma one_session_ok: "session_ok (opened_session empty_store) one_session"
  using new_objects_ok by (simp add: session_holds_def opened_session_def empty_store_def one_session_def)

lemma tcp_entry_ok: "ipv4_entry tcp_entry"
proof -
  have "wf_ct tcp_entry"
    using wf_nfct_new by (auto simp: tcp_entry_def wf_ct_def)
  moreover have "list_all (\<lambda>a. test_bit a (head_set tcp_entry)) [ATTR_ORIG_L3PROTO, ATTR_ORIG_L4PROTO, ATTR_ORIG_IPV4_SRC,
      ATTR_ORIG_IPV4_DST, ATTR_ORIG_PORT_SRC, ATTR_ORIG_PORT_DST]"
    "list_all (\<lambda>a. \<not> test_bit a (head_set tcp_entry)) [ATTR_ORIG_IPV6_SRC, ATTR_ORIG_IPV6_DST, 65, ATTR_CONNLABELS,
      ATTR_CONNLABELS_MASK]"
    by code_simp+
  moreover have "protonum DIR_ORIG tcp_entry = 6"
    by (simp add: protonum_def read_region_def whole_member_def tcp_entry_def)
  moreover have "helper_info tcp_entry = None" "read_region tcp_entry (M_tuple DIR_ORIG T_l3protonum, 0, 1) = [AF_INET]"
    by (simp_all add: tcp_entry_def nfct_new_def read_region_def AF_INET_def)
  ultimately show ?thesis
    by (simp add: ipv4_entry_def sound_ct_def is_icmp_def)
qed

lemma tcp_entry_mark: "mark_of tcp_entry \<noteq> 0"
  by code_simp

theorem open_session_is_all_or_nothing_witness:
  "\<exists>st'. open_conntrack_session \<lparr> new_filter_ok = True, open_query_ok = True, new_update_ok = True, open_update_ok = False \<rparr>
     empty_store = Some (st', None) \<and> (\<forall>p. hm_get (cells st') p = None)"
proof -
  let ?env = "\<lparr> new_filter_ok = True, open_query_ok = True, new_update_ok = True, open_update_ok = False \<rparr>"
  have "store_ok empty_store"
    by (simp add: store_ok_def empty_store_def hm_has_def)
  then obtain st' r where r: "open_conntrack_session ?env empty_store = Some (st', r)"
    "r = None \<longrightarrow> (\<forall>p. hm_get (cells st') p = hm_get (cells empty_store) p)"
    using open_session_is_all_or_nothing [of empty_store ?env] by (auto split: option.splits)
  moreover have "r = None"
    using r(1) by (auto simp: open_conntrack_session_def alloc_def)
  ultimately show ?thesis
    by (simp add: empty_store_def)
qed

theorem accept_mark_updates_exactly_other_marks_witness:
  "\<exists>st' u. set_accept_mark (opened_session empty_store) empty_tuple 0 [Some tcp_entry] 0 one_session = Some (st', [u], True)
     \<and> request_for 0 tcp_entry u"
  using accept_mark_updates_exactly_other_marks [OF one_session_ok, of "[tcp_entry]" 0 0] tcp_entry_ok tcp_entry_mark
  by (auto simp: list_all2_Cons1)

theorem large_mark_is_never_sent_witness:
  "\<exists>st'. set_accept_mark (opened_session empty_store) empty_tuple 200 [Some tcp_entry] 0 one_session = Some (st', [], True)"
  using large_mark_is_never_sent [OF one_session_ok, of 200 "[Some tcp_entry]" 0] by simp

end
