(* ===== verification/Spec2Isabelle.thy ===== *)
theory Spec2Isabelle
  imports Packet_Path Control_Safety Daemon_Run Event_Stream Mnl_Build Mnl_Run Ct_Session
begin

text \<open>
  A verification development of the net-policy daemon, a user-space network policy agent. The
  daemon receives the packets of pods through NFQUEUE, decides them against network rules and HTTP
  rules, and is configured by calls over a control channel.

  \<^bold>\<open>The program and its parts.\<close> One thread waits on an epoll descriptor. A packet event drains a batch from
  the queue of a pod (crates/net_nfq) and hands every message to \<^verbatim>\<open>input_nfq_cb\<close> or \<^verbatim>\<open>output_nfq_cb\<close>
  (net-policy.cpp). A callback parses and tracks the packet with the flow engine
  (crates/net_flow_engine), looks up the network rules (crates/net_policy_engine) through the
  microsegmentation engine (net-policy.h, rule-detail.cpp), feeds the data of bound flows to an HTTP
  connection (directory http, crates/http1_codec) kept by the connection manager
  (net/connection_manager.h), and ends with a verdict. Control calls come from server threads through a
  dispatch queue (grpc/control_dispatch) and run on the same thread: policy updates and node updates that
  travel as JSON text (cjson.c), pods going up and down (net namespaces, queues, iptables rules), and
  dumps of the state. Matches are published to a bounded event stream (crates/net_policy_events). The
  repository also holds the C libraries libmnl and libnetfilter_conntrack, of which
  crates/net_conntrack is a client.

  \<^bold>\<open>Theories and the code they model.\<close>
  \<^item> \<open>NP_Prelude\<close>, \<open>NP_Text\<close>, \<open>Transition\<close>: types, hash maps as association lists with the laws of the
    locale \<open>keyed_table\<close>, decimal numbers, IPv4 addresses, UTF-8; step relations with invariants (locale
    \<open>transition_system\<close>).
  \<^item> \<open>Flow_Engine\<close>: net_flow_engine/src/lib.rs (\<^verbatim>\<open>parse_five_tuple\<close>, \<^verbatim>\<open>on_packet\<close>, the sweep); its state is
    the table of flows. Locale \<open>flow_tracker\<close>.
  \<^item> \<open>Policy_Engine\<close>: net_policy_engine/src/lib.rs (\<^verbatim>\<open>add_policy\<close>, \<^verbatim>\<open>delete_policy\<close>, \<^verbatim>\<open>clear_cfg\<close>,
    \<^verbatim>\<open>match_five_tuple\<close>). Locale \<open>policy_store\<close>.
  \<^item> \<open>Http1_Codec\<close>, \<open>Http_Conn\<close>: http1_codec, http/connection.cc, http_inspector.cc, filter.cc and the two
    codecs. Data a connection keeps is a list of views into an explicit memory.
  \<^item> \<open>Conn_Manager\<close>: net/connection_manager.h. Locale \<open>flow_registry\<close>.
  \<^item> \<open>Micro_Seg\<close>, \<open>Packet_Rewrite\<close>, \<open>Nfq_Queue\<close>, \<open>Nfq_Callbacks\<close>, \<open>Packet_Path\<close>: matching, HTTP rules, pod
    resources, checksum and blanking, batches and verdicts (a verdict may fail to be sent), both
    callbacks with every branch, and their properties.
  \<^item> \<open>Json_Number\<close>, \<open>Cjson\<close>, \<open>Cjson_Roundtrip\<close>: doubles, \<^verbatim>\<open>strtod\<close> and \<^verbatim>\<open>%g\<close> as far as the library uses them,
    and cjson.c.
  \<^item> \<open>Control_Policy\<close>, \<open>Control_Rpc\<close>, \<open>Control_Safety\<close>: \<^verbatim>\<open>ParseNetPolicy\<close> and the \<^verbatim>\<open>GrpcDispatch\<close> calls on policies
    and nodes. Outcomes are \<open>Done\<close>, \<open>Threw\<close> (an exception) and \<open>Undefined\<close>. Locale \<open>update_relation\<close>.
  \<^item> \<open>Dispatch_Queue\<close>, \<open>Event_Stream\<close>: the two queues between threads, with all interleavings of their steps.
  \<^item> \<open>Iptables\<close>, \<open>Pod_Lifecycle\<close>, \<open>Admin_Calls\<close>: net_iptables, netns.rs and the pod calls, and the calls that
    inspect the daemon.
  \<^item> \<open>Daemon_Loop\<close>, \<open>Daemon_Run\<close>: the event handlers, the closures of all calls, the loop over one wait, the
    start, and runs of waits between submitted calls and delivered packets.
  \<^item> \<open>Mnl_Message\<close>, \<open>Mnl_Attr\<close>, \<open>Mnl_Build\<close>, \<open>Mnl_Run\<close>: libmnl/mnlmsg.c, attr.c and callback.c on buffers of
    bytes at machine width.
  \<^item> \<open>Ct_Object\<close>, \<open>Ct_Compare\<close>, \<open>Ct_Laws\<close>, \<open>Ct_Session\<close>: conntrack objects (object.h, setter.c, getter.c, copy.c,
    compare.c, api.c) and the session of net_conntrack/src/session.rs.

  \<^bold>\<open>How the code is represented.\<close> A struct or class is a record, an operation a function from state to state.
  A result \<open>None\<close> is undefined behaviour or a call that does not return. Words keep their width. A
  hash map order is an argument of the functions that walk a map (\<open>visits_all\<close> says that every entry is
  visited once). System calls, the kernel, the iptables program and the libraries httparse, llhttp and
  nghttp2 are fields of environment records; \<open>http_env_ok\<close>, \<open>env_ok\<close>, \<open>fresh_env\<close> and \<open>httparse_ok\<close> state
  what the code relies on, with instances in the witnesses. Allocation does not fail unless a field says
  so.

  \<^bold>\<open>What is shown.\<close>
  \<^item> Packets: the parsers stay inside the packet; a callback gives exactly one verdict; a drop is due to a
    deny rule; a covering deny rule drops the packets that are matched against network rules; a batch
    is answered completely up to verdicts the kernel does not take; a denied request is blanked with a
    valid checksum below 2048 bytes.
  \<^item> Rules: the engine refines a map; the lookup finds an applicable rule of the smallest number, and
    misses rules written for a packet exactly when they have a /0 prefix or, for ICMP, name another
    protocol.
  \<^item> Flows and HTTP: flows start with a SYN, the sweep is exact, the registry of bound flows refines a map
    over every operation, the parser ends and does not depend on the cut of accepted input.
  \<^item> Control: the JSON detour of a policy call changes nothing within the stated bounds, a document touches
    only its policy, a failed update removes it, printed items parse back, dumps show exactly the stored
    rules and pods.
  \<^item> Daemon: calls run once, in order, and none is lost; pods up and down leave nothing behind; registered
    callbacks are live; the start is clean; a safe wait has no undefined behaviour. Two theorems show
    that the conditions of a safe wait are needed: a pod taken down in the same wait, and data kept by a
    connection beyond its batch, are read after they have been freed.
  \<^item> Netlink and conntrack: built messages parse back, parsing stays inside, a run ends unless a length
    field is huge; marks are updated exactly where they differ.

  \<^bold>\<open>Loops, fuel and bounds.\<close> Recursions are structural or have a termination proof. The HTTP/1 dispatch loop and
  the run of netlink callbacks may not end and are partial functions into option; that they return is a
  theorem. The loops of the JSON parser carry a length test for termination, and the equations without
  it are lemmas. No definition uses fuel. A batch has at most 64 messages, JSON nesting is at most 1000,
  the notification buffer has 1024 bytes (hence names of at most 800 characters), the checksum buffer
  2048, and numbers that travel as JSON are exact below \<open>10 ^ 15\<close>.

  \<^bold>\<open>What is not modelled.\<close> Sockets and threads of the gRPC servers and their generated bindings, log output,
  libnfnetlink, libnetfilter_queue, the parts of libnetfilter_conntrack that translate and print
  messages, the Seastar buffer classes, URLs, \<^verbatim>\<open>Connection::processData\<close> (which has no caller), the bytes
  a failed print leaves in a caller's buffer, and failing allocation.
\<close>

end
